(* ===== verification/Simple_Prelude.thy ===== *)
theory Simple_Prelude
  imports Main "HOL-Library.Word" "HOL-Library.Signed_Division"
begin

text \<open>
  Shared ground of the development: the values a C operation can end in, bounds-checked
  memory access, C arithmetic, the C string functions the sources call, and the lemmas the
  components share.

  A C operation that has undefined behaviour, or that would block the only thread of a
  sequential model, is the left value of a sum: the \<open>fault\<close> says which. Every other
  outcome, the error codes of the library included, is a right value.
\<close>

section \<open>Outcomes\<close>

datatype fault =
    Mem_Bounds      \<comment> \<open>a read or write outside the allocated block\<close>
  | Div_Zero        \<comment> \<open>integer division or remainder by zero\<close>
  | Null_Ptr        \<comment> \<open>a null pointer is dereferenced\<close>
  | Uninit_Read     \<comment> \<open>memory is read that was never written\<close>
  | Int_Overflow    \<comment> \<open>signed arithmetic leaves the range of int\<close>
  | Would_Block     \<comment> \<open>the calling thread blocks\<close>
  | Bad_Unlock      \<comment> \<open>a lock is released that the thread does not hold\<close>
  | Bad_Free        \<comment> \<open>a resource is released twice\<close>
  | Dangling        \<comment> \<open>memory is used after it was freed\<close>
  | Bad_Destroy     \<comment> \<open>a lock or a semaphore is destroyed while a thread holds it or waits for it\<close>
  | Stuck           \<comment> \<open>the modelled run ends before the code returns\<close>
  | Assert_Fail     \<comment> \<open>an assertion of the code does not hold\<close>
  | Cv_Error        \<comment> \<open>OpenCV throws, because it refuses the arguments of a call\<close>

type_synonym 'a result = "fault + 'a"
type_synonym byte = "8 word"

named_theorems result_simps \<open>evaluation of the result combinators\<close>

definition bind_r :: "'a result \<Rightarrow> ('a \<Rightarrow> 'b result) \<Rightarrow> 'b result" where
  "bind_r m f = (case m of Inl e \<Rightarrow> Inl e | Inr x \<Rightarrow> f x)"

definition check_r :: "bool \<Rightarrow> fault \<Rightarrow> unit result" where
  "check_r b e = (if b then Inr () else Inl e)"

lemma bind_r_simps [simp, result_simps]:
  "bind_r (Inl e) f = Inl e"
  "bind_r (Inr x) f = f x"
  by (simp_all add: bind_r_def)

lemma check_r_simps [simp, result_simps]:
  "check_r True e = Inr ()"
  "check_r False e = Inl e"
  by (simp_all add: check_r_def)

text \<open>A congruence that evaluates the first operation before it looks at what follows.\<close>

lemma bind_r_weak: "m = m' \<Longrightarrow> bind_r m f = bind_r m' f"
  by simp

lemma bind_r_Inr_conv:
  "bind_r m f = Inr y \<longleftrightarrow> (\<exists>x. m = Inr x \<and> f x = Inr y)"
  by (cases m) auto

lemma bind_r_InrE [elim!]:
  assumes "bind_r m f = Inr y"
  obtains x where "m = Inr x" and "f x = Inr y"
  using assms by (auto simp: bind_r_Inr_conv)

lemma check_r_Inr_conv [simp]: "check_r b e = Inr u \<longleftrightarrow> b"
  by (simp add: check_r_def)

section \<open>C integers\<close>

text \<open>The range of a 32-bit signed int, arithmetic that must stay in it, and the remainder that
  truncates towards zero.\<close>

definition int_ok :: "int \<Rightarrow> bool" where
  "int_ok x \<longleftrightarrow> - (2 ^ 31) \<le> x \<and> x < 2 ^ 31"

definition c_int :: "int \<Rightarrow> int result" where
  "c_int x = (if int_ok x then Inr x else Inl Int_Overflow)"

lemma c_int_range [simp]: "- 2147483648 \<le> x \<Longrightarrow> x < 2147483648 \<Longrightarrow> c_int x = Inr x"
  by (simp add: c_int_def int_ok_def)

text \<open>A sum of parts none of which is negative leaves the range exactly when its total does.\<close>

lemma c_int_grow:
  assumes "0 \<le> x" and "0 \<le> a" and "\<And>y. 0 \<le> y \<Longrightarrow> int_ok y \<Longrightarrow> f y = c_int (y + a)"
  shows "bind_r (c_int x) f = c_int (x + a)"
  using assms by (auto simp: c_int_def int_ok_def)

definition c_mod :: "int \<Rightarrow> int \<Rightarrow> int result" where
  "c_mod a b = (if b = 0 then Inl Div_Zero else Inr (a smod b))"

lemma sdiv_nonneg: "0 \<le> a \<Longrightarrow> 0 < b \<Longrightarrow> a sdiv b = a div (b :: int)"
  by (simp add: signed_divide_int_def sgn_if)

lemma smod_nonneg: "0 \<le> a \<Longrightarrow> 0 < b \<Longrightarrow> a smod b = a mod (b :: int)"
  by (simp add: signed_modulo_int_def signed_divide_int_def sgn_if minus_mult_div_eq_mod algebra_simps)

lemma c_mod_pos [simp]: "0 \<le> a \<Longrightarrow> 0 < b \<Longrightarrow> c_mod a b = Inr (a mod b)"
  by (simp add: c_mod_def smod_nonneg)

text \<open>One wrap of an index, without the remainder operation.\<close>

lemma mod_wrap: "0 \<le> x \<Longrightarrow> x < 2 * n \<Longrightarrow> x mod n = (if x < n then x else x - n)" for n :: int
  using mod_pos_pos_trivial[of "x - n" n] by auto

lemma mod_wrap_nat: "x < 2 * n \<Longrightarrow> x mod n = (if x < n then x else x - n)" for n :: nat
  by (metis add_less_imp_less_right le_add_diff_inverse2 le_mod_geq mod_less mult_2 not_less)

lemma mod_wrap_inj: "t < n \<Longrightarrow> i < n \<Longrightarrow> j < n \<Longrightarrow> (t + i) mod n = (t + j) mod n \<Longrightarrow> i = j" for n :: nat
  by (simp add: mod_wrap_nat split: if_splits)

section \<open>Memory blocks\<close>

text \<open>A block is a list; an access names its offset and its length as C ints, so a negative
  length, which memcpy would take as a huge size_t, is out of bounds.\<close>

definition mem_read :: "'a list \<Rightarrow> int \<Rightarrow> int \<Rightarrow> 'a list result" where
  "mem_read b off n =
     (if 0 \<le> off \<and> 0 \<le> n \<and> off + n \<le> int (length b)
      then Inr (take (nat n) (drop (nat off) b)) else Inl Mem_Bounds)"

definition mem_write :: "'a list \<Rightarrow> int \<Rightarrow> 'a list \<Rightarrow> 'a list result" where
  "mem_write b off d =
     (if 0 \<le> off \<and> off + int (length d) \<le> int (length b)
      then Inr (take (nat off) b @ d @ drop (nat off + length d) b) else Inl Mem_Bounds)"

lemma mem_read_ok:
  "0 \<le> off \<Longrightarrow> 0 \<le> n \<Longrightarrow> off + n \<le> int (length b) \<Longrightarrow>
   mem_read b off n = Inr (take (nat n) (drop (nat off) b))"
  by (simp add: mem_read_def)

lemma mem_write_ok:
  "0 \<le> off \<Longrightarrow> off + int (length d) \<le> int (length b) \<Longrightarrow>
   mem_write b off d = Inr (take (nat off) b @ d @ drop (nat off + length d) b)"
  by (simp add: mem_write_def)

lemma mem_read_neg: "n < 0 \<Longrightarrow> mem_read b off n = Inl Mem_Bounds"
  by (simp add: mem_read_def)

end
