(* ===== verification/Memory.thy ===== *)
theory Memory
  imports Simple_Prelude "HOL-Library.Multiset"
begin

text \<open>
  The heap the library allocates its objects on: which blocks are allocated, \<open>malloc\<close> and \<open>free\<close>, and
  the ownership of blocks. The locale \<open>allocator\<close> states what the components rely on. \<open>malloc\<close> does not fail.
\<close>

section \<open>The heap\<close>

record memory =
  blocks :: "nat set"
  fresh :: nat

definition malloc :: "memory \<Rightarrow> nat \<times> memory" where
  "malloc mem = (fresh mem, mem\<lparr>blocks := insert (fresh mem) (blocks mem), fresh := fresh mem + 1\<rparr>)"

definition free_block :: "nat \<Rightarrow> memory \<Rightarrow> memory result" where
  "free_block b mem = (if b \<in> blocks mem then Inr (mem\<lparr>blocks := blocks mem - {b}\<rparr>) else Inl Bad_Free)"

definition safefree :: "nat option \<Rightarrow> memory \<Rightarrow> memory result" where
  "safefree x mem = (case x of None \<Rightarrow> Inr mem | Some b \<Rightarrow> free_block b mem)"

text \<open>\<open>safefree\<close> followed by \<open>strdup\<close>; also \<open>realloc\<close>, which may move the block.\<close>

definition new_block :: "nat option \<Rightarrow> memory \<Rightarrow> (nat \<times> memory) result" where
  "new_block x mem = bind_r (safefree x mem) (\<lambda>mem. Inr (malloc mem))"

text \<open>The objects an operation is about to look at are still allocated.\<close>

definition live :: "nat list \<Rightarrow> memory \<Rightarrow> unit result" where
  "live bs mem = check_r (list_all (\<lambda>b. b \<in> blocks mem) bs) Dangling"

section \<open>Ownership\<close>

text \<open>The heap has the blocks \<open>base\<close> of others and those of \<open>M\<close>, each once.\<close>

definition heap_has :: "nat set \<Rightarrow> nat multiset \<Rightarrow> memory \<Rightarrow> bool" where
  "heap_has base M mem \<longleftrightarrow> (\<forall>b. count M b \<le> 1) \<and> set_mset M \<inter> base = {} \<and> blocks mem = base \<union> set_mset M \<and>
     (\<forall>b\<in>blocks mem. b < fresh mem)"

definition opt_ms :: "nat option \<Rightarrow> nat multiset" where
  "opt_ms x = (case x of None \<Rightarrow> {#} | Some b \<Rightarrow> {#b#})"

lemma opt_ms_simps [simp]: "opt_ms None = {#}" "opt_ms (Some b) = {#b#}"
  by (simp_all add: opt_ms_def)

lemma heap_has_none: "heap_has base {#} mem \<Longrightarrow> blocks mem = base"
  by (simp add: heap_has_def)

lemma malloc_has: "heap_has base M mem \<Longrightarrow> heap_has base (add_mset (fst (malloc mem)) M) (snd (malloc mem))"
proof -
  assume h: "heap_has base M mem"
  then have "fresh mem \<notin> blocks mem" by (auto simp: heap_has_def)
  with h have new: "fresh mem \<notin># M" "fresh mem \<notin> base" by (auto simp: heap_has_def)
  then have "count M (fresh mem) = 0" by (simp add: count_eq_zero_iff)
  with h new show ?thesis by (auto simp: heap_has_def malloc_def intro: less_SucI)
qed

lemma free_block_has:
  assumes "heap_has base (add_mset b M) mem"
  shows "\<exists>mem'. free_block b mem = Inr mem' \<and> heap_has base M mem'"
proof -
  have "count M b = 0" using assms by (auto simp: heap_has_def dest: spec[of _ b])
  then have "b \<notin># M" by (simp add: count_eq_zero_iff)
  moreover have "count M c \<le> 1" for c
    using assms \<open>count M b = 0\<close> by (cases "c = b") (auto simp: heap_has_def dest: spec[of _ c])
  ultimately show ?thesis using assms by (auto simp: heap_has_def free_block_def)
qed

lemma live_has: "heap_has base M mem \<Longrightarrow> set bs \<subseteq> set_mset M \<Longrightarrow> live bs mem = Inr ()"
  by (auto simp: heap_has_def live_def list_all_iff)

section \<open>Allocators\<close>

text \<open>Allocating \<open>n\<close> blocks, and releasing the blocks of a list in its order.\<close>

fun alloc_all :: "('m \<Rightarrow> 'b \<times> 'm) \<Rightarrow> nat \<Rightarrow> 'm \<Rightarrow> 'b list \<times> 'm" where
  "alloc_all alloc 0 m = ([], m)"
| "alloc_all alloc (Suc n) m = (let (b, m) = alloc m; (bs, m) = alloc_all alloc n m in (b # bs, m))"

fun release_all :: "('b \<Rightarrow> 'm \<Rightarrow> 'm result) \<Rightarrow> 'b list \<Rightarrow> 'm \<Rightarrow> 'm result" where
  "release_all release [] m = Inr m"
| "release_all release (b # bs) m = bind_r (release b m) (release_all release bs)"

lemma release_all_append:
  "release_all release (xs @ ys) m = bind_r (release_all release xs m) (release_all release ys)"
proof (induction xs arbitrary: m)
  case (Cons x xs)
  then show ?case by (cases "release x m") simp_all
qed simp

locale allocator =
  fixes alloc :: "'m \<Rightarrow> 'b \<times> 'm"
    and release :: "'b \<Rightarrow> 'm \<Rightarrow> 'm result"
    and has :: "'b multiset \<Rightarrow> 'm \<Rightarrow> bool"
  assumes alloc_has: "has M m \<Longrightarrow> has (add_mset (fst (alloc m)) M) (snd (alloc m))"
    and release_has: "has (add_mset b M) m \<Longrightarrow> \<exists>m'. release b m = Inr m' \<and> has M m'"
begin

lemma alloc_hasE:
  assumes "has M m"
  obtains b m' where "alloc m = (b, m')" and "has (add_mset b M) m'"
  using alloc_has[OF assms] by (metis prod.collapse)

lemma alloc_all_has:
  "has M m \<Longrightarrow> alloc_all alloc n m = (bs, m') \<Longrightarrow> has (mset bs + M) m' \<and> length bs = n"
proof (induction n arbitrary: M m bs m')
  case (Suc n)
  obtain b m1 where 1: "alloc m = (b, m1)" "has (add_mset b M) m1" using alloc_hasE[OF Suc.prems(1)] .
  obtain cs m2 where 2: "alloc_all alloc n m1 = (cs, m2)" by (cases "alloc_all alloc n m1")
  from Suc.IH[OF 1(2) 2] Suc.prems(2) 1(1) 2 show ?case by auto
qed simp

lemma release_all_has:
  "has (mset bs + M) m \<Longrightarrow> \<exists>m'. release_all release bs m = Inr m' \<and> has M m'"
proof (induction bs arbitrary: m)
  case (Cons b bs)
  from Cons.prems have "has (add_mset b (mset bs + M)) m" by simp
  then obtain m1 where "release b m = Inr m1" "has (mset bs + M) m1" using release_has by blast
  with Cons.IH show ?case by simp
qed simp

text \<open>What was allocated together can be released in any order, and nothing else is touched.\<close>

lemma alloc_release:
  assumes "has M m" and "alloc_all alloc n m = (bs, m')" and "mset cs = mset bs"
  shows "\<exists>m''. release_all release cs m' = Inr m'' \<and> has M m''"
  using release_all_has[of cs M m'] alloc_all_has[OF assms(1,2)] assms(3) by simp

end

interpretation blk: allocator malloc free_block "heap_has base" for base
  by unfold_locales (rule malloc_has free_block_has; assumption)+

lemma safefree_has:
  assumes "heap_has base (opt_ms x + M) mem"
  shows "\<exists>mem'. safefree x mem = Inr mem' \<and> heap_has base M mem'"
  using assms free_block_has by (cases x) (auto simp: safefree_def)

lemma new_block_has:
  assumes "heap_has base (opt_ms x + M) mem"
  shows "\<exists>b mem'. new_block x mem = Inr (b, mem') \<and> heap_has base (add_mset b M) mem'"
proof -
  obtain mem1 where "safefree x mem = Inr mem1" "heap_has base M mem1" using safefree_has[OF assms] by blast
  with malloc_has[of base M mem1] show ?thesis by (cases "malloc mem1") (simp add: new_block_def)
qed

end
