(* ===== verification/Sync.thy ===== *)
theory Sync
  imports Memory
begin

text \<open>
  The locks and semaphores of \<open>src/src/mutex.c\<close> and \<open>src/src/semaphore.c\<close>, seen by one
  calling thread. A call that would block is \<open>Inl Would_Block\<close>; the interleavings of
  several threads are the step relations of the theories that use these operations.
\<close>

section \<open>Mutexes\<close>

text \<open>
  The POSIX build asks for \<open>PTHREAD_MUTEX_RECURSIVE\<close>, and a Windows critical section is
  recursive too: the holder may lock again, and the lock is free after as many unlocks.
\<close>

type_synonym thread_id = nat

record mutex_t =
  owner :: "thread_id option"
  depth :: nat

definition simple_mutex_create :: mutex_t where
  "simple_mutex_create = \<lparr>owner = None, depth = 0\<rparr>"

definition simple_mutex_lock :: "thread_id \<Rightarrow> mutex_t \<Rightarrow> mutex_t result" where
  "simple_mutex_lock t m =
     (case owner m of
        None \<Rightarrow> Inr (m\<lparr>owner := Some t, depth := 1\<rparr>)
      | Some u \<Rightarrow> if u = t then Inr (m\<lparr>depth := Suc (depth m)\<rparr>) else Inl Would_Block)"

definition simple_mutex_unlock :: "thread_id \<Rightarrow> mutex_t \<Rightarrow> mutex_t result" where
  "simple_mutex_unlock t m =
     (if owner m = Some t
      then (if depth m \<le> 1 then Inr (m\<lparr>owner := None, depth := 0\<rparr>)
            else Inr (m\<lparr>depth := depth m - 1\<rparr>))
      else Inl Bad_Unlock)"

text \<open>The object is one block; to destroy a mutex that somebody holds is undefined.\<close>

definition simple_mutex_destroy :: "mutex_t \<Rightarrow> nat \<Rightarrow> memory \<Rightarrow> memory result" where
  "simple_mutex_destroy m b mem = bind_r (check_r (owner m = None) Bad_Destroy) (\<lambda>_. free_block b mem)"

definition mutex_ok :: "mutex_t \<Rightarrow> bool" where
  "mutex_ok m \<longleftrightarrow> (owner m = None \<longleftrightarrow> depth m = 0)"

text \<open>A thread can take the lock when it is free or its own already.\<close>

definition lockable :: "thread_id \<Rightarrow> mutex_t \<Rightarrow> bool" where
  "lockable t m \<longleftrightarrow> owner m = None \<or> owner m = Some t"

lemma mutex_create_ok [simp]: "mutex_ok simple_mutex_create" "lockable t simple_mutex_create"
  by (simp_all add: mutex_ok_def lockable_def simple_mutex_create_def)

lemma lock_lockable:
  "lockable t m \<Longrightarrow> \<exists>m'. simple_mutex_lock t m = Inr m' \<and> owner m' = Some t \<and> 0 < depth m'"
  by (auto simp: lockable_def simple_mutex_lock_def)

text \<open>Lock and unlock by one thread restore the mutex exactly.\<close>

lemma lock_unlock:
  "simple_mutex_lock t m = Inr m' \<Longrightarrow> mutex_ok m \<Longrightarrow> simple_mutex_unlock t m' = Inr m"
  by (cases m) (auto simp: simple_mutex_lock_def simple_mutex_unlock_def mutex_ok_def
      split: option.splits if_splits)

section \<open>Semaphores\<close>

text \<open>Posting at the maximal count (\<open>SEM_VALUE_MAX\<close>, and the \<open>0x7fffffff\<close> given to
  \<open>CreateSemaphore\<close>) fails; the code does not look at the result.\<close>

definition sem_max :: nat where
  "sem_max = 2147483647"

record semaphore_t =
  sem_count :: nat

definition simple_sem_create :: "nat \<Rightarrow> semaphore_t" where
  "simple_sem_create n = \<lparr>sem_count = n\<rparr>"

definition simple_sem_post :: "semaphore_t \<Rightarrow> semaphore_t" where
  "simple_sem_post s = (if sem_count s < sem_max then s\<lparr>sem_count := Suc (sem_count s)\<rparr> else s)"

definition simple_sem_wait :: "semaphore_t \<Rightarrow> semaphore_t result" where
  "simple_sem_wait s =
     (case sem_count s of 0 \<Rightarrow> Inl Would_Block | Suc n \<Rightarrow> Inr (s\<lparr>sem_count := n\<rparr>))"

text \<open>To destroy a semaphore on which threads are blocked, \<open>waiting\<close> of them, is undefined.\<close>

definition simple_sem_destroy :: "nat \<Rightarrow> nat \<Rightarrow> memory \<Rightarrow> memory result" where
  "simple_sem_destroy waiting b mem = bind_r (check_r (waiting = 0) Bad_Destroy) (\<lambda>_. free_block b mem)"

lemma destroy_unused [simp]:
  "owner m = None \<Longrightarrow> simple_mutex_destroy m b mem = free_block b mem" "simple_sem_destroy 0 b mem = free_block b mem"
  by (simp_all add: simple_mutex_destroy_def simple_sem_destroy_def)

lemma sem_post_wait:
  "sem_count s < sem_max \<Longrightarrow> simple_sem_wait (simple_sem_post s) = Inr s"
  by (simp add: simple_sem_wait_def simple_sem_post_def)

section \<open>The timed wait of the POSIX build\<close>

text \<open>The absolute deadline: \<open>now\<close> is what \<open>clock_gettime\<close> stored. The C division and
  remainder truncate towards zero.\<close>

record timespec =
  tv_sec :: int
  tv_nsec :: int

definition sem_deadline :: "timespec \<Rightarrow> int \<Rightarrow> timespec" where
  "sem_deadline now timeout_ms =
     (let s = tv_sec now + timeout_ms sdiv 1000;
          ns = tv_nsec now + (timeout_ms smod 1000) * 1000000
      in if ns > 1000000000
         then \<lparr>tv_sec = s + 1, tv_nsec = ns - 1000000000\<rparr>
         else \<lparr>tv_sec = s, tv_nsec = ns\<rparr>)"

definition nanos :: "timespec \<Rightarrow> int" where
  "nanos ts = tv_sec ts * 1000000000 + tv_nsec ts"

definition timespec_valid :: "timespec \<Rightarrow> bool" where
  "timespec_valid ts \<longleftrightarrow> 0 \<le> tv_nsec ts \<and> tv_nsec ts < 1000000000"

text \<open>
  POSIX \<open>sem_timedwait\<close>: an available unit is taken at once, without a look at the deadline;
  otherwise an ill-formed deadline fails with \<open>EINVAL\<close>; otherwise the call waits. \<open>post_at\<close>
  is the time at which another thread posts a unit this call may take, if one does.
\<close>

definition sem_timedwait :: "timespec \<Rightarrow> timespec option \<Rightarrow> semaphore_t \<Rightarrow> semaphore_t \<times> int" where
  "sem_timedwait ts post_at s =
     (case sem_count s of
        Suc n \<Rightarrow> (s\<lparr>sem_count := n\<rparr>, 0)
      | 0 \<Rightarrow> if \<not> timespec_valid ts then (s, -1)
             else (case post_at of
                     None \<Rightarrow> (s, -1)
                   | Some p \<Rightarrow> if nanos p \<le> nanos ts then (s, 0) else (s, -1)))"

definition simple_sem_wait_timeout ::
    "timespec \<Rightarrow> timespec option \<Rightarrow> semaphore_t \<Rightarrow> int \<Rightarrow> semaphore_t \<times> int" where
  "simple_sem_wait_timeout now post_at s timeout_ms =
     (let (s, rc) = sem_timedwait (sem_deadline now timeout_ms) post_at s
      in if rc = -1 then (s, -1) else (s, 0))"

lemma deadline_nanos:
  assumes "0 \<le> timeout_ms"
  shows "nanos (sem_deadline now timeout_ms) = nanos now + timeout_ms * 1000000"
proof -
  have "timeout_ms div 1000 * 1000000000 + timeout_ms mod 1000 * 1000000 = timeout_ms * 1000000"
    using div_mult_mod_eq[of timeout_ms 1000] by linarith
  then show ?thesis
    using assms by (simp add: nanos_def sem_deadline_def Let_def sdiv_nonneg smod_nonneg)
qed

lemma deadline_valid:
  assumes "timespec_valid now" and "0 \<le> timeout_ms"
  shows "timespec_valid (sem_deadline now timeout_ms) \<longleftrightarrow>
    tv_nsec now + (timeout_ms mod 1000) * 1000000 \<noteq> 1000000000"
proof -
  have "0 \<le> timeout_ms mod 1000" "timeout_ms mod 1000 < 1000" by simp_all
  then show ?thesis
    using assms by (auto simp: timespec_valid_def sem_deadline_def Let_def smod_nonneg)
qed

text \<open>the timed wait waits for exactly the given number of milliseconds: when no unit is available
  and the nanosecond sum is not exactly one second, it returns 0 iff another thread posts by
  \<open>now + timeout_ms\<close>.\<close>

theorem sem_wait_timeout_correct:
  assumes "timespec_valid now" and "0 \<le> timeout_ms" and "sem_count s = 0"
    and "tv_nsec now + (timeout_ms mod 1000) * 1000000 \<noteq> 1000000000"
  shows "simple_sem_wait_timeout now post_at s timeout_ms =
    (s, if (case post_at of None \<Rightarrow> False | Some p \<Rightarrow> nanos p \<le> nanos now + timeout_ms * 1000000) then 0 else -1)"
  using assms deadline_valid[OF assms(1,2)] deadline_nanos[OF assms(2), of now]
  by (auto simp: simple_sem_wait_timeout_def sem_timedwait_def split: option.splits)

theorem sem_wait_timeout_correct_witness:
  "simple_sem_wait_timeout \<lparr>tv_sec = 5, tv_nsec = 900000000\<rparr> (Some \<lparr>tv_sec = 6, tv_nsec = 1\<rparr>)
     (simple_sem_create 0) 300 = (simple_sem_create 0, 0)"
  using sem_wait_timeout_correct[of "\<lparr>tv_sec = 5, tv_nsec = 900000000\<rparr>" 300 "simple_sem_create 0"
      "Some \<lparr>tv_sec = 6, tv_nsec = 1\<rparr>"]
  by (simp add: timespec_valid_def simple_sem_create_def nanos_def)

text \<open>the carry test is \<open>> 1000000000\<close> where a valid deadline needs \<open>>=\<close>: when the nanoseconds
  add up to exactly one second the wait fails at once, even though another thread posts before the
  deadline.\<close>

theorem sem_wait_timeout_exact_second:
  assumes "timespec_valid now" and "0 \<le> timeout_ms" and "sem_count s = 0"
    and "tv_nsec now + (timeout_ms mod 1000) * 1000000 = 1000000000"
  shows "simple_sem_wait_timeout now (Some p) s timeout_ms = (s, -1)"
  using assms deadline_valid[OF assms(1,2)]
  by (simp add: simple_sem_wait_timeout_def sem_timedwait_def)

theorem sem_wait_timeout_exact_second_witness:
  "simple_sem_wait_timeout \<lparr>tv_sec = 5, tv_nsec = 500000000\<rparr> (Some \<lparr>tv_sec = 5, tv_nsec = 500000001\<rparr>)
     (simple_sem_create 0) 500 = (simple_sem_create 0, -1)"
  using sem_wait_timeout_exact_second[of "\<lparr>tv_sec = 5, tv_nsec = 500000000\<rparr>" 500 "simple_sem_create 0"]
  by (simp add: timespec_valid_def simple_sem_create_def)

end
