(* ===== verification/Fifo.thy ===== *)
theory Fifo
  imports Simple_Prelude
begin

text \<open>
  The contract of a bounded byte queue and what a client may conclude from it. A client that
  issues any sequence of writes and reads gets back, in order, exactly what was accepted.
\<close>

datatype 'a fifo_op = Put "'a list" | Get int

text \<open>The run collects what the writes accepted and what the reads delivered.\<close>

fun fifo_run ::
    "('q \<Rightarrow> 'a list \<Rightarrow> ('q \<times> int) result) \<Rightarrow> ('q \<Rightarrow> int \<Rightarrow> ('q \<times> 'a list \<times> int) result) \<Rightarrow>
     'q \<Rightarrow> 'a fifo_op list \<Rightarrow> ('q \<times> 'a list \<times> 'a list) result" where
  "fifo_run put get q [] = Inr (q, [], [])"
| "fifo_run put get q (Put xs # ops) =
     bind_r (put q xs) (\<lambda>(q, n).
     bind_r (fifo_run put get q ops) (\<lambda>(q, acc, del). Inr (q, take (nat n) xs @ acc, del)))"
| "fifo_run put get q (Get n # ops) =
     bind_r (get q n) (\<lambda>(q, d, _).
     bind_r (fifo_run put get q ops) (\<lambda>(q, acc, del). Inr (q, acc, d @ del)))"

fun op_ok :: "'a fifo_op \<Rightarrow> bool" where
  "op_ok (Put xs) = True"
| "op_ok (Get n) = (0 \<le> n)"

locale bounded_fifo =
  fixes inv :: "'q \<Rightarrow> bool"
    and elems :: "'q \<Rightarrow> 'a list"
    and cap :: "'q \<Rightarrow> nat"
    and put :: "'q \<Rightarrow> 'a list \<Rightarrow> ('q \<times> int) result"
    and get :: "'q \<Rightarrow> int \<Rightarrow> ('q \<times> 'a list \<times> int) result"
  assumes bounded: "inv q \<Longrightarrow> length (elems q) \<le> cap q"
    and put_law: "inv q \<Longrightarrow> \<exists>q'. put q xs = Inr (q', int (min (length xs) (cap q - length (elems q)))) \<and>
        inv q' \<and> elems q' = elems q @ take (cap q - length (elems q)) xs \<and> cap q' = cap q"
    and get_law: "inv q \<Longrightarrow> 0 \<le> n \<Longrightarrow> \<exists>q'. get q n =
        Inr (q', take (nat n) (elems q), min n (int (length (elems q)))) \<and>
        inv q' \<and> elems q' = drop (nat n) (elems q) \<and> cap q' = cap q"
begin

text \<open>First in, first out, over any run: what was in the queue and what was accepted is what was
  delivered followed by what is left.\<close>

lemma run_stream:
  assumes "inv q" and "list_all op_ok ops"
  shows "\<exists>q' acc del. fifo_run put get q ops = Inr (q', acc, del) \<and> inv q' \<and> cap q' = cap q \<and>
    elems q @ acc = del @ elems q'"
  using assms
proof (induction ops arbitrary: q)
  case Nil
  then show ?case by simp
next
  case (Cons op ops)
  show ?case
  proof (cases op)
    case (Put xs)
    let ?k = "cap q - length (elems q)"
    obtain q1 where q1: "put q xs = Inr (q1, int (min (length xs) ?k))" "inv q1"
        "elems q1 = elems q @ take ?k xs" "cap q1 = cap q"
      using put_law Cons.prems by blast
    with Cons.IH[OF q1(2)] Cons.prems Put show ?thesis by (auto simp: min_def split: if_splits)
  next
    case (Get n)
    then have n: "0 \<le> n" using Cons.prems by simp
    obtain q1 where q1: "get q n = Inr (q1, take (nat n) (elems q), min n (int (length (elems q))))"
        "inv q1" "elems q1 = drop (nat n) (elems q)" "cap q1 = cap q"
      using get_law[OF Cons.prems(1) n] by blast
    from Cons.IH[OF q1(2)] Cons.prems obtain q2 acc del where
      "fifo_run put get q1 ops = Inr (q2, acc, del)" "inv q2" "cap q2 = cap q1"
      "elems q1 @ acc = del @ elems q2" by auto
    moreover have "elems q @ acc = take (nat n) (elems q) @ elems q1 @ acc"
      using q1(3) by simp
    ultimately show ?thesis
      using q1(1,4) Get by simp
  qed
qed

text \<open>A queue that fits a block whole returns it whole.\<close>

lemma put_get_same:
  assumes "inv q" and "elems q = []" and "length xs \<le> cap q"
  shows "\<exists>q1 q2. put q xs = Inr (q1, int (length xs)) \<and>
    get q1 (int (length xs)) = Inr (q2, xs, int (length xs)) \<and> inv q2 \<and> elems q2 = []"
proof -
  obtain q1 where q1: "put q xs = Inr (q1, int (length xs))" "inv q1" "elems q1 = xs"
    using put_law[OF assms(1), of xs] assms(2,3) by (auto simp: min_def)
  with get_law[OF q1(2), of "int (length xs)"] show ?thesis by auto
qed

end

end
