(* ===== verification/Circ_Buf.thy ===== *)
theory Circ_Buf
  imports Sync Fifo
begin

text \<open>
  The byte ring buffer of \<open>src/src/circ_buf.c\<close>. The buffer holds \<open>size + 1\<close> allocated
  bytes of which the indices \<open>0 .. size - 1\<close> are used, the content runs from \<open>tail\<close> to
  \<open>head\<close> modulo \<open>size\<close>, and at most \<open>size - 1\<close> bytes are stored. Read and write take the
  buffer's mutex, copy at most two contiguous pieces and give the mutex back.
\<close>

section \<open>State and index arithmetic\<close>

record circ_buf_t =
  buf :: "byte list"
  head :: int
  tail :: int
  csize :: int
  mutex :: mutex_t

text \<open>The block that \<open>malloc\<close> returns is not initialised: \<open>junk\<close> is what it holds.\<close>

definition simple_circ_buf_create :: "(nat \<Rightarrow> byte) \<Rightarrow> int \<Rightarrow> circ_buf_t" where
  "simple_circ_buf_create junk n =
     \<lparr>buf = map junk [0..<nat (n + 1)], head = 0, tail = 0, csize = n,
      mutex = simple_mutex_create\<rparr>"

definition circ_cnt :: "int \<Rightarrow> int \<Rightarrow> int \<Rightarrow> int result" where
  "circ_cnt h t n = bind_r (c_int (h + n)) (\<lambda>s. bind_r (c_int (s - t)) (\<lambda>s. c_mod s n))"

definition circ_space :: "int \<Rightarrow> int \<Rightarrow> int \<Rightarrow> int result" where
  "circ_space h t n = bind_r (c_int (h + 1)) (\<lambda>h. circ_cnt t h n)"

definition simple_circ_buf_get_data_cnt :: "circ_buf_t \<Rightarrow> int result" where
  "simple_circ_buf_get_data_cnt c = circ_cnt (head c) (tail c) (csize c)"

definition simple_circ_buf_get_space_cnt :: "circ_buf_t \<Rightarrow> int result" where
  "simple_circ_buf_get_space_cnt c = circ_space (head c) (tail c) (csize c)"

definition circ_cnt_to_end :: "int \<Rightarrow> int \<Rightarrow> int \<Rightarrow> int result" where
  "circ_cnt_to_end h t n =
     bind_r (c_int (n - t)) (\<lambda>e.
     bind_r (c_int (h + e)) (\<lambda>s.
     bind_r (c_mod s n) (\<lambda>k. Inr (if k < e then k else e))))"

definition circ_space_to_end :: "int \<Rightarrow> int \<Rightarrow> int \<Rightarrow> int result" where
  "circ_space_to_end h t n =
     bind_r (c_int (n - 1 - h)) (\<lambda>e.
     bind_r (c_int (e + t)) (\<lambda>s.
     bind_r (c_mod s n) (\<lambda>k. if k \<le> e then Inr k else c_int (e + 1))))"

section \<open>Read and write\<close>

text \<open>One piece of a read: \<open>memcpy (to, c->buf + c->tail, n); c->tail += n; c->tail %= c->size\<close>.\<close>

definition circ_take_piece :: "circ_buf_t \<Rightarrow> int \<Rightarrow> (circ_buf_t \<times> byte list) result" where
  "circ_take_piece c n =
     bind_r (mem_read (buf c) (tail c) n) (\<lambda>d.
     bind_r (c_int (tail c + n)) (\<lambda>t.
     bind_r (c_mod t (csize c)) (\<lambda>t.
     Inr (c\<lparr>tail := t\<rparr>, d))))"

text \<open>One piece of a write: \<open>memcpy (c->buf + c->head, from, n); c->head += n; c->head %= c->size\<close>.
  The source holds the bytes \<open>d\<close>; reading \<open>n\<close> of them is checked as well.\<close>

definition circ_put_piece :: "circ_buf_t \<Rightarrow> byte list \<Rightarrow> int \<Rightarrow> circ_buf_t result" where
  "circ_put_piece c d n =
     bind_r (mem_read d 0 n) (\<lambda>d.
     bind_r (mem_write (buf c) (head c) d) (\<lambda>b.
     bind_r (c_int (head c + n)) (\<lambda>h.
     bind_r (c_mod h (csize c)) (\<lambda>h.
     Inr (c\<lparr>buf := b, head := h\<rparr>)))))"

text \<open>The result is the new buffer, the bytes stored at the caller's pointer and the return value.\<close>

definition simple_circ_buf_read ::
    "thread_id \<Rightarrow> circ_buf_t \<Rightarrow> int \<Rightarrow> (circ_buf_t \<times> byte list \<times> int) result" where
  "simple_circ_buf_read t c n =
     bind_r (simple_mutex_lock t (mutex c)) (\<lambda>m.
     let c = c\<lparr>mutex := m\<rparr> in
     bind_r (circ_cnt_to_end (head c) (tail c) (csize c)) (\<lambda>k.
     if n \<le> k then
       bind_r (circ_take_piece c n) (\<lambda>(c, d).
       bind_r (simple_mutex_unlock t (mutex c)) (\<lambda>m.
       Inr (c\<lparr>mutex := m\<rparr>, d, n)))
     else
       bind_r (circ_take_piece c k) (\<lambda>(c, d).
       let rest = n - k in
       bind_r (circ_cnt_to_end (head c) (tail c) (csize c)) (\<lambda>k2.
       let k2 = (if rest \<ge> k2 then k2 else rest) in
       bind_r (circ_take_piece c k2) (\<lambda>(c, d2).
       bind_r (simple_mutex_unlock t (mutex c)) (\<lambda>m.
       Inr (c\<lparr>mutex := m\<rparr>, d @ d2, k + k2)))))))"

definition simple_circ_buf_write ::
    "thread_id \<Rightarrow> circ_buf_t \<Rightarrow> byte list \<Rightarrow> int \<Rightarrow> (circ_buf_t \<times> int) result" where
  "simple_circ_buf_write t c d n =
     bind_r (simple_mutex_lock t (mutex c)) (\<lambda>m.
     let c = c\<lparr>mutex := m\<rparr> in
     bind_r (circ_space_to_end (head c) (tail c) (csize c)) (\<lambda>k.
     if n \<le> k then
       bind_r (circ_put_piece c d n) (\<lambda>c.
       bind_r (simple_mutex_unlock t (mutex c)) (\<lambda>m.
       Inr (c\<lparr>mutex := m\<rparr>, n)))
     else
       bind_r (circ_put_piece c d k) (\<lambda>c.
       let from = drop (nat k) d; rest = n - k in
       bind_r (circ_space_to_end (head c) (tail c) (csize c)) (\<lambda>k2.
       let k2 = (if rest \<ge> k2 then k2 else rest) in
       bind_r (circ_put_piece c from k2) (\<lambda>c.
       bind_r (simple_mutex_unlock t (mutex c)) (\<lambda>m.
       Inr (c\<lparr>mutex := m\<rparr>, k + k2)))))))"

section \<open>The invariant and the stored bytes\<close>

definition circ_inv :: "circ_buf_t \<Rightarrow> bool" where
  "circ_inv c \<longleftrightarrow>
     0 < csize c \<and> csize c \<le> 2 ^ 30 \<and> int (length (buf c)) = csize c + 1 \<and>
     0 \<le> head c \<and> head c < csize c \<and> 0 \<le> tail c \<and> tail c < csize c \<and>
     mutex_ok (mutex c)"

definition circ_len :: "circ_buf_t \<Rightarrow> nat" where
  "circ_len c = nat ((head c + csize c - tail c) mod csize c)"

definition contents :: "circ_buf_t \<Rightarrow> byte list" where
  "contents c =
     map (\<lambda>i. buf c ! ((nat (tail c) + i) mod nat (csize c))) [0..<circ_len c]"

lemma length_contents [simp]: "length (contents c) = circ_len c"
  by (simp add: contents_def)

lemma circ_inv_create: "0 < n \<Longrightarrow> n \<le> 2 ^ 30 \<Longrightarrow> circ_inv (simple_circ_buf_create junk n)"
  by (simp add: circ_inv_def simple_circ_buf_create_def)

lemma contents_create: "contents (simple_circ_buf_create junk n) = []"
  by (simp add: contents_def circ_len_def simple_circ_buf_create_def)

text \<open>The distance from \<open>tail\<close> to \<open>head\<close> without a remainder operation.\<close>

lemma circ_dist:
  fixes h n t :: int
  assumes "0 \<le> h" "h < n" "0 \<le> t" "t < n"
  shows "(h + n - t) mod n = (if t \<le> h then h - t else h + n - t)"
    and "(h + (n - t)) mod n = (if t \<le> h then h - t else h + n - t)"
    and "(n - 1 - h + t) mod n = (if t \<le> h then n - 1 - h + t else t - 1 - h)"
  using assms mod_wrap[of "h + n - t" n] mod_wrap[of "h + (n - t)" n] mod_wrap[of "n - 1 - h + t" n]
  by auto

lemma circ_cnt_to_end_eq:
  assumes "0 \<le> h" "h < n" "0 \<le> t" "t < n" "n \<le> 2 ^ 30"
  shows "circ_cnt_to_end h t n = Inr (if t \<le> h then h - t else n - t)"
  using assms by (auto simp: circ_cnt_to_end_def Let_def circ_dist)

lemma circ_space_to_end_eq:
  assumes "0 \<le> h" "h < n" "0 \<le> t" "t < n" "n \<le> 2 ^ 30"
  shows "circ_space_to_end h t n =
    Inr (if t \<le> h then (if t = 0 then n - 1 - h else n - h) else t - 1 - h)"
  using assms mod_wrap[of "n - 1 - h + t" n]
  by (auto simp: circ_space_to_end_def Let_def)

lemma circ_len_eq:
  "circ_inv c \<Longrightarrow> int (circ_len c) =
     (if tail c \<le> head c then head c - tail c else head c + csize c - tail c)"
  by (simp add: circ_len_def circ_inv_def circ_dist)

lemma circ_len_less: "circ_inv c \<Longrightarrow> int (circ_len c) < csize c"
  by (auto simp: circ_len_eq circ_inv_def)

lemma nth_contents:
  "i < circ_len c \<Longrightarrow> contents c ! i = buf c ! ((nat (tail c) + i) mod nat (csize c))"
  by (simp add: contents_def)

section \<open>The two pieces on the stored bytes\<close>

lemma take_piece:
  assumes inv: "circ_inv c" and k: "0 \<le> k" "k \<le> int (circ_len c)" "tail c + k \<le> csize c"
  obtains c' where "circ_take_piece c k = Inr (c', take (nat k) (contents c))"
    and "circ_inv c'" and "contents c' = drop (nat k) (contents c)"
    and "circ_len c' = circ_len c - nat k"
    and "csize c' = csize c" and "mutex c' = mutex c" and "head c' = head c"
    and "tail c' = (tail c + k) mod csize c"
proof -
  define c' where "c' = c\<lparr>tail := (tail c + k) mod csize c\<rparr>"
  note i = inv[unfolded circ_inv_def]
  have bytes: "take (nat k) (drop (nat (tail c)) (buf c)) = take (nat k) (contents c)"
    using i k by (intro nth_equalityI) (auto simp: nth_contents)
  have inv': "circ_inv c'"
    using i k by (simp add: circ_inv_def c'_def)
  have len': "circ_len c' = circ_len c - nat k"
    using circ_len_eq[OF inv'] circ_len_eq[OF inv] i k mod_wrap[of "tail c + k" "csize c"]
    by (auto simp: c'_def split: if_splits)
  have "contents c' = drop (nat k) (contents c)"
  proof (rule nth_equalityI)
    show "length (contents c') = length (drop (nat k) (contents c))"
      by (simp add: len')
  next
    fix j assume "j < length (contents c')"
    then have j: "j < circ_len c - nat k" by (simp add: len')
    have "nat ((tail c + k) mod csize c) = (nat (tail c) + nat k) mod nat (csize c)"
      using i k by (simp add: nat_mod_distrib nat_add_distrib)
    with j len' show "contents c' ! j = drop (nat k) (contents c) ! j"
      by (simp add: nth_contents c'_def mod_add_left_eq add.assoc)
  qed
  moreover have "circ_take_piece c k = Inr (c', take (nat k) (contents c))"
    using i k by (simp add: circ_take_piece_def mem_read_ok bytes c'_def)
  ultimately show thesis
    using that inv' len' by (simp add: c'_def)
qed

lemma put_piece:
  assumes inv: "circ_inv c" and k: "0 \<le> k" "int (circ_len c) + k < csize c" "head c + k \<le> csize c"
    and d: "k \<le> int (length d)"
  obtains c' where "circ_put_piece c d k = Inr c'"
    and "circ_inv c'" and "contents c' = contents c @ take (nat k) d"
    and "circ_len c' = circ_len c + nat k"
    and "csize c' = csize c" and "mutex c' = mutex c" and "tail c' = tail c"
    and "head c' = (head c + k) mod csize c"
proof -
  define n t h m where "n = nat (csize c)" and "t = nat (tail c)" and "h = nat (head c)" and "m = nat k"
  define b where "b = take h (buf c) @ take m d @ drop (h + m) (buf c)"
  define c' where "c' = c\<lparr>buf := b, head := (head c + k) mod csize c\<rparr>"
  note i = inv[unfolded circ_inv_def]
  have nums: "t < n" "h + m \<le> n" "h < n" "circ_len c + m < n" "length (buf c) = Suc n" "m \<le> length d"
    using i k d by (auto simp: n_def t_def h_def m_def)
  have inv': "circ_inv c'"
    using i nums by (simp add: circ_inv_def c'_def b_def n_def)
  have len': "circ_len c' = circ_len c + m"
    using circ_len_eq[OF inv'] circ_len_eq[OF inv] i k mod_wrap[of "head c + k" "csize c"]
    by (auto simp: c'_def m_def split: if_splits)
  have h_eq: "h = (t + circ_len c) mod n"
    using circ_len_eq[OF inv] i by (auto simp: mod_wrap_nat h_def t_def n_def split: if_splits)
  have shift: "(t + (circ_len c + j)) mod n = h + j" if "j < m" for j
  proof -
    have "(t + (circ_len c + j)) mod n = (h + j) mod n"
      by (simp add: h_eq mod_add_left_eq add.assoc)
    with that nums show ?thesis by simp
  qed
  have at: "b ! ((t + i) mod n) = (contents c @ take m d) ! i" if "i < circ_len c + m" for i
  proof (cases "i < circ_len c")
    case True
    have "(t + i) mod n < h \<or> h + m \<le> (t + i) mod n"
    proof (rule ccontr)
      assume "\<not> ?thesis"
      then obtain j where j: "j < m" "(t + i) mod n = h + j"
        by (metis add_diff_inverse_nat add_less_cancel_left not_le)
      with shift[of j] nums True show False
        by (auto dest!: mod_wrap_inj[of t n i "circ_len c + j"])
    qed
    then show ?thesis
      using True nums mod_less_divisor[of n "t + i"]
      by (auto simp: b_def nth_append nth_contents t_def n_def min_def simp del: mod_less_divisor)
  next
    case False
    then obtain j where j: "i = circ_len c + j"
      using le_Suc_ex not_less by blast
    with that shift[of j] nums show ?thesis
      by (simp add: b_def nth_append)
  qed
  have "contents c' = contents c @ take m d"
    using nums len' at by (intro nth_equalityI) (simp_all add: nth_contents c'_def t_def n_def)
  moreover have "circ_put_piece c d k = Inr c'"
    using i k d nums
    by (simp add: circ_put_piece_def mem_read_ok mem_write_ok c'_def b_def m_def h_def min_def)
  ultimately show thesis
    using that inv' len' by (simp add: c'_def m_def)
qed

section \<open>Read and write on the stored bytes\<close>

lemma cnt_to_end:
  assumes "circ_inv c"
  obtains k where "circ_cnt_to_end (head c) (tail c) (csize c) = Inr k"
    and "0 \<le> k" "k \<le> int (circ_len c)" "tail c + k \<le> csize c"
    and "k = int (circ_len c) \<or> tail c + k = csize c"
  using assms circ_len_eq[OF assms] circ_cnt_to_end_eq[of "head c" "csize c" "tail c"]
  by (auto simp: circ_inv_def split: if_splits)

lemma space_to_end:
  assumes "circ_inv c"
  obtains k where "circ_space_to_end (head c) (tail c) (csize c) = Inr k"
    and "0 \<le> k" "int (circ_len c) + k < csize c" "head c + k \<le> csize c"
    and "int (circ_len c) + k = csize c - 1 \<or> head c + k = csize c"
  using assms circ_len_eq[OF assms] circ_space_to_end_eq[of "head c" "csize c" "tail c"]
  by (auto simp: circ_inv_def split: if_splits)

text \<open>A read or a write runs with the mutex held and returns it as it was.\<close>

lemma circ_inv_mutex [simp]: "mutex_ok m \<Longrightarrow> circ_inv c \<Longrightarrow> circ_inv (c\<lparr>mutex := m\<rparr>)"
  by (simp add: circ_inv_def)

lemma contents_mutex [simp]: "contents (c\<lparr>mutex := m\<rparr>) = contents c" "circ_len (c\<lparr>mutex := m\<rparr>) = circ_len c"
  by (simp_all add: contents_def circ_len_def)

lemma circ_lock:
  assumes "circ_inv c" "lockable t (mutex c)"
  obtains m where "simple_mutex_lock t (mutex c) = Inr m" and "circ_inv (c\<lparr>mutex := m\<rparr>)"
    and "simple_mutex_unlock t m = Inr (mutex c)"
proof -
  obtain m where m: "simple_mutex_lock t (mutex c) = Inr m" "owner m = Some t" "0 < depth m"
    using lock_lockable assms(2) by blast
  moreover from m have "mutex_ok m" by (simp add: mutex_ok_def)
  ultimately show thesis
    using that assms(1) lock_unlock[OF m(1)] by (auto simp: circ_inv_def)
qed

lemma circ_read_ok:
  assumes inv: "circ_inv c" and lk: "lockable t (mutex c)" and n: "0 \<le> n"
  obtains c' where "simple_circ_buf_read t c n =
      Inr (c', take (nat n) (contents c), min n (int (circ_len c)))"
    and "circ_inv c'" and "contents c' = drop (nat n) (contents c)"
    and "csize c' = csize c" and "mutex c' = mutex c"
proof -
  obtain m where m: "simple_mutex_lock t (mutex c) = Inr m" "circ_inv (c\<lparr>mutex := m\<rparr>)"
      "simple_mutex_unlock t m = Inr (mutex c)"
    using circ_lock[OF inv lk] by blast
  let ?c0 = "c\<lparr>mutex := m\<rparr>"
  have mok: "mutex_ok (mutex c)" using inv by (simp add: circ_inv_def)
  obtain k where k: "circ_cnt_to_end (head ?c0) (tail ?c0) (csize ?c0) = Inr k"
      "0 \<le> k" "k \<le> int (circ_len ?c0)" "tail ?c0 + k \<le> csize ?c0"
      "k = int (circ_len ?c0) \<or> tail ?c0 + k = csize ?c0"
    using cnt_to_end[OF m(2)] .
  show thesis
  proof (cases "n \<le> k")
    case True
    with k obtain c1 where c1: "circ_take_piece ?c0 n = Inr (c1, take (nat n) (contents ?c0))"
        "circ_inv c1" "contents c1 = drop (nat n) (contents ?c0)" "csize c1 = csize ?c0" "mutex c1 = mutex ?c0"
      using take_piece[OF m(2) n, of thesis] by auto
    show thesis
      by (rule that[of "c1\<lparr>mutex := mutex c\<rparr>"]) (use True k(1,3) c1 m mok in \<open>auto simp: simple_circ_buf_read_def Let_def\<close>)
  next
    case False
    from k obtain c1 where c1: "circ_take_piece ?c0 k = Inr (c1, take (nat k) (contents ?c0))"
        "circ_inv c1" "contents c1 = drop (nat k) (contents ?c0)" "circ_len c1 = circ_len ?c0 - nat k"
        "csize c1 = csize ?c0" "mutex c1 = mutex ?c0" "tail c1 = (tail ?c0 + k) mod csize ?c0"
      using take_piece[OF m(2) k(2)] by metis
    obtain j where j: "circ_cnt_to_end (head c1) (tail c1) (csize c1) = Inr j"
        "0 \<le> j" "j \<le> int (circ_len c1)" "tail c1 + j \<le> csize c1"
        "j = int (circ_len c1) \<or> tail c1 + j = csize c1"
      using cnt_to_end[OF c1(2)] .
    define k2 where "k2 = (if n - k \<ge> j then j else n - k)"
    have sum: "k + k2 = min n (int (circ_len c))"
      using False k j c1 circ_len_less[OF c1(2)] by (auto simp: k2_def)
    have k2: "0 \<le> k2" "k2 \<le> int (circ_len c1)" "tail c1 + k2 \<le> csize c1"
      using j False by (auto simp: k2_def)
    then obtain c2 where c2: "circ_take_piece c1 k2 = Inr (c2, take (nat k2) (contents c1))"
        "circ_inv c2" "contents c2 = drop (nat k2) (contents c1)" "csize c2 = csize c1" "mutex c2 = mutex c1"
      using take_piece[OF c1(2) k2] by metis
    have parts: "take (nat k) (contents c) @ take (nat k2) (drop (nat k) (contents c)) = take (nat n) (contents c)"
      "drop (nat k2) (drop (nat k) (contents c)) = drop (nat n) (contents c)"
      using sum k(2) k2(1) n
      by (auto simp: take_add [symmetric] nat_add_distrib [symmetric] add.commute min_def split: if_splits)
    show thesis
      by (rule that[of "c2\<lparr>mutex := mutex c\<rparr>"])
        (use False k(1) j(1) c1 c2 m mok sum parts in \<open>auto simp: simple_circ_buf_read_def Let_def k2_def [symmetric]\<close>)
  qed
qed

lemma circ_write_ok:
  fixes d :: "byte list"
  assumes inv: "circ_inv c" and lk: "lockable t (mutex c)"
  defines "k0 \<equiv> min (length d) (nat (csize c) - 1 - circ_len c)"
  obtains c' where "simple_circ_buf_write t c d (int (length d)) = Inr (c', int k0)"
    and "circ_inv c'" and "contents c' = contents c @ take k0 d"
    and "csize c' = csize c" and "mutex c' = mutex c"
proof -
  let ?n = "int (length d)"
  obtain m where m: "simple_mutex_lock t (mutex c) = Inr m" "circ_inv (c\<lparr>mutex := m\<rparr>)"
      "simple_mutex_unlock t m = Inr (mutex c)"
    using circ_lock[OF inv lk] by blast
  let ?c0 = "c\<lparr>mutex := m\<rparr>"
  have mok: "mutex_ok (mutex c)" using inv by (simp add: circ_inv_def)
  obtain k where k: "circ_space_to_end (head ?c0) (tail ?c0) (csize ?c0) = Inr k"
      "0 \<le> k" "int (circ_len ?c0) + k < csize ?c0" "head ?c0 + k \<le> csize ?c0"
      "int (circ_len ?c0) + k = csize ?c0 - 1 \<or> head ?c0 + k = csize ?c0"
    using space_to_end[OF m(2)] .
  show thesis
  proof (cases "?n \<le> k")
    case True
    with k obtain c1 where c1: "circ_put_piece ?c0 d ?n = Inr c1"
        "circ_inv c1" "contents c1 = contents ?c0 @ take (nat ?n) d" "csize c1 = csize ?c0" "mutex c1 = mutex ?c0"
      using put_piece[OF m(2), of ?n d thesis] by auto
    from True k have "k0 = length d" by (simp add: k0_def)
    then show thesis
      by (intro that[of "c1\<lparr>mutex := mutex c\<rparr>"])
        (use True k(1) c1 m mok in \<open>auto simp: simple_circ_buf_write_def Let_def\<close>)
  next
    case False
    with k obtain c1 where c1: "circ_put_piece ?c0 d k = Inr c1"
        "circ_inv c1" "contents c1 = contents ?c0 @ take (nat k) d" "circ_len c1 = circ_len ?c0 + nat k"
        "csize c1 = csize ?c0" "mutex c1 = mutex ?c0" "head c1 = (head ?c0 + k) mod csize ?c0"
      using put_piece[OF m(2) k(2), of d thesis] by auto
    obtain j where j: "circ_space_to_end (head c1) (tail c1) (csize c1) = Inr j"
        "0 \<le> j" "int (circ_len c1) + j < csize c1" "head c1 + j \<le> csize c1"
        "int (circ_len c1) + j = csize c1 - 1 \<or> head c1 + j = csize c1"
      using space_to_end[OF c1(2)] .
    define k2 where "k2 = (if ?n - k \<ge> j then j else ?n - k)"
    have sum: "k + k2 = int k0"
      using False k j c1 by (auto simp: k2_def k0_def)
    have k2: "0 \<le> k2" "int (circ_len c1) + k2 < csize c1" "head c1 + k2 \<le> csize c1"
        "k2 \<le> int (length (drop (nat k) d))"
      using j False k(2) by (auto simp: k2_def)
    then obtain c2 where c2: "circ_put_piece c1 (drop (nat k) d) k2 = Inr c2"
        "circ_inv c2" "contents c2 = contents c1 @ take (nat k2) (drop (nat k) d)"
        "csize c2 = csize c1" "mutex c2 = mutex c1"
      using put_piece[OF c1(2) k2] by metis
    have parts: "take (nat k) d @ take (nat k2) (drop (nat k) d) = take k0 d"
      using sum k(2) k2(1) by (metis nat_add_distrib nat_int take_add)
    show thesis
      by (rule that[of "c2\<lparr>mutex := mutex c\<rparr>"])
        (use False k(1) j(1) c1 c2 m mok sum parts in \<open>auto simp: simple_circ_buf_write_def Let_def k2_def [symmetric]\<close>)
  qed
qed

section \<open>The queue contract and the properties\<close>

definition circ_ready :: "thread_id \<Rightarrow> circ_buf_t \<Rightarrow> bool" where
  "circ_ready t c \<longleftrightarrow> circ_inv c \<and> lockable t (mutex c)"

definition circ_cap :: "circ_buf_t \<Rightarrow> nat" where
  "circ_cap c = nat (csize c) - 1"

definition circ_put :: "thread_id \<Rightarrow> circ_buf_t \<Rightarrow> byte list \<Rightarrow> (circ_buf_t \<times> int) result" where
  "circ_put t c d = simple_circ_buf_write t c d (int (length d))"

interpretation circ: bounded_fifo "circ_ready t" contents circ_cap "circ_put t" "simple_circ_buf_read t"
  for t :: thread_id
proof unfold_locales
  fix c assume "circ_ready t c"
  then show "length (contents c) \<le> circ_cap c"
    using circ_len_less[of c] by (auto simp: circ_ready_def circ_cap_def)
next
  fix c and d :: "byte list" assume r: "circ_ready t c"
  let ?k = "circ_cap c - length (contents c)"
  obtain c' where "circ_put t c d = Inr (c', int (min (length d) ?k))"
      "circ_inv c'" "contents c' = contents c @ take (min (length d) ?k) d" "csize c' = csize c" "mutex c' = mutex c"
    using r circ_write_ok[of c t d thesis]
    by (auto simp: circ_ready_def circ_cap_def circ_put_def)
  moreover have "take (min (length d) ?k) d = take ?k d" by (simp add: min_def)
  ultimately show "\<exists>c'. circ_put t c d = Inr (c', int (min (length d) ?k)) \<and>
      circ_ready t c' \<and> contents c' = contents c @ take ?k d \<and> circ_cap c' = circ_cap c"
    using r by (auto simp: circ_ready_def circ_cap_def)
next
  fix c and n :: int assume r: "circ_ready t c" and n: "0 \<le> n"
  obtain c' where "simple_circ_buf_read t c n =
        Inr (c', take (nat n) (contents c), min n (int (circ_len c)))"
      "circ_inv c'" "contents c' = drop (nat n) (contents c)" "csize c' = csize c" "mutex c' = mutex c"
    using circ_read_ok[OF _ _ n] r unfolding circ_ready_def by metis
  then show "\<exists>c'. simple_circ_buf_read t c n =
      Inr (c', take (nat n) (contents c), min n (int (length (contents c)))) \<and>
      circ_ready t c' \<and> contents c' = drop (nat n) (contents c) \<and> circ_cap c' = circ_cap c"
    using r by (auto simp: circ_ready_def circ_cap_def)
qed

lemma circ_ready_create: "0 < n \<Longrightarrow> n \<le> 2 ^ 30 \<Longrightarrow> circ_ready t (simple_circ_buf_create junk n)"
  using circ_inv_create[of n junk] by (simp add: circ_ready_def simple_circ_buf_create_def)

lemma circ_cap_create: "circ_cap (simple_circ_buf_create junk n) = nat n - 1"
  by (simp add: circ_cap_def simple_circ_buf_create_def)

text \<open>C5: any sequence of writes and reads on a ring buffer returns without a memory fault and is a
  FIFO stream: the bytes stored before the run followed by those the writes accepted are those the reads
  delivered followed by those stored after it.\<close>

theorem circ_buf_fifo:
  assumes "circ_ready t c" and "list_all op_ok ops"
  shows "\<exists>c' acc del. fifo_run (circ_put t) (simple_circ_buf_read t) c ops = Inr (c', acc, del) \<and>
    circ_ready t c' \<and> contents c @ acc = del @ contents c'"
  using circ.run_stream[OF assms] by blast

theorem circ_buf_fifo_witness:
  "\<exists>c' acc del. fifo_run (circ_put 7) (simple_circ_buf_read 7) (simple_circ_buf_create (\<lambda>_. 0) 4)
      [Put [1, 2, 3, 4], Get 2, Put [5, 6], Get 9] = Inr (c', acc, del) \<and> acc = del @ contents c'"
  using circ_buf_fifo[OF circ_ready_create[of 4 7 "\<lambda>_. 0"], of "[Put [1, 2, 3, 4], Get 2, Put [5, 6], Get 9]"]
  by (auto simp: contents_create)

text \<open>a write appends the longest prefix of its data that fits below \<open>size - 1\<close> stored bytes,
  returns its length, and leaves the mutex as it was.\<close>

theorem circ_buf_write_appends:
  assumes "circ_inv c" and "lockable t (mutex c)"
  shows "\<exists>c'. simple_circ_buf_write t c d (int (length d)) =
      Inr (c', int (min (length d) (nat (csize c) - 1 - length (contents c)))) \<and>
    contents c' = contents c @ take (nat (csize c) - 1 - length (contents c)) d \<and>
    circ_inv c' \<and> csize c' = csize c \<and> mutex c' = mutex c"
  by (rule circ_write_ok[OF assms, of d]) (auto simp: min_def split: if_splits)

theorem circ_buf_write_appends_witness:
  "\<exists>c'. simple_circ_buf_write 7 (simple_circ_buf_create (\<lambda>_. 0) 4) [1, 2, 3, 4] 4 = Inr (c', 3) \<and>
    contents c' = [1, 2, 3]"
  using circ_buf_write_appends[OF circ_inv_create[of 4 "\<lambda>_. 0"], of 7 "[1, 2, 3, 4]"]
  by (simp add: contents_create) (auto simp: simple_circ_buf_create_def)

text \<open>a read of \<open>n\<close> bytes delivers the first \<open>n\<close> stored bytes, or all of them, removes
  exactly those, returns their number, and leaves the mutex as it was.\<close>

theorem circ_buf_read_removes:
  assumes "circ_inv c" and "lockable t (mutex c)" and "0 \<le> n"
  shows "\<exists>c'. simple_circ_buf_read t c n =
      Inr (c', take (nat n) (contents c), min n (int (length (contents c)))) \<and>
    contents c' = drop (nat n) (contents c) \<and> circ_inv c' \<and> csize c' = csize c \<and> mutex c' = mutex c"
  by (rule circ_read_ok[OF assms]) auto

theorem circ_buf_read_removes_witness:
  "\<exists>c'. simple_circ_buf_read 7
      \<lparr>buf = [10, 11, 12, 13, 99], head = 1, tail = 3, csize = 4, mutex = simple_mutex_create\<rparr> 5 =
      Inr (c', [13, 10], 2) \<and> contents c' = []"
proof -
  let ?c = "\<lparr>buf = [10, 11, 12, 13, 99], head = 1, tail = 3, csize = 4, mutex = simple_mutex_create\<rparr>"
  have "contents ?c = [13, 10]"
    by (simp add: contents_def circ_len_def upt_rec)
  then show ?thesis
    using circ_buf_read_removes[of ?c 7 5] by (auto simp: circ_inv_def)
qed

text \<open>the two counters: \<open>get_data_cnt\<close> is the number of stored bytes, \<open>get_space_cnt\<close> the
  number of bytes a write can still store, and together they make \<open>size - 1\<close>.\<close>

theorem circ_buf_counts:
  assumes "circ_inv c"
  shows "simple_circ_buf_get_data_cnt c = Inr (int (length (contents c))) \<and>
    simple_circ_buf_get_space_cnt c = Inr (csize c - 1 - int (length (contents c)))"
  using assms circ_len_eq[OF assms] circ_dist[of "head c" "csize c" "tail c"]
    mod_wrap[of "tail c + csize c - (head c + 1)" "csize c"]
  by (auto simp: circ_inv_def simple_circ_buf_get_data_cnt_def simple_circ_buf_get_space_cnt_def
      circ_cnt_def circ_space_def)

theorem circ_buf_counts_witness:
  "simple_circ_buf_get_space_cnt (simple_circ_buf_create (\<lambda>_. 0) 16) = Inr 15"
  using circ_buf_counts[OF circ_inv_create[of 16 "\<lambda>_. 0"]]
  by (simp add: contents_create) (simp add: simple_circ_buf_create_def)

section \<open>The blocks of a ring buffer\<close>

record circ_own =
  c_self :: nat
  c_buf :: nat
  c_mut :: nat

definition circ_buf_blocks :: "memory \<Rightarrow> circ_own \<times> memory" where
  "circ_buf_blocks mem =
     (let (c, mem) = malloc mem; (b, mem) = malloc mem; (m, mem) = malloc mem
      in (\<lparr>c_self = c, c_buf = b, c_mut = m\<rparr>, mem))"

definition simple_circ_buf_destroy :: "circ_buf_t \<Rightarrow> circ_own \<Rightarrow> memory \<Rightarrow> memory result" where
  "simple_circ_buf_destroy c ow mem =
     bind_r (free_block (c_buf ow) mem) (\<lambda>mem.
     bind_r (simple_mutex_destroy (mutex c) (c_mut ow) mem) (free_block (c_self ow)))"

definition circ_own_ms :: "circ_own \<Rightarrow> nat multiset" where
  "circ_own_ms ow = {#c_self ow, c_buf ow, c_mut ow#}"

lemma circ_buf_blocks_has:
  assumes "heap_has base M mem" and "circ_buf_blocks mem = (ow, mem')"
  shows "heap_has base (circ_own_ms ow + M) mem'"
  using blk.alloc_all_has[OF assms(1), of 3] assms(2)
  by (auto simp: circ_buf_blocks_def circ_own_ms_def numeral_3_eq_3 split_beta Let_def add_mset_commute)

text \<open>\<open>destroy\<close> gives back exactly what \<open>create\<close> took, once no thread is inside a read or a write.\<close>

lemma circ_buf_destroy_frees:
  assumes "heap_has base (circ_own_ms ow + M) mem" and "owner (mutex c) = None"
  shows "\<exists>mem'. simple_circ_buf_destroy c ow mem = Inr mem' \<and> heap_has base M mem'"
proof -
  have "mset [c_buf ow, c_mut ow, c_self ow] = circ_own_ms ow" by (simp add: circ_own_ms_def)
  then obtain mem' where "release_all free_block [c_buf ow, c_mut ow, c_self ow] mem = Inr mem'" "heap_has base M mem'"
    using blk.release_all_has[of base "[c_buf ow, c_mut ow, c_self ow]" M mem] assms(1) by auto
  then show ?thesis
    by (auto simp: simple_circ_buf_destroy_def assms(2))
qed

text \<open>While a read holds the mutex it may not be destroyed.\<close>

lemma circ_buf_destroy_in_use:
  assumes "owner (mutex c) = Some t" and "c_buf ow \<in> blocks mem"
  shows "simple_circ_buf_destroy c ow mem = Inl Bad_Destroy"
  using assms by (simp add: simple_circ_buf_destroy_def simple_mutex_destroy_def free_block_def)

end
