(* ===== verification/Circ_Threads.thy ===== *)
theory Circ_Threads
  imports Circ_Buf
begin

text \<open>
  The ring buffer of \<open>src/src/circ_buf.c\<close> between threads: any number of them are inside
  \<open>simple_circ_buf_read\<close> and \<open>simple_circ_buf_write\<close> at the same time. A step is a lock or unlock of
  the mutex, or one \<open>memcpy\<close> with the update of the index behind it. The theory shows that every run does
  what some sequence of whole reads and writes does (\<open>Circ_Buf\<close>), in the order of their unlocks.
\<close>

section \<open>Threads in a read or a write\<close>

type_synonym buf_op = "byte fifo_op"

text \<open>At the lock, at the first \<open>memcpy\<close>, at the second (with the count and the bytes of the first), at the
  unlock, and behind the return. A write delivers no bytes.\<close>

datatype bpc = B_Idle | B_Lock buf_op | B_First buf_op | B_Second buf_op int "byte list"
  | B_Unlock buf_op int "byte list" | B_Ret buf_op int "byte list"

text \<open>\<open>finished\<close> records the calls in the order of their unlocks: the thread, the call, its return value and
  the bytes it delivered.\<close>

type_synonym call = "thread_id \<times> buf_op \<times> int \<times> byte list"

record circ_sys =
  cb :: circ_buf_t
  pcs :: "bpc list"
  finished :: "call list"

section \<open>Steps\<close>

text \<open>The two pieces of \<open>simple_circ_buf_read\<close>; \<open>d\<close> is what the first one copied, \<open>k\<close> bytes.\<close>

definition read_first :: "circ_buf_t \<Rightarrow> int \<Rightarrow> (circ_buf_t \<times> bpc) result" where
  "read_first c n =
     bind_r (circ_cnt_to_end (head c) (tail c) (csize c)) (\<lambda>k.
     if n \<le> k then bind_r (circ_take_piece c n) (\<lambda>(c, d). Inr (c, B_Unlock (Get n) n d))
     else bind_r (circ_take_piece c k) (\<lambda>(c, d). Inr (c, B_Second (Get n) k d)))"

definition read_second :: "circ_buf_t \<Rightarrow> int \<Rightarrow> int \<Rightarrow> byte list \<Rightarrow> (circ_buf_t \<times> bpc) result" where
  "read_second c n k d =
     bind_r (circ_cnt_to_end (head c) (tail c) (csize c)) (\<lambda>k2.
     let k2 = (if n - k \<ge> k2 then k2 else n - k) in
     bind_r (circ_take_piece c k2) (\<lambda>(c, d2). Inr (c, B_Unlock (Get n) (k + k2) (d @ d2))))"

text \<open>The two pieces of \<open>simple_circ_buf_write\<close>.\<close>

definition write_first :: "circ_buf_t \<Rightarrow> byte list \<Rightarrow> (circ_buf_t \<times> bpc) result" where
  "write_first c xs =
     bind_r (circ_space_to_end (head c) (tail c) (csize c)) (\<lambda>k.
     if int (length xs) \<le> k
     then bind_r (circ_put_piece c xs (int (length xs))) (\<lambda>c. Inr (c, B_Unlock (Put xs) (int (length xs)) []))
     else bind_r (circ_put_piece c xs k) (\<lambda>c. Inr (c, B_Second (Put xs) k [])))"

definition write_second :: "circ_buf_t \<Rightarrow> byte list \<Rightarrow> int \<Rightarrow> (circ_buf_t \<times> bpc) result" where
  "write_second c xs k =
     bind_r (circ_space_to_end (head c) (tail c) (csize c)) (\<lambda>k2.
     let k2 = (if int (length xs) - k \<ge> k2 then k2 else int (length xs) - k) in
     bind_r (circ_put_piece c (drop (nat k) xs) k2) (\<lambda>c. Inr (c, B_Unlock (Put xs) (k + k2) [])))"

definition first_copy :: "circ_buf_t \<Rightarrow> buf_op \<Rightarrow> (circ_buf_t \<times> bpc) result" where
  "first_copy c op = (case op of Get n \<Rightarrow> read_first c n | Put xs \<Rightarrow> write_first c xs)"

definition second_copy :: "circ_buf_t \<Rightarrow> buf_op \<Rightarrow> int \<Rightarrow> byte list \<Rightarrow> (circ_buf_t \<times> bpc) result" where
  "second_copy c op k d = (case op of Get n \<Rightarrow> read_second c n k d | Put xs \<Rightarrow> write_second c xs k)"

lemmas copy_defs = first_copy_def second_copy_def read_first_def read_second_def write_first_def write_second_def

definition set_pc :: "nat \<Rightarrow> circ_buf_t \<times> bpc \<Rightarrow> circ_sys \<Rightarrow> circ_sys" where
  "set_pc j x s = s\<lparr>cb := fst x, pcs := (pcs s)[j := snd x]\<rparr>"

definition circ_thread :: "nat \<Rightarrow> circ_sys \<Rightarrow> circ_sys result" where
  "circ_thread j s =
     (let c = cb s in
      case pcs s ! j of
        B_Lock op \<Rightarrow> bind_r (simple_mutex_lock j (mutex c)) (\<lambda>m. Inr (set_pc j (c\<lparr>mutex := m\<rparr>, B_First op) s))
      | B_First op \<Rightarrow> bind_r (first_copy c op) (\<lambda>x. Inr (set_pc j x s))
      | B_Second op k d \<Rightarrow> bind_r (second_copy c op k d) (\<lambda>x. Inr (set_pc j x s))
      | B_Unlock op n d \<Rightarrow>
          bind_r (simple_mutex_unlock j (mutex c)) (\<lambda>m.
          Inr ((set_pc j (c\<lparr>mutex := m\<rparr>, B_Ret op n d) s)\<lparr>finished := finished s @ [(j, op, n, d)]\<rparr>))
      | B_Ret op n d \<Rightarrow> Inr (set_pc j (c, B_Idle) s)
      | B_Idle \<Rightarrow> Inl Would_Block)"

inductive circ_step :: "circ_sys \<Rightarrow> circ_sys \<Rightarrow> bool" where
  call: "j < length (pcs s) \<Longrightarrow> pcs s ! j = B_Idle \<Longrightarrow> op_ok op \<Longrightarrow> circ_step s (set_pc j (cb s, B_Lock op) s)"
| go: "j < length (pcs s) \<Longrightarrow> circ_thread j s = Inr s' \<Longrightarrow> circ_step s s'"

inductive_cases circ_stepE: "circ_step s s'"

lemmas circ_step_cases [consumes 1, case_names call go] = circ_stepE

inductive circ_reachable :: "circ_buf_t \<Rightarrow> nat \<Rightarrow> circ_sys \<Rightarrow> bool" for c0 k where
  start: "circ_reachable c0 k \<lparr>cb = c0, pcs = replicate k B_Idle, finished = []\<rparr>"
| step: "circ_reachable c0 k s \<Longrightarrow> circ_step s s' \<Longrightarrow> circ_reachable c0 k s'"

section \<open>Whole calls\<close>

definition whole_call :: "thread_id \<Rightarrow> buf_op \<Rightarrow> circ_buf_t \<Rightarrow> (circ_buf_t \<times> int \<times> byte list) result" where
  "whole_call t op c =
     (case op of
        Get n \<Rightarrow> bind_r (simple_circ_buf_read t c n) (\<lambda>(c, d, r). Inr (c, r, d))
      | Put xs \<Rightarrow> bind_r (simple_circ_buf_write t c xs (int (length xs))) (\<lambda>(c, r). Inr (c, r, [])))"

text \<open>The calls of a record one after the other; each must answer what the record says.\<close>

fun replay :: "circ_buf_t \<Rightarrow> call list \<Rightarrow> circ_buf_t result" where
  "replay c [] = Inr c"
| "replay c ((t, op, n, d) # l) =
     bind_r (whole_call t op c) (\<lambda>(c, n', d'). if n' = n \<and> d' = d then replay c l else Inl Assert_Fail)"

lemma replay_append: "replay c (l @ l') = bind_r (replay c l) (\<lambda>c. replay c l')"
proof (induction l arbitrary: c)
  case (Cons x l)
  obtain t op n d where "x = (t, op, n, d)" by (cases x)
  with Cons show ?case by (cases "whole_call t op c") auto
qed simp

text \<open>The bytes that the writes of a record stored, and those its reads delivered.\<close>

definition stored :: "call list \<Rightarrow> byte list" where
  "stored l = concat (map (\<lambda>(t, op, n, d). case op of Put xs \<Rightarrow> take (nat n) xs | Get _ \<Rightarrow> []) l)"

definition delivered :: "call list \<Rightarrow> byte list" where
  "delivered l = concat (map (\<lambda>(t, op, n, d). d) l)"

lemma record_append [simp]:
  "stored (l @ l') = stored l @ stored l'" "delivered (l @ l') = delivered l @ delivered l'"
  by (simp_all add: stored_def delivered_def)

text \<open>What is left of a call is done without the other threads.\<close>

definition finish_unlock :: "thread_id \<Rightarrow> circ_buf_t \<Rightarrow> int \<Rightarrow> byte list \<Rightarrow> (circ_buf_t \<times> int \<times> byte list) result" where
  "finish_unlock t c n d = bind_r (simple_mutex_unlock t (mutex c)) (\<lambda>m. Inr (c\<lparr>mutex := m\<rparr>, n, d))"

definition finish_second :: "thread_id \<Rightarrow> circ_buf_t \<times> bpc \<Rightarrow> (circ_buf_t \<times> int \<times> byte list) result" where
  "finish_second t x =
     (case x of
        (c, B_Unlock op n d) \<Rightarrow> finish_unlock t c n d
      | (c, B_Second op k d) \<Rightarrow>
          bind_r (second_copy c op k d) (\<lambda>y. case y of (c, B_Unlock op n d) \<Rightarrow> finish_unlock t c n d | _ \<Rightarrow> Inl Stuck)
      | _ \<Rightarrow> Inl Stuck)"

definition finish :: "thread_id \<Rightarrow> circ_buf_t \<Rightarrow> bpc \<Rightarrow> (circ_buf_t \<times> int \<times> byte list) result" where
  "finish t c pc = (case pc of B_First op \<Rightarrow> bind_r (first_copy c op) (finish_second t) | _ \<Rightarrow> finish_second t (c, pc))"

lemma whole_call_finish:
  "whole_call t op c = bind_r (simple_mutex_lock t (mutex c)) (\<lambda>m. finish t (c\<lparr>mutex := m\<rparr>) (B_First op))"
  by (cases op)
    (auto simp: whole_call_def finish_def first_copy_def read_first_def write_first_def finish_second_def second_copy_def read_second_def write_second_def finish_unlock_def
      simple_circ_buf_read_def simple_circ_buf_write_def bind_r_def Let_def split: sum.splits prod.splits)

lemma whole_call_ok:
  assumes "circ_inv c" and "owner (mutex c) = None" and "op_ok op"
  shows "\<exists>c' n d. whole_call t op c = Inr (c', n, d) \<and> circ_inv c' \<and> owner (mutex c') = None \<and>
    contents c @ stored [(t, op, n, d)] = delivered [(t, op, n, d)] @ contents c'"
proof (cases op)
  case (Get n)
  have "lockable t (mutex c)" "0 \<le> n" using assms Get by (simp_all add: lockable_def)
  from circ_read_ok[OF assms(1) this] obtain c' where "simple_circ_buf_read t c n =
      Inr (c', take (nat n) (contents c), min n (int (circ_len c)))" "circ_inv c'" "contents c' = drop (nat n) (contents c)"
      "mutex c' = mutex c" by metis
  with Get assms(2) show ?thesis by (simp add: whole_call_def stored_def delivered_def)
next
  case (Put xs)
  have "lockable t (mutex c)" using assms by (simp add: lockable_def)
  from circ_write_ok[OF assms(1) this, of xs] obtain c' where "simple_circ_buf_write t c xs (int (length xs)) =
      Inr (c', int (min (length xs) (nat (csize c) - 1 - circ_len c)))" "circ_inv c'"
      "contents c' = contents c @ take (min (length xs) (nat (csize c) - 1 - circ_len c)) xs" "mutex c' = mutex c" by metis
  with Put assms(2) show ?thesis by (simp add: whole_call_def stored_def delivered_def)
qed

lemma replay_ok:
  "replay c l = Inr c' \<Longrightarrow> circ_inv c \<Longrightarrow> owner (mutex c) = None \<Longrightarrow> list_all (\<lambda>x. op_ok (fst (snd x))) l \<Longrightarrow>
   circ_inv c' \<and> owner (mutex c') = None \<and> contents c @ stored l = delivered l @ contents c'"
proof (induction l arbitrary: c)
  case Nil
  then show ?case by (simp add: stored_def delivered_def)
next
  case (Cons x l)
  obtain t op n d where x: "x = (t, op, n, d)" by (cases x)
  obtain c1 where c1: "whole_call t op c = Inr (c1, n, d)" "circ_inv c1" "owner (mutex c1) = None"
      "contents c @ stored [(t, op, n, d)] = delivered [(t, op, n, d)] @ contents c1" "replay c1 l = Inr c'"
    using whole_call_ok[OF Cons.prems(2,3), of op t] Cons.prems(1,4) x by (auto split: if_splits)
  from Cons.IH[OF c1(5,2,3)] Cons.prems(4) have ih: "circ_inv c'" "owner (mutex c') = None"
      "contents c1 @ stored l = delivered l @ contents c'" by simp_all
  have "stored (x # l) = stored [x] @ stored l" "delivered (x # l) = delivered [x] @ delivered l"
    by (simp_all add: stored_def delivered_def)
  then show ?case using ih c1(4) x by (metis append_assoc)
qed

section \<open>The invariant\<close>

definition pc_op :: "bpc \<Rightarrow> buf_op option" where
  "pc_op pc = (case pc of B_Idle \<Rightarrow> None | B_Lock op \<Rightarrow> Some op | B_First op \<Rightarrow> Some op | B_Second op k d \<Rightarrow> Some op
     | B_Unlock op n d \<Rightarrow> Some op | B_Ret op n d \<Rightarrow> Some op)"

definition inside :: "bpc \<Rightarrow> bool" where
  "inside pc \<longleftrightarrow> (case pc of B_First op \<Rightarrow> True | B_Second op k d \<Rightarrow> True | B_Unlock op n d \<Rightarrow> True | _ \<Rightarrow> False)"

text \<open>The thread in the buffer will end with the state and the answer of its whole call, made on the buffer
  that the finished calls left.\<close>

definition on_course :: "circ_buf_t \<Rightarrow> circ_sys \<Rightarrow> bool" where
  "on_course c s \<longleftrightarrow>
     (case owner (mutex (cb s)) of
        None \<Rightarrow> cb s = c
      | Some j \<Rightarrow> j < length (pcs s) \<and> depth (mutex (cb s)) = 1 \<and>
          (\<exists>op. pc_op (pcs s ! j) = Some op \<and> finish j (cb s) (pcs s ! j) = whole_call j op c))"

definition sys_inv :: "circ_buf_t \<Rightarrow> circ_sys \<Rightarrow> bool" where
  "sys_inv c0 s \<longleftrightarrow>
     (\<forall>j<length (pcs s). inside (pcs s ! j) \<longleftrightarrow> owner (mutex (cb s)) = Some j) \<and>
     (\<forall>j<length (pcs s). \<forall>op. pc_op (pcs s ! j) = Some op \<longrightarrow> op_ok op) \<and>
     list_all (\<lambda>x. op_ok (fst (snd x))) (finished s) \<and>
     (\<exists>c. replay c0 (finished s) = Inr c \<and> circ_inv c \<and> owner (mutex c) = None \<and> on_course c s)"

lemma copy_keeps:
  "circ_take_piece c n = Inr (c', d) \<Longrightarrow> mutex c' = mutex c"
  "circ_put_piece c xs n = Inr c' \<Longrightarrow> mutex c' = mutex c"
  by (auto simp: circ_take_piece_def circ_put_piece_def)

lemma first_copy_pc:
  assumes "first_copy c op = Inr (c', pc)"
  shows "mutex c' = mutex c \<and> inside pc \<and> pc_op pc = Some op \<and> finish t c' pc = finish_second t (c', pc)"
  using assms
  by (auto simp: first_copy_def read_first_def write_first_def inside_def pc_op_def finish_def dest: copy_keeps split: fifo_op.splits if_splits)

lemma second_copy_pc:
  assumes "second_copy c op k d = Inr (c', pc)"
  shows "mutex c' = mutex c \<and> inside pc \<and> pc_op pc = Some op \<and> (\<exists>n d'. pc = B_Unlock op n d')"
  using assms
  by (auto simp: second_copy_def read_second_def write_second_def inside_def pc_op_def Let_def dest: copy_keeps split: fifo_op.splits)

text \<open>A thread that copies stays on course, and does not fail.\<close>

lemma copy_on_course:
  assumes on: "on_course c s" and j: "j < length (pcs s)" and own: "owner (mutex (cb s)) = Some j"
    and pc: "pcs s ! j = B_First op \<and> st = first_copy (cb s) op \<or> pcs s ! j = B_Second op k d \<and> st = second_copy (cb s) op k d"
    and ok: "whole_call j op c = Inr y"
  shows "\<exists>x. st = Inr x \<and> on_course c (set_pc j x s) \<and> mutex (fst x) = mutex (cb s) \<and> inside (snd x) \<and> pc_op (snd x) = Some op"
proof -
  have f: "finish j (cb s) (pcs s ! j) = Inr y" "depth (mutex (cb s)) = 1"
    using on own pc ok by (auto simp: on_course_def pc_op_def)
  then obtain c' pc' where x: "st = Inr (c', pc')" using pc by (auto simp: finish_def finish_second_def split: sum.splits)
  have "mutex c' = mutex (cb s) \<and> inside pc' \<and> pc_op pc' = Some op \<and> finish j c' pc' = Inr y"
    using pc
  proof
    assume p: "pcs s ! j = B_First op \<and> st = first_copy (cb s) op"
    then have e: "first_copy (cb s) op = Inr (c', pc')" using x by simp
    have "finish j (cb s) (pcs s ! j) = finish_second j (c', pc')" using p e by (simp add: finish_def)
    then show ?thesis using first_copy_pc[OF e, of j] f(1) by simp
  next
    assume p: "pcs s ! j = B_Second op k d \<and> st = second_copy (cb s) op k d"
    then obtain n d' where "pc' = B_Unlock op n d'" using second_copy_pc x by metis
    moreover have e: "second_copy (cb s) op k d = Inr (c', pc')" using p x by simp
    ultimately show ?thesis using p second_copy_pc[OF e] f(1) by (simp add: finish_def finish_second_def)
  qed
  then show ?thesis using x own j f(2) ok by (simp add: on_course_def set_pc_def)
qed

lemma set_pc_simps [simp]:
  "cb (set_pc j x s) = fst x" "pcs (set_pc j x s) = (pcs s)[j := snd x]" "finished (set_pc j x s) = finished s"
  by (simp_all add: set_pc_def)

text \<open>A thread outside the buffer moves and stays outside.\<close>

lemma outside_step_inv:
  assumes "sys_inv c0 s" and "j < length (pcs s)" and "\<not> inside (pcs s ! j)" and "\<not> inside pc"
    and "\<And>op. pc_op pc = Some op \<Longrightarrow> op_ok op"
  shows "sys_inv c0 (set_pc j (cb s, pc) s)"
proof -
  have own: "owner (mutex (cb s)) \<noteq> Some j" using assms(1-3) by (auto simp: sys_inv_def)
  then have "on_course c s \<Longrightarrow> on_course c (set_pc j (cb s, pc) s)" for c
    by (auto simp: on_course_def split: option.splits)
  with assms own show ?thesis by (fastforce simp: sys_inv_def nth_list_update)
qed

lemma lock_step_inv:
  assumes inv: "sys_inv c0 s" and j: "j < length (pcs s)" and pc: "pcs s ! j = B_Lock op"
    and lock: "simple_mutex_lock j (mutex (cb s)) = Inr m"
  shows "sys_inv c0 (set_pc j (cb s\<lparr>mutex := m\<rparr>, B_First op) s)"
proof -
  have "owner (mutex (cb s)) \<noteq> Some j" using inv j pc by (auto simp: sys_inv_def inside_def)
  then have o: "owner (mutex (cb s)) = None" "owner m = Some j" "depth m = 1"
    using lock by (auto simp: simple_mutex_lock_def split: option.splits if_splits)
  have "on_course c s \<Longrightarrow> on_course c (set_pc j (cb s\<lparr>mutex := m\<rparr>, B_First op) s)" for c
    using o j lock whole_call_finish[of j op c] by (auto simp: on_course_def pc_op_def)
  with inv j pc o show ?thesis by (fastforce simp: sys_inv_def nth_list_update inside_def pc_op_def)
qed

lemma copy_step_inv:
  assumes inv: "sys_inv c0 s" and j: "j < length (pcs s)"
    and pc: "pcs s ! j = B_First op \<and> st = first_copy (cb s) op \<or> pcs s ! j = B_Second op k d \<and> st = second_copy (cb s) op k d"
  shows "\<exists>x. st = Inr x \<and> sys_inv c0 (set_pc j x s)"
proof -
  have op: "pc_op (pcs s ! j) = Some op" "inside (pcs s ! j)" using pc by (auto simp: pc_op_def inside_def)
  have own: "owner (mutex (cb s)) = Some j" using inv j op by (auto simp: sys_inv_def)
  obtain c where c: "replay c0 (finished s) = Inr c" "circ_inv c" "owner (mutex c) = None" "on_course c s"
    using inv by (auto simp: sys_inv_def)
  have "op_ok op" using inv j op by (auto simp: sys_inv_def)
  then obtain y where "whole_call j op c = Inr y" using whole_call_ok[OF c(2,3)] by blast
  from copy_on_course[OF c(4) j own pc this] obtain x where x: "st = Inr x" "on_course c (set_pc j x s)"
      "mutex (fst x) = mutex (cb s)" "inside (snd x)" "pc_op (snd x) = Some op" by blast
  then have "sys_inv c0 (set_pc j x s)"
    using inv j own \<open>op_ok op\<close> c(1-3) by (auto simp: sys_inv_def nth_list_update)
  with x(1) show ?thesis by blast
qed

lemma unlock_step_inv:
  assumes inv: "sys_inv c0 s" and j: "j < length (pcs s)" and pc: "pcs s ! j = B_Unlock op n d"
  shows "\<exists>m. simple_mutex_unlock j (mutex (cb s)) = Inr m \<and>
    sys_inv c0 ((set_pc j (cb s\<lparr>mutex := m\<rparr>, B_Ret op n d) s)\<lparr>finished := finished s @ [(j, op, n, d)]\<rparr>)"
proof -
  have own: "owner (mutex (cb s)) = Some j" and ok: "op_ok op" using inv j pc by (auto simp: sys_inv_def inside_def pc_op_def)
  obtain c where c: "replay c0 (finished s) = Inr c" "circ_inv c" "owner (mutex c) = None" "on_course c s"
    using inv by (auto simp: sys_inv_def)
  then have d: "depth (mutex (cb s)) = 1" and f: "finish j (cb s) (B_Unlock op n d) = whole_call j op c"
    using own pc by (auto simp: on_course_def pc_op_def)
  let ?m = "(mutex (cb s))\<lparr>owner := None, depth := 0\<rparr>"
  have u: "simple_mutex_unlock j (mutex (cb s)) = Inr ?m" using own d by (simp add: simple_mutex_unlock_def)
  with f have w: "whole_call j op c = Inr (cb s\<lparr>mutex := ?m\<rparr>, n, d)"
    by (simp add: finish_def finish_second_def finish_unlock_def)
  with whole_call_ok[OF c(2,3) ok, of j] have "circ_inv (cb s\<lparr>mutex := ?m\<rparr>)" by auto
  then have "sys_inv c0 ((set_pc j (cb s\<lparr>mutex := ?m\<rparr>, B_Ret op n d) s)\<lparr>finished := finished s @ [(j, op, n, d)]\<rparr>)"
    using inv j own ok c(1) w
    by (auto simp: sys_inv_def nth_list_update inside_def pc_op_def replay_append on_course_def)
  with u show ?thesis by blast
qed

lemma circ_step_inv:
  assumes "circ_step s s'" and "sys_inv c0 s"
  shows "sys_inv c0 s'"
  using assms(1)
proof (cases rule: circ_step_cases)
  case (call j op)
  then show ?thesis using outside_step_inv[OF assms(2), of j "B_Lock op"] by (simp add: inside_def pc_op_def)
next
  case (go j)
  show ?thesis
  proof (cases "pcs s ! j")
    case (B_Lock op)
    with go lock_step_inv[OF assms(2) go(1) B_Lock] show ?thesis by (auto simp: circ_thread_def Let_def)
  next
    case (B_First op)
    with go copy_step_inv[OF assms(2) go(1), of op "first_copy (cb s) op"] show ?thesis by (auto simp: circ_thread_def Let_def)
  next
    case (B_Second op k d)
    with go copy_step_inv[OF assms(2) go(1), of op "second_copy (cb s) op k d" k d] show ?thesis by (auto simp: circ_thread_def Let_def)
  next
    case (B_Unlock op n d)
    with go unlock_step_inv[OF assms(2) go(1) B_Unlock] show ?thesis by (auto simp: circ_thread_def Let_def)
  next
    case (B_Ret op n d)
    with go outside_step_inv[OF assms(2) go(1), of B_Idle] show ?thesis
      by (auto simp: circ_thread_def Let_def inside_def pc_op_def)
  qed (use go in \<open>simp add: circ_thread_def\<close>)
qed

lemma circ_reachable_inv:
  assumes "circ_reachable c0 k s" and "circ_inv c0" and "owner (mutex c0) = None"
  shows "sys_inv c0 s"
  using assms(1)
proof (induction rule: circ_reachable.induct)
  case start
  then show ?case using assms(2,3) by (auto simp: sys_inv_def inside_def pc_op_def on_course_def)
qed (rule circ_step_inv)

section \<open>Properties\<close>

lemma circ_thread_fault:
  assumes inv: "sys_inv c0 s" and j: "j < length (pcs s)" and e: "circ_thread j s = Inl e"
  shows "e = Would_Block"
proof (cases "pcs s ! j")
  case (B_Lock op)
  with e show ?thesis
    by (auto simp: circ_thread_def Let_def simple_mutex_lock_def bind_r_def split: option.splits if_splits)
next
  case (B_First op)
  with e copy_step_inv[OF inv j, of op "first_copy (cb s) op"] show ?thesis by (auto simp: circ_thread_def Let_def)
next
  case (B_Second op k d)
  with e copy_step_inv[OF inv j, of op "second_copy (cb s) op k d" k d] show ?thesis by (auto simp: circ_thread_def Let_def)
next
  case (B_Unlock op n d)
  with e unlock_step_inv[OF inv j B_Unlock] show ?thesis by (auto simp: circ_thread_def Let_def)
qed (use e in \<open>simp_all add: circ_thread_def Let_def\<close>)

text \<open>C6: any number of threads share a ring buffer safely: in every interleaving the calls of \<open>read\<close> and
  \<open>write\<close> that have returned gave, in the order of their unlocks, the answers they give one after the
  other; what the reads delivered, followed by what is stored, is what the writes accepted; and no thread
  ever faults.\<close>

theorem circ_buf_linearizable:
  assumes "circ_reachable c0 k s" and "circ_inv c0" and "owner (mutex c0) = None"
  shows "(\<exists>c. replay c0 (finished s) = Inr c \<and> contents c0 @ stored (finished s) = delivered (finished s) @ contents c \<and>
      (owner (mutex (cb s)) = None \<longrightarrow> cb s = c)) \<and>
    (\<forall>j<length (pcs s). \<forall>e. circ_thread j s = Inl e \<longrightarrow> e = Would_Block)"
proof -
  have inv: "sys_inv c0 s" using circ_reachable_inv[OF assms] .
  then obtain c where c: "replay c0 (finished s) = Inr c" "on_course c s" "list_all (\<lambda>x. op_ok (fst (snd x))) (finished s)"
    by (auto simp: sys_inv_def)
  have "owner (mutex (cb s)) = None \<Longrightarrow> cb s = c" using c(2) by (simp add: on_course_def)
  moreover have "contents c0 @ stored (finished s) = delivered (finished s) @ contents c"
    using replay_ok[OF c(1) assms(2,3) c(3)] by simp
  ultimately show ?thesis using c(1) circ_thread_fault[OF inv] by (intro conjI exI[of _ c]) simp_all
qed

text \<open>Two threads, for the witness: the second waits for the lock while the first copies in two pieces.\<close>

datatype circ_move = Enter nat buf_op | Go nat

definition circ_move :: "circ_move \<Rightarrow> circ_sys \<Rightarrow> circ_sys result" where
  "circ_move v s =
     (case v of
        Enter j op \<Rightarrow> if j < length (pcs s) \<and> pcs s ! j = B_Idle \<and> op_ok op then Inr (set_pc j (cb s, B_Lock op) s) else Inl Stuck
      | Go j \<Rightarrow> if j < length (pcs s) then circ_thread j s else Inl Stuck)"

fun circ_moves :: "circ_move list \<Rightarrow> circ_sys \<Rightarrow> circ_sys result" where
  "circ_moves [] s = Inr s"
| "circ_moves (v # vs) s = bind_r (circ_move v s) (circ_moves vs)"

lemma circ_moves_reachable: "circ_reachable c0 k s \<Longrightarrow> circ_moves vs s = Inr s' \<Longrightarrow> circ_reachable c0 k s'"
proof (induction vs arbitrary: s)
  case (Cons v vs)
  then obtain s1 where s1: "circ_move v s = Inr s1" "circ_moves vs s1 = Inr s'" by auto
  then have "circ_step s s1" by (auto simp: circ_move_def split: circ_move.splits if_splits intro: circ_step.intros)
  with Cons s1 show ?case by (blast intro: circ_reachable.step)
qed simp

definition two_threads :: "circ_move list" where
  "two_threads = [Enter 0 (Put [1, 2]), Go 0, Enter 1 (Get 5), Go 0, Go 0, Go 0, Go 1, Go 1, Go 1, Go 1]"

definition shared_buf :: circ_buf_t where
  "shared_buf = simple_circ_buf_create (\<lambda>_. 0) 4"

lemma two_threads_run:
  "map_sum id (\<lambda>s. map (\<lambda>(t, op, n, d). (t, n, d)) (finished s))
     (circ_moves two_threads \<lparr>cb = shared_buf, pcs = replicate 2 B_Idle, finished = []\<rparr>) = Inr [(0, 2, []), (1, 2, [1, 2])]"
  by code_simp

theorem circ_buf_linearizable_witness:
  "\<exists>(s :: circ_sys) (c :: circ_buf_t). map (\<lambda>(t, op, n, d). (t, n, d)) (finished s) = [(0, 2, []), (1, 2, [1, 2])] \<and>
     replay shared_buf (finished s) = Inr c \<and> contents shared_buf @ stored (finished s) = delivered (finished s) @ contents c"
proof -
  obtain s where s: "circ_moves two_threads \<lparr>cb = shared_buf, pcs = replicate 2 B_Idle, finished = []\<rparr> = Inr s"
      "map (\<lambda>(t, op, n, d). (t, n, d)) (finished s) = [(0, 2, []), (1, 2, [1, 2])]"
    using two_threads_run
    by (cases "circ_moves two_threads \<lparr>cb = shared_buf, pcs = replicate 2 B_Idle, finished = []\<rparr>") auto
  have r: "circ_reachable shared_buf 2 s" by (rule circ_moves_reachable[OF circ_reachable.start s(1)])
  have i: "circ_inv shared_buf" "owner (mutex shared_buf) = None"
    using circ_inv_create[of 4 "\<lambda>_. 0"] by (simp_all add: shared_buf_def) (simp add: simple_circ_buf_create_def simple_mutex_create_def)
  from circ_buf_linearizable[OF r i] obtain c where "replay shared_buf (finished s) = Inr c"
      "contents shared_buf @ stored (finished s) = delivered (finished s) @ contents c" by auto
  with s(2) show ?thesis by (intro exI[of _ s] exI[of _ c]) simp
qed

end
