(* ===== verification/Intrusive_List.thy ===== *)
theory Intrusive_List
  imports Simple_Prelude
begin

text \<open>
  The intrusive doubly linked rings of \<open>src/include/simple/list.h\<close> on an explicit store: the
  \<open>next\<close> and \<open>prev\<close> fields of every node, by address. \<open>ring h a xs\<close> says that the list head
  at \<open>a\<close> has exactly the nodes \<open>xs\<close>, in order; the lemmas state each macro on \<open>xs\<close>.
\<close>

section \<open>The store and the macros\<close>

type_synonym addr = nat

record links =
  next_of :: "addr \<Rightarrow> addr"
  prev_of :: "addr \<Rightarrow> addr"

definition set_next :: "addr \<Rightarrow> addr \<Rightarrow> links \<Rightarrow> links" where
  "set_next a b h = h\<lparr>next_of := (next_of h)(a := b)\<rparr>"

definition set_prev :: "addr \<Rightarrow> addr \<Rightarrow> links \<Rightarrow> links" where
  "set_prev a b h = h\<lparr>prev_of := (prev_of h)(a := b)\<rparr>"

lemma set_links_simps [simp]:
  "next_of (set_next a b h) x = (if x = a then b else next_of h x)"
  "prev_of (set_next a b h) = prev_of h"
  "prev_of (set_prev a b h) x = (if x = a then b else prev_of h x)"
  "next_of (set_prev a b h) = next_of h"
  by (simp_all add: set_next_def set_prev_def)

definition list_add_links :: "addr \<Rightarrow> addr \<Rightarrow> addr \<Rightarrow> links \<Rightarrow> links" where
  "list_add_links n p q h =
     set_next p n (set_prev n p (set_next n q (set_prev q n h)))"

definition list_splice_links :: "addr \<Rightarrow> addr \<Rightarrow> addr \<Rightarrow> links \<Rightarrow> links" where
  "list_splice_links l p q h =
     (let first = next_of h l; final = prev_of h l
      in set_prev q final (set_next final q (set_next p first (set_prev first p h))))"

definition list_exchange_links ::
    "addr \<Rightarrow> addr \<Rightarrow> addr \<Rightarrow> addr \<Rightarrow> addr \<Rightarrow> addr \<Rightarrow> links \<Rightarrow> links" where
  "list_exchange_links n1 n1prev n1next n2 n2prev n2next h =
     (let h = set_next n2prev n1 (set_prev n1 n2prev h);
          h = set_prev n2next n1 (set_next n1 n2next h);
          h = set_next n1prev n2 (set_prev n2 n1prev h)
      in set_prev n1next n2 (set_next n2 n1next h))"

definition list_init :: "addr \<Rightarrow> links \<Rightarrow> links" where
  "list_init a h = set_next a a (set_prev a a h)"

definition list_empty :: "links \<Rightarrow> addr \<Rightarrow> bool" where
  "list_empty h a \<longleftrightarrow> a = next_of h a"

definition list_add :: "addr \<Rightarrow> addr \<Rightarrow> links \<Rightarrow> links" where
  "list_add n a h = list_add_links n a (next_of h a) h"

definition list_add_tail :: "addr \<Rightarrow> addr \<Rightarrow> links \<Rightarrow> links" where
  "list_add_tail n a h = list_add_links n (prev_of h a) a h"

definition list_del :: "addr \<Rightarrow> links \<Rightarrow> links" where
  "list_del n h =
     (let nx = next_of h n; pv = prev_of h n;
          h = set_next (prev_of h n) nx h
      in set_prev (next_of h n) pv h)"

definition list_splice :: "addr \<Rightarrow> addr \<Rightarrow> links \<Rightarrow> links" where
  "list_splice l a h = (if \<not> list_empty h l then list_splice_links l a (next_of h a) h else h)"

definition list_splice_tail :: "addr \<Rightarrow> addr \<Rightarrow> links \<Rightarrow> links" where
  "list_splice_tail l a h = (if \<not> list_empty h l then list_splice_links l (prev_of h a) a h else h)"

definition list_exchange :: "addr \<Rightarrow> addr \<Rightarrow> links \<Rightarrow> links" where
  "list_exchange n1 n2 h =
     list_exchange_links n1 (prev_of h n1) (next_of h n1) n2 (prev_of h n2) (next_of h n2) h"

text \<open>\<open>list_for_each\<close>: the nodes the loop visits, \<open>None\<close> when it does not end.\<close>

partial_function (option) list_iter :: "links \<Rightarrow> addr \<Rightarrow> addr \<Rightarrow> addr list \<Rightarrow> addr list option" where
  "list_iter h a pos acc =
     (if pos = a then Some (rev acc) else list_iter h a (next_of h pos) (pos # acc))"

definition list_for_each :: "links \<Rightarrow> addr \<Rightarrow> addr list option" where
  "list_for_each h a = list_iter h a (next_of h a) []"

text \<open>\<open>list_for_each_safe\<close> with the body of every use in the sources: unlink the nodes that
  satisfy a test. The successor is read before the body runs.\<close>

partial_function (option) list_safe_iter ::
    "(addr \<Rightarrow> bool) \<Rightarrow> addr \<Rightarrow> addr \<Rightarrow> addr \<Rightarrow> links \<Rightarrow> links option" where
  "list_safe_iter P a pos n h =
     (if pos = a then Some h
      else (let h = (if P pos then list_del pos h else h)
            in list_safe_iter P a n (next_of h n) h))"

definition list_del_each :: "(addr \<Rightarrow> bool) \<Rightarrow> addr \<Rightarrow> links \<Rightarrow> links option" where
  "list_del_each P a h = list_safe_iter P a (next_of h a) (next_of h (next_of h a)) h"

section \<open>Chains and rings\<close>

fun chain :: "links \<Rightarrow> addr \<Rightarrow> addr list \<Rightarrow> addr \<Rightarrow> bool" where
  "chain h a [] b \<longleftrightarrow> next_of h a = b \<and> prev_of h b = a"
| "chain h a (x # xs) b \<longleftrightarrow> next_of h a = x \<and> prev_of h x = a \<and> chain h x xs b"

definition ring :: "links \<Rightarrow> addr \<Rightarrow> addr list \<Rightarrow> bool" where
  "ring h a xs \<longleftrightarrow> distinct (a # xs) \<and> chain h a xs a"

lemma chain_set [simp]:
  "y \<notin> set (a # xs) \<Longrightarrow> chain (set_next y v h) a xs b = chain h a xs b"
  "y \<notin> set (b # xs) \<Longrightarrow> chain (set_prev y v h) a xs b = chain h a xs b"
  by (induction xs arbitrary: a) auto

lemma chain_append:
  "chain h a (xs @ y # ys) b \<longleftrightarrow> chain h a xs y \<and> chain h y ys b"
  by (induction xs arbitrary: a) auto

lemma chain_first: "chain h a xs b \<Longrightarrow> next_of h a = hd (xs @ [b])"
  by (cases xs) auto

lemma chain_last: "chain h a xs b \<Longrightarrow> prev_of h b = last (a # xs)"
  by (induction xs arbitrary: a) auto

lemma chain_insert:
  assumes "chain h a (xs @ ys) b" and "distinct (a # xs @ ys)" and "b \<notin> set (xs @ ys)"
    and "n \<notin> set (a # b # xs @ ys)"
  shows "chain (list_add_links n (last (a # xs)) (hd (ys @ [b])) h) a (xs @ n # ys) b"
  using assms
proof (induction xs arbitrary: a)
  case Nil
  then show ?case
    by (cases ys) (auto simp: list_add_links_def)
next
  case (Cons x xs)
  then have "x \<noteq> hd (ys @ [b])" "a \<noteq> last (x # xs)"
    using hd_in_set[of "ys @ [b]"] last_in_set[of "x # xs"] by auto
  with Cons show ?case
    by (simp add: list_add_links_def)
qed

lemma chain_remove:
  assumes "chain h a (xs @ x # ys) b" and "distinct (a # xs @ x # ys)" and "b \<notin> set (xs @ x # ys)"
  shows "chain (list_del x h) a (xs @ ys) b"
  using assms
proof (induction xs arbitrary: a)
  case Nil
  then show ?case
    by (cases ys) (auto simp: list_del_def Let_def)
next
  case (Cons z xs)
  have "chain h z xs x" "chain h x ys b"
    using Cons.prems(1) by (simp_all add: chain_append)
  then have "prev_of h x = last (z # xs)" "next_of h x = hd (ys @ [b])"
    using chain_last chain_first by blast+
  moreover have "z \<noteq> hd (ys @ [b])" "a \<noteq> last (z # xs)"
    using Cons.prems hd_in_set[of "ys @ [b]"] last_in_set[of "z # xs"] by auto
  ultimately show ?case
    using Cons by (simp add: list_del_def Let_def split: if_splits)
qed

section \<open>Each macro on the ring\<close>

lemma ring_init: "ring (list_init a h) a []"
  by (simp add: ring_def list_init_def)

lemma ring_empty: "ring h a xs \<Longrightarrow> list_empty h a \<longleftrightarrow> xs = []"
  by (cases xs) (auto simp: ring_def list_empty_def)

lemma ring_add:
  "ring h a xs \<Longrightarrow> n \<notin> set (a # xs) \<Longrightarrow> ring (list_add n a h) a (n # xs)"
  using chain_insert[of h a "[]" xs a n] chain_first[of h a xs a]
  by (auto simp: ring_def list_add_def)

lemma ring_add_tail:
  "ring h a xs \<Longrightarrow> n \<notin> set (a # xs) \<Longrightarrow> ring (list_add_tail n a h) a (xs @ [n])"
  using chain_insert[of h a xs "[]" a n] chain_last[of h a xs a]
  by (auto simp: ring_def list_add_tail_def)

lemma ring_del: "ring h a (xs @ x # ys) \<Longrightarrow> ring (list_del x h) a (xs @ ys)"
  using chain_remove[of h a xs x ys a] by (auto simp: ring_def)

lemma list_iter_chain:
  "chain h p xs a \<Longrightarrow> a \<notin> set xs \<Longrightarrow> list_iter h a (next_of h p) acc = Some (rev acc @ xs)"
proof (induction xs arbitrary: p acc)
  case Nil
  then show ?case by (simp add: list_iter.simps)
next
  case (Cons x xs)
  then have "list_iter h a (next_of h p) acc = list_iter h a (next_of h x) (x # acc)"
    by (subst list_iter.simps) auto
  with Cons show ?case by simp
qed

lemma ring_for_each: "ring h a xs \<Longrightarrow> list_for_each h a = Some xs"
  using list_iter_chain[of h a xs a "[]"] by (simp add: ring_def list_for_each_def)

lemma list_safe_iter_ring:
  assumes "ring h a (us @ xs)"
  shows "\<exists>h'. list_safe_iter P a (hd (xs @ [a])) (next_of h (hd (xs @ [a]))) h = Some h' \<and>
    ring h' a (us @ filter (\<lambda>x. \<not> P x) xs)"
  using assms
proof (induction xs arbitrary: us h)
  case Nil
  then show ?case by (simp add: list_safe_iter.simps)
next
  case (Cons x xs)
  let ?h = "if P x then list_del x h else h"
  have x: "x \<noteq> a" "chain h a us x" "chain h x xs a"
    using Cons.prems by (auto simp: ring_def chain_append)
  have nx: "next_of h x = hd (xs @ [a])"
    using chain_first[OF x(3)] .
  have step: "list_safe_iter P a x (next_of h x) h =
      list_safe_iter P a (hd (xs @ [a])) (next_of ?h (hd (xs @ [a]))) ?h"
    using x(1) by (subst list_safe_iter.simps) (simp add: nx Let_def)
  show ?case
  proof (cases "P x")
    case True
    with ring_del[OF Cons.prems] Cons.IH[of "list_del x h" us] step show ?thesis by simp
  next
    case False
    with Cons.prems Cons.IH[of h "us @ [x]"] step show ?thesis by simp
  qed
qed

lemma ring_del_each:
  assumes "ring h a xs"
  obtains h' where "list_del_each P a h = Some h'" and "ring h' a (filter (\<lambda>x. \<not> P x) xs)"
  using list_safe_iter_ring[of h a "[]" xs P] assms chain_first[of h a xs a]
  by (auto simp: list_del_each_def ring_def)

section \<open>Splicing and exchanging\<close>

text \<open>A chain seen as one path, so that it can be cut anywhere.\<close>

fun linked :: "links \<Rightarrow> addr list \<Rightarrow> bool" where
  "linked h (x # y # zs) \<longleftrightarrow> next_of h x = y \<and> prev_of h y = x \<and> linked h (y # zs)"
| "linked h _ \<longleftrightarrow> True"

lemma chain_linked: "chain h a xs b \<longleftrightarrow> linked h (a # xs @ [b])"
  by (induction xs arbitrary: a) auto

lemma linked_Cons:
  "vs \<noteq> [] \<Longrightarrow> linked h (x # vs) \<longleftrightarrow> next_of h x = hd vs \<and> prev_of h (hd vs) = x \<and> linked h vs"
  by (cases vs) auto

lemma linked_append:
  "us \<noteq> [] \<Longrightarrow> vs \<noteq> [] \<Longrightarrow> linked h (us @ vs) \<longleftrightarrow>
    linked h us \<and> linked h vs \<and> next_of h (last us) = hd vs \<and> prev_of h (hd vs) = last us"
proof (induction us rule: list_nonempty_induct)
  case (single x)
  then show ?case by (cases vs) auto
next
  case (cons x xs)
  then show ?case by (cases xs) auto
qed

lemma linked_set [simp]:
  "y \<notin> set (butlast us) \<Longrightarrow> linked (set_next y v h) us = linked h us"
  "y \<notin> set (tl us) \<Longrightarrow> linked (set_prev y v h) us = linked h us"
  by (induction h us rule: linked.induct) auto

lemma last_notin_butlast: "distinct us \<Longrightarrow> last us \<notin> set (butlast us)"
  by (induction us) auto

lemma hd_notin_tl: "distinct us \<Longrightarrow> hd us \<notin> set (tl us)"
  by (cases us) auto

text \<open>The ring as a cut path: any segment between the nodes of the head.\<close>

lemma ring_cut: "ring h a (xs @ zs) \<longleftrightarrow>
   distinct (a # xs @ zs) \<and> linked h (a # xs) \<and> linked h (zs @ [a]) \<and>
   next_of h (last (a # xs)) = hd (zs @ [a]) \<and> prev_of h (hd (zs @ [a])) = last (a # xs)"
  using linked_append[of "a # xs" "zs @ [a]" h] by (auto simp: ring_def chain_linked)

lemma cut_ends:
  assumes "distinct (a # xs @ zs)"
  shows "last (a # xs) \<in> set (a # xs)" "hd (zs @ [a]) \<in> set (zs @ [a])"
    "last (a # xs) \<notin> set (butlast (a # xs))" "hd (zs @ [a]) \<notin> set (tl (zs @ [a]))"
    "last (a # xs) \<notin> set zs" "hd (zs @ [a]) \<notin> set xs"
  using assms by ((cases xs rule: rev_cases; cases zs; auto simp: butlast_append)+)

lemma in_set_tlD: "x \<in> set (tl xs) \<Longrightarrow> x \<in> set xs"
  by (cases xs) auto

lemma linked_splice:
  assumes "A \<noteq> []" "B \<noteq> []" "ys \<noteq> []" "linked h A" "linked h B" "linked h ys"
    and l: "next_of h l = hd ys" "prev_of h l = last ys"
    and A: "last A \<notin> set (butlast A)" "last A \<notin> set (butlast B)"
    and B: "hd B \<notin> set (tl A)" "hd B \<notin> set (tl B)"
    and ys: "distinct ys" "set ys \<inter> (set A \<union> set B) = {}"
  shows "linked (list_splice_links l (last A) (hd B) h) (A @ ys @ B)"
proof -
  have mem: "last A \<in> set A" "hd B \<in> set B" "hd ys \<in> set ys" "last ys \<in> set ys"
      "hd ys \<notin> set (tl ys)" "last ys \<notin> set (butlast ys)"
    using assms(1-3) ys(1) by (simp_all add: hd_notin_tl last_notin_butlast)
  have out: "hd ys \<notin> set A" "hd ys \<notin> set B" "last ys \<notin> set A" "last ys \<notin> set B"
      "last A \<notin> set ys" "hd B \<notin> set ys"
    using ys mem by auto
  have far: "hd ys \<notin> set (tl A)" "hd ys \<notin> set (tl B)" "last ys \<notin> set (butlast A)"
      "last ys \<notin> set (butlast B)" "last A \<notin> set (butlast ys)" "hd B \<notin> set (tl ys)"
    using out by (auto dest: in_set_tlD in_set_butlastD)
  have ne: "hd ys \<noteq> hd B" "last ys \<noteq> last A" "last A \<noteq> last ys" "hd B \<noteq> hd ys"
    using out mem by metis+
  show ?thesis
    using assms(1-6) l A B mem far ne
    by (simp add: list_splice_links_def Let_def linked_append)
qed

lemma splice_between:
  assumes a: "ring h a (xs @ zs)" and l: "ring h l ys" and ne: "ys \<noteq> []"
    and dis: "set (l # ys) \<inter> set (a # xs @ zs) = {}"
  shows "ring (list_splice_links l (last (a # xs)) (hd (zs @ [a])) h) a (xs @ ys @ zs)"
proof -
  have d: "distinct (a # xs @ zs)" "linked h (a # xs)" "linked h (zs @ [a])"
    using a by (simp_all add: ring_cut)
  have fl: "next_of h l = hd ys" "prev_of h l = last ys" "linked h ys"
    using l ne linked_append[of "[l]" "ys @ [l]" h] linked_append[of ys "[l]" h]
    by (auto simp: ring_def chain_linked)
  have "linked (list_splice_links l (last (a # xs)) (hd (zs @ [a])) h) ((a # xs) @ ys @ (zs @ [a]))"
  proof (rule linked_splice)
    show "last (a # xs) \<notin> set (butlast (a # xs))" "hd (zs @ [a]) \<notin> set (tl (zs @ [a]))"
      "last (a # xs) \<notin> set (butlast (zs @ [a]))" "hd (zs @ [a]) \<notin> set (tl (a # xs))"
      using cut_ends[OF d(1)] by simp_all
  qed (use d l ne dis fl in \<open>auto simp: ring_def\<close>)
  moreover have "distinct (a # xs @ ys @ zs)"
    using a l dis by (auto simp: ring_def)
  ultimately show ?thesis
    by (simp add: ring_def chain_linked)
qed

lemma ring_splice:
  assumes "ring h a xs" and "ring h l ys" and "set (l # ys) \<inter> set (a # xs) = {}"
  shows "ring (list_splice l a h) a (ys @ xs)" and "ring (list_splice_tail l a h) a (xs @ ys)"
  using assms splice_between[of h a "[]" xs l ys] splice_between[of h a xs "[]" l ys]
    chain_first[of h a xs a] chain_last[of h a xs a] ring_empty[OF assms(2)]
  by (auto simp: list_splice_def list_splice_tail_def ring_def)

lemma linked_exchange:
  assumes "A \<noteq> []" "B \<noteq> []" "ys \<noteq> []" and lk: "linked h (A @ [n1] @ ys @ [n2] @ B)"
    and A: "last A \<notin> set (butlast A)" "last A \<notin> set (butlast B)"
    and B: "hd B \<notin> set (tl A)" "hd B \<notin> set (tl B)"
    and ys: "distinct (n1 # n2 # ys)" "set (n1 # n2 # ys) \<inter> (set A \<union> set B) = {}"
  shows "linked (list_exchange n1 n2 h) (A @ [n2] @ ys @ [n1] @ B)"
proof -
  have mem: "last A \<in> set A" "hd B \<in> set B" "hd ys \<in> set ys" "last ys \<in> set ys"
      "hd ys \<notin> set (tl ys)" "last ys \<notin> set (butlast ys)"
    using assms(1-3) ys(1) by (simp_all add: hd_notin_tl last_notin_butlast)
  have out: "x \<notin> set A" "x \<notin> set B" if "x \<in> {n1, n2, hd ys, last ys}" for x
    using that ys(2) mem(3,4) by auto
  have far: "x \<notin> set (tl A)" "x \<notin> set (tl B)" "x \<notin> set (butlast A)" "x \<notin> set (butlast B)"
    if "x \<in> {n1, n2, hd ys, last ys}" for x
    using out[OF that] by (auto dest: in_set_tlD in_set_butlastD)
  have near: "last A \<notin> set (butlast ys)" "hd B \<notin> set (tl ys)" "n1 \<notin> set (butlast ys)" "n1 \<notin> set (tl ys)"
      "n2 \<notin> set (butlast ys)" "n2 \<notin> set (tl ys)"
    using ys mem by (auto dest: in_set_tlD in_set_butlastD)
  have ne: "last A \<noteq> x" "hd B \<noteq> x" "x \<noteq> last A" "x \<noteq> hd B" if "x \<in> {n1, n2, hd ys, last ys}" for x
    using out[OF that] mem by auto
  have ne2: "n1 \<noteq> n2" "n1 \<noteq> hd ys" "n1 \<noteq> last ys" "n2 \<noteq> hd ys" "n2 \<noteq> last ys"
    using ys(1) mem by auto
  show ?thesis
    using lk assms(1-3) A B mem far near ne ne2 ne2[symmetric]
    by (simp add: list_exchange_def list_exchange_links_def Let_def linked_append linked_Cons)
qed

lemma ring_exchange:
  assumes r: "ring h a (xs @ [n1] @ ys @ [n2] @ zs)" and ne: "ys \<noteq> []"
  shows "ring (list_exchange n1 n2 h) a (xs @ [n2] @ ys @ [n1] @ zs)"
proof -
  have dis: "distinct (a # xs @ [n1] @ ys @ [n2] @ zs)"
    using r by (simp add: ring_def)
  then have d: "distinct (a # xs @ zs)" by auto
  have "linked (list_exchange n1 n2 h) ((a # xs) @ [n2] @ ys @ [n1] @ (zs @ [a]))"
  proof (rule linked_exchange)
    show "linked h ((a # xs) @ [n1] @ ys @ [n2] @ (zs @ [a]))"
      using r by (simp add: ring_def chain_linked)
    show "last (a # xs) \<notin> set (butlast (a # xs))" "hd (zs @ [a]) \<notin> set (tl (zs @ [a]))"
      "last (a # xs) \<notin> set (butlast (zs @ [a]))" "hd (zs @ [a]) \<notin> set (tl (a # xs))"
      using cut_ends[OF d] by simp_all
  qed (use dis ne in auto)
  with dis show ?thesis by (auto simp: ring_def chain_linked)
qed

section \<open>The contract of a node list\<close>

locale node_list =
  fixes rep :: "'h \<Rightarrow> addr \<Rightarrow> addr list \<Rightarrow> bool"
    and init :: "addr \<Rightarrow> 'h \<Rightarrow> 'h"
    and push_front :: "addr \<Rightarrow> addr \<Rightarrow> 'h \<Rightarrow> 'h"
    and push_back :: "addr \<Rightarrow> addr \<Rightarrow> 'h \<Rightarrow> 'h"
    and unlink :: "addr \<Rightarrow> 'h \<Rightarrow> 'h"
    and visit :: "'h \<Rightarrow> addr \<Rightarrow> addr list option"
  assumes rep_distinct: "rep h a xs \<Longrightarrow> distinct (a # xs)"
    and rep_init: "rep (init a h) a []"
    and rep_front: "rep h a xs \<Longrightarrow> n \<notin> set (a # xs) \<Longrightarrow> rep (push_front n a h) a (n # xs)"
    and rep_back: "rep h a xs \<Longrightarrow> n \<notin> set (a # xs) \<Longrightarrow> rep (push_back n a h) a (xs @ [n])"
    and rep_unlink: "rep h a (xs @ x # ys) \<Longrightarrow> rep (unlink x h) a (xs @ ys)"
    and rep_visit: "rep h a xs \<Longrightarrow> visit h a = Some xs"
begin

lemma rep_unique: "rep h a xs \<Longrightarrow> rep h a ys \<Longrightarrow> xs = ys"
  by (auto dest!: rep_visit)

text \<open>Adding at the front makes a stack, adding at the tail a queue.\<close>

lemma front_all:
  "rep h a xs \<Longrightarrow> distinct ns \<Longrightarrow> set ns \<inter> set (a # xs) = {} \<Longrightarrow>
   rep (fold (\<lambda>n. push_front n a) ns h) a (rev ns @ xs)"
proof (induction ns arbitrary: h xs)
  case (Cons n ns)
  then have "rep (push_front n a h) a (n # xs)" by (intro rep_front) auto
  with Cons.IH[of "push_front n a h" "n # xs"] Cons.prems show ?case by auto
qed simp

lemma back_all:
  "rep h a xs \<Longrightarrow> distinct ns \<Longrightarrow> set ns \<inter> set (a # xs) = {} \<Longrightarrow>
   rep (fold (\<lambda>n. push_back n a) ns h) a (xs @ ns)"
proof (induction ns arbitrary: h xs)
  case (Cons n ns)
  then have "rep (push_back n a h) a (xs @ [n])" by (intro rep_back) auto
  with Cons.IH[of "push_back n a h" "xs @ [n]"] Cons.prems show ?case by auto
qed simp

lemma queue_pop: "rep h a (x # xs) \<Longrightarrow> rep (unlink x h) a xs"
  using rep_unlink[of h a "[]" x xs] by simp

lemma unlink_all:
  "rep h a (xs @ ys) \<Longrightarrow> rep (fold unlink xs h) a ys"
  by (induction xs arbitrary: h) (auto intro: queue_pop)

end

interpretation ring_list: node_list ring list_init list_add list_add_tail list_del list_for_each
proof unfold_locales
  show "distinct (a # xs)" if "ring h a xs" for h a xs using that by (simp add: ring_def)
qed (auto intro: ring_init ring_add ring_add_tail ring_del ring_for_each)

section \<open>Properties\<close>

text \<open>nodes added at the tail of a ring are visited in the order of insertion after the ones already
  there, nodes added at the head in reverse order before them, and the traversal ends.\<close>

theorem list_add_orders:
  assumes "ring h a xs" and "distinct ns" and "set ns \<inter> set (a # xs) = {}"
  shows "list_for_each (fold (\<lambda>n. list_add_tail n a) ns h) a = Some (xs @ ns) \<and>
    list_for_each (fold (\<lambda>n. list_add n a) ns h) a = Some (rev ns @ xs)"
  using ring_list.rep_visit[OF ring_list.back_all[OF assms]]
    ring_list.rep_visit[OF ring_list.front_all[OF assms]] by blast

theorem list_add_orders_witness:
  "list_for_each (fold (\<lambda>n. list_add_tail n 9) [1, 2, 3] (list_init 9 \<lparr>next_of = id, prev_of = id\<rparr>)) 9 =
     Some [1, 2, 3]"
  using list_add_orders[OF ring_init[of 9 "\<lparr>next_of = id, prev_of = id\<rparr>"], of "[1, 2, 3]"] by simp

text \<open>C15: the safe traversal that unlinks every node satisfying a test ends and leaves exactly the other
  nodes, in their order.\<close>

theorem list_del_each_filters:
  assumes "ring h a xs"
  shows "\<exists>h'. list_del_each P a h = Some h' \<and> ring h' a (filter (\<lambda>x. \<not> P x) xs) \<and>
    list_for_each h' a = Some (filter (\<lambda>x. \<not> P x) xs)"
  using ring_del_each[OF assms, of P] ring_for_each by metis

theorem list_del_each_filters_witness:
  "\<exists>h'. list_del_each even 9 (list_add 4 9 (list_add 5 9 (list_init 9 \<lparr>next_of = id, prev_of = id\<rparr>))) = Some h' \<and>
     list_for_each h' 9 = Some [5]"
proof -
  have "ring (list_add 4 9 (list_add 5 9 (list_init 9 \<lparr>next_of = id, prev_of = id\<rparr>))) 9 [4, 5]"
    by (intro ring_add ring_init) auto
  from list_del_each_filters[OF this, of even] show ?thesis by auto
qed

text \<open>splicing moves the nodes of one ring, in order, to the front or the back of another.\<close>

theorem list_splice_moves:
  assumes "ring h a xs" and "ring h l ys" and "set (l # ys) \<inter> set (a # xs) = {}"
  shows "list_for_each (list_splice l a h) a = Some (ys @ xs) \<and>
    list_for_each (list_splice_tail l a h) a = Some (xs @ ys)"
  using ring_splice[OF assms] ring_for_each by blast

theorem list_splice_moves_witness:
  "list_for_each (list_splice 1 0 \<lparr>next_of = id(1 := 2, 2 := 1), prev_of = id(1 := 2, 2 := 1)\<rparr>) 0 = Some [2]"
proof -
  let ?h = "\<lparr>next_of = id(1 := 2, 2 := 1), prev_of = id(1 := 2, 2 := 1)\<rparr> :: links"
  have "ring ?h 0 []" "ring ?h 1 [2]" by (simp_all add: ring_def)
  from list_splice_moves[OF this] show ?thesis by simp
qed

text \<open>exchanging two nodes of a ring that are not neighbours swaps their places.\<close>

theorem list_exchange_swaps:
  assumes "ring h a (xs @ [n1] @ ys @ [n2] @ zs)" and "ys \<noteq> []"
  shows "list_for_each (list_exchange n1 n2 h) a = Some (xs @ [n2] @ ys @ [n1] @ zs)"
  using ring_exchange[OF assms] ring_for_each by blast

theorem list_exchange_swaps_witness:
  "list_for_each (list_exchange 1 3 \<lparr>next_of = (\<lambda>x. (x + 1) mod 4), prev_of = (\<lambda>x. (x + 3) mod 4)\<rparr>) 0 =
     Some [3, 2, 1]"
  using list_exchange_swaps[of "\<lparr>next_of = (\<lambda>x. (x + 1) mod 4), prev_of = (\<lambda>x. (x + 3) mod 4)\<rparr>" 0 "[]" 1 "[2]" 3 "[]"]
  by (simp add: ring_def)

text \<open>A traversal that reaches a node linked to itself does not end.\<close>

lemma list_iter_self_loop:
  assumes "next_of h n = n" and "n \<noteq> a"
  shows "list_iter h a n acc = None"
proof (rule ccontr)
  assume "list_iter h a n acc \<noteq> None"
  then obtain r where r: "list_iter h a n acc = Some r" by blast
  have "\<not> (next_of h n = n \<and> n \<noteq> a)"
  proof (rule list_iter.raw_induct[where P = "\<lambda>h a n acc r. \<not> (next_of h n = n \<and> n \<noteq> a)", OF _ r])
    fix f h a pos acc r
    assume IH: "\<And>h a n acc r. f h a n acc = Some r \<Longrightarrow> \<not> (next_of h n = n \<and> n \<noteq> a)"
      and eq: "(if pos = a then Some (rev acc) else f h a (next_of h pos) (pos # acc)) = Some r"
    show "\<not> (next_of h pos = pos \<and> pos \<noteq> a)"
      using IH[of h a pos "pos # acc" r] eq by (cases "pos = a") auto
  qed
  with assms show False by blast
qed

lemma list_iter_to:
  "linked h (p # xs @ [q]) \<Longrightarrow> a \<notin> set xs \<Longrightarrow>
   \<exists>acc'. list_iter h a (next_of h p) acc = list_iter h a q acc'"
proof (induction xs arbitrary: p acc)
  case Nil
  then show ?case by auto
next
  case (Cons x xs)
  then have "list_iter h a (next_of h p) acc = list_iter h a (next_of h x) (x # acc)"
    by (subst list_iter.simps) auto
  with Cons show ?case by auto
qed

text \<open>exchanging two neighbours corrupts the ring: the second node ends up linked to itself, the first
  too, and a traversal of the ring no longer ends.\<close>

theorem list_exchange_neighbours_corrupts:
  assumes "ring h a (xs @ n1 # n2 # zs)"
  shows "next_of (list_exchange n1 n2 h) n2 = n2 \<and> prev_of (list_exchange n1 n2 h) n1 = n1 \<and>
    list_for_each (list_exchange n1 n2 h) a = None"
proof -
  let ?h = "list_exchange n1 n2 h"
  have dis: "distinct (a # xs @ n1 # n2 # zs)" and lk: "linked h ((a # xs) @ n1 # n2 # zs @ [a])"
    using assms by (simp_all add: ring_def chain_linked)
  have pre: "linked h (a # xs)" "prev_of h n1 = last (a # xs)" "next_of h n1 = n2" "prev_of h n2 = n1"
      "next_of h n2 = hd (zs @ [a])"
    using lk by (auto simp: linked_append linked_Cons simp del: append_Cons)
  have d: "distinct (a # xs @ zs)" using dis by auto
  note ends = cut_ends[OF d]
  have ne: "last (a # xs) \<notin> {n1, n2}" "hd (zs @ [a]) \<notin> {n1, n2}"
    using dis ends(1,2) by auto
  have loop: "next_of ?h n2 = n2" "prev_of ?h n1 = n1" "next_of ?h (last (a # xs)) = n2" "prev_of ?h n2 = n2"
    using pre ne dis by (auto simp: list_exchange_def list_exchange_links_def Let_def)
  have "list_iter ?h a (next_of ?h a) [] = None"
  proof (cases xs rule: rev_cases)
    case Nil
    with loop dis show ?thesis using list_iter_self_loop[of ?h n2 a] by simp
  next
    case (snoc ys y)
    have "linked ?h (a # ys @ [y])"
      using pre ends dis snoc
      by (auto simp: list_exchange_def list_exchange_links_def Let_def butlast_append
          dest: in_set_tlD in_set_butlastD)
    with list_iter_to[of ?h a ys y a "[]"] obtain acc where
      "list_iter ?h a (next_of ?h a) [] = list_iter ?h a y acc" using dis snoc by auto
    also have "\<dots> = list_iter ?h a n2 (y # acc)"
      using loop(3) dis snoc by (subst list_iter.simps) auto
    finally show ?thesis using list_iter_self_loop[of ?h n2 a] loop(1) dis by simp
  qed
  with loop show ?thesis by (simp add: list_for_each_def)
qed

theorem list_exchange_neighbours_corrupts_witness:
  "list_for_each (list_exchange 1 2 \<lparr>next_of = (\<lambda>x. (x + 1) mod 3), prev_of = (\<lambda>x. (x + 2) mod 3)\<rparr>) 0 = None"
  using list_exchange_neighbours_corrupts[of "\<lparr>next_of = (\<lambda>x. (x + 1) mod 3), prev_of = (\<lambda>x. (x + 2) mod 3)\<rparr>" 0 "[]" 1 2 "[]"]
  by (simp add: ring_def)

end
