(* ===== verification/C_String.thy ===== *)
theory C_String
  imports Simple_Prelude
begin

text \<open>
  The functions of the C library on strings and characters that the sources call. A byte is a
  \<open>char\<close>; the memory a \<open>char *\<close> points to is a list, and the C string in it ends before the
  first NUL.
\<close>

section \<open>Characters and C strings\<close>

abbreviation NUL :: char where "NUL \<equiv> CHR 0x00"
abbreviation CR :: char where "CR \<equiv> CHR 0x0D"
abbreviation LF :: char where "LF \<equiv> CHR 0x0A"
abbreviation TAB :: char where "TAB \<equiv> CHR 0x09"

abbreviation crlf :: string where "crlf \<equiv> [CR, LF]"

definition c_str :: "string \<Rightarrow> string" where
  "c_str s = takeWhile (\<lambda>c. c \<noteq> NUL) s"

definition nul_free :: "string \<Rightarrow> bool" where
  "nul_free s \<longleftrightarrow> NUL \<notin> set s"

lemma c_str_nul_free [simp]: "nul_free s \<Longrightarrow> c_str s = s"
  by (auto simp: c_str_def nul_free_def takeWhile_eq_all_conv)

lemma c_str_append_NUL: "nul_free s \<Longrightarrow> c_str (s @ NUL # t) = s"
  by (induction s) (auto simp: c_str_def nul_free_def)

lemma nul_free_c_str [simp]: "nul_free (c_str s)"
  by (auto simp: c_str_def nul_free_def dest: set_takeWhileD)

lemma nul_free_simps [simp]:
  "nul_free []"
  "nul_free (c # s) \<longleftrightarrow> c \<noteq> NUL \<and> nul_free s"
  "nul_free (s @ t) \<longleftrightarrow> nul_free s \<and> nul_free t"
  by (auto simp: nul_free_def)

text \<open>\<open>tolower\<close> of the C locale and \<open>strcasecmp (s, t) == 0\<close>.\<close>

definition c_tolower :: "char \<Rightarrow> char" where
  "c_tolower c = (let n = (of_char c :: nat) in if 65 \<le> n \<and> n \<le> 90 then char_of (n + 32) else c)"

definition str_case_eq :: "string \<Rightarrow> string \<Rightarrow> bool" where
  "str_case_eq s t \<longleftrightarrow> map c_tolower (c_str s) = map c_tolower (c_str t)"

lemma str_case_eq_refl [simp]: "str_case_eq s s"
  by (simp add: str_case_eq_def)

lemma str_case_eq_sym: "str_case_eq s t \<longleftrightarrow> str_case_eq t s"
  by (auto simp: str_case_eq_def)

lemma str_case_eq_trans: "str_case_eq s t \<Longrightarrow> str_case_eq t u \<Longrightarrow> str_case_eq s u"
  by (simp add: str_case_eq_def)

lemma str_case_eq_c_str [simp]:
  "str_case_eq (c_str s) t = str_case_eq s t" "str_case_eq s (c_str t) = str_case_eq s t"
  by (simp_all add: str_case_eq_def)

section \<open>Numbers in text\<close>

definition is_digit :: "char \<Rightarrow> bool" where
  "is_digit c \<longleftrightarrow> 48 \<le> (of_char c :: nat) \<and> (of_char c :: nat) \<le> 57"

definition digit_val :: "char \<Rightarrow> nat" where
  "digit_val c = of_char c - 48"

definition digit_char :: "nat \<Rightarrow> char" where
  "digit_char d = char_of (48 + d)"

definition digits_val :: "string \<Rightarrow> nat" where
  "digits_val s = foldl (\<lambda>a c. a * 10 + digit_val c) 0 s"

text \<open>\<open>isspace\<close> as \<open>atoi\<close> uses it, in the C locale.\<close>

definition libc_isspace :: "char \<Rightarrow> bool" where
  "libc_isspace c \<longleftrightarrow> c = CHR '' '' \<or> 9 \<le> (of_char c :: nat) \<and> (of_char c :: nat) \<le> 13"

text \<open>\<open>atoi\<close>: blanks, a sign, digits; a value outside int is undefined behaviour.\<close>

definition c_atoi :: "string \<Rightarrow> int result" where
  "c_atoi s =
     (let s = dropWhile libc_isspace (c_str s);
          neg = (case s of c # _ \<Rightarrow> c = CHR ''-'' | [] \<Rightarrow> False);
          s = (case s of c # t \<Rightarrow> if c = CHR ''-'' \<or> c = CHR ''+'' then t else s | [] \<Rightarrow> s);
          v = int (digits_val (takeWhile is_digit s))
      in c_int (if neg then - v else v))"

text \<open>\<open>%u\<close> and \<open>%d\<close> of a value that is not negative.\<close>

fun dec_str :: "nat \<Rightarrow> string" where
  "dec_str n = (if n < 10 then [digit_char n] else dec_str (n div 10) @ [digit_char (n mod 10)])"

declare dec_str.simps [simp del]

lemma digit_char_facts:
  assumes "d < 10"
  shows "is_digit (digit_char d)" "digit_val (digit_char d) = d" "digit_char d \<noteq> NUL"
    "\<not> libc_isspace (digit_char d)" "digit_char d \<noteq> CHR ''-''" "digit_char d \<noteq> CHR ''+''"
    "digit_char d \<noteq> CR" "digit_char d \<noteq> LF" "digit_char d \<noteq> CHR '' ''" "digit_char d \<noteq> TAB"
proof -
  have val: "(of_char (digit_char d) :: nat) = 48 + d"
    using assms by (simp add: digit_char_def)
  then have ne: "digit_char d \<noteq> c" if "(of_char c :: nat) < 48" for c
    using that by auto
  show "is_digit (digit_char d)" "digit_val (digit_char d) = d"
    using assms val by (simp_all add: is_digit_def digit_val_def)
  show "digit_char d \<noteq> NUL" "digit_char d \<noteq> CHR ''-''" "digit_char d \<noteq> CHR ''+''"
    "digit_char d \<noteq> CR" "digit_char d \<noteq> LF" and sp: "digit_char d \<noteq> CHR '' ''" and "digit_char d \<noteq> TAB"
    by (rule ne; simp)+
  show "\<not> libc_isspace (digit_char d)"
    using val sp by (simp add: libc_isspace_def)
qed

lemma dec_str_length: "n < 10 ^ Suc k \<Longrightarrow> length (dec_str n) \<le> Suc k"
proof (induction k arbitrary: n)
  case 0
  then show ?case by (subst dec_str.simps) simp
next
  case (Suc k)
  then have "n div 10 < 10 ^ Suc k" by (simp add: div_less_iff_less_mult)
  from Suc.IH[OF this] show ?case by (subst dec_str.simps) simp
qed

lemma dec_str_props:
  "dec_str n \<noteq> []" "list_all is_digit (dec_str n)" "digits_val (dec_str n) = n"
proof (induction n rule: dec_str.induct)
  case (1 n)
  {
    case 1 show ?case by (subst dec_str.simps) simp
  next
    case 2 show ?case using "1.IH"(2) by (subst dec_str.simps) (simp add: digit_char_facts)
  next
    case 3 show ?case using "1.IH"(3) by (subst dec_str.simps) (simp add: digit_char_facts digits_val_def)
  }
qed

lemma is_digit_other: "is_digit c \<Longrightarrow> c \<noteq> NUL \<and> \<not> libc_isspace c \<and> c \<noteq> CHR ''-'' \<and> c \<noteq> CHR ''+'' \<and>
    c \<noteq> CR \<and> c \<noteq> LF \<and> c \<noteq> CHR '' '' \<and> c \<noteq> TAB"
  by (auto simp: is_digit_def libc_isspace_def)

lemma nul_free_digits: "list_all is_digit s \<Longrightarrow> nul_free s"
  by (induction s) (auto simp: is_digit_other)

text \<open>Printing a number and reading it back.\<close>

lemma atoi_dec_str: "n < 2147483648 \<Longrightarrow> c_atoi (dec_str n) = Inr (int n)"
proof -
  assume n: "n < 2147483648"
  obtain c s where s: "dec_str n = c # s" "is_digit c" "list_all is_digit s"
    using dec_str_props(1,2)[of n] by (cases "dec_str n") auto
  have "dropWhile libc_isspace (c_str (dec_str n)) = dec_str n"
    using dec_str_props(2)[of n] s by (simp add: nul_free_digits is_digit_other)
  moreover have "takeWhile is_digit (dec_str n) = dec_str n"
    using dec_str_props(2)[of n] by (simp add: takeWhile_eq_all_conv list_all_iff)
  ultimately show ?thesis
    using s n dec_str_props(3)[of n] by (simp add: c_atoi_def Let_def is_digit_other takeWhile_eq_all_conv[THEN iffD2])
qed

section \<open>Formatting into a buffer\<close>

text \<open>\<open>sprintf\<close> and \<open>strcpy\<close> store the text and its NUL; the result is the new position.\<close>

definition put_text :: "string \<Rightarrow> int \<Rightarrow> string \<Rightarrow> (string \<times> int) result" where
  "put_text b p txt = bind_r (mem_write b p (txt @ [NUL])) (\<lambda>b. Inr (b, p + int (length txt)))"

text \<open>\<open>at_text b pre\<close>: the buffer begins with the text written so far.\<close>

definition at_text :: "string \<Rightarrow> string \<Rightarrow> bool" where
  "at_text b pre \<longleftrightarrow> take (length pre) b = pre"

lemma put_text_at:
  assumes "at_text b pre" and "length pre + length txt < length b"
  obtains b' where "put_text b (int (length pre)) txt = Inr (b', int (length (pre @ txt)))"
    and "at_text b' (pre @ txt)" and "length b' = length b"
proof -
  let ?b = "pre @ (txt @ [NUL]) @ drop (length pre + length (txt @ [NUL])) b"
  have "mem_write b (int (length pre)) (txt @ [NUL]) = Inr ?b"
    using assms by (simp add: mem_write_ok at_text_def)
  then show thesis
    using assms by (intro that[of ?b]) (simp_all add: put_text_def at_text_def)
qed

lemma put_text_full: "int (length b) \<le> p + int (length txt) \<Longrightarrow> 0 \<le> p \<Longrightarrow> put_text b p txt = Inl Mem_Bounds"
  by (simp add: put_text_def mem_write_def)

section \<open>Tokens\<close>

text \<open>One call of \<open>strtok\<close>: the token, and what the next call starts from.\<close>

definition strtok :: "char \<Rightarrow> string \<Rightarrow> (string \<times> string) option" where
  "strtok d s =
     (let s = dropWhile (\<lambda>c. c = d) s
      in if s = [] then None
         else Some (takeWhile (\<lambda>c. c \<noteq> d) s, drop 1 (dropWhile (\<lambda>c. c \<noteq> d) s)))"

lemma strtok_shorter: "strtok d s = Some (p, s') \<Longrightarrow> length s' < length s"
proof -
  assume a: "strtok d s = Some (p, s')"
  let ?t = "dropWhile (\<lambda>c. c = d) s"
  have "length ?t \<le> length s" by (rule length_dropWhile_le)
  moreover have "length (dropWhile (\<lambda>c. c \<noteq> d) ?t) \<le> length ?t" by (rule length_dropWhile_le)
  moreover have "?t \<noteq> []" "s' = drop 1 (dropWhile (\<lambda>c. c \<noteq> d) ?t)"
    using a by (auto simp: strtok_def Let_def split: if_splits)
  ultimately show ?thesis by (cases ?t) auto
qed

end
