(* ===== verification/Http_Message.thy ===== *)
theory Http_Message
  imports C_String Intrusive_List
begin

text \<open>
  HTTP messages: the records of \<open>src/include/simple/httpparser.h\<close> and \<open>src/src/httpc_impl.h\<close>
  and the operations of \<open>src/src/httpc.c\<close>. The ring of \<open>HttpHeader\<close> nodes is the list of its
  key/value pairs in ring order, first node first; \<open>header_ring\<close> relates it to the store of
  \<open>Intrusive_List\<close>, and the refinement lemmas show that the ring operations act on the list as
  the model does.
\<close>

section \<open>Data\<close>

datatype HttpParserState =
    HTTP_UNKNOWN | HTTP_STARTLINE | HTTP_HEADERS | HTTP_BODY | HTTP_COMPLETE
  | HTTP_CR | HTTP_CRLF | HTTP_LSW

type_synonym http_header = "string \<times> string"

text \<open>\<open>linedata\<close> holds the first \<open>line_datasize\<close> bytes of the line buffer, the only ones that were
  written since the line began; \<open>last_state\<close> is not initialised by the parser.\<close>

record ParserData =
  linedata :: string
  line_bufsize :: nat
  state :: HttpParserState
  last_state :: "HttpParserState option"

record HttpMessage =
  p1 :: "string option"
  p2 :: "string option"
  p3 :: "string option"
  headers :: "http_header list"
  header_cnt :: int
  body :: "string option"
  bodylen :: int
  pri_data :: "ParserData option"

definition httpc_Message_create :: HttpMessage where
  "httpc_Message_create =
     \<lparr>p1 = None, p2 = None, p3 = None, headers = [], header_cnt = 0,
      body = None, bodylen = 0, pri_data = None\<rparr>"

section \<open>Headers\<close>

definition make_kvpair :: "string \<Rightarrow> string \<Rightarrow> http_header" where
  "make_kvpair key val = (c_str key, c_str val)"

definition httpc_Message_setStartLine ::
    "HttpMessage option \<Rightarrow> string option \<Rightarrow> string option \<Rightarrow> string option \<Rightarrow> HttpMessage option" where
  "httpc_Message_setStartLine msg a b c =
     (case (msg, a, b, c) of
        (Some m, Some a, Some b, Some c) \<Rightarrow>
          Some (m\<lparr>p1 := Some (c_str a), p2 := Some (c_str b), p3 := Some (c_str c)\<rparr>)
      | _ \<Rightarrow> msg)"

definition httpc_Message_setValue :: "HttpMessage \<Rightarrow> string \<Rightarrow> string \<Rightarrow> HttpMessage \<times> int" where
  "httpc_Message_setValue m key val =
     (m\<lparr>headers := make_kvpair key val # headers m, header_cnt := header_cnt m + 1\<rparr>, 0)"

fun header_find :: "string \<Rightarrow> http_header list \<Rightarrow> string option" where
  "header_find key [] = None"
| "header_find key ((k, v) # hs) = (if str_case_eq k key then Some v else header_find key hs)"

text \<open>The return value, and what is stored at the caller's \<open>value\<close> pointer.\<close>

definition httpc_Message_getValue :: "HttpMessage \<Rightarrow> string \<Rightarrow> int \<times> string option" where
  "httpc_Message_getValue m key =
     (case header_find key (headers m) of None \<Rightarrow> (0, None) | Some v \<Rightarrow> (1, Some v))"

definition httpc_Message_delValue :: "HttpMessage \<Rightarrow> string \<Rightarrow> HttpMessage \<times> int" where
  "httpc_Message_delValue m key =
     (m\<lparr>headers := filter (\<lambda>h. \<not> str_case_eq (fst h) key) (headers m)\<rparr>, 0)"

section \<open>Body\<close>

definition body_bytes :: "HttpMessage \<Rightarrow> string" where
  "body_bytes m = (case body m of None \<Rightarrow> [] | Some b \<Rightarrow> b)"

text \<open>The block after \<open>realloc (body, bodylen + len)\<close> and \<open>memcpy (&body[bodylen], data, len)\<close>:
  its first \<open>bodylen\<close> bytes must have been written before.\<close>

definition grow_body :: "HttpMessage \<Rightarrow> string \<Rightarrow> int \<Rightarrow> HttpMessage result" where
  "grow_body m d len =
     bind_r (c_int (bodylen m + len)) (\<lambda>n.
     bind_r (mem_read d 0 len) (\<lambda>d.
     let old = body_bytes m in
     bind_r (check_r (0 \<le> bodylen m \<and> bodylen m \<le> int (length old)) Uninit_Read) (\<lambda>_.
     Inr (m\<lparr>body := Some (take (nat (bodylen m)) old @ d), bodylen := n\<rparr>))))"

definition httpc_Message_appendBody ::
    "HttpMessage option \<Rightarrow> string \<Rightarrow> int \<Rightarrow> (HttpMessage option \<times> int) result" where
  "httpc_Message_appendBody msg d len =
     (case msg of
        None \<Rightarrow> Inr (None, -1)
      | Some m \<Rightarrow>
          if len = 0 then Inr (Some m, bodylen m)
          else bind_r (grow_body m d len) (\<lambda>m.
               let tmp = dec_str (nat (bodylen m mod 2 ^ 32));
                   (m, _) = httpc_Message_setValue m ''Content-Length'' tmp
               in Inr (Some m, bodylen m)))"

definition httpc_Message_clearBody :: "HttpMessage option \<Rightarrow> HttpMessage option" where
  "httpc_Message_clearBody msg = map_option (\<lambda>m. m\<lparr>body := None, bodylen := 0\<rparr>) msg"

definition httpc_Message_getBody :: "HttpMessage option \<Rightarrow> int \<times> string option" where
  "httpc_Message_getBody msg = (case msg of None \<Rightarrow> (-1, None) | Some m \<Rightarrow> (bodylen m, body m))"

section \<open>Encoding\<close>

text \<open>The length is summed up in an \<open>int\<close>; what leaves its range is a fault, also where a \<open>size_t\<close> is added
  and the standard leaves the result to the implementation.\<close>

fun headers_length :: "int \<Rightarrow> http_header list \<Rightarrow> int result" where
  "headers_length len [] = Inr len"
| "headers_length len ((k, v) # hs) =
     bind_r (c_int (len + (int (length k) + 2))) (\<lambda>len.
     bind_r (c_int (len + int (length v))) (\<lambda>len.
     bind_r (c_int (len + 2)) (\<lambda>len. headers_length len hs)))"

definition httpc_Message_get_encode_length :: "HttpMessage option \<Rightarrow> bool \<Rightarrow> int result" where
  "httpc_Message_get_encode_length msg with_body =
     (case msg of
        None \<Rightarrow> Inr (-1)
      | Some m \<Rightarrow>
          (case (p1 m, p2 m, p3 m) of
             (Some a, Some b, Some c) \<Rightarrow>
               bind_r (c_int (int (length a) + 1)) (\<lambda>len.
               bind_r (c_int (len + (int (length b) + 1))) (\<lambda>len.
               bind_r (c_int (len + int (length c))) (\<lambda>len.
               bind_r (c_int (len + 2)) (\<lambda>len.
               bind_r (headers_length len (headers m)) (\<lambda>len.
               bind_r (c_int (len + 2)) (\<lambda>len.
               if with_body then c_int (len + bodylen m) else Inr len))))))
           | _ \<Rightarrow> Inr (-1)))"

fun encode_headers :: "string \<Rightarrow> int \<Rightarrow> http_header list \<Rightarrow> (string \<times> int) result" where
  "encode_headers b p [] = Inr (b, p)"
| "encode_headers b p ((k, v) # hs) =
     bind_r (put_text b p (k @ '': '' @ v @ crlf)) (\<lambda>(b, p). encode_headers b p hs)"

definition httpc_Message_encode :: "HttpMessage \<Rightarrow> string \<Rightarrow> bool \<Rightarrow> string result" where
  "httpc_Message_encode m b with_body =
     (case (p1 m, p2 m, p3 m) of
        (Some x, Some y, Some z) \<Rightarrow>
          bind_r (put_text b 0 (x @ '' '' @ y @ '' '' @ z @ crlf)) (\<lambda>(b, p).
          bind_r (encode_headers b p (headers m)) (\<lambda>(b, p).
          bind_r (put_text b p crlf) (\<lambda>(b, p).
          if with_body \<and> bodylen m \<noteq> 0
          then (case body m of
                  None \<Rightarrow> Inl Null_Ptr
                | Some d \<Rightarrow> bind_r (mem_read d 0 (bodylen m)) (\<lambda>d. mem_write b p d))
          else Inr b)))
      | _ \<Rightarrow> Inl Null_Ptr)"

section \<open>Well-formed messages\<close>

definition body_ok :: "HttpMessage \<Rightarrow> bool" where
  "body_ok m \<longleftrightarrow> int_ok (bodylen m) \<and> bodylen m = int (length (body_bytes m))"

definition headers_ok :: "HttpMessage \<Rightarrow> bool" where
  "headers_ok m \<longleftrightarrow> list_all (\<lambda>(k, v). nul_free k \<and> nul_free v) (headers m)"

definition message_ok :: "HttpMessage \<Rightarrow> bool" where
  "message_ok m \<longleftrightarrow> body_ok m \<and> headers_ok m \<and>
     (\<forall>s \<in> set_option (p1 m) \<union> set_option (p2 m) \<union> set_option (p3 m). nul_free s)"

lemmas message_ok_defs = message_ok_def body_ok_def headers_ok_def body_bytes_def

lemma message_ok_create: "message_ok httpc_Message_create"
  by (simp add: message_ok_defs httpc_Message_create_def int_ok_def)

lemma message_ok_setStartLine:
  "message_ok m \<Longrightarrow> httpc_Message_setStartLine (Some m) a b c = Some m' \<Longrightarrow> message_ok m'"
  by (auto simp: message_ok_defs httpc_Message_setStartLine_def split: option.splits)

lemma message_ok_setValue: "message_ok m \<Longrightarrow> message_ok (fst (httpc_Message_setValue m k v))"
  by (auto simp: message_ok_defs httpc_Message_setValue_def make_kvpair_def)

lemma message_ok_delValue: "message_ok m \<Longrightarrow> message_ok (fst (httpc_Message_delValue m k))"
  by (auto simp: message_ok_defs httpc_Message_delValue_def list_all_iff)

lemma message_ok_clearBody: "message_ok m \<Longrightarrow> httpc_Message_clearBody (Some m) = Some m' \<Longrightarrow> message_ok m'"
  by (auto simp: message_ok_defs httpc_Message_clearBody_def int_ok_def)

lemma grow_body_ok:
  assumes "body_ok m" and "0 \<le> len" and "len \<le> int (length d)" and "int_ok (bodylen m + len)"
  shows "grow_body m d len =
    Inr (m\<lparr>body := Some (body_bytes m @ take (nat len) d), bodylen := bodylen m + len\<rparr>)"
  using assms by (simp add: grow_body_def c_int_def mem_read_ok body_ok_def Let_def)

lemma message_ok_grow_body:
  "message_ok m \<Longrightarrow> grow_body m d len = Inr m' \<Longrightarrow> message_ok m'"
  by (auto simp: message_ok_defs grow_body_def Let_def c_int_def mem_read_def
      split: if_splits option.splits)

text \<open>Appending to the body: the bytes follow the old ones, and a \<open>Content-Length\<close> header with the new
  length goes in front.\<close>

lemma appendBody_ok:
  assumes "body_ok m" and "d \<noteq> []" and "int_ok (bodylen m + int (length d))"
  shows "httpc_Message_appendBody (Some m) d (int (length d)) =
    Inr (Some (m\<lparr>body := Some (body_bytes m @ d), bodylen := bodylen m + int (length d),
               headers := (''Content-Length'', dec_str (length (body_bytes m @ d))) # headers m,
               header_cnt := header_cnt m + 1\<rparr>),
         bodylen m + int (length d))"
proof -
  have "(bodylen m + int (length d)) mod 4294967296 = bodylen m + int (length d)"
    using assms by (intro mod_pos_pos_trivial) (auto simp: body_ok_def int_ok_def)
  then show ?thesis
    using assms grow_body_ok[OF assms(1), of "int (length d)" d] nul_free_digits[OF dec_str_props(2)]
    by (simp add: httpc_Message_appendBody_def httpc_Message_setValue_def make_kvpair_def Let_def
        body_ok_def nat_add_distrib)
qed

section \<open>The header table\<close>

text \<open>What a caller may assume of the headers: a table with equivalent keys in which the last value
  set wins.\<close>

locale header_table =
  fixes lookup :: "'m \<Rightarrow> string \<Rightarrow> string option"
    and insert :: "'m \<Rightarrow> string \<Rightarrow> string \<Rightarrow> 'm"
    and remove :: "'m \<Rightarrow> string \<Rightarrow> 'm"
    and same :: "string \<Rightarrow> string \<Rightarrow> bool"
    and stored :: "string \<Rightarrow> string"
  assumes same_sym: "same k k' \<longleftrightarrow> same k' k"
    and same_trans: "same k k' \<Longrightarrow> same k' k'' \<Longrightarrow> same k k''"
    and lookup_insert: "lookup (insert m k v) k' = (if same k k' then Some (stored v) else lookup m k')"
    and lookup_remove: "lookup (remove m k) k' = (if same k k' then None else lookup m k')"
begin

lemma lookup_insert_all:
  "lookup (fold (\<lambda>(k, v) m. insert m k v) kvs m) q =
     (case find (\<lambda>(k, v). same k q) (rev kvs) of Some (_, v) \<Rightarrow> Some (stored v) | None \<Rightarrow> lookup m q)"
  by (induction kvs rule: rev_induct) (auto simp: lookup_insert)

lemma remove_insert: "same k k' \<Longrightarrow> lookup (remove (insert m k v) k') q = lookup (remove m k') q"
  using same_sym same_trans unfolding lookup_remove lookup_insert by metis

end

definition header_get :: "HttpMessage \<Rightarrow> string \<Rightarrow> string option" where
  "header_get m key = snd (httpc_Message_getValue m key)"

definition header_set :: "HttpMessage \<Rightarrow> string \<Rightarrow> string \<Rightarrow> HttpMessage" where
  "header_set m k v = fst (httpc_Message_setValue m k v)"

definition header_del :: "HttpMessage \<Rightarrow> string \<Rightarrow> HttpMessage" where
  "header_del m k = fst (httpc_Message_delValue m k)"

lemma header_get_find: "header_get m key = header_find key (headers m)"
  by (simp add: header_get_def httpc_Message_getValue_def split: option.split)

lemma header_find_filter:
  "header_find k' (filter (\<lambda>h. \<not> str_case_eq (fst h) k) hs) =
     (if str_case_eq k k' then None else header_find k' hs)"
proof (induction hs)
  case (Cons h hs)
  then show ?case
    using str_case_eq_sym str_case_eq_trans by (cases h) (auto, blast+)
qed simp

interpretation header_list: header_table header_get header_set header_del str_case_eq c_str
proof unfold_locales
  fix m :: HttpMessage and k k' v :: string
  show "header_get (header_set m k v) k' = (if str_case_eq k k' then Some (c_str v) else header_get m k')"
    by (simp add: header_get_find header_set_def httpc_Message_setValue_def make_kvpair_def)
  show "header_get (header_del m k) k' = (if str_case_eq k k' then None else header_get m k')"
    by (simp add: header_get_find header_del_def httpc_Message_delValue_def header_find_filter)
qed (use str_case_eq_sym str_case_eq_trans in blast)+

section \<open>The header nodes in the store\<close>

text \<open>The ring of the list head \<open>a\<close> whose nodes carry the pairs \<open>pay\<close>.\<close>

definition header_ring :: "links \<Rightarrow> addr \<Rightarrow> (addr \<Rightarrow> http_header) \<Rightarrow> http_header list \<Rightarrow> bool" where
  "header_ring h a pay hs \<longleftrightarrow> (\<exists>ns. ring h a ns \<and> map pay ns = hs)"

text \<open>C20: on the node store, linking a fresh header node with \<open>list_add\<close> is \<open>httpc_Message_setValue\<close>
  of the model, and the safe traversal that unlinks the matching nodes ends and is
  \<open>httpc_Message_delValue\<close>.\<close>

theorem header_ring_refines:
  assumes "ring h a ns" and "n \<notin> set (a # ns)"
  shows "header_ring (list_add n a h) a (pay(n := make_kvpair k v))
           (headers (fst (httpc_Message_setValue (m\<lparr>headers := map pay ns\<rparr>) k v))) \<and>
    (\<exists>h'. list_del_each (\<lambda>p. str_case_eq (fst (pay p)) k) a h = Some h' \<and>
       header_ring h' a pay (headers (fst (httpc_Message_delValue (m\<lparr>headers := map pay ns\<rparr>) k))))"
proof -
  have "map (pay(n := make_kvpair k v)) (n # ns) = make_kvpair k v # map pay ns"
    using assms(2) by auto
  then have "header_ring (list_add n a h) a (pay(n := make_kvpair k v)) (make_kvpair k v # map pay ns)"
    unfolding header_ring_def by (intro exI[of _ "n # ns"] conjI ring_list.rep_front[OF assms])
  moreover obtain h' where h': "list_del_each (\<lambda>p. str_case_eq (fst (pay p)) k) a h = Some h'"
      "ring h' a (filter (\<lambda>p. \<not> str_case_eq (fst (pay p)) k) ns)"
    using ring_del_each[OF assms(1)] .
  moreover have "header_ring h' a pay (filter (\<lambda>h. \<not> str_case_eq (fst h) k) (map pay ns))"
    using h'(2)
    by (auto simp: header_ring_def filter_map comp_def intro!: exI[of _ "filter (\<lambda>p. \<not> str_case_eq (fst (pay p)) k) ns"])
  ultimately show ?thesis
    by (simp add: httpc_Message_setValue_def httpc_Message_delValue_def)
qed

theorem header_ring_refines_witness:
  "header_ring (list_add 4 9 (list_init 9 \<lparr>next_of = id, prev_of = id\<rparr>)) 9
     ((\<lambda>_. ([], []))(4 := make_kvpair ''Server'' ''x'')) [(''Server'', ''x'')]"
  using header_ring_refines[OF ring_init[of 9 "\<lparr>next_of = id, prev_of = id\<rparr>"], of 4 "\<lambda>_. ([], [])"
      "''Server''" "''x''" httpc_Message_create]
  by (simp add: httpc_Message_setValue_def make_kvpair_def httpc_Message_create_def)

section \<open>Properties of the headers and the body\<close>

text \<open>after any sequence of \<open>setValue\<close> calls, \<open>getValue\<close> returns the value of the last call whose
  key equals the asked one up to case, and the old value if there is none.\<close>

theorem header_last_set_wins:
  "snd (httpc_Message_getValue (fold (\<lambda>(k, v) m. fst (httpc_Message_setValue m k v)) kvs m) q) =
     (case find (\<lambda>(k, v). str_case_eq k q) (rev kvs) of
        Some (_, v) \<Rightarrow> Some (c_str v)
      | None \<Rightarrow> snd (httpc_Message_getValue m q))"
  using header_list.lookup_insert_all[of kvs m q] unfolding header_set_def header_get_def .

text \<open>\<open>delValue\<close> removes every header with the key up to case, and no other: each other key has the
  value it had.\<close>

theorem header_delete_all:
  "httpc_Message_getValue (fst (httpc_Message_delValue m k)) q =
     (if str_case_eq k q then (0, None) else httpc_Message_getValue m q)"
  by (simp add: httpc_Message_getValue_def httpc_Message_delValue_def header_find_filter)

text \<open>\<open>delValue\<close> leaves \<open>header_cnt\<close> as it was, so on a message whose counter was right the counter
  is wrong after the deletion of any existing header.\<close>

theorem header_cnt_stale:
  assumes "header_cnt m = int (length (headers m))" and "fst (httpc_Message_getValue m k) = 1"
  shows "header_cnt (fst (httpc_Message_delValue m k)) > int (length (headers (fst (httpc_Message_delValue m k))))"
proof -
  have "\<exists>x \<in> set hs. str_case_eq (fst x) k" if "header_find k hs \<noteq> None" for hs
    using that by (induction hs) (auto split: if_splits)
  then obtain x where "x \<in> set (headers m)" "str_case_eq (fst x) k"
    using assms(2) by (fastforce simp: httpc_Message_getValue_def split: option.splits)
  then have "length (filter (\<lambda>x. \<not> str_case_eq (fst x) k) (headers m)) < length (headers m)"
    by (intro length_filter_less) auto
  with assms(1) show ?thesis by (simp add: httpc_Message_delValue_def)
qed

theorem header_cnt_stale_witness:
  "header_cnt (fst (httpc_Message_delValue (fst (httpc_Message_setValue httpc_Message_create ''A1'' ''x'')) ''a1'')) > 0"
  using header_cnt_stale[of "fst (httpc_Message_setValue httpc_Message_create ''A1'' ''x'')" "''a1''"]
  by (simp add: httpc_Message_setValue_def httpc_Message_getValue_def make_kvpair_def httpc_Message_create_def
      str_case_eq_def c_str_def c_tolower_def Let_def char_of_def httpc_Message_delValue_def)

text \<open>after \<open>appendBody\<close> the body is the old one followed by the data, the return value is its length,
  and the \<open>Content-Length\<close> that \<open>getValue\<close> finds reads back as exactly that length.\<close>

theorem append_body_content_length:
  assumes "body_ok m" and "d \<noteq> []" and "int_ok (bodylen m + int (length d))"
  shows "\<exists>m' v. httpc_Message_appendBody (Some m) d (int (length d)) = Inr (Some m', bodylen m') \<and>
    body m' = Some (body_bytes m @ d) \<and> bodylen m' = bodylen m + int (length d) \<and> body_ok m' \<and>
    httpc_Message_getValue m' ''Content-Length'' = (1, Some v) \<and> c_atoi v = Inr (bodylen m')"
proof -
  have "length (body_bytes m @ d) < 2147483648"
    using assms by (auto simp: body_ok_def int_ok_def)
  then show ?thesis
    using assms appendBody_ok[OF assms] atoi_dec_str[of "length (body_bytes m @ d)"]
    by (auto simp: body_ok_def httpc_Message_getValue_def body_bytes_def)
qed

theorem append_body_content_length_witness:
  "\<exists>m' v. httpc_Message_appendBody (Some httpc_Message_create) ''hello'' 5 = Inr (Some m', 5) \<and>
    httpc_Message_getValue m' ''Content-Length'' = (1, Some v) \<and> c_atoi v = Inr 5"
  using append_body_content_length[of httpc_Message_create "''hello''"]
  by (auto simp: message_ok_defs httpc_Message_create_def int_ok_def)

end
