(* ===== verification/Http_Encode.thy ===== *)
theory Http_Encode
  imports Http_Message
begin

text \<open>
  What \<open>httpc_Message_encode\<close> of \<open>src/src/httpc.c\<close> writes, and how much room it needs:
  \<open>encoding\<close> is the text on the wire, and the encoder is proved to write exactly it.
\<close>

section \<open>The text on the wire\<close>

definition header_text :: "http_header \<Rightarrow> string" where
  "header_text h = fst h @ '': '' @ snd h @ crlf"

definition head_text :: "string \<Rightarrow> string \<Rightarrow> string \<Rightarrow> http_header list \<Rightarrow> string" where
  "head_text a b c hs = a @ '' '' @ b @ '' '' @ c @ crlf @ concat (map header_text hs)"

definition encoding :: "HttpMessage \<Rightarrow> bool \<Rightarrow> string" where
  "encoding m with_body =
     (case (p1 m, p2 m, p3 m) of
        (Some a, Some b, Some c) \<Rightarrow>
          head_text a b c (headers m) @ crlf @ (if with_body then body_bytes m else [])
      | _ \<Rightarrow> [])"

definition has_start_line :: "HttpMessage \<Rightarrow> bool" where
  "has_start_line m \<longleftrightarrow> p1 m \<noteq> None \<and> p2 m \<noteq> None \<and> p3 m \<noteq> None"

lemma has_start_lineE:
  assumes "has_start_line m"
  obtains a b c where "p1 m = Some a" "p2 m = Some b" "p3 m = Some c"
  using assms by (auto simp: has_start_line_def)

lemma headers_length_eq:
  "0 \<le> y \<Longrightarrow> int_ok y \<Longrightarrow> headers_length y hs = c_int (y + int (length (concat (map header_text hs))))"
proof (induction hs arbitrary: y)
  case Nil
  then show ?case by (simp add: c_int_def)
next
  case (Cons h hs)
  obtain k v where h: "h = (k, v)" by (cases h)
  let ?r = "int (length (concat (map header_text hs)))"
  have 1: "bind_r (c_int (z + 2)) (\<lambda>len. headers_length len hs) = c_int (z + 2 + ?r)" if "0 \<le> z" for z
    by (rule c_int_grow) (use Cons.IH that in simp_all)
  have 2: "bind_r (c_int (z + int (length v))) (\<lambda>len. bind_r (c_int (len + 2)) (\<lambda>len. headers_length len hs)) =
      c_int (z + int (length v) + (2 + ?r))" if "0 \<le> z" for z
    by (rule c_int_grow) (use that 1 in \<open>simp_all add: algebra_simps\<close>)
  have "headers_length y (h # hs) = c_int (y + (int (length k) + 2) + (int (length v) + (2 + ?r)))"
    unfolding h headers_length.simps
    by (rule c_int_grow) (use Cons.prems 2 in \<open>simp_all add: algebra_simps\<close>)
  moreover have "length (header_text h) = length k + length v + 4" by (simp add: h header_text_def)
  ultimately show ?case by (simp add: algebra_simps)
qed

lemma encode_length_eq:
  assumes "has_start_line m" and "body_ok m"
  shows "httpc_Message_get_encode_length (Some m) wb = c_int (int (length (encoding m wb)))"
proof -
  obtain a b c where s: "p1 m = Some a" "p2 m = Some b" "p3 m = Some c" using assms(1) by (rule has_start_lineE)
  have body: "bodylen m = int (length (body_bytes m))" using assms(2) by (simp add: body_ok_def)
  let ?w = "if wb then int (length (body_bytes m)) else 0" and ?h = "int (length (concat (map header_text (headers m))))"
  let ?last = "\<lambda>len. if wb then c_int (len + bodylen m) else Inr len"
  let ?empty = "\<lambda>len. bind_r (c_int (len + 2)) ?last"
  let ?lines = "\<lambda>len. bind_r (headers_length len (headers m)) ?empty"
  have 1: "?empty y = c_int (y + 2 + ?w)" if "0 \<le> y" for y
    by (rule c_int_grow) (use that in \<open>simp_all add: body c_int_def\<close>)
  have 2: "?lines y = c_int (y + ?h + (2 + ?w))" if "0 \<le> y" "int_ok y" for y
    unfolding headers_length_eq[OF that] by (rule c_int_grow) (use that 1 in \<open>simp_all add: algebra_simps\<close>)
  have 3: "bind_r (c_int (y + 2)) ?lines = c_int (y + 2 + (?h + (2 + ?w)))" if "0 \<le> y" for y
    by (rule c_int_grow) (use that 2 in \<open>simp_all add: algebra_simps\<close>)
  have 4: "bind_r (c_int (y + int (length c))) (\<lambda>len. bind_r (c_int (len + 2)) ?lines) =
      c_int (y + int (length c) + (2 + (?h + (2 + ?w))))" if "0 \<le> y" for y
    by (rule c_int_grow) (use that 3 in \<open>simp_all add: algebra_simps\<close>)
  have 5: "bind_r (c_int (y + (int (length b) + 1))) (\<lambda>len. bind_r (c_int (len + int (length c))) (\<lambda>len. bind_r (c_int (len + 2)) ?lines)) =
      c_int (y + (int (length b) + 1) + (int (length c) + (2 + (?h + (2 + ?w)))))" if "0 \<le> y" for y
    by (rule c_int_grow) (use that 4 in \<open>simp_all add: algebra_simps\<close>)
  have "httpc_Message_get_encode_length (Some m) wb =
      c_int (int (length a) + 1 + (int (length b) + 1 + (int (length c) + (2 + (?h + (2 + ?w))))))"
    unfolding httpc_Message_get_encode_length_def option.case s prod.case
    by (rule c_int_grow) (use 5 in \<open>simp_all add: algebra_simps\<close>)
  also have "int (length a) + 1 + (int (length b) + 1 + (int (length c) + (2 + (?h + (2 + ?w))))) = int (length (encoding m wb))"
    by (simp add: encoding_def s head_text_def)
  finally show ?thesis .
qed

text \<open>When the text is short enough for an \<open>int\<close>, the length comes back as it is.\<close>

lemma encode_length_short:
  assumes "has_start_line m" and "body_ok m" and "length (encoding m wb) < 2147483648"
  shows "httpc_Message_get_encode_length (Some m) wb = Inr (int (length (encoding m wb)))"
  using assms by (simp add: encode_length_eq c_int_def int_ok_def)

section \<open>Writing it\<close>

lemma encode_headers_at:
  assumes "at_text b pre" and "length pre + length (concat (map header_text hs)) < length b"
  obtains b' where "encode_headers b (int (length pre)) hs =
      Inr (b', int (length (pre @ concat (map header_text hs))))"
    and "at_text b' (pre @ concat (map header_text hs))" and "length b' = length b"
  using assms
proof (induction hs arbitrary: b pre thesis)
  case Nil
  then show ?case by simp
next
  case (Cons h hs)
  obtain k v where h: "h = (k, v)" by (cases h)
  obtain b1 where b1: "put_text b (int (length pre)) (header_text h) = Inr (b1, int (length (pre @ header_text h)))"
      "at_text b1 (pre @ header_text h)" "length b1 = length b"
    by (rule put_text_at[OF Cons.prems(2), of "header_text h"]) (use Cons.prems(3) in auto)
  obtain b2 where "encode_headers b1 (int (length (pre @ header_text h))) hs =
        Inr (b2, int (length ((pre @ header_text h) @ concat (map header_text hs))))"
      "at_text b2 ((pre @ header_text h) @ concat (map header_text hs))" "length b2 = length b1"
    by (rule Cons.IH[OF _ b1(2)]) (use Cons.prems(3) b1(3) in auto)
  moreover have "encode_headers b (int (length pre)) (h # hs) =
      bind_r (put_text b (int (length pre)) (header_text h)) (\<lambda>(b, p). encode_headers b p hs)"
    by (simp add: h header_text_def)
  ultimately show ?case
    using b1 by (intro Cons.prems(1)[of b2]) simp_all
qed

text \<open>The head of the message, up to the last header line.\<close>

lemma encode_head_at:
  fixes a b c :: string and hs :: "http_header list"
  assumes "length (head_text a b c hs) < length buf"
  obtains b1 b2 where
    "put_text buf 0 (a @ '' '' @ b @ '' '' @ c @ crlf) = Inr (b1, int (length (a @ '' '' @ b @ '' '' @ c @ crlf)))"
    "encode_headers b1 (int (length (a @ '' '' @ b @ '' '' @ c @ crlf))) hs = Inr (b2, int (length (head_text a b c hs)))"
    "at_text b2 (head_text a b c hs)" "length b2 = length buf"
proof -
  let ?s = "a @ '' '' @ b @ '' '' @ c @ crlf"
  have t: "head_text a b c hs = ?s @ concat (map header_text hs)" by (simp add: head_text_def)
  have "at_text buf []" by (simp add: at_text_def)
  from put_text_at[OF this, of ?s] assms t obtain b1 where
    b1: "put_text buf 0 ?s = Inr (b1, int (length ?s))" "at_text b1 ?s" "length b1 = length buf"
    by auto
  obtain b2 where "encode_headers b1 (int (length ?s)) hs = Inr (b2, int (length (?s @ concat (map header_text hs))))"
      "at_text b2 (?s @ concat (map header_text hs))" "length b2 = length b1"
    by (rule encode_headers_at[OF b1(2)]) (use assms t b1(3) in auto)
  with b1 t show thesis by (intro that[of b1 b2]) simp_all
qed

text \<open>The text on the wire, written to the start of any buffer that has room for it and a NUL.\<close>

lemma encode_fills:
  assumes "has_start_line m" and "body_ok m"
    and room: "length (encoding m wb) < length buf"
  shows "\<exists>buf'. httpc_Message_encode m buf wb = Inr buf' \<and> length buf' = length buf \<and>
    take (length (encoding m wb)) buf' = encoding m wb"
proof -
  obtain a b c where s: "p1 m = Some a" "p2 m = Some b" "p3 m = Some c"
    using assms(1) by (rule has_start_lineE)
  let ?h = "head_text a b c (headers m)"
  have e: "encoding m wb = ?h @ crlf @ (if wb then body_bytes m else [])"
    by (simp add: encoding_def s)
  from room have "length ?h < length buf" by (simp add: e)
  then obtain b1 b2 where b12: "put_text buf 0 (a @ '' '' @ b @ '' '' @ c @ crlf) = Inr (b1, int (length (a @ '' '' @ b @ '' '' @ c @ crlf)))"
      "encode_headers b1 (int (length (a @ '' '' @ b @ '' '' @ c @ crlf))) (headers m) = Inr (b2, int (length ?h))"
      "at_text b2 ?h" "length b2 = length buf"
    by (rule encode_head_at)
  obtain b3 where b3: "put_text b2 (int (length ?h)) crlf = Inr (b3, int (length (?h @ crlf)))"
      "at_text b3 (?h @ crlf)" "length b3 = length b2"
    by (rule put_text_at[OF b12(3), of crlf]) (use room b12(4) e in auto)
  have body: "bodylen m = int (length (body_bytes m))" and some: "bodylen m \<noteq> 0 \<Longrightarrow> body m = Some (body_bytes m)"
    using assms(2) by (auto simp: body_ok_def body_bytes_def split: option.splits)
  have "mem_read (body_bytes m) 0 (bodylen m) = Inr (body_bytes m)"
    by (simp add: mem_read_ok body)
  moreover have "mem_write b3 (int (length (?h @ crlf))) (body_bytes m) =
      Inr (?h @ crlf @ body_bytes m @ drop (length (?h @ crlf @ body_bytes m)) b3)" if "wb"
    using b3(2,3) b12(4) room that e by (simp add: mem_write_ok at_text_def nat_add_distrib)
  ultimately show ?thesis
    using b12 b3 s body some room
    by (auto simp: httpc_Message_encode_def e at_text_def)
qed

text \<open>C33: for a message with a start line, \<open>get_encode_length\<close> is the exact length of the text on the
  wire as long as that length is an \<open>int\<close>, and overflows exactly when it is not; and encoding into any
  buffer with at least one byte more than the text is long writes that text at its start without a
  memory fault and leaves the size of the buffer as it is.\<close>

theorem encode_writes_encoding:
  assumes "has_start_line m" and "body_ok m"
  shows "httpc_Message_get_encode_length (Some m) wb =
      (if int (length (encoding m wb)) < 2 ^ 31 then Inr (int (length (encoding m wb))) else Inl Int_Overflow) \<and>
    (length (encoding m wb) < length buf \<longrightarrow> (\<exists>buf'. httpc_Message_encode m buf wb = Inr buf' \<and>
      length buf' = length buf \<and> take (length (encoding m wb)) buf' = encoding m wb))"
  using encode_length_eq[OF assms] encode_fills[OF assms] by (simp_all add: c_int_def int_ok_def)

theorem encode_writes_encoding_witness:
  "httpc_Message_get_encode_length (Some (httpc_Message_create\<lparr>p1 := Some ''A'', p2 := Some ''B'', p3 := Some ''C''\<rparr>)) True = Inr 9 \<and>
   (\<exists>buf'. httpc_Message_encode (httpc_Message_create\<lparr>p1 := Some ''A'', p2 := Some ''B'', p3 := Some ''C''\<rparr>)
      (replicate 10 NUL) True = Inr buf' \<and> take 9 buf' = ''A B C'' @ crlf @ crlf)"
  using encode_writes_encoding[of "httpc_Message_create\<lparr>p1 := Some ''A'', p2 := Some ''B'', p3 := Some ''C''\<rparr>" True
      "replicate 10 NUL"]
  by (auto simp: has_start_line_def message_ok_defs httpc_Message_create_def int_ok_def
      encoding_def head_text_def eval_nat_numeral)

text \<open>C40: a buffer of exactly \<open>get_encode_length\<close> bytes, the size the header file asks for, is one byte too
  short whenever no body follows: the NUL that \<open>strcpy\<close> stores after the empty line is out of bounds.\<close>

theorem encode_overflows_exact_buffer:
  assumes "has_start_line m" and "body_ok m" and "wb \<longrightarrow> bodylen m = 0"
    and "httpc_Message_get_encode_length (Some m) wb = Inr (int (length buf))"
  shows "httpc_Message_encode m buf wb = Inl Mem_Bounds"
proof -
  obtain a b c where s: "p1 m = Some a" "p2 m = Some b" "p3 m = Some c"
    using assms(1) by (rule has_start_lineE)
  let ?h = "head_text a b c (headers m)"
  have "encoding m wb = ?h @ crlf"
    using assms(2,3) by (auto simp: encoding_def s body_ok_def)
  with assms(4) encode_length_eq[OF assms(1,2)] have room: "length buf = length ?h + 2"
    by (simp add: c_int_def split: if_splits)
  then have "length ?h < length buf" by simp
  then obtain b1 b2 where "put_text buf 0 (a @ '' '' @ b @ '' '' @ c @ crlf) = Inr (b1, int (length (a @ '' '' @ b @ '' '' @ c @ crlf)))"
      "encode_headers b1 (int (length (a @ '' '' @ b @ '' '' @ c @ crlf))) (headers m) = Inr (b2, int (length ?h))"
      "at_text b2 ?h" "length b2 = length buf"
    by (rule encode_head_at)
  with room show ?thesis
    by (simp add: httpc_Message_encode_def s put_text_full)
qed

theorem encode_overflows_exact_buffer_witness:
  "httpc_Message_encode (httpc_Message_create\<lparr>p1 := Some ''A'', p2 := Some ''B'', p3 := Some ''C''\<rparr>)
      (replicate 9 NUL) True = Inl Mem_Bounds"
  using encode_overflows_exact_buffer[of "httpc_Message_create\<lparr>p1 := Some ''A'', p2 := Some ''B'', p3 := Some ''C''\<rparr>" True
      "replicate 9 NUL"]
  by (simp add: has_start_line_def message_ok_defs httpc_Message_create_def int_ok_def c_int_def
      httpc_Message_get_encode_length_def)

end
