(* ===== verification/Http_Parser.thy ===== *)
theory Http_Parser
  imports Http_Message
begin

text \<open>
  The incremental HTTP parser of \<open>src/src/httpparser.c\<close>: one state machine step per byte up to
  the empty line, then the body in blocks. Pointers into the line buffer are offsets; a read at or
  behind \<open>line_datasize\<close> is a read of bytes that no write of this line initialised.
\<close>

section \<open>Characters and the line buffer\<close>

definition EXPSIZE :: nat where
  "EXPSIZE = 128"

definition isblank :: "char \<Rightarrow> bool" where
  "isblank c \<longleftrightarrow> c = CHR '' '' \<or> c = TAB"

definition isspace :: "char \<Rightarrow> bool" where
  "isspace c \<longleftrightarrow> isblank c \<or> c = CR \<or> c = LF"

text \<open>The parser's data; every function of the parser dereferences it.\<close>

definition with_pd :: "HttpMessage \<Rightarrow> (ParserData \<Rightarrow> 'a result) \<Rightarrow> 'a result" where
  "with_pd m f = (case pri_data m of None \<Rightarrow> Inl Null_Ptr | Some pd \<Rightarrow> f pd)"

definition set_pd :: "HttpMessage \<Rightarrow> ParserData \<Rightarrow> HttpMessage" where
  "set_pd m pd = m\<lparr>pri_data := Some pd\<rparr>"

definition line_append :: "char \<Rightarrow> HttpMessage \<Rightarrow> HttpMessage result" where
  "line_append c m = with_pd m (\<lambda>pd.
     let pd = (if length (linedata pd) + 1 > line_bufsize pd
               then pd\<lparr>line_bufsize := line_bufsize pd + EXPSIZE\<rparr> else pd) in
     bind_r (check_r (length (linedata pd) < line_bufsize pd) Mem_Bounds) (\<lambda>_.
     Inr (set_pd m (pd\<lparr>linedata := linedata pd @ [c]\<rparr>))))"

definition getmsglen :: "HttpMessage \<Rightarrow> int result" where
  "getmsglen m =
     (case httpc_Message_getValue m ''Content-Length'' of
        (rc, v) \<Rightarrow> if rc \<noteq> 0 then (case v of None \<Rightarrow> Inl Null_Ptr | Some v \<Rightarrow> c_atoi v) else Inr 0)"

section \<open>The start line\<close>

text \<open>\<open>strdup (tmp)\<close>: \<open>tmp\<close> has \<open>n + 1\<close> bytes, the first \<open>n\<close> are cleared and \<open>w\<close> is
  copied to its start.\<close>

definition strdup_tmp :: "nat \<Rightarrow> string \<Rightarrow> string result" where
  "strdup_tmp n w =
     bind_r (check_r (NUL \<in> set w \<or> length w < n) Uninit_Read) (\<lambda>_. Inr (c_str w))"

definition parseStartLine :: "HttpMessage \<Rightarrow> HttpMessage result" where
  "parseStartLine m = with_pd m (\<lambda>pd.
     let l = linedata pd; n = length l in
     bind_r (strdup_tmp n (takeWhile (\<lambda>c. \<not> isspace c) l)) (\<lambda>a.
     let l = dropWhile isspace (dropWhile (\<lambda>c. \<not> isspace c) l) in
     bind_r (strdup_tmp n (takeWhile (\<lambda>c. \<not> isspace c) l)) (\<lambda>b.
     let l = dropWhile isspace (dropWhile (\<lambda>c. \<not> isspace c) l) in
     bind_r (strdup_tmp n (takeWhile (\<lambda>c. c \<noteq> CR \<and> c \<noteq> LF) l)) (\<lambda>c.
     Inr (m\<lparr>p1 := Some a, p2 := Some b, p3 := Some c\<rparr>)))))"

section \<open>A header line\<close>

text \<open>\<open>while (p > q && isspace (*p)) p--\<close> and \<open>while (*q && isspace (*q)) q++\<close>.\<close>

function trim_back :: "string \<Rightarrow> int \<Rightarrow> int \<Rightarrow> int" where
  "trim_back l q p = (if p > q \<and> isspace (l ! nat p) then trim_back l q (p - 1) else p)"
  by pat_completeness auto
termination by (relation "measure (\<lambda>(l, q, p). nat (p - q))") auto

declare trim_back.simps [simp del]

function skip_front :: "string \<Rightarrow> nat \<Rightarrow> nat result" where
  "skip_front l q =
     (if length l \<le> q then Inl Uninit_Read
      else if l ! q \<noteq> NUL \<and> isspace (l ! q) then skip_front l (Suc q) else Inr q)"
  by pat_completeness auto
termination by (relation "measure (\<lambda>(l, q). length l - q)") auto

declare skip_front.simps [simp del]

text \<open>The key as \<open>strdup\<close> finds it: \<open>None\<close> when nothing was copied to the fresh block \<open>key\<close>.\<close>

definition header_key :: "string \<Rightarrow> int \<Rightarrow> int \<Rightarrow> string option result" where
  "header_key l q p =
     (if q = p then Inr None else bind_r (mem_read l q (p - q + 1)) (\<lambda>k. Inr (Some k)))"

definition parseHeaderLine :: "HttpMessage \<Rightarrow> HttpMessage result" where
  "parseHeaderLine m = with_pd m (\<lambda>pd.
     let l = linedata pd; n = length l;
         q = length (takeWhile isspace l);
         p = q + length (takeWhile (\<lambda>c. c \<noteq> CHR '':'') (drop q l));
         x = p + 1 in
     bind_r (header_key l (int q) (trim_back l (int q) (int p - 1))) (\<lambda>key.
     let p = trim_back l (int x) (int n - 1) in
     bind_r (skip_front l x) (\<lambda>q.
     bind_r (mem_read l (int q) (p - int q + 1)) (\<lambda>v.
     (case key of
        None \<Rightarrow> Inl Uninit_Read
      | Some k \<Rightarrow> Inr (fst (httpc_Message_setValue m k v)))))))"

section \<open>One byte\<close>

text \<open>\<open>strstr (linedata, crlf)\<close>: it stops at the first match, or at a NUL without one.\<close>

fun find_crlf :: "string \<Rightarrow> nat option result" where
  "find_crlf (c # d # s) =
     (if c = CR \<and> d = LF then Inr (Some 0)
      else if c = NUL then Inr None
      else bind_r (find_crlf (d # s)) (\<lambda>r. Inr (map_option Suc r)))"
| "find_crlf [c] = (if c = NUL then Inr None else Inl Uninit_Read)"
| "find_crlf [] = Inl Uninit_Read"

definition set_state :: "HttpParserState \<Rightarrow> HttpMessage \<Rightarrow> HttpMessage result" where
  "set_state st m = with_pd m (\<lambda>pd. Inr (set_pd m (pd\<lparr>state := st\<rparr>)))"

definition set_last :: "HttpParserState \<Rightarrow> HttpMessage \<Rightarrow> HttpMessage result" where
  "set_last st m = with_pd m (\<lambda>pd. Inr (set_pd m (pd\<lparr>last_state := Some st\<rparr>)))"

definition get_last :: "HttpMessage \<Rightarrow> HttpParserState result" where
  "get_last m = with_pd m (\<lambda>pd.
     case last_state pd of None \<Rightarrow> Inl Uninit_Read | Some st \<Rightarrow> Inr st)"

text \<open>The cases \<open>HTTP_STARTLINE\<close> and \<open>HTTP_HEADERS\<close> (\<open>here\<close> is the current state), \<open>HTTP_CR\<close>,
  \<open>HTTP_CRLF\<close>, \<open>HTTP_LSW\<close> and \<open>HTTP_BODY\<close> of the switch.\<close>

definition byte_line :: "HttpParserState \<Rightarrow> char \<Rightarrow> HttpMessage \<Rightarrow> HttpMessage result" where
  "byte_line here c m =
     bind_r (line_append c m) (\<lambda>m.
     if c = CR then bind_r (set_last here m) (set_state HTTP_CR) else Inr m)"

definition byte_cr :: "char \<Rightarrow> HttpMessage \<Rightarrow> HttpMessage result" where
  "byte_cr c m =
     bind_r (line_append c m) (\<lambda>m.
     if c = LF then
       bind_r (set_state HTTP_CRLF m) (\<lambda>m.
       with_pd m (\<lambda>pd.
       if take 2 (linedata pd) = crlf
       then bind_r (getmsglen m) (\<lambda>n.
            if n > 0 then set_state HTTP_BODY m else set_state HTTP_COMPLETE m)
       else Inr m))
     else bind_r (get_last m) (\<lambda>st. set_state st m))"

definition byte_crlf :: "char \<Rightarrow> HttpMessage \<Rightarrow> HttpMessage result" where
  "byte_crlf c m =
     (if isblank c then
        bind_r (set_state HTTP_LSW m) (\<lambda>m.
        with_pd m (\<lambda>pd.
        bind_r (find_crlf (linedata pd)) (\<lambda>r.
        (case r of
           None \<Rightarrow> Inr m
         | Some i \<Rightarrow> Inr (set_pd m (pd\<lparr>linedata := take i (linedata pd)\<rparr>))))))
      else
        bind_r (get_last m) (\<lambda>st.
        bind_r (if st = HTTP_STARTLINE then parseStartLine m else parseHeaderLine m) (\<lambda>m.
        with_pd m (\<lambda>pd.
        bind_r (line_append c (set_pd m (pd\<lparr>linedata := []\<rparr>))) (\<lambda>m.
        if c = CR then set_state HTTP_CR m else set_state HTTP_HEADERS m)))))"

definition byte_lsw :: "char \<Rightarrow> HttpMessage \<Rightarrow> HttpMessage result" where
  "byte_lsw c m =
     (if isblank c then Inr m
      else bind_r (get_last m) (\<lambda>st. bind_r (set_state st m) (line_append c)))"

definition finish_body :: "HttpMessage \<Rightarrow> HttpMessage result" where
  "finish_body m =
     bind_r (getmsglen m) (\<lambda>n. if n = bodylen m then set_state HTTP_COMPLETE m else Inr m)"

definition appendByte :: "char \<Rightarrow> HttpMessage \<Rightarrow> HttpMessage result" where
  "appendByte c m = with_pd m (\<lambda>pd.
     (case state pd of
        HTTP_STARTLINE \<Rightarrow> byte_line HTTP_STARTLINE c m
      | HTTP_HEADERS \<Rightarrow> byte_line HTTP_HEADERS c m
      | HTTP_CR \<Rightarrow> byte_cr c m
      | HTTP_CRLF \<Rightarrow> byte_crlf c m
      | HTTP_LSW \<Rightarrow> byte_lsw c m
      | HTTP_BODY \<Rightarrow> bind_r (grow_body m [c] 1) finish_body
      | HTTP_COMPLETE \<Rightarrow> Inr m
      | HTTP_UNKNOWN \<Rightarrow> Inr m))"

section \<open>The parse loop\<close>

definition appendBody :: "string \<Rightarrow> int \<Rightarrow> HttpMessage \<Rightarrow> HttpMessage result" where
  "appendBody d len m = bind_r (grow_body m d len) finish_body"

text \<open>One round of the loop on the bytes that are left: the new message and the number of bytes used.\<close>

definition parse_step :: "HttpMessage \<Rightarrow> string \<Rightarrow> (HttpMessage \<times> int) result" where
  "parse_step m d = with_pd m (\<lambda>pd.
     if state pd = HTTP_BODY then
       (case snd (httpc_Message_getValue m ''Content-Length'') of
          None \<Rightarrow> Inl Null_Ptr
        | Some v \<Rightarrow>
            bind_r (c_atoi v) (\<lambda>n.
            bind_r (c_int (n - bodylen m)) (\<lambda>expect.
            let rc = (if int (length d) > expect then expect else int (length d)) in
            bind_r (appendBody d rc m) (\<lambda>m. Inr (m, rc)))))
     else bind_r (appendByte (hd d) m) (\<lambda>m. Inr (m, 1)))"

definition parse_done :: "HttpMessage \<Rightarrow> bool" where
  "parse_done m \<longleftrightarrow> (case pri_data m of None \<Rightarrow> False | Some pd \<Rightarrow> state pd = HTTP_COMPLETE)"

lemma grow_body_facts:
  assumes "grow_body m d len = Inr m'"
  shows "0 \<le> len" "len \<le> int (length d)" "headers m' = headers m" "bodylen m' = bodylen m + len"
    "pri_data m' = pri_data m"
    "m' = m\<lparr>body := Some (take (nat (bodylen m)) (body_bytes m) @ take (nat len) d), bodylen := bodylen m + len\<rparr>"
  using assms by (auto simp: grow_body_def c_int_def mem_read_def Let_def split: if_splits)

lemma getmsglen_headers: "headers m' = headers m \<Longrightarrow> getmsglen m' = getmsglen m"
  by (simp add: getmsglen_def httpc_Message_getValue_def)

lemma getmsglen_value:
  "snd (httpc_Message_getValue m ''Content-Length'') = Some v \<Longrightarrow> getmsglen m = c_atoi v"
  by (auto simp: getmsglen_def httpc_Message_getValue_def split: option.splits)

lemma with_pd_Inr: "with_pd m f = Inr y \<longleftrightarrow> (\<exists>pd. pri_data m = Some pd \<and> f pd = Inr y)"
  by (auto simp: with_pd_def split: option.splits)

lemma set_state_done: "set_state HTTP_COMPLETE m = Inr m' \<Longrightarrow> parse_done m'"
  by (auto simp: set_state_def with_pd_Inr parse_done_def set_pd_def)

lemma parse_step_progress:
  assumes "parse_step m d = Inr (m', k)" and "d \<noteq> []"
  shows "0 \<le> k" "k \<le> int (length d)" "k = 0 \<Longrightarrow> parse_done m'"
proof -
  obtain pd where pd: "pri_data m = Some pd"
    using assms(1) by (auto simp: parse_step_def with_pd_Inr)
  have "0 \<le> k \<and> k \<le> int (length d) \<and> (k = 0 \<longrightarrow> parse_done m')"
  proof (cases "state pd = HTTP_BODY")
    case False
    have "0 < length d" using assms(2) by simp
    with False show ?thesis
      using assms(1) pd by (auto simp: parse_step_def with_pd_def Suc_le_eq)
  next
    case True
    then obtain v n m1 where v: "snd (httpc_Message_getValue m ''Content-Length'') = Some v" "c_atoi v = Inr n"
        "k = (if int (length d) > n - bodylen m then n - bodylen m else int (length d))"
        "grow_body m d k = Inr m1" "finish_body m1 = Inr m'"
      using assms(1) pd
      by (fastforce simp: parse_step_def with_pd_def appendBody_def c_int_def Let_def
          split: option.splits if_splits)
    note g = grow_body_facts[OF v(4)]
    have "parse_done m'" if "k = 0"
    proof -
      have "n = bodylen m1"
        using v(3) that assms(2) g(4) by (auto split: if_splits)
      moreover have "getmsglen m1 = Inr n"
        using getmsglen_value[OF v(1)] getmsglen_headers[OF g(3)] v(2) by simp
      ultimately show ?thesis
        using v(5) by (auto simp: finish_body_def dest: set_state_done)
    qed
    with g show ?thesis by simp
  qed
  then show "0 \<le> k" "k \<le> int (length d)" "k = 0 \<Longrightarrow> parse_done m'" by simp_all
qed

function parse_loop :: "HttpMessage \<Rightarrow> string \<Rightarrow> int \<Rightarrow> (HttpMessage \<times> int) result" where
  "parse_loop m d used =
     (if parse_done m \<or> d = [] then Inr (m, used)
      else (case parse_step m d of
              Inl e \<Rightarrow> Inl e
            | Inr (m', rc) \<Rightarrow> parse_loop m' (drop (nat rc) d) (used + rc)))"
  by pat_completeness auto
termination
proof (relation "measure (\<lambda>(m, d, used). 2 * length d + (if parse_done m then 0 else 1))", goal_cases)
  case (2 m d used x m' rc)
  then have "parse_step m d = Inr (m', rc)" and "d \<noteq> []" by auto
  from parse_step_progress[OF this] 2 show ?case
    by (cases "rc = 0") (auto simp: not_le)
qed simp

declare parse_loop.simps [simp del]

definition fresh_message :: HttpMessage where
  "fresh_message = httpc_Message_create
     \<lparr>pri_data := Some \<lparr>linedata = [], line_bufsize = 0, state = HTTP_STARTLINE, last_state = None\<rparr>\<rparr>"

text \<open>The message and what is stored at \<open>used\<close>.\<close>

definition httpc_parser_parse :: "HttpMessage option \<Rightarrow> string \<Rightarrow> (HttpMessage \<times> int) result" where
  "httpc_parser_parse saved d =
     (let m = (case saved of None \<Rightarrow> fresh_message | Some m \<Rightarrow> m)
      in bind_r (check_r (pri_data m \<noteq> None) Null_Ptr) (\<lambda>_. parse_loop m d 0))"

definition httpc_Message_state :: "HttpMessage option \<Rightarrow> HttpParserState" where
  "httpc_Message_state msg =
     (case msg of
        None \<Rightarrow> HTTP_UNKNOWN
      | Some m \<Rightarrow> (case pri_data m of None \<Rightarrow> HTTP_UNKNOWN | Some pd \<Rightarrow> state pd))"

end
