(* ===== verification/Http_Parser_Inv.thy ===== *)
theory Http_Parser_Inv
  imports Http_Parser
begin

text \<open>
  The state machine of the HTTP parser: the invariant every byte keeps, the progress of the parse
  loop, and the independence of the result from how the input is cut into pieces.
\<close>

section \<open>The invariant\<close>

definition pd_inv :: "HttpMessage \<Rightarrow> ParserData \<Rightarrow> bool" where
  "pd_inv m pd \<longleftrightarrow>
     length (linedata pd) \<le> line_bufsize pd \<and> EXPSIZE dvd line_bufsize pd \<and>
     (last_state pd = None \<or> last_state pd = Some HTTP_STARTLINE \<or> last_state pd = Some HTTP_HEADERS) \<and>
     (state pd \<in> {HTTP_CR, HTTP_CRLF, HTTP_LSW} \<longrightarrow> last_state pd \<noteq> None) \<and>
     (state pd = HTTP_CR \<longrightarrow> linedata pd \<noteq> [] \<and> last (linedata pd) = CR) \<and>
     (state pd = HTTP_CRLF \<longrightarrow> (\<exists>l. linedata pd = l @ crlf)) \<and>
     (state pd \<notin> {HTTP_BODY, HTTP_COMPLETE} \<longrightarrow> bodylen m = 0) \<and>
     (state pd = HTTP_BODY \<longrightarrow> (\<exists>n. getmsglen m = Inr n \<and> bodylen m < n))"

definition parser_inv :: "HttpMessage \<Rightarrow> bool" where
  "parser_inv m \<longleftrightarrow> body_ok m \<and> (\<exists>pd. pri_data m = Some pd \<and> pd_inv m pd)"

lemma parser_inv_fresh: "parser_inv fresh_message"
  by (simp add: parser_inv_def pd_inv_def fresh_message_def message_ok_defs httpc_Message_create_def int_ok_def)

lemma set_pd_simps [simp]:
  "pri_data (set_pd m pd) = Some pd" "bodylen (set_pd m pd) = bodylen m" "body_ok (set_pd m pd) = body_ok m"
  "headers (set_pd m pd) = headers m" "set_pd (set_pd m pd) pd' = set_pd m pd'"
  "getmsglen (set_pd m pd) = getmsglen m"
  by (simp_all add: set_pd_def message_ok_defs getmsglen_def httpc_Message_getValue_def)

text \<open>How a line buffer of \<open>b\<close> bytes grows to take the byte behind \<open>n\<close> bytes.\<close>

definition grown :: "nat \<Rightarrow> nat \<Rightarrow> nat" where
  "grown n b = (if n + 1 > b then b + EXPSIZE else b)"

lemma grown_ok [simp]: "n \<le> b \<Longrightarrow> Suc n \<le> grown n b" "EXPSIZE dvd b \<Longrightarrow> EXPSIZE dvd grown n b"
  "Suc 0 \<le> grown 0 b"
  by (auto simp: grown_def EXPSIZE_def)

definition pd_line :: "char \<Rightarrow> ParserData \<Rightarrow> ParserData" where
  "pd_line c pd = pd\<lparr>linedata := linedata pd @ [c],
     line_bufsize := grown (length (linedata pd)) (line_bufsize pd)\<rparr>"

lemma pd_line_simps [simp]:
  "linedata (pd_line c pd) = linedata pd @ [c]" "state (pd_line c pd) = state pd"
  "last_state (pd_line c pd) = last_state pd"
  "line_bufsize (pd_line c pd) = grown (length (linedata pd)) (line_bufsize pd)"
  by (simp_all add: pd_line_def)

lemma line_append_ok:
  assumes "pri_data m = Some pd" and "length (linedata pd) \<le> line_bufsize pd"
  shows "line_append c m = Inr (set_pd m (pd_line c pd))"
  using assms by (auto simp: line_append_def with_pd_def Let_def grown_def EXPSIZE_def set_pd_def pd_line_def)

lemmas pd_ops = with_pd_def set_state_def set_last_def get_last_def

text \<open>The lines only set the three fields of the start line or add a header.\<close>

lemma parseStartLine_frame:
  "parseStartLine m = Inr m' \<Longrightarrow> pri_data m' = pri_data m \<and> bodylen m' = bodylen m \<and> body m' = body m"
  by (auto simp: parseStartLine_def with_pd_Inr Let_def)

lemma parseHeaderLine_frame:
  "parseHeaderLine m = Inr m' \<Longrightarrow> pri_data m' = pri_data m \<and> bodylen m' = bodylen m \<and> body m' = body m"
  by (auto simp: parseHeaderLine_def with_pd_Inr Let_def httpc_Message_setValue_def split: option.splits)

text \<open>What each state of the switch does to the parser data.\<close>

lemma byte_line_eq:
  assumes "pri_data m = Some pd" and "length (linedata pd) \<le> line_bufsize pd"
  shows "byte_line here c m = Inr (set_pd m
    (if c = CR then (pd_line c pd)\<lparr>last_state := Some here, state := HTTP_CR\<rparr> else pd_line c pd))"
  using line_append_ok[OF assms, of c] by (simp add: byte_line_def pd_ops)

lemma byte_cr_eq:
  assumes "pri_data m = Some pd" and "length (linedata pd) \<le> line_bufsize pd" and "last_state pd = Some st"
  shows "byte_cr c m =
    (if c \<noteq> LF then Inr (set_pd m ((pd_line c pd)\<lparr>state := st\<rparr>))
     else if take 2 (linedata pd @ [c]) \<noteq> crlf then Inr (set_pd m ((pd_line c pd)\<lparr>state := HTTP_CRLF\<rparr>))
     else bind_r (getmsglen m) (\<lambda>n. Inr (set_pd m ((pd_line c pd)\<lparr>state := (if n > 0 then HTTP_BODY else HTTP_COMPLETE)\<rparr>))))"
  using line_append_ok[OF assms(1,2), of c] assms(3)
  by (cases "getmsglen m") (simp_all add: byte_cr_def pd_ops)

lemma byte_crlf_blank_eq:
  assumes "pri_data m = Some pd" and "isblank c"
  shows "byte_crlf c m = bind_r (find_crlf (linedata pd)) (\<lambda>r. Inr (set_pd m
    (case r of None \<Rightarrow> pd\<lparr>state := HTTP_LSW\<rparr> | Some i \<Rightarrow> pd\<lparr>state := HTTP_LSW, linedata := take i (linedata pd)\<rparr>)))"
  using assms by (cases "find_crlf (linedata pd)") (auto simp: byte_crlf_def pd_ops split: option.split)

lemma byte_crlf_line_eq:
  assumes "pri_data m = Some pd" and "\<not> isblank c" and "last_state pd = Some st"
  shows "byte_crlf c m =
    bind_r (if st = HTTP_STARTLINE then parseStartLine m else parseHeaderLine m) (\<lambda>m1.
    Inr (set_pd m1 ((pd_line c (pd\<lparr>linedata := []\<rparr>))\<lparr>state := (if c = CR then HTTP_CR else HTTP_HEADERS)\<rparr>)))"
proof (cases "if st = HTTP_STARTLINE then parseStartLine m else parseHeaderLine m")
  case (Inl e)
  with assms show ?thesis by (simp add: byte_crlf_def pd_ops)
next
  case (Inr m1)
  then have "pri_data m1 = Some pd"
    using assms(1) parseStartLine_frame[of m m1] parseHeaderLine_frame[of m m1] by (auto split: if_splits)
  moreover have "line_append c (set_pd m1 (pd\<lparr>linedata := []\<rparr>)) =
      Inr (set_pd m1 (pd_line c (pd\<lparr>linedata := []\<rparr>)))"
    using line_append_ok[of "set_pd m1 (pd\<lparr>linedata := []\<rparr>)" "pd\<lparr>linedata := []\<rparr>" c] by simp
  ultimately show ?thesis
    using assms Inr by (simp add: byte_crlf_def pd_ops)
qed

lemma byte_lsw_eq:
  assumes "pri_data m = Some pd" and "length (linedata pd) \<le> line_bufsize pd" and "last_state pd = Some st"
  shows "byte_lsw c m = Inr (if isblank c then m else set_pd m (pd_line c (pd\<lparr>state := st\<rparr>)))"
  using assms line_append_ok[of "set_pd m (pd\<lparr>state := st\<rparr>)" "pd\<lparr>state := st\<rparr>" c]
  by (simp add: byte_lsw_def pd_ops)

lemma parser_inv_set_pd: "parser_inv (set_pd m pd) \<longleftrightarrow> body_ok m \<and> pd_inv m pd"
  by (simp add: parser_inv_def pd_inv_def)

lemma pd_inv_cong: "bodylen m = bodylen m' \<Longrightarrow> state pd \<noteq> HTTP_BODY \<Longrightarrow> pd_inv m pd = pd_inv m' pd"
  by (simp add: pd_inv_def)

lemma appendByte_inv:
  assumes inv: "parser_inv m" and pd: "pri_data m = Some pd" and st: "state pd \<noteq> HTTP_BODY"
    and step: "appendByte c m = Inr m'"
  shows "parser_inv m'"
proof -
  have b: "body_ok m" and i: "pd_inv m pd" using inv pd by (auto simp: parser_inv_def)
  have len: "length (linedata pd) \<le> line_bufsize pd" using i by (simp add: pd_inv_def)
  show ?thesis
  proof (cases "state pd")
    case HTTP_CR
    then obtain ls where ls: "last_state pd = Some ls" using i by (auto simp: pd_inv_def)
    have "linedata pd \<noteq> []" "last (linedata pd) = CR"
      using i HTTP_CR by (simp_all add: pd_inv_def)
    then obtain l where l: "linedata pd = l @ [CR]"
      using append_butlast_last_id by metis
    have eq: "byte_cr c m = Inr m'" using step pd HTTP_CR by (simp add: appendByte_def with_pd_def)
    consider "c \<noteq> LF" "m' = set_pd m ((pd_line c pd)\<lparr>state := ls\<rparr>)"
      | "c = LF" "m' = set_pd m ((pd_line c pd)\<lparr>state := HTTP_CRLF\<rparr>)"
      | n where "getmsglen m = Inr n"
        "m' = set_pd m ((pd_line c pd)\<lparr>state := (if n > 0 then HTTP_BODY else HTTP_COMPLETE)\<rparr>)"
      using eq byte_cr_eq[OF pd len ls, of c] by (auto split: if_splits)
    then show ?thesis
      using i b ls l HTTP_CR
      by cases (auto simp: parser_inv_set_pd pd_inv_def)
  next
    case HTTP_CRLF
    then obtain ls where ls: "last_state pd = Some ls" using i by (auto simp: pd_inv_def)
    show ?thesis
    proof (cases "isblank c")
      case True
      with step pd HTTP_CRLF i b byte_crlf_blank_eq[OF pd True] show ?thesis
        by (auto simp: appendByte_def with_pd_def parser_inv_set_pd split: option.splits) (auto simp: pd_inv_def)
    next
      case False
      then obtain m1 where m1: "(if ls = HTTP_STARTLINE then parseStartLine m else parseHeaderLine m) = Inr m1"
          "m' = set_pd m1 ((pd_line c (pd\<lparr>linedata := []\<rparr>))\<lparr>state := (if c = CR then HTTP_CR else HTTP_HEADERS)\<rparr>)"
        using step pd HTTP_CRLF byte_crlf_line_eq[OF pd False ls]
        by (auto simp: appendByte_def with_pd_def split: if_splits)
      then have "bodylen m1 = bodylen m" "body m1 = body m"
        using parseStartLine_frame[of m m1] parseHeaderLine_frame[of m m1] by (auto split: if_splits)
      with m1(2) i b HTTP_CRLF show ?thesis
        by (auto simp: parser_inv_set_pd pd_inv_def body_ok_def body_bytes_def)
    qed
  next
    case HTTP_LSW
    then obtain ls where ls: "last_state pd = Some ls" using i by (auto simp: pd_inv_def)
    then show ?thesis
      using step pd HTTP_LSW inv i b byte_lsw_eq[OF pd len ls, of c]
      by (auto simp: appendByte_def with_pd_def parser_inv_set_pd split: if_splits) (auto simp: pd_inv_def)
  qed (use step pd inv i b st byte_line_eq[OF pd len, of _ c] in
      \<open>auto simp: appendByte_def with_pd_def parser_inv_set_pd pd_inv_def split: if_splits\<close>)
qed

text \<open>A block of the body that is not longer than what is missing.\<close>

lemma body_block_inv:
  assumes inv: "parser_inv m" and pd: "pri_data m = Some pd" and st: "state pd = HTTP_BODY"
    and n: "getmsglen m = Inr n" and len: "0 \<le> len" "len \<le> int (length d)" "bodylen m + len \<le> n" "n < 2147483648"
  obtains m' where "appendBody d len m = Inr m'" and "parser_inv m'"
    and "m' = set_pd (m\<lparr>body := Some (body_bytes m @ take (nat len) d), bodylen := bodylen m + len\<rparr>)
           (if bodylen m + len = n then pd\<lparr>state := HTTP_COMPLETE\<rparr> else pd)"
proof -
  let ?m = "m\<lparr>body := Some (body_bytes m @ take (nat len) d), bodylen := bodylen m + len\<rparr>"
  have b: "body_ok m" using inv by (simp add: parser_inv_def)
  then have ok: "int_ok (bodylen m + len)" using len by (auto simp: body_ok_def int_ok_def)
  have g: "grow_body m d len = Inr ?m" using grow_body_ok[OF b len(1,2) ok] .
  have "getmsglen ?m = Inr n" using n getmsglen_headers[of ?m m] by simp
  then have a: "appendBody d len m = Inr (set_pd ?m (if bodylen m + len = n then pd\<lparr>state := HTTP_COMPLETE\<rparr> else pd))"
    using pd by (auto simp: appendBody_def g finish_body_def set_state_def with_pd_def set_pd_def)
  moreover have "body_ok ?m"
    using b len ok by (simp add: body_ok_def body_bytes_def)
  then have "parser_inv (set_pd ?m (if bodylen m + len = n then pd\<lparr>state := HTTP_COMPLETE\<rparr> else pd))"
    using inv pd st len \<open>getmsglen ?m = Inr n\<close> by (auto simp: parser_inv_def pd_inv_def)
  ultimately show thesis using that by blast
qed

section \<open>The parse loop\<close>

lemma c_atoi_range: "c_atoi v = Inr n \<Longrightarrow> int_ok n"
  by (auto simp: c_atoi_def c_int_def Let_def split: if_splits)

lemma getmsglen_pos_value:
  assumes "getmsglen m = Inr n" and "0 < n"
  obtains v where "snd (httpc_Message_getValue m ''Content-Length'') = Some v" and "c_atoi v = Inr n"
  using assms by (auto simp: getmsglen_def httpc_Message_getValue_def split: option.splits)

text \<open>One round in the body takes what is there, up to what is missing.\<close>

lemma parse_step_body:
  assumes inv: "parser_inv m" and pd: "pri_data m = Some pd" and st: "state pd = HTTP_BODY" and d: "d \<noteq> []"
  obtains n m' where "getmsglen m = Inr n" and "bodylen m < n"
    and "parse_step m d = Inr (m', min (int (length d)) (n - bodylen m))" and "parser_inv m'"
    and "m' = set_pd (m\<lparr>body := Some (body_bytes m @ take (nat (n - bodylen m)) d),
                       bodylen := bodylen m + min (int (length d)) (n - bodylen m)\<rparr>)
           (if n - bodylen m \<le> int (length d) then pd\<lparr>state := HTTP_COMPLETE\<rparr> else pd)"
proof -
  have b: "body_ok m" using inv by (simp add: parser_inv_def)
  obtain n where n: "getmsglen m = Inr n" "bodylen m < n"
    using inv pd st by (auto simp: parser_inv_def pd_inv_def)
  moreover have "0 \<le> bodylen m" using b by (simp add: body_ok_def)
  ultimately obtain v where v: "snd (httpc_Message_getValue m ''Content-Length'') = Some v" "c_atoi v = Inr n"
    using getmsglen_pos_value[of m n] by auto
  have r: "n < 2147483648" "c_int (n - bodylen m) = Inr (n - bodylen m)"
    using c_atoi_range[OF v(2)] n(2) \<open>0 \<le> bodylen m\<close> by (auto simp: int_ok_def)
  let ?k = "min (int (length d)) (n - bodylen m)"
  have k: "0 \<le> ?k" "?k \<le> int (length d)" "bodylen m + ?k \<le> n" using n(2) by linarith+
  obtain m' where m': "appendBody d ?k m = Inr m'" "parser_inv m'"
      "m' = set_pd (m\<lparr>body := Some (body_bytes m @ take (nat ?k) d), bodylen := bodylen m + ?k\<rparr>)
         (if bodylen m + ?k = n then pd\<lparr>state := HTTP_COMPLETE\<rparr> else pd)"
    by (rule body_block_inv[OF inv pd st n(1) k r(1)])
  have "parse_step m d = Inr (m', ?k)"
    using pd st v r m'(1) by (auto simp: parse_step_def with_pd_def Let_def min_def)
  moreover have "take (nat ?k) d = take (nat (n - bodylen m)) d"
    by (auto simp: min_def)
  moreover have "bodylen m + ?k = n \<longleftrightarrow> n - bodylen m \<le> int (length d)"
    by (auto simp: min_def)
  moreover have "m' = set_pd (m\<lparr>body := Some (body_bytes m @ take (nat (n - bodylen m)) d), bodylen := bodylen m + ?k\<rparr>)
           (if n - bodylen m \<le> int (length d) then pd\<lparr>state := HTTP_COMPLETE\<rparr> else pd)"
    using m'(3) calculation(2,3) by simp
  ultimately show thesis
    using m'(2) n that[of n m'] by blast
qed

lemma parse_step_inv:
  assumes inv: "parser_inv m" and step: "parse_step m d = Inr (m', k)" and d: "d \<noteq> []"
  shows "parser_inv m'"
proof -
  obtain pd where pd: "pri_data m = Some pd" using inv by (auto simp: parser_inv_def)
  show ?thesis
  proof (cases "state pd = HTTP_BODY")
    case True
    show ?thesis
      by (rule parse_step_body[OF inv pd True d]) (use step in auto)
  next
    case False
    with step pd have "appendByte (hd d) m = Inr m'"
      by (auto simp: parse_step_def with_pd_def)
    with inv pd False show ?thesis by (rule appendByte_inv)
  qed
qed

lemma parse_loop_inv:
  "parser_inv m \<Longrightarrow> parse_loop m d u = Inr (m', u') \<Longrightarrow>
   parser_inv m' \<and> u \<le> u' \<and> u' \<le> u + int (length d) \<and> (parse_done m' \<or> u' = u + int (length d))"
proof (induction m d u rule: parse_loop.induct)
  case (1 m d u)
  show ?case
  proof (cases "parse_done m \<or> d = []")
    case True
    with 1 show ?thesis by (auto simp: parse_loop.simps[of m])
  next
    case False
    with 1(3) obtain m1 k where s: "parse_step m d = Inr (m1, k)"
        "parse_loop m1 (drop (nat k) d) (u + k) = Inr (m', u')"
      by (auto simp: parse_loop.simps[of m d u] split: sum.splits)
    have k: "0 \<le> k" "k \<le> int (length d)"
      using parse_step_progress[OF s(1)] False by auto
    have "parser_inv m1" using parse_step_inv[OF 1(2) s(1)] False by blast
    from 1(1)[OF False s(1) refl this s(2)] k show ?thesis by auto
  qed
qed


section \<open>Cutting the input\<close>

lemma parse_loop_done [simp]: "parse_done m \<Longrightarrow> parse_loop m d u = Inr (m, u)" "parse_loop m [] u = Inr (m, u)"
  by (simp_all add: parse_loop.simps)

lemma parse_loop_step:
  "\<not> parse_done m \<Longrightarrow> d \<noteq> [] \<Longrightarrow>
   parse_loop m d u = bind_r (parse_step m d) (\<lambda>(m', rc). parse_loop m' (drop (nat rc) d) (u + rc))"
  by (cases "parse_step m d") (auto simp: parse_loop.simps[of m])

lemma parse_loop_shift:
  "parse_loop m d (u + v) = bind_r (parse_loop m d u) (\<lambda>(m', w). Inr (m', w + v))"
proof (induction m d u rule: parse_loop.induct)
  case (1 m d u)
  show ?case
  proof (cases "parse_done m \<or> d = []")
    case False
    then show ?thesis
      using 1[OF False] by (cases "parse_step m d") (auto simp: parse_loop_step algebra_simps)
  qed auto
qed

definition body_after :: "HttpMessage \<Rightarrow> ParserData \<Rightarrow> int \<Rightarrow> string \<Rightarrow> HttpMessage" where
  "body_after m pd n d =
     set_pd (m\<lparr>body := Some (body_bytes m @ take (nat (n - bodylen m)) d),
               bodylen := bodylen m + min (int (length d)) (n - bodylen m)\<rparr>)
       (if n - bodylen m \<le> int (length d) then pd\<lparr>state := HTTP_COMPLETE\<rparr> else pd)"

lemma parse_loop_body:
  assumes inv: "parser_inv m" and pd: "pri_data m = Some pd" and st: "state pd = HTTP_BODY" and d: "d \<noteq> []"
    and n: "getmsglen m = Inr n"
  shows "bodylen m < n" and "parser_inv (body_after m pd n d)"
    and "parse_loop m d u = Inr (body_after m pd n d, u + min (int (length d)) (n - bodylen m))"
proof -
  let ?k = "min (int (length d)) (n - bodylen m)"
  have *: "bodylen m < n \<and> parse_step m d = Inr (body_after m pd n d, ?k) \<and> parser_inv (body_after m pd n d)"
    by (rule parse_step_body[OF inv pd st d]) (simp add: n body_after_def)
  then show "bodylen m < n" "parser_inv (body_after m pd n d)" by auto
  have "\<not> parse_done m" using pd st by (simp add: parse_done_def)
  moreover have "parse_done (body_after m pd n d) \<or> drop (nat ?k) d = []"
    by (auto simp: body_after_def parse_done_def min_def)
  ultimately show "parse_loop m d u = Inr (body_after m pd n d, u + ?k)"
    using * d by (auto simp: parse_loop_step)
qed

lemma body_after_append:
  assumes "parser_inv m" and "pri_data m = Some pd" and "int (length a) < n - bodylen m"
  shows "body_after (body_after m pd n a) pd n b = body_after m pd n (a @ b)"
proof -
  have "nat (n - bodylen m) - length a = nat (n - (bodylen m + int (length a)))" "length a \<le> nat (n - bodylen m)"
    using assms(3) by arith+
  then have "take (nat (n - bodylen m)) (a @ b) = a @ take (nat (n - (bodylen m + int (length a)))) b"
    by simp
  then show ?thesis
    using assms by (auto simp: body_after_def body_bytes_def set_pd_def min_def simp del: take_append)
qed

lemma parse_loop_append:
  "parser_inv m \<Longrightarrow> parse_loop m (a @ b) u = bind_r (parse_loop m a u) (\<lambda>(m', v). parse_loop m' b v)"
proof (induction m a u rule: parse_loop.induct)
  case (1 m a u)
  obtain pd where pd: "pri_data m = Some pd" using 1(2) by (auto simp: parser_inv_def)
  consider "parse_done m \<or> a = []" | "\<not> parse_done m" "a \<noteq> []" "state pd = HTTP_BODY"
    | "\<not> parse_done m" "a \<noteq> []" "state pd \<noteq> HTTP_BODY" by blast
  then show ?case
  proof cases
    case 1
    then show ?thesis by auto
  next
    case 2
    obtain n where n: "getmsglen m = Inr n"
      using 1(2) pd 2(3) by (auto simp: parser_inv_def pd_inv_def)
    note la = parse_loop_body[OF 1(2) pd 2(3) 2(2) n]
    have lab: "parse_loop m (a @ b) u = Inr (body_after m pd n (a @ b), u + min (int (length (a @ b))) (n - bodylen m))"
      using parse_loop_body(3)[OF 1(2) pd 2(3) _ n] 2(2) by blast
    show ?thesis
    proof (cases "n - bodylen m \<le> int (length a)")
      case True
      then have "parse_done (body_after m pd n a)" "body_after m pd n (a @ b) = body_after m pd n a"
        by (auto simp: body_after_def parse_done_def)
      with True la(1) show ?thesis by (simp add: lab la(3))
    next
      case False
      let ?m = "body_after m pd n a"
      have f: "pri_data ?m = Some pd" "getmsglen ?m = Inr n" "bodylen ?m = bodylen m + int (length a)"
        using False n getmsglen_headers[of ?m m] by (auto simp: body_after_def set_pd_def)
      show ?thesis
      proof (cases "b = []")
        case True
        then show ?thesis by (simp add: lab la(3))
      next
        case b: False
        show ?thesis
          using parse_loop_body(3)[OF la(2) f(1) 2(3) b f(2)] False f(3)
            body_after_append[OF 1(2) pd, of a n b]
          by (simp add: lab la(3))
      qed
    qed
  next
    case 3
    show ?thesis
    proof (cases "appendByte (hd a) m")
      case (Inl e)
      with 3 pd show ?thesis by (simp add: parse_loop_step parse_step_def with_pd_def)
    next
      case (Inr m1)
      then have s: "parse_step m a = Inr (m1, 1)" "parse_step m (a @ b) = Inr (m1, 1)"
        using 3 pd by (simp_all add: parse_step_def with_pd_def)
      have "parser_inv m1" using parse_step_inv[OF 1(2) s(1) 3(2)] .
      from 1(1)[OF _ s(1) refl this] 3 s show ?thesis
        by (cases a) (simp_all add: parse_loop_step)
    qed
  qed
qed

end
