(* ===== verification/Http_Roundtrip.thy ===== *)
theory Http_Roundtrip
  imports Http_Encode Http_Parser_Inv
begin

text \<open>
  The parser of \<open>src/src/httpparser.c\<close> reads back what \<open>httpc_Message_encode\<close> of
  \<open>src/src/httpc.c\<close> puts on the wire: the start line, every header (in the reverse order, since
  \<open>list_add\<close> puts each new header first) and the body.
\<close>

section \<open>Reading whole lines\<close>

definition feeds :: "HttpMessage \<Rightarrow> string \<Rightarrow> HttpMessage \<Rightarrow> bool" where
  "feeds m t m' \<longleftrightarrow> (\<forall>u. parse_loop m t u = Inr (m', u + int (length t)))"

lemma feeds_append: "parser_inv m \<Longrightarrow> feeds m a m1 \<Longrightarrow> feeds m1 b m2 \<Longrightarrow> feeds m (a @ b) m2"
  by (simp add: feeds_def parse_loop_append)

lemma feeds_byte:
  assumes "pri_data m = Some pd" and "state pd \<noteq> HTTP_BODY" and "state pd \<noteq> HTTP_COMPLETE"
    and "appendByte c m = Inr m'"
  shows "feeds m [c] m'"
  using assms by (simp add: feeds_def parse_loop_step parse_done_def parse_step_def with_pd_def)

text \<open>\<open>reading m0 st l m\<close>: all of \<open>m\<close> but the parser's data is that of \<open>m0\<close>; the state is \<open>st\<close> and the line
  so far is \<open>l\<close>. \<open>ended m0 here l m\<close>: a line \<open>l\<close> that began in state \<open>here\<close> has just ended.\<close>

definition reading :: "HttpMessage \<Rightarrow> HttpParserState \<Rightarrow> string \<Rightarrow> HttpMessage \<Rightarrow> bool" where
  "reading m0 st l m \<longleftrightarrow> parser_inv m \<and> (\<exists>pd. m = set_pd m0 pd \<and> state pd = st \<and> linedata pd = l)"

definition ended :: "HttpMessage \<Rightarrow> HttpParserState \<Rightarrow> string \<Rightarrow> HttpMessage \<Rightarrow> bool" where
  "ended m0 here l m \<longleftrightarrow> parser_inv m \<and>
     (\<exists>pd. m = set_pd m0 pd \<and> state pd = HTTP_CRLF \<and> linedata pd = l @ crlf \<and> last_state pd = Some here)"

lemma line_len: "parser_inv (set_pd m0 pd) \<Longrightarrow> length (linedata pd) \<le> line_bufsize pd"
  by (simp add: parser_inv_set_pd pd_inv_def)

lemma feed_line_byte:
  assumes "reading m0 st l m" and "st = HTTP_STARTLINE \<or> st = HTTP_HEADERS" and "c \<noteq> CR"
  obtains m' where "feeds m [c] m'" and "reading m0 st (l @ [c]) m'"
proof -
  obtain pd where pd: "m = set_pd m0 pd" "state pd = st" "linedata pd = l" and inv: "parser_inv m"
    using assms(1) by (auto simp: reading_def)
  have "byte_line st c m = Inr (set_pd m0 (pd_line c pd))"
    using byte_line_eq[of m pd st c] line_len inv pd(1) assms(3) by simp
  then have step: "appendByte c m = Inr (set_pd m0 (pd_line c pd))"
    using assms(2) pd by (auto simp: appendByte_def with_pd_def)
  have "feeds m [c] (set_pd m0 (pd_line c pd))"
    using feeds_byte[OF _ _ _ step] pd assms(2) by auto
  moreover have "parser_inv (set_pd m0 (pd_line c pd))"
    using appendByte_inv[OF inv _ _ step] pd assms(2) by auto
  ultimately show thesis
    using pd by (intro that) (auto simp: reading_def intro!: exI[of _ "pd_line c pd"])
qed

lemma feed_text:
  assumes "reading m0 st l m" and "st = HTTP_STARTLINE \<or> st = HTTP_HEADERS" and "CR \<notin> set t"
  obtains m' where "feeds m t m'" and "reading m0 st (l @ t) m'"
  using assms
proof (induction t arbitrary: l m thesis)
  case Nil
  then show ?case by (simp add: feeds_def)
next
  case (Cons c t)
  obtain m1 where m1: "feeds m [c] m1" "reading m0 st (l @ [c]) m1"
    by (rule feed_line_byte[OF Cons.prems(2,3), of c]) (use Cons.prems(4) in auto)
  obtain m2 where m2: "feeds m1 t m2" "reading m0 st ((l @ [c]) @ t) m2"
    by (rule Cons.IH[OF _ m1(2) Cons.prems(3)]) (use Cons.prems(4) in auto)
  have "parser_inv m" using Cons.prems(2) by (simp add: reading_def)
  from feeds_append[OF this m1(1) m2(1)] m2(2) show ?case by (intro Cons.prems(1)) simp_all
qed

lemma feed_crlf:
  assumes "reading m0 st l m" and "st = HTTP_STARTLINE \<or> st = HTTP_HEADERS" and "l \<noteq> []" and "hd l \<noteq> CR"
  obtains m' where "feeds m crlf m'" and "ended m0 st l m'"
proof -
  obtain pd where pd: "m = set_pd m0 pd" "state pd = st" "linedata pd = l" and inv: "parser_inv m"
    using assms(1) by (auto simp: reading_def)
  let ?pd = "(pd_line CR pd)\<lparr>last_state := Some st, state := HTTP_CR\<rparr>"
  have "byte_line st CR m = Inr (set_pd m0 ?pd)"
    using byte_line_eq[of m pd st CR] line_len inv pd(1) by simp
  then have s1: "appendByte CR m = Inr (set_pd m0 ?pd)"
    using assms(2) pd by (auto simp: appendByte_def with_pd_def)
  have f1: "feeds m [CR] (set_pd m0 ?pd)" using feeds_byte[OF _ _ _ s1] pd assms(2) by auto
  have i1: "parser_inv (set_pd m0 ?pd)" using appendByte_inv[OF inv _ _ s1] pd assms(2) by auto
  have t: "take 2 (linedata ?pd @ [LF]) \<noteq> crlf"
    using pd assms(3,4) by (cases l) auto
  let ?pd2 = "(pd_line LF ?pd)\<lparr>state := HTTP_CRLF\<rparr>"
  have "byte_cr LF (set_pd m0 ?pd) = Inr (set_pd m0 ?pd2)"
    by (subst byte_cr_eq[of _ ?pd st]) (use line_len[OF i1] t in \<open>auto simp del: pd_line_simps(1)\<close>)
  then have s2: "appendByte LF (set_pd m0 ?pd) = Inr (set_pd m0 ?pd2)"
    by (simp add: appendByte_def with_pd_def)
  have "feeds (set_pd m0 ?pd) [LF] (set_pd m0 ?pd2)" using feeds_byte[OF _ _ _ s2] by auto
  then have "feeds m crlf (set_pd m0 ?pd2)" using feeds_append[OF inv f1] by simp
  moreover have "parser_inv (set_pd m0 ?pd2)" using appendByte_inv[OF i1 _ _ s2] by auto
  then have "ended m0 st l (set_pd m0 ?pd2)"
    using pd by (auto simp: ended_def intro!: exI[of _ ?pd2])
  ultimately show thesis by (rule that)
qed


lemma feed_next:
  assumes "ended m0 here l m" and "\<not> isblank c"
    and line: "\<And>pd. linedata pd = l @ crlf \<Longrightarrow>
      (if here = HTTP_STARTLINE then parseStartLine (set_pd m0 pd) else parseHeaderLine (set_pd m0 pd)) =
        Inr (set_pd m1 pd)"
  obtains m' where "feeds m [c] m'" and "c \<noteq> CR \<Longrightarrow> reading m1 HTTP_HEADERS [c] m'"
    and "c = CR \<Longrightarrow> reading m1 HTTP_CR [CR] m'"
proof -
  obtain pd where pd: "m = set_pd m0 pd" "state pd = HTTP_CRLF" "linedata pd = l @ crlf" "last_state pd = Some here"
    and inv: "parser_inv m"
    using assms(1) by (auto simp: ended_def)
  let ?pd = "(pd_line c (pd\<lparr>linedata := []\<rparr>))\<lparr>state := (if c = CR then HTTP_CR else HTTP_HEADERS)\<rparr>"
  have "byte_crlf c (set_pd m0 pd) = Inr (set_pd (set_pd m1 pd) ?pd)"
    using byte_crlf_line_eq[of "set_pd m0 pd" pd c here] assms(2) pd(4) line[OF pd(3)] by simp
  then have step: "appendByte c m = Inr (set_pd m1 ?pd)"
    using pd by (simp add: appendByte_def with_pd_def)
  have "feeds m [c] (set_pd m1 ?pd)"
    using feeds_byte[OF _ _ _ step] pd by simp
  moreover have "parser_inv (set_pd m1 ?pd)"
    using appendByte_inv[OF inv _ _ step] pd by simp
  ultimately show thesis
    by (intro that) (auto simp: reading_def intro!: exI[of _ ?pd])
qed

text \<open>The LF of the empty line behind the headers.\<close>

lemma feed_blank:
  assumes "reading m0 HTTP_CR [CR] m" and "getmsglen m0 = Inr n"
  obtains pd where "feeds m [LF] (set_pd m0 pd)" and "parser_inv (set_pd m0 pd)"
    and "state pd = (if n > 0 then HTTP_BODY else HTTP_COMPLETE)"
proof -
  obtain pd where pd: "m = set_pd m0 pd" "state pd = HTTP_CR" "linedata pd = [CR]" and inv: "parser_inv m"
    using assms(1) by (auto simp: reading_def)
  then obtain ls where ls: "last_state pd = Some ls"
    by (auto simp: parser_inv_set_pd pd_inv_def)
  let ?pd = "(pd_line LF pd)\<lparr>state := (if n > 0 then HTTP_BODY else HTTP_COMPLETE)\<rparr>"
  have "byte_cr LF (set_pd m0 pd) = Inr (set_pd m0 ?pd)"
    using byte_cr_eq[of "set_pd m0 pd" pd ls LF] line_len[of m0 pd] inv pd ls assms(2) by simp
  then have step: "appendByte LF m = Inr (set_pd m0 ?pd)"
    using pd by (simp add: appendByte_def with_pd_def)
  have "feeds m [LF] (set_pd m0 ?pd)"
    using feeds_byte[OF _ _ _ step] pd by simp
  moreover have "parser_inv (set_pd m0 ?pd)"
    using appendByte_inv[OF inv _ _ step] pd by simp
  ultimately show thesis by (rule that) simp
qed

section \<open>What the two line parsers read\<close>

definition no_space :: "string \<Rightarrow> bool" where
  "no_space s \<longleftrightarrow> list_all (\<lambda>c. \<not> isspace c) s"

text \<open>Text that \<open>parseStartLine\<close> and \<open>parseHeaderLine\<close> read back unchanged.\<close>

definition start_ok :: "string \<Rightarrow> string \<Rightarrow> string \<Rightarrow> bool" where
  "start_ok a b c \<longleftrightarrow> nul_free a \<and> nul_free b \<and> nul_free c \<and> no_space a \<and> no_space b \<and> b \<noteq> [] \<and>
     CR \<notin> set c \<and> LF \<notin> set c \<and> (c = [] \<or> \<not> isspace (hd c))"

definition header_ok :: "http_header \<Rightarrow> bool" where
  "header_ok h \<longleftrightarrow> (case h of (k, v) \<Rightarrow>
     nul_free k \<and> nul_free v \<and> CR \<notin> set k \<and> CR \<notin> set v \<and> CHR '':'' \<notin> set k \<and>
     2 \<le> length k \<and> \<not> isspace (hd k) \<and> \<not> isspace (last k) \<and>
     v \<noteq> [] \<and> \<not> isspace (hd v) \<and> \<not> isspace (last v))"

lemma isspace_simps [simp]: "isspace CR" "isspace LF" "isspace (CHR '' '')" "isblank c \<Longrightarrow> isspace c"
  by (auto simp: isspace_def isblank_def)

lemma take_no_space:
  "no_space a \<Longrightarrow> isspace c \<Longrightarrow> takeWhile (\<lambda>c. \<not> isspace c) (a @ c # s) = a"
  "no_space a \<Longrightarrow> isspace c \<Longrightarrow> dropWhile (\<lambda>c. \<not> isspace c) (a @ c # s) = c # s"
  by (induction a) (auto simp: no_space_def)

lemma no_space_hd: "no_space b \<Longrightarrow> b \<noteq> [] \<Longrightarrow> dropWhile isspace (b @ s) = b @ s"
  by (cases b) (auto simp: no_space_def)

lemma parseStartLine_reads:
  assumes "start_ok a b c" and "linedata pd = (a @ '' '' @ b @ '' '' @ c) @ crlf"
  shows "parseStartLine (set_pd m pd) = Inr (set_pd (m\<lparr>p1 := Some a, p2 := Some b, p3 := Some c\<rparr>) pd)"
proof -
  let ?l = "a @ CHR '' '' # b @ CHR '' '' # c @ crlf"
  have l: "linedata pd = ?l" using assms(2) by simp
  have b: "dropWhile isspace (b @ CHR '' '' # c @ crlf) = b @ CHR '' '' # c @ crlf"
    using assms(1) no_space_hd[of b] by (simp add: start_ok_def)
  have "takeWhile (\<lambda>c. c \<noteq> CR \<and> c \<noteq> LF) (c @ crlf) = c"
    using assms(1) by (subst takeWhile_append2) (auto simp: start_ok_def)
  then have c: "takeWhile (\<lambda>c. c \<noteq> CR \<and> c \<noteq> LF) (dropWhile isspace (c @ crlf)) = c"
    using assms(1) by (cases c) (simp_all add: start_ok_def)
  have s: "strdup_tmp n w = Inr w" if "nul_free w" "length w < n" for w n
    using that by (simp add: strdup_tmp_def)
  show ?thesis
    using assms(1) by (simp add: parseStartLine_def with_pd_def Let_def l take_no_space b c s start_ok_def set_pd_def)
qed


lemma trim_back_skip:
  assumes "q < length l" and "\<not> isspace (l ! q)" and "q \<le> p" and "\<forall>i. q < i \<and> i \<le> p \<longrightarrow> isspace (l ! i)"
    and "x \<le> int q"
  shows "trim_back l x (int p) = int q"
  using assms(3,4)
proof (induction p)
  case (Suc p)
  have n: "nat (1 + int p) = Suc p" by simp
  show ?case
  proof (cases "q = Suc p")
    case False
    then have "q \<le> p" "isspace (l ! Suc p)" using Suc.prems by auto
    with n show ?thesis using Suc assms(5) by (subst trim_back.simps) auto
  qed (use assms(2) n in \<open>simp add: trim_back.simps[of l x "1 + int p"]\<close>)
qed (use assms(2) in \<open>simp add: trim_back.simps[of l x 0]\<close>)

lemma parseHeaderLine_reads:
  assumes "header_ok (k, v)" and "linedata pd = (k @ '': '' @ v) @ crlf"
  shows "parseHeaderLine (set_pd m pd) = Inr (set_pd (fst (httpc_Message_setValue m k v)) pd)"
proof -
  let ?l = "k @ CHR '':'' # CHR '' '' # v @ crlf"
  let ?k = "length k" and ?v = "length v"
  have l: "linedata pd = ?l" using assms(2) by simp
  have ok: "2 \<le> ?k" "v \<noteq> []" "\<not> isspace (hd k)" "\<not> isspace (last k)" "\<not> isspace (hd v)" "\<not> isspace (last v)"
    "nul_free v" "nul_free k" "CHR '':'' \<notin> set k"
    using assms(1) by (auto simp: header_ok_def)
  have k0: "takeWhile isspace ?l = []" using ok(1,3) by (cases k) auto
  have colon: "takeWhile (\<lambda>c. c \<noteq> CHR '':'') ?l = k"
    using ok(9) by (subst takeWhile_append2) auto
  have k1: "k \<noteq> []" using ok(1) by auto
  have key: "trim_back ?l 0 (int (?k - 1)) = int (?k - 1)"
    by (rule trim_back_skip) (use ok(1,4) k1 in \<open>auto simp: nth_append last_conv_nth\<close>)
  then have key': "trim_back ?l 0 (int ?k - 1) = int ?k - 1" using ok(1) by (simp add: of_nat_diff)
  have rd_k: "header_key ?l 0 (int ?k - 1) = Inr (Some k)"
    using ok(1) by (simp add: header_key_def mem_read_def)
  have v_last: "?l ! (?k + 1 + ?v) = last v" and v_hd: "?l ! (?k + 2) = hd v"
    using ok(2) by (auto simp: nth_append last_conv_nth hd_conv_nth nth_Cons' Suc_le_eq)
  have sp: "isspace (?l ! i)" if "?k + 1 + ?v < i" "i \<le> ?k + ?v + 3" for i
  proof -
    have "i = ?k + ?v + 2 \<or> i = ?k + ?v + 3" using that by auto
    then show ?thesis by (auto simp: nth_append nth_Cons')
  qed
  have val: "trim_back ?l (int (?k + 1)) (int (?k + ?v + 3)) = int (?k + 1 + ?v)"
    by (rule trim_back_skip) (use ok(2,6) v_last sp in auto)
  have "skip_front ?l (?k + 2) = Inr (?k + 2)"
    using v_hd ok(5) by (subst skip_front.simps) auto
  then have skip: "skip_front ?l (?k + 1) = Inr (?k + 2)"
    by (subst skip_front.simps) (auto simp: nth_append)
  have rd_v: "mem_read ?l (int (?k + 2)) (int ?v) = Inr v"
    by (simp add: mem_read_def nat_add_distrib)
  show ?thesis
    using key' rd_k val skip rd_v
    by (simp add: parseHeaderLine_def with_pd_def Let_def l k0 colon add_ac httpc_Message_setValue_def set_pd_def)
qed


section \<open>The headers and the body\<close>

definition add_headers :: "http_header list \<Rightarrow> HttpMessage \<Rightarrow> HttpMessage" where
  "add_headers hs m = m\<lparr>headers := rev hs @ headers m, header_cnt := header_cnt m + int (length hs)\<rparr>"

lemma setValue_header_ok:
  "header_ok (k, v) \<Longrightarrow> add_headers hs (fst (httpc_Message_setValue m k v)) = add_headers ((k, v) # hs) m"
  by (simp add: header_ok_def add_headers_def httpc_Message_setValue_def make_kvpair_def)

lemma feed_headers:
  assumes "ended m0 here l m"
    and "\<And>pd. linedata pd = l @ crlf \<Longrightarrow>
      (if here = HTTP_STARTLINE then parseStartLine (set_pd m0 pd) else parseHeaderLine (set_pd m0 pd)) =
        Inr (set_pd m1 pd)"
    and "list_all header_ok hs" and "getmsglen (add_headers hs m1) = Inr n"
  obtains pd where "feeds m (concat (map header_text hs) @ crlf) (set_pd (add_headers hs m1) pd)"
    and "parser_inv (set_pd (add_headers hs m1) pd)" and "state pd = (if n > 0 then HTTP_BODY else HTTP_COMPLETE)"
  using assms
proof (induction hs arbitrary: m0 here l m m1 thesis)
  case Nil
  have inv: "parser_inv m" using Nil.prems(2) by (simp add: ended_def)
  obtain m' where m': "feeds m [CR] m'" "reading m1 HTTP_CR [CR] m'"
    by (rule feed_next[OF Nil.prems(2) _ Nil.prems(3), of CR]) (auto simp: isblank_def)
  have "getmsglen m1 = Inr n" using Nil.prems(5) by (simp add: add_headers_def)
  then obtain pd where "feeds m' [LF] (set_pd m1 pd)" "parser_inv (set_pd m1 pd)"
    "state pd = (if n > 0 then HTTP_BODY else HTTP_COMPLETE)"
    by (rule feed_blank[OF m'(2)])
  then show ?case
    using feeds_append[OF inv m'(1)] by (intro Nil.prems(1)[of pd]) (simp_all add: add_headers_def)
next
  case (Cons h hs)
  obtain k v where h: "h = (k, v)" by (cases h)
  then have ok: "header_ok (k, v)" and oks: "list_all header_ok hs" using Cons.prems(4) by auto
  then obtain c k' where k: "k = c # k'" by (cases k) (auto simp: header_ok_def)
  have nb: "\<not> isblank c" "c \<noteq> CR" and cr: "CR \<notin> set (k' @ '': '' @ v)"
    using ok k by (auto simp: header_ok_def)
  have inv: "parser_inv m" using Cons.prems(2) by (simp add: ended_def)
  obtain a where a: "feeds m [c] a" "reading m1 HTTP_HEADERS [c] a"
    by (rule feed_next[OF Cons.prems(2) nb(1) Cons.prems(3)]) (use nb(2) in auto)
  obtain b where b: "feeds a (k' @ '': '' @ v) b" "reading m1 HTTP_HEADERS (k @ '': '' @ v) b"
    by (rule feed_text[OF a(2) _ cr]) (auto simp: k)
  obtain d where d: "feeds b crlf d" "ended m1 HTTP_HEADERS (k @ '': '' @ v) d"
    by (rule feed_crlf[OF b(2)]) (use k nb(2) in auto)
  have ab: "feeds m ([c] @ (k' @ '': '' @ v) @ crlf) d"
    using feeds_append[OF inv a(1) feeds_append[OF _ b(1) d(1)]] a(2) by (simp add: reading_def)
  have "getmsglen (add_headers hs (fst (httpc_Message_setValue m1 k v))) = Inr n"
    using Cons.prems(5) setValue_header_ok[OF ok] h by simp
  from Cons.IH[OF _ d(2) _ oks this] parseHeaderLine_reads[OF ok] obtain pd where
    pd: "feeds d (concat (map header_text hs) @ crlf) (set_pd (add_headers (h # hs) m1) pd)"
      "parser_inv (set_pd (add_headers (h # hs) m1) pd)" "state pd = (if n > 0 then HTTP_BODY else HTTP_COMPLETE)"
    using setValue_header_ok[OF ok] h by auto
  from feeds_append[OF inv ab pd(1)] pd(2,3) show ?case
    by (intro Cons.prems(1)[of pd]) (simp_all add: header_text_def[of "(c # k', v)"] h k)
qed

lemma feed_start_line:
  assumes st: "start_ok a b c"
  obtains y where "feeds fresh_message ((a @ '' '' @ b @ '' '' @ c) @ crlf) y"
    and "ended fresh_message HTTP_STARTLINE (a @ '' '' @ b @ '' '' @ c) y"
proof -
  let ?s = "a @ '' '' @ b @ '' '' @ c"
  have r: "reading fresh_message HTTP_STARTLINE [] fresh_message"
    using parser_inv_fresh by (auto simp: reading_def fresh_message_def set_pd_def)
  have nsp: "c \<noteq> CR" if "c \<in> set a \<union> set b" for c
    using that st by (auto simp: start_ok_def no_space_def list_all_iff)
  have cr: "CR \<notin> set ?s" using nsp st by (auto simp: start_ok_def)
  obtain x where x: "feeds fresh_message ?s x" "reading fresh_message HTTP_STARTLINE ?s x"
    by (rule feed_text[OF r _ cr]) auto
  have "hd ?s \<noteq> CR" using cr by (cases a) auto
  then obtain y where y: "feeds x crlf y" "ended fresh_message HTTP_STARTLINE ?s y"
    by (elim feed_crlf[OF x(2), rotated 2]) auto
  from feeds_append[OF parser_inv_fresh x(1) y(1)] y(2) show thesis by (rule that)
qed

text \<open>The head of a message: start line, headers and empty line.\<close>

lemma feed_head:
  assumes st: "start_ok a b c" and "list_all header_ok hs"
    and "getmsglen (add_headers hs fresh_message) = Inr n"
  obtains pd where
    "feeds fresh_message (head_text a b c hs @ crlf)
       (set_pd (add_headers hs (fresh_message\<lparr>p1 := Some a, p2 := Some b, p3 := Some c\<rparr>)) pd)"
    and "parser_inv (set_pd (add_headers hs (fresh_message\<lparr>p1 := Some a, p2 := Some b, p3 := Some c\<rparr>)) pd)"
    and "state pd = (if n > 0 then HTTP_BODY else HTTP_COMPLETE)"
proof -
  let ?s = "a @ '' '' @ b @ '' '' @ c" and ?m1 = "fresh_message\<lparr>p1 := Some a, p2 := Some b, p3 := Some c\<rparr>"
  obtain y where xy: "feeds fresh_message (?s @ crlf) y" and y: "ended fresh_message HTTP_STARTLINE ?s y"
    by (rule feed_start_line[OF st])
  have "getmsglen (add_headers hs ?m1) = Inr n"
    using assms(3) by (subst getmsglen_headers[of _ "add_headers hs fresh_message"]) (simp_all add: add_headers_def)
  from feed_headers[OF y _ assms(2) this] parseStartLine_reads[OF st] obtain pd where
    "feeds y (concat (map header_text hs) @ crlf) (set_pd (add_headers hs ?m1) pd)"
    "parser_inv (set_pd (add_headers hs ?m1) pd)" "state pd = (if n > 0 then HTTP_BODY else HTTP_COMPLETE)"
    by auto
  with feeds_append[OF parser_inv_fresh xy] show thesis
    by (intro that[of pd]) (simp_all add: head_text_def)
qed


text \<open>A whole message on the wire: of the bytes \<open>d\<close> behind the head, the first \<open>n\<close> become the body.\<close>

lemma parse_message:
  assumes "start_ok a b c" and "list_all header_ok hs"
    and n: "getmsglen (add_headers hs fresh_message) = Inr n" "0 \<le> n" "n \<le> int (length d)"
  obtains m' where
    "httpc_parser_parse None (head_text a b c hs @ crlf @ d) = Inr (m', int (length (head_text a b c hs @ crlf)) + n)"
    and "httpc_Message_state (Some m') = HTTP_COMPLETE" and "headers m' = rev hs"
    and "p1 m' = Some a" "p2 m' = Some b" "p3 m' = Some c" "body_bytes m' = take (nat n) d" "bodylen m' = n"
proof -
  let ?m = "add_headers hs (fresh_message\<lparr>p1 := Some a, p2 := Some b, p3 := Some c\<rparr>)"
  obtain pd where f: "feeds fresh_message (head_text a b c hs @ crlf) (set_pd ?m pd)"
      "parser_inv (set_pd ?m pd)" "state pd = (if n > 0 then HTTP_BODY else HTTP_COMPLETE)"
    by (rule feed_head[OF assms(1-3)])
  have fields: "bodylen ?m = 0" "body_bytes ?m = []" "headers ?m = rev hs" "body_bytes (set_pd ?m pd) = []"
    by (simp_all add: add_headers_def fresh_message_def httpc_Message_create_def body_bytes_def set_pd_def)
  have p: "httpc_parser_parse None (head_text a b c hs @ crlf @ d) =
      parse_loop (set_pd ?m pd) d (int (length (head_text a b c hs @ crlf)))"
    using f(1) parse_loop_append[OF parser_inv_fresh, of "head_text a b c hs @ crlf" d 0]
    by (simp add: httpc_parser_parse_def feeds_def fresh_message_def)
  show thesis
  proof (cases "n = 0")
    case True
    have "parse_done (set_pd ?m pd)" using f(3) True by (simp add: parse_done_def)
    with True f(3) p fields show thesis
      by (intro that[of "set_pd ?m pd"]) (simp_all add: httpc_Message_state_def add_headers_def set_pd_def)
  next
    case False
    then have st: "state pd = HTTP_BODY" and d: "d \<noteq> []" using f(3) n(2,3) by auto
    have g: "getmsglen (set_pd ?m pd) = Inr n"
      using n(1) by (subst getmsglen_headers[of _ "add_headers hs fresh_message"]) (simp_all add: add_headers_def)
    let ?b = "body_after (set_pd ?m pd) pd n d"
    have "parse_loop (set_pd ?m pd) d u = Inr (?b, u + n)" for u
      using parse_loop_body(3)[OF f(2) _ st d g, of u] n(3) fields(1) by simp
    with p n False fields show thesis
      by (intro that[of ?b])
        (auto simp: body_after_def httpc_Message_state_def add_headers_def set_pd_def body_bytes_def)
  qed
qed

definition wire_ok :: "HttpMessage \<Rightarrow> bool" where
  "wire_ok m \<longleftrightarrow>
     (case (p1 m, p2 m, p3 m) of (Some a, Some b, Some c) \<Rightarrow> start_ok a b c | _ \<Rightarrow> False) \<and>
     list_all header_ok (headers m) \<and> body_ok m \<and>
     getmsglen (m\<lparr>headers := rev (headers m)\<rparr>) = Inr (bodylen m)"

text \<open>A parser reads back the text on the wire.\<close>

lemma parse_encoding:
  assumes ok: "wire_ok m"
  obtains m' where "httpc_parser_parse None (encoding m True) = Inr (m', int (length (encoding m True)))"
    and "httpc_Message_state (Some m') = HTTP_COMPLETE" and "p1 m' = p1 m" "p2 m' = p2 m" "p3 m' = p3 m"
    and "headers m' = rev (headers m)" "body_bytes m' = body_bytes m" "bodylen m' = bodylen m"
proof -
  obtain a b c where s: "p1 m = Some a" "p2 m = Some b" "p3 m = Some c" "start_ok a b c"
    using ok by (auto simp: wire_ok_def split: option.splits)
  then have st: "has_start_line m" by (simp add: has_start_line_def)
  have hs: "list_all header_ok (headers m)" and b: "body_ok m" using ok by (simp_all add: wire_ok_def)
  have len: "bodylen m = int (length (body_bytes m))" using b by (simp add: body_ok_def)
  have "getmsglen (add_headers (headers m) fresh_message) = Inr (bodylen m)"
    using ok by (subst getmsglen_headers[of _ "m\<lparr>headers := rev (headers m)\<rparr>"])
      (simp_all add: wire_ok_def add_headers_def fresh_message_def httpc_Message_create_def)
  then obtain m' where m': "httpc_parser_parse None (head_text a b c (headers m) @ crlf @ body_bytes m) =
        Inr (m', int (length (head_text a b c (headers m) @ crlf)) + bodylen m)"
    "httpc_Message_state (Some m') = HTTP_COMPLETE" "headers m' = rev (headers m)"
    "p1 m' = Some a" "p2 m' = Some b" "p3 m' = Some c" "body_bytes m' = take (nat (bodylen m)) (body_bytes m)"
    "bodylen m' = bodylen m"
    by (rule parse_message[OF s(4) hs, of _ "body_bytes m"]) (simp_all add: len)
  have e: "encoding m True = head_text a b c (headers m) @ crlf @ body_bytes m"
    by (simp add: encoding_def s)
  have "httpc_parser_parse None (encoding m True) = Inr (m', int (length (encoding m True)))"
    using m'(1) len unfolding e by simp
  then show thesis using that s m' len by simp
qed

text \<open>C3: encoding and parsing are inverse up to the order of the headers: for a message whose start line
  and headers can stand on the wire and whose first-read Content-Length is the length of its body, the
  encoder fills a large enough buffer with a text that a new parser consumes to the last byte, ending in
  \<open>HTTP_COMPLETE\<close> with the same start line, the same body and the headers reversed, as long as its length
  does not overflow an \<open>int\<close>.\<close>

theorem encode_parse_roundtrip:
  assumes ok: "wire_ok m" and n: "httpc_Message_get_encode_length (Some m) True = Inr n" and room: "n < int (length buf)"
  shows "\<exists>buf' m'. httpc_Message_encode m buf True = Inr buf' \<and>
    httpc_parser_parse None (take (nat n) buf') = Inr (m', n) \<and>
    httpc_Message_state (Some m') = HTTP_COMPLETE \<and> p1 m' = p1 m \<and> p2 m' = p2 m \<and> p3 m' = p3 m \<and>
    headers m' = rev (headers m) \<and> body_bytes m' = body_bytes m \<and> bodylen m' = bodylen m"
proof -
  obtain m' where m': "httpc_parser_parse None (encoding m True) = Inr (m', int (length (encoding m True)))"
    "httpc_Message_state (Some m') = HTTP_COMPLETE" "p1 m' = p1 m" "p2 m' = p2 m" "p3 m' = p3 m"
    "headers m' = rev (headers m)" "body_bytes m' = body_bytes m" "bodylen m' = bodylen m"
    by (rule parse_encoding[OF ok])
  have st: "has_start_line m" and b: "body_ok m"
    using ok by (auto simp: wire_ok_def has_start_line_def split: option.splits)
  have len: "n = int (length (encoding m True))"
    using n encode_length_eq[OF st b, of True] by (simp add: c_int_def split: if_splits)
  then have "length (encoding m True) < length buf" using room by simp
  from encode_fills[OF st b this] obtain buf'
    where "httpc_Message_encode m buf True = Inr buf'" "take (length (encoding m True)) buf' = encoding m True" by blast
  with m' show ?thesis by (intro exI[of _ buf'] exI[of _ m']) (simp add: len)
qed

definition sample_message :: HttpMessage where
  "sample_message = httpc_Message_create\<lparr>p1 := Some ''GET'', p2 := Some ''/'', p3 := Some ''HTTP/1.0'',
     headers := [(''Host'', ''a''), (''Content-Length'', ''2'')], header_cnt := 2, body := Some ''hi'', bodylen := 2\<rparr>"

lemma sample_wire_ok: "wire_ok sample_message"
  by code_simp

lemma sample_length: "httpc_Message_get_encode_length (Some sample_message) True = Inr 48"
  by code_simp

theorem encode_parse_roundtrip_witness:
  "\<exists>buf' m'. httpc_Message_encode sample_message (replicate 49 NUL) True = Inr buf' \<and>
     httpc_parser_parse None (take 48 buf') = Inr (m', 48) \<and>
     headers m' = [(''Content-Length'', ''2''), (''Host'', ''a'')] \<and> body_bytes m' = ''hi''"
proof -
  have "48 < int (length (replicate 49 NUL))" by simp
  from encode_parse_roundtrip[OF sample_wire_ok sample_length this] obtain buf' m' where
    "httpc_Message_encode sample_message (replicate 49 NUL) True = Inr buf'"
    "httpc_parser_parse None (take 48 buf') = Inr (m', 48)"
    "headers m' = rev (headers sample_message)" "body_bytes m' = body_bytes sample_message"
    by auto
  then show ?thesis
    by (intro exI[of _ buf'] exI[of _ m']) (simp add: sample_message_def body_bytes_def)
qed

lemma header_find_append:
  "list_all (\<lambda>h. \<not> str_case_eq (fst h) key) hs \<Longrightarrow> header_find key (hs @ hs') = header_find key hs'"
  by (induction hs) (auto split: prod.splits)

lemma content_length_ok: "header_ok (''Content-Length'', dec_str n)"
proof -
  have d: "is_digit (hd (dec_str n))" "is_digit (last (dec_str n))"
    using dec_str_props(1,2)[of n] by (auto simp: list_all_iff)
  have no: "\<not> isspace c" if "is_digit c" for c
    using is_digit_other[OF that] by (auto simp: isspace_def isblank_def)
  have "CR \<notin> set (dec_str n)"
    using dec_str_props(2)[of n] is_digit_other by (auto simp: list_all_iff)
  then show ?thesis
    using no[OF d(1)] no[OF d(2)] nul_free_digits[OF dec_str_props(2)] dec_str_props(1)[of n]
    by (simp add: header_ok_def) (simp add: isspace_def isblank_def)
qed

text \<open>two calls of \<open>httpc_Message_appendBody\<close> leave both their \<open>Content-Length\<close> headers in the
  message, and on the wire the older one comes last, so it is the one a parser finds: it takes the first
  piece for the whole body, reports \<open>HTTP_COMPLETE\<close> and leaves the second piece unread.\<close>

theorem append_twice_truncates:
  assumes "start_ok a b c" and "list_all header_ok hs" and "d1 \<noteq> []" and "d2 \<noteq> []"
    and "list_all (\<lambda>h. \<not> str_case_eq (fst h) ''Content-Length'') hs"
    and "length d1 + length d2 < 2147483648"
    and m: "m = httpc_Message_create\<lparr>p1 := Some a, p2 := Some b, p3 := Some c, headers := hs\<rparr>"
  shows "\<exists>m1 m2 m' n1 n2. httpc_Message_appendBody (Some m) d1 (int (length d1)) = Inr (Some m1, n1) \<and>
    httpc_Message_appendBody (Some m1) d2 (int (length d2)) = Inr (Some m2, n2) \<and>
    httpc_parser_parse None (encoding m2 True) = Inr (m', int (length (encoding m2 True)) - int (length d2)) \<and>
    body_bytes m2 = d1 @ d2 \<and> body_bytes m' = d1 \<and> httpc_Message_state (Some m') = HTTP_COMPLETE"
proof -
  let ?h1 = "(''Content-Length'', dec_str (length d1))"
  let ?h2 = "(''Content-Length'', dec_str (length (d1 @ d2)))"
  have b0: "body_ok m" "body_bytes m = []" "bodylen m = 0" "headers m = hs"
    by (simp_all add: m body_ok_def body_bytes_def httpc_Message_create_def int_ok_def)
  let ?m1 = "m\<lparr>body := Some d1, bodylen := int (length d1), headers := ?h1 # hs, header_cnt := header_cnt m + 1\<rparr>"
  have a1: "httpc_Message_appendBody (Some m) d1 (int (length d1)) = Inr (Some ?m1, int (length d1))"
    using appendBody_ok[OF b0(1) assms(3)] assms(6) b0 by (simp add: int_ok_def)
  have b1: "body_ok ?m1" "body_bytes ?m1 = d1" using assms(6) by (simp_all add: body_ok_def body_bytes_def int_ok_def)
  let ?m2 = "?m1\<lparr>body := Some (d1 @ d2), bodylen := int (length (d1 @ d2)), headers := ?h2 # ?h1 # hs,
    header_cnt := header_cnt m + 1 + 1\<rparr>"
  have a2: "httpc_Message_appendBody (Some ?m1) d2 (int (length d2)) = Inr (Some ?m2, int (length (d1 @ d2)))"
    using appendBody_ok[OF b1(1) assms(4)] assms(6) b1(2) by (simp add: int_ok_def)
  have hs: "list_all header_ok (?h2 # ?h1 # hs)" using assms(2) content_length_ok by simp
  have "header_find ''Content-Length'' (rev (?h2 # ?h1 # hs)) = Some (dec_str (length d1))"
    using assms(5) by (simp add: header_find_append)
  then have g: "getmsglen (add_headers (?h2 # ?h1 # hs) fresh_message) = Inr (int (length d1))"
    using assms(6) atoi_dec_str[of "length d1"]
    by (simp add: getmsglen_def httpc_Message_getValue_def add_headers_def fresh_message_def httpc_Message_create_def)
  obtain m' where m': "httpc_parser_parse None (head_text a b c (?h2 # ?h1 # hs) @ crlf @ (d1 @ d2)) =
        Inr (m', int (length (head_text a b c (?h2 # ?h1 # hs) @ crlf)) + int (length d1))"
      "httpc_Message_state (Some m') = HTTP_COMPLETE" "body_bytes m' = take (nat (int (length d1))) (d1 @ d2)"
    by (rule parse_message[OF assms(1) hs g, of "d1 @ d2"]) simp_all
  have e: "encoding ?m2 True = head_text a b c (?h2 # ?h1 # hs) @ crlf @ (d1 @ d2)"
    by (simp add: encoding_def m body_bytes_def)
  have "httpc_parser_parse None (encoding ?m2 True) = Inr (m', int (length (encoding ?m2 True)) - int (length d2))"
    unfolding e m'(1) by simp
  moreover have "body_bytes ?m2 = d1 @ d2" "body_bytes m' = d1" using m'(3) by (simp_all add: body_bytes_def)
  ultimately show ?thesis using a1 a2 m'(2) by blast
qed

theorem append_twice_truncates_witness:
  "\<exists>m1 m2 m' n1 n2.
    httpc_Message_appendBody (Some (httpc_Message_create\<lparr>p1 := Some ''A'', p2 := Some ''B'', p3 := Some ''C''\<rparr>)) ''one'' 3 =
      Inr (Some m1, n1) \<and> httpc_Message_appendBody (Some m1) ''two!'' 4 = Inr (Some m2, n2) \<and>
    httpc_parser_parse None (encoding m2 True) = Inr (m', int (length (encoding m2 True)) - 4) \<and>
    body_bytes m2 = ''onetwo!'' \<and> body_bytes m' = ''one'' \<and> httpc_Message_state (Some m') = HTTP_COMPLETE"
proof -
  have "start_ok ''A'' ''B'' ''C''" by code_simp
  from append_twice_truncates[OF this, of "[]" "''one''" "''two!''", OF _ _ _ _ _ refl]
  show ?thesis by (simp add: httpc_Message_create_def)
qed

end
