(* ===== verification/Http_Parser_Props.thy ===== *)
theory Http_Parser_Props
  imports Http_Roundtrip
begin

text \<open>
  Properties of the incremental parser of \<open>src/src/httpparser.c\<close>: what every call keeps, that it
  makes progress, that cutting the input changes nothing, and which header lines it cannot read.
\<close>

text \<open>C17: whatever bytes arrive, a call of \<open>httpc_parser_parse\<close> that does not fault keeps the parser's
  invariant (the line fits its buffer, \<open>last_state\<close> was written before a state that reads it, a body
  is read only while fewer bytes than \<open>Content-Length\<close> are there); \<open>used\<close> counts the bytes consumed,
  and bytes are left over only when the message is complete.\<close>

theorem parse_keeps_invariant:
  assumes "case saved of None \<Rightarrow> True | Some m \<Rightarrow> parser_inv m"
    and "httpc_parser_parse saved d = Inr (m', used)"
  shows "parser_inv m' \<and> 0 \<le> used \<and> used \<le> int (length d) \<and>
    (used < int (length d) \<longrightarrow> httpc_Message_state (Some m') = HTTP_COMPLETE)"
proof -
  have "\<exists>m. parser_inv m \<and> parse_loop m d 0 = Inr (m', used)"
    using assms parser_inv_fresh by (auto simp: httpc_parser_parse_def split: option.splits)
  then obtain m where "parser_inv m" "parse_loop m d 0 = Inr (m', used)" by blast
  from parse_loop_inv[OF this] show ?thesis
    by (auto simp: parse_done_def httpc_Message_state_def split: option.splits)
qed

theorem parse_keeps_invariant_witness:
  "\<exists>m' used. httpc_parser_parse None ''GET / HTTP'' = Inr (m', used) \<and> parser_inv m' \<and> used \<le> 10"
proof -
  have "\<not> isl (httpc_parser_parse None ''GET / HTTP'')" by code_simp
  then obtain m' used where r: "httpc_parser_parse None ''GET / HTTP'' = Inr (m', used)"
    by (cases "httpc_parser_parse None ''GET / HTTP''") auto
  with parse_keeps_invariant[OF _ this] show ?thesis by simp
qed

text \<open>The caller's loop over the pieces of a stream.\<close>

fun parse_pieces :: "HttpMessage \<Rightarrow> string list \<Rightarrow> int \<Rightarrow> (HttpMessage \<times> int) result" where
  "parse_pieces m [] u = Inr (m, u)"
| "parse_pieces m (d # ds) u =
     bind_r (httpc_parser_parse (Some m) d) (\<lambda>(m', k). parse_pieces m' ds (u + k))"

lemma parse_saved: "parser_inv m \<Longrightarrow> httpc_parser_parse (Some m) d = parse_loop m d 0"
  by (auto simp: httpc_parser_parse_def parser_inv_def)

lemma parse_pieces_loop: "parser_inv m \<Longrightarrow> parse_pieces m ds u = parse_loop m (concat ds) u"
proof (induction ds arbitrary: m u)
  case (Cons d ds)
  have s: "parse_loop m d u = bind_r (parse_loop m d 0) (\<lambda>(m', w). Inr (m', w + u))"
    using parse_loop_shift[of m d 0 u] by simp
  show ?case
  proof (cases "parse_loop m d 0")
    case (Inr r)
    obtain m1 k where r: "r = (m1, k)" by (cases r)
    have "parser_inv m1" using parse_loop_inv[OF Cons.prems, of d 0 m1 k] Inr r by simp
    with Cons Inr r s show ?thesis by (simp add: parse_saved parse_loop_append add.commute)
  qed (use Cons s in \<open>simp add: parse_saved parse_loop_append\<close>)
qed simp

text \<open>C4: the result does not depend on how the stream is cut: feeding any pieces one after the other gives
  the message, the number of used bytes and the faults of one call on the whole stream.\<close>

theorem parse_pieces_concat:
  assumes "parser_inv m"
  shows "parse_pieces m ds 0 = httpc_parser_parse (Some m) (concat ds)"
  using assms by (simp add: parse_pieces_loop parse_saved)

theorem parse_pieces_concat_witness:
  "parse_pieces fresh_message [''GET / H'', ''TTP/1.0'' @ [CR], [LF, CR, LF]] 0 =
     httpc_parser_parse (Some fresh_message) (''GET / HTTP/1.0'' @ crlf @ crlf)"
  using parse_pieces_concat[OF parser_inv_fresh, of "[''GET / H'', ''TTP/1.0'' @ [CR], [LF, CR, LF]]"] by simp

section \<open>Where a byte can fault\<close>

text \<open>the parser faults on a byte only where a line is judged: at the first byte behind a line end
  (\<open>HTTP_CRLF\<close>), or at the LF of the empty line when \<open>Content-Length\<close> does not fit an int. Every other
  byte, and every block of the body, is taken without touching memory outside the buffers, and no state
  reads a \<open>last_state\<close> that was never written.\<close>

theorem parse_step_total:
  assumes inv: "parser_inv m" and d: "d \<noteq> []"
    and st: "httpc_Message_state (Some m) \<noteq> HTTP_CRLF"
    and cl: "httpc_Message_state (Some m) = HTTP_CR \<longrightarrow> (\<exists>n. getmsglen m = Inr n)"
  shows "\<exists>m' k. parse_step m d = Inr (m', k)"
proof -
  obtain pd where pd: "pri_data m = Some pd" "pd_inv m pd" using inv by (auto simp: parser_inv_def)
  then have s: "httpc_Message_state (Some m) = state pd" by (simp add: httpc_Message_state_def)
  have len: "length (linedata pd) \<le> line_bufsize pd"
    and ls: "state pd \<in> {HTTP_CR, HTTP_CRLF, HTTP_LSW} \<Longrightarrow> \<exists>st. last_state pd = Some st"
    using pd(2) by (auto simp: pd_inv_def)
  show ?thesis
  proof (cases "state pd = HTTP_BODY")
    case True
    show ?thesis by (rule parse_step_body[OF inv pd(1) True d]) blast
  next
    case False
    have "\<exists>m'. appendByte (hd d) m = Inr m'"
      using False pd(1) s st cl ls byte_line_eq[OF pd(1) len] byte_cr_eq[OF pd(1) len] byte_lsw_eq[OF pd(1) len]
      by (cases "state pd") (auto simp: appendByte_def with_pd_def)
    with False pd(1) show ?thesis by (auto simp: parse_step_def with_pd_def)
  qed
qed

theorem parse_step_total_witness: "\<exists>m' k. parse_step fresh_message ''GET'' = Inr (m', k)"
  by (rule parse_step_total[OF parser_inv_fresh])
    (simp_all add: fresh_message_def httpc_Message_state_def)

section \<open>Header lines that fault\<close>

lemma trim_back_bounds: "trim_back l q p \<le> p \<and> (q \<le> trim_back l q p \<or> trim_back l q p = p)"
proof (induction l q p rule: trim_back.induct)
  case (1 l q p)
  then show ?case by (subst (1 2 3) trim_back.simps) auto
qed

lemma parseHeaderLine_no_colon:
  assumes "CHR '':'' \<notin> set (linedata pd)" and "linedata pd \<noteq> []"
  shows "parseHeaderLine (set_pd m pd) = Inl Uninit_Read"
proof -
  let ?l = "linedata pd"
  let ?q = "length (takeWhile isspace ?l)"
  have q: "?q \<le> length ?l" by (rule length_takeWhile_le)
  have "takeWhile (\<lambda>c. c \<noteq> CHR '':'') (drop ?q ?l) = drop ?q ?l"
    using assms(1) by (intro takeWhile_eq_all_conv[THEN iffD2]) (auto dest: in_set_dropD)
  then have p: "?q + length (takeWhile (\<lambda>c. c \<noteq> CHR '':'') (drop ?q ?l)) = length ?l"
    using q unfolding \<open>takeWhile _ (drop ?q ?l) = drop ?q ?l\<close> by simp
  then have p2: "int ?q + int (length (takeWhile (\<lambda>c. c \<noteq> CHR '':'') (drop ?q ?l))) = int (length ?l)"
    by (simp only: of_nat_add [symmetric])
  have "\<exists>key. header_key ?l (int ?q) (trim_back ?l (int ?q) (int (length ?l) - 1)) = Inr key"
    using trim_back_bounds[of ?l "int ?q" "int (length ?l) - 1"] q
    by (auto simp: header_key_def mem_read_def)
  then show ?thesis
    by (auto simp: parseHeaderLine_def with_pd_def Let_def p p2 skip_front.simps[of _ "Suc _"])
qed


text \<open>The only bytes of a key that is one character long are never copied.\<close>

lemma parseHeaderLine_short_key:
  assumes "linedata pd = (k # '': '' @ v) @ crlf" and "\<not> isspace k" and "k \<noteq> CHR '':''"
    and "v \<noteq> []" and "\<not> isspace (hd v)"
  shows "parseHeaderLine (set_pd m pd) = Inl Uninit_Read"
proof -
  let ?l = "k # CHR '':'' # CHR '' '' # v @ crlf"
  have l: "linedata pd = ?l" using assms(1) by simp
  have b: "trim_back ?l 2 x \<le> x" "2 \<le> trim_back ?l 2 x \<or> trim_back ?l 2 x = x" for x
    using trim_back_bounds[of ?l 2 x] by auto
  have key: "trim_back ?l 0 0 = 0" by (simp add: trim_back.simps)
  have "skip_front ?l 3 = Inr 3"
    using assms(4,5) by (subst skip_front.simps) (auto simp: hd_conv_nth nth_append eval_nat_numeral)
  then have skip: "skip_front ?l 2 = Inr 3"
    by (subst skip_front.simps) (simp add: eval_nat_numeral)
  obtain w where "mem_read ?l 3 (trim_back ?l 2 (int (length v) + 4) - 3 + 1) = Inr w"
    using b[of "int (length v) + 4"] by (auto simp: mem_read_def)
  moreover have "skip_front ?l (Suc (Suc 0)) = Inr 3" using skip by (simp add: numeral_2_eq_2)
  ultimately show ?thesis
    using key assms(2,3) by (simp add: parseHeaderLine_def with_pd_def Let_def l header_key_def add_ac)
qed

text \<open>A stream whose second line is \<open>l\<close>, up to the first byte of its third line.\<close>

lemma parse_second_line_fault:
  assumes st: "start_ok a b c" and "CR \<notin> set l" and "l \<noteq> []" and "\<not> isblank (hd l)" and "\<not> isblank x"
    and bad: "\<And>m pd. linedata pd = l @ crlf \<Longrightarrow> parseHeaderLine (set_pd m pd) = Inl e"
  shows "httpc_parser_parse None (a @ '' '' @ b @ '' '' @ c @ crlf @ l @ crlf @ [x] @ rest) = Inl e"
proof -
  let ?s = "a @ '' '' @ b @ '' '' @ c"
  obtain y where y: "feeds fresh_message (?s @ crlf) y" "ended fresh_message HTTP_STARTLINE ?s y"
    by (rule feed_start_line[OF st])
  obtain h l' where l: "l = h # l'" using assms(3) by (cases l) auto
  obtain z m1 where z: "feeds y [h] z" "reading m1 HTTP_HEADERS [h] z"
    by (rule feed_next[OF y(2), of h]) (use assms(2,4) l parseStartLine_reads[OF st] in auto)
  obtain z' where z': "feeds z l' z'" "reading m1 HTTP_HEADERS ([h] @ l') z'"
    by (rule feed_text[OF z(2)]) (use assms(2) l in auto)
  obtain w where w: "feeds z' crlf w" "ended m1 HTTP_HEADERS l w"
    by (rule feed_crlf[OF z'(2)]) (use assms(2) l in auto)
  have i: "parser_inv y" "parser_inv z" "parser_inv z'" using y z z' by (simp_all add: ended_def reading_def)
  have f: "feeds fresh_message ((?s @ crlf) @ [h] @ l' @ crlf) w"
    by (rule feeds_append[OF parser_inv_fresh y(1)], rule feeds_append[OF i(1) z(1)],
        rule feeds_append[OF i(2) z'(1) w(1)])
  obtain pd where pd: "w = set_pd m1 pd" "state pd = HTTP_CRLF" "linedata pd = l @ crlf" "last_state pd = Some HTTP_HEADERS"
    using w(2) by (auto simp: ended_def)
  have "appendByte x w = Inl e"
    using pd byte_crlf_line_eq[of w pd x] assms(5) bad[OF pd(3), of m1] by (simp add: appendByte_def with_pd_def)
  then have "parse_loop w ([x] @ rest) u = Inl e" for u
    using pd by (simp add: parse_loop_step parse_done_def parse_step_def with_pd_def)
  then show ?thesis
    using f parse_loop_append[OF parser_inv_fresh, of "(?s @ crlf) @ [h] @ l' @ crlf" "[x] @ rest" 0] l
    by (simp add: httpc_parser_parse_def feeds_def fresh_message_def)
qed

text \<open>a header line without a colon sends \<open>parseHeaderLine\<close> past the end of the line buffer: whatever
  follows, the parse of such a request faults instead of returning an error.\<close>

theorem header_without_colon_faults:
  assumes "start_ok a b c" and "CR \<notin> set l" and "CHR '':'' \<notin> set l" and "l \<noteq> []" and "\<not> isblank (hd l)"
    and "\<not> isblank x"
  shows "httpc_parser_parse None (a @ '' '' @ b @ '' '' @ c @ crlf @ l @ crlf @ [x] @ rest) = Inl Uninit_Read"
  by (rule parse_second_line_fault) (use assms parseHeaderLine_no_colon in auto)

theorem header_without_colon_faults_witness:
  "httpc_parser_parse None (''GET'' @ '' '' @ ''/'' @ '' '' @ ''HTTP/1.0'' @ crlf @ ''bad'' @ crlf @ [CR] @ [LF]) = Inl Uninit_Read"
proof -
  have "start_ok ''GET'' ''/'' ''HTTP/1.0''" by code_simp
  from header_without_colon_faults[OF this, of "''bad''" CR "[LF]"] show ?thesis
    by (simp add: isblank_def)
qed

text \<open>a header whose name is one character long is never copied (\<open>if (q == p) {}\<close>), and
  \<open>httpc_Message_setValue\<close> then reads the uninitialised block \<open>key\<close>.\<close>

theorem one_character_header_faults:
  assumes "start_ok a b c" and "\<not> isspace k" and "k \<noteq> CHR '':''" and "CR \<notin> set v" and "v \<noteq> []"
    and "\<not> isspace (hd v)" and "\<not> isblank x"
  shows "httpc_parser_parse None (a @ '' '' @ b @ '' '' @ c @ crlf @ (k # '': '' @ v) @ crlf @ [x] @ rest) = Inl Uninit_Read"
  by (rule parse_second_line_fault)
    (use assms parseHeaderLine_short_key in \<open>auto simp: isspace_def\<close>)

theorem one_character_header_faults_witness:
  "httpc_parser_parse None (''GET'' @ '' '' @ ''/'' @ '' '' @ ''HTTP/1.0'' @ crlf @ (CHR ''A'' # '': '' @ ''b'') @ crlf @ [CR] @ [LF]) =
     Inl Uninit_Read"
proof -
  have "start_ok ''GET'' ''/'' ''HTTP/1.0''" by code_simp
  from one_character_header_faults[OF this, of "CHR ''A''" "''b''" CR "[LF]"] show ?thesis
    by (simp add: isblank_def isspace_def)
qed

end
