(* ===== verification/Url_Parser.thy ===== *)
theory Url_Parser
  imports C_String Intrusive_List
begin

text \<open>
  \<open>src/src/urlparser.c\<close>. The two matchers, \<open>regexec\<close> on the compiled expressions \<open>exp_url\<close> and
  \<open>exp_authority\<close>, are parameters: they return the array \<open>subs\<close> or no match. \<open>matcher_ok\<close> is what
  POSIX says of them. The ring \<open>query_pairs\<close> is the list of its pairs, first node first.
\<close>

section \<open>Data\<close>

type_synonym key_value_t = "string \<times> string"
type_synonym regmatch_t = "int \<times> int"
type_synonym matcher = "string \<Rightarrow> regmatch_t list option"

record url_t =
  schema :: string
  username :: string
  passwd :: string
  host :: string
  port :: string
  path :: string
  query :: string
  fragment :: string
  query_pairs :: "key_value_t list"

text \<open>The memory behind a C string: its bytes and the NUL.\<close>

definition c_mem :: "string \<Rightarrow> string" where
  "c_mem s = c_str s @ [NUL]"

definition my_strndup :: "string \<Rightarrow> int \<Rightarrow> int \<Rightarrow> string result" where
  "my_strndup s off n =
     (if n > 0 then
        bind_r (check_r (0 \<le> off \<and> off < int (length (c_mem s))) Mem_Bounds) (\<lambda>_.
        Inr (take (nat n) (c_str (drop (nat off) (c_mem s)))))
      else Inr [])"

section \<open>The query\<close>

definition parse_kv :: "string \<Rightarrow> key_value_t option result" where
  "parse_kv p =
     (let pos = length (takeWhile (\<lambda>c. c \<noteq> CHR ''='') p)
      in if pos = length p then Inr None
         else bind_r (my_strndup p 0 (int pos)) (\<lambda>k. Inr (Some (k, drop (pos + 1) p))))"

function parse_query_loop :: "string \<Rightarrow> key_value_t list \<Rightarrow> key_value_t list result" where
  "parse_query_loop str head =
     (case strtok (CHR ''&'') str of
        None \<Rightarrow> Inr head
      | Some (p, rest) \<Rightarrow>
          bind_r (parse_kv p) (\<lambda>kv.
          parse_query_loop rest (case kv of None \<Rightarrow> head | Some kv \<Rightarrow> kv # head)))"
  by pat_completeness auto
termination by (relation "measure (\<lambda>(str, head). length str)") (auto dest: strtok_shorter)

declare parse_query_loop.simps [simp del]

definition parse_query :: "string \<Rightarrow> key_value_t list \<Rightarrow> key_value_t list result" where
  "parse_query q head = parse_query_loop (c_str q) head"

section \<open>The URL\<close>

definition sub :: "string \<Rightarrow> regmatch_t list \<Rightarrow> nat \<Rightarrow> string result" where
  "sub s subs i = my_strndup s (fst (subs ! i)) (snd (subs ! i) - fst (subs ! i))"

definition parse_authority :: "matcher \<Rightarrow> string \<Rightarrow> url_t \<Rightarrow> url_t result" where
  "parse_authority reg_auth authority url =
     (case reg_auth authority of
        Some subs \<Rightarrow>
          bind_r (sub authority subs 2) (\<lambda>us.
          bind_r (sub authority subs 3) (\<lambda>pw.
          bind_r (sub authority subs 4) (\<lambda>ho.
          bind_r (if fst (subs ! 6) = -1 then Inr ''80'' else sub authority subs 6) (\<lambda>po.
          Inr (url\<lparr>username := us, passwd := pw, host := ho, port := po\<rparr>)))))
      | None \<Rightarrow> Inr (url\<lparr>username := [], passwd := [], host := [], port := ''80''\<rparr>))"

definition simple_url_parse :: "matcher \<Rightarrow> matcher \<Rightarrow> string \<Rightarrow> url_t option result" where
  "simple_url_parse reg_url reg_auth str =
     (case reg_url str of
        None \<Rightarrow> Inr None
      | Some subs \<Rightarrow>
          bind_r (sub str subs 4) (\<lambda>authority.
          bind_r (sub str subs 2) (\<lambda>sc.
          bind_r (sub str subs 5) (\<lambda>pa.
          bind_r (sub str subs 7) (\<lambda>qu.
          bind_r (sub str subs 9) (\<lambda>fr.
          bind_r (parse_query qu []) (\<lambda>kvs.
          bind_r (parse_authority reg_auth authority
             \<lparr>schema = sc, username = [], passwd = [], host = [], port = [], path = pa,
              query = qu, fragment = fr, query_pairs = kvs\<rparr>) (\<lambda>url.
          Inr (Some url)))))))))"

text \<open>\<open>simple_url_release\<close>: the blocks in the order of their \<open>free\<close>. The loop takes every pair off the
  ring; \<open>list_del_each\<close> of \<open>Intrusive_List\<close> is the loop on the links.\<close>

datatype url_block =
    Kv_Key nat | Kv_Value nat | Kv_Node nat
  | B_username | B_passwd | B_host | B_port | B_fragment | B_path | B_query | B_schema | B_url

definition simple_url_release :: "url_t \<Rightarrow> url_block list" where
  "simple_url_release u =
     concat (map (\<lambda>i. [Kv_Key i, Kv_Value i, Kv_Node i]) [0..<length (query_pairs u)]) @
     [B_username, B_passwd, B_host, B_port, B_fragment, B_path, B_query, B_schema, B_url]"

section \<open>The query string\<close>

text \<open>The pieces between the separators, and the pair in a piece that has one.\<close>

fun split_on :: "char \<Rightarrow> string \<Rightarrow> string list" where
  "split_on d [] = [[]]"
| "split_on d (c # s) =
     (if c = d then [] # split_on d s else (c # hd (split_on d s)) # tl (split_on d s))"

definition pair_of :: "string \<Rightarrow> key_value_t option" where
  "pair_of p =
     (if CHR ''='' \<in> set p
      then Some (takeWhile (\<lambda>c. c \<noteq> CHR ''='') p, tl (dropWhile (\<lambda>c. c \<noteq> CHR ''='') p)) else None)"

definition query_spec :: "string \<Rightarrow> key_value_t list" where
  "query_spec s = List.map_filter pair_of (split_on (CHR ''&'') s)"

lemma takeWhile_length_eq: "length (takeWhile P xs) = length xs \<longleftrightarrow> (\<forall>x\<in>set xs. P x)"
  by (induction xs) auto

lemma my_strndup_slice:
  assumes "nul_free s" and "0 \<le> off" and "0 \<le> n" and "off + n \<le> int (length s)"
  shows "my_strndup s off n = Inr (take (nat n) (drop (nat off) s))"
proof -
  have "nul_free (drop k s)" for k
    using assms(1) by (auto simp: nul_free_def dest: in_set_dropD)
  then have "c_str (drop k s @ [NUL]) = drop k s" for k
    by (simp add: c_str_append_NUL)
  with assms show ?thesis by (auto simp: my_strndup_def c_mem_def)
qed

lemma parse_kv_eq: "nul_free p \<Longrightarrow> parse_kv p = Inr (pair_of p)"
proof -
  assume nf: "nul_free p"
  let ?k = "takeWhile (\<lambda>c. c \<noteq> CHR ''='') p"
  have "my_strndup p 0 (int (length ?k)) = Inr ?k"
    using my_strndup_slice[OF nf, of 0 "int (length ?k)"] takeWhile_eq_take[of _ p]
    by (simp add: length_takeWhile_le)
  then show ?thesis
    by (auto simp: parse_kv_def pair_of_def Let_def takeWhile_length_eq dropWhile_eq_drop drop_Suc tl_drop)
qed

lemma split_on_last: "d \<notin> set a \<Longrightarrow> split_on d a = [a]"
  by (induction a) auto

lemma split_on_sep: "d \<notin> set a \<Longrightarrow> split_on d (a @ d # s) = a # split_on d s"
  by (induction a) auto

lemma query_spec_skip: "query_spec (dropWhile (\<lambda>c. c = CHR ''&'') s) = query_spec s"
  by (induction s) (auto simp: query_spec_def map_filter_simps pair_of_def)

lemma query_spec_token:
  "query_spec s = (case pair_of (takeWhile (\<lambda>c. c \<noteq> CHR ''&'') s) of None \<Rightarrow> [] | Some kv \<Rightarrow> [kv]) @
     query_spec (drop 1 (dropWhile (\<lambda>c. c \<noteq> CHR ''&'') s))"
proof -
  let ?a = "takeWhile (\<lambda>c. c \<noteq> CHR ''&'') s" and ?r = "dropWhile (\<lambda>c. c \<noteq> CHR ''&'') s"
  have a: "CHR ''&'' \<notin> set ?a" by (auto dest: set_takeWhileD)
  show ?thesis
  proof (cases ?r)
    case Nil
    then have "s = ?a" by (metis append_Nil2 takeWhile_dropWhile_id)
    then have "split_on (CHR ''&'') s = [?a]" using split_on_last[OF a] by simp
    then show ?thesis by (simp add: query_spec_def Nil map_filter_simps pair_of_def split: option.splits)
  next
    case (Cons c r)
    then have "c = CHR ''&''" using hd_dropWhile[of "\<lambda>c. c \<noteq> CHR ''&''" s] by simp
    then have "s = ?a @ CHR ''&'' # r"
      using takeWhile_dropWhile_id[of "\<lambda>c. c \<noteq> CHR ''&''" s] Cons by simp
    then have "split_on (CHR ''&'') s = ?a # split_on (CHR ''&'') r" using split_on_sep[OF a] by metis
    then show ?thesis by (simp add: query_spec_def Cons map_filter_simps split: option.splits)
  qed
qed

lemma parse_query_loop_spec:
  "nul_free s \<Longrightarrow> parse_query_loop s head = Inr (rev (query_spec s) @ head)"
proof (induction s head rule: parse_query_loop.induct)
  case (1 str head)
  let ?t = "dropWhile (\<lambda>c. c = CHR ''&'') str"
  show ?case
  proof (cases "?t = []")
    case True
    then have "query_spec str = []"
      using query_spec_skip[of str] unfolding True by (simp add: query_spec_def map_filter_simps pair_of_def)
    then show ?thesis
      unfolding parse_query_loop.simps[of str] strtok_def Let_def True by simp
  next
    case False
    let ?p = "takeWhile (\<lambda>c. c \<noteq> CHR ''&'') ?t" and ?r = "drop 1 (dropWhile (\<lambda>c. c \<noteq> CHR ''&'') ?t)"
    have s: "strtok (CHR ''&'') str = Some (?p, ?r)" using False by (simp add: strtok_def Let_def)
    have nf: "nul_free ?p" "nul_free ?r"
      using 1(2) by (auto simp: nul_free_def dest!: set_takeWhileD set_dropWhileD in_set_dropD)
    from 1(1)[OF s refl nf(2)] show ?thesis
      using query_spec_token[of ?t] query_spec_skip[of str]
      by (subst parse_query_loop.simps) (auto simp: s parse_kv_eq[OF nf(1)] split: option.splits)
  qed
qed

lemma parse_query_pairs': "nul_free s \<Longrightarrow> parse_query s [] = Inr (rev (query_spec s))"
  by (simp add: parse_query_def parse_query_loop_spec)

text \<open>the query parser never faults, whatever the query: it stores the pairs of the pieces between
  \<open>&\<close> that contain a \<open>=\<close>, cut at their first \<open>=\<close>, in the reverse order of the query.\<close>

theorem parse_query_pairs: "parse_query s [] = Inr (rev (query_spec (c_str s)))"
  by (simp add: parse_query_def parse_query_loop_spec)

text \<open>A list of pairs written as a query.\<close>

fun render_query :: "key_value_t list \<Rightarrow> string" where
  "render_query [] = []"
| "render_query [(k, v)] = k @ CHR ''='' # v"
| "render_query ((k, v) # kv # kvs) = (k @ CHR ''='' # v) @ CHR ''&'' # render_query (kv # kvs)"

definition kv_ok :: "key_value_t \<Rightarrow> bool" where
  "kv_ok kv \<longleftrightarrow> (case kv of (k, v) \<Rightarrow>
     nul_free k \<and> nul_free v \<and> CHR ''='' \<notin> set k \<and> CHR ''&'' \<notin> set k \<and> CHR ''&'' \<notin> set v)"

lemma pair_of_kv: "CHR ''='' \<notin> set k \<Longrightarrow> pair_of (k @ CHR ''='' # v) = Some (k, v)"
  by (induction k) (auto simp: pair_of_def)

lemma query_spec_render: "list_all kv_ok kvs \<Longrightarrow> query_spec (render_query kvs) = kvs"
proof (induction kvs rule: render_query.induct)
  case (2 k v)
  then show ?case
    by (simp add: query_spec_def kv_ok_def split_on_last pair_of_kv map_filter_simps)
next
  case (3 k v kv kvs)
  then show ?case
    using split_on_sep[of "CHR ''&''" "k @ CHR ''='' # v" "render_query (kv # kvs)"]
    by (simp add: query_spec_def kv_ok_def pair_of_kv map_filter_simps)
qed (simp add: query_spec_def map_filter_simps pair_of_def)

lemma nul_free_render: "list_all kv_ok kvs \<Longrightarrow> nul_free (render_query kvs)"
  by (induction kvs rule: render_query.induct) (auto simp: kv_ok_def)

text \<open>C34: a query written from pairs whose keys and values do not contain the separators reads back as
  those pairs, last pair first.\<close>

theorem query_roundtrip:
  assumes "list_all kv_ok kvs"
  shows "parse_query (render_query kvs) [] = Inr (rev kvs)"
  using assms by (simp add: parse_query_def parse_query_loop_spec nul_free_render query_spec_render)

theorem query_roundtrip_witness:
  "parse_query ''a=1&b=x=y&c='' [] = Inr [(''c'', []), (''b'', ''x=y''), (''a'', ''1'')]"
  using query_roundtrip[of "[(''a'', ''1''), (''b'', ''x=y''), (''c'', [])]"]
  by (simp add: kv_ok_def)

section \<open>The parts of the URL\<close>

text \<open>What \<open>regexec\<close> stores: the pair \<open>-1, -1\<close> for a group that took no part, else a slice of the
  subject.\<close>

definition match_ok :: "string \<Rightarrow> regmatch_t list \<Rightarrow> bool" where
  "match_ok s subs \<longleftrightarrow> length subs = 10 \<and>
     list_all (\<lambda>(so, eo). so = -1 \<and> eo = -1 \<or> 0 \<le> so \<and> so \<le> eo \<and> eo \<le> int (length s)) subs"

definition matcher_ok :: "matcher \<Rightarrow> bool" where
  "matcher_ok rx \<longleftrightarrow> (\<forall>s subs. rx s = Some subs \<longrightarrow> match_ok s subs)"

definition group :: "string \<Rightarrow> regmatch_t list \<Rightarrow> nat \<Rightarrow> string" where
  "group s subs i = (case subs ! i of (so, eo) \<Rightarrow>
     if so = -1 then [] else take (nat (eo - so)) (drop (nat so) s))"

lemma sub_group:
  assumes "nul_free s" and "match_ok s subs" and "i < 10"
  shows "sub s subs i = Inr (group s subs i)"
proof -
  obtain so eo where e: "subs ! i = (so, eo)" by fastforce
  have "(so, eo) \<in> set subs" using assms(2,3) e nth_mem[of i subs] by (simp add: match_ok_def)
  then have "so = -1 \<and> eo = -1 \<or> 0 \<le> so \<and> so \<le> eo \<and> eo \<le> int (length s)"
    using assms(2) by (auto simp: match_ok_def list_all_iff)
  then show ?thesis
    using my_strndup_slice[OF assms(1), of so "eo - so"] e
    by (auto simp: sub_def group_def my_strndup_def)
qed

lemma nul_free_group: "nul_free s \<Longrightarrow> nul_free (group s subs i)"
  by (auto simp: group_def nul_free_def split: prod.splits dest: in_set_takeD in_set_dropD)

lemma url_parse_eq:
  assumes "matcher_ok reg_url" and "matcher_ok reg_auth" and "nul_free str"
  shows "simple_url_parse reg_url reg_auth str =
    (case reg_url str of
       None \<Rightarrow> Inr None
     | Some subs \<Rightarrow>
         (let a = group str subs 4 in
          Inr (Some
           (let u = \<lparr>schema = group str subs 2, username = [], passwd = [], host = [], port = ''80'',
                path = group str subs 5, query = group str subs 7, fragment = group str subs 9,
                query_pairs = rev (query_spec (group str subs 7))\<rparr>
            in case reg_auth a of
                 None \<Rightarrow> u
               | Some ss \<Rightarrow> u\<lparr>username := group a ss 2, passwd := group a ss 3, host := group a ss 4,
                    port := (if fst (ss ! 6) = -1 then ''80'' else group a ss 6)\<rparr>))))"
proof (cases "reg_url str")
  case (Some subs)
  have ok: "match_ok str subs" using assms(1) Some by (simp add: matcher_ok_def)
  let ?a = "group str subs 4"
  have "match_ok ?a ss" if "reg_auth ?a = Some ss" for ss using assms(2) that by (simp add: matcher_ok_def)
  then show ?thesis
    using nul_free_group[OF assms(3)]
    by (auto simp: simple_url_parse_def Some sub_group[OF assms(3) ok] parse_query_pairs' parse_authority_def
        sub_group Let_def split: option.split)
qed (simp add: simple_url_parse_def)

text \<open>with matchers that keep POSIX's contract, \<open>simple_url_parse\<close> never reads outside its strings. It
  returns no URL exactly when the URL expression does not match; otherwise every component is the slice
  of its group, the pairs are those of the query, last first, and the port is \<open>80\<close> unless the authority
  has one.\<close>

theorem url_parse_correct:
  assumes "matcher_ok reg_url" and "matcher_ok reg_auth" and "nul_free str"
  shows "simple_url_parse reg_url reg_auth str =
    (case reg_url str of
       None \<Rightarrow> Inr None
     | Some subs \<Rightarrow>
         (let a = group str subs 4 in
          Inr (Some
           (let u = \<lparr>schema = group str subs 2, username = [], passwd = [], host = [], port = ''80'',
                path = group str subs 5, query = group str subs 7, fragment = group str subs 9,
                query_pairs = rev (query_spec (group str subs 7))\<rparr>
            in case reg_auth a of
                 None \<Rightarrow> u
               | Some ss \<Rightarrow> u\<lparr>username := group a ss 2, passwd := group a ss 3, host := group a ss 4,
                    port := (if fst (ss ! 6) = -1 then ''80'' else group a ss 6)\<rparr>))))"
  by (rule url_parse_eq[OF assms])

text \<open>The path alone, for callers.\<close>

lemma url_parse_path:
  assumes "matcher_ok reg_url" and "matcher_ok reg_auth" and "nul_free str" and "reg_url str = Some subs"
  shows "\<exists>u. simple_url_parse reg_url reg_auth str = Inr (Some u) \<and> path u = group str subs 5"
  unfolding url_parse_eq[OF assms(1-3)] using assms(4) by (auto simp: Let_def split: option.split)

text \<open>Two matchers for the witness: one that finds a host and a query, one that takes the whole authority.\<close>

definition rx_sample :: matcher where
  "rx_sample s = (if length s < 6 then None
     else Some [(0, 6), (-1, -1), (-1, -1), (0, 2), (0, 2), (2, 2), (2, 6), (3, 6), (-1, -1), (-1, -1)])"

definition rx_host :: matcher where
  "rx_host s = Some ((0, int (length s)) # replicate 3 (-1, -1) @ (0, int (length s)) # replicate 5 (-1, -1))"

lemma rx_sample_ok: "matcher_ok rx_sample" "matcher_ok rx_host"
  by (auto simp: matcher_ok_def match_ok_def rx_sample_def rx_host_def eval_nat_numeral split: if_splits)

theorem url_parse_correct_witness:
  "\<exists>u. simple_url_parse rx_sample rx_host ''ab?c=d'' = Inr (Some u) \<and>
    host u = ''ab'' \<and> port u = ''80'' \<and> query_pairs u = [(''c'', ''d'')]"
proof -
  have "query_spec ''c=d'' = [(''c'', ''d'')]" by code_simp
  with url_parse_correct[OF rx_sample_ok, of "''ab?c=d''"] show ?thesis
    by (simp add: rx_sample_def rx_host_def group_def eval_nat_numeral)
qed

end
