(* ===== verification/Os_World.thy ===== *)
theory Os_World
  imports C_String
begin

text \<open>
  The operating system the sources call: descriptors, sockets and files. What a call answers is
  given by the answer functions of the world, one answer per call (\<open>tick\<close> counts the calls), so a
  theorem for every world is a theorem for every behaviour of the system. A call on a descriptor
  that is not open answers \<open>-1\<close> with \<open>EBADF\<close>.
\<close>

section \<open>The world\<close>

record os_file =
  fdata :: string
  fpos :: nat
  eof_flag :: bool

record world =
  open_fds :: "int list"
  close_log :: "int list"
  wire :: "int \<Rightarrow> string"
  files :: "int \<Rightarrow> os_file option"
  tick :: nat
  sel_ans :: "nat \<Rightarrow> int \<times> int \<Rightarrow> int"
  isset_ans :: "nat \<Rightarrow> bool"
  send_ans :: "nat \<Rightarrow> nat \<Rightarrow> int \<times> int"
  recv_ans :: "nat \<Rightarrow> nat \<Rightarrow> string option \<times> int"
  sock_ans :: "nat \<Rightarrow> int"
  conn_ans :: "nat \<Rightarrow> int \<times> int"
  gai_ans :: "nat \<Rightarrow> int \<times> nat list"
  io_err :: "nat \<Rightarrow> bool"
  errno_ans :: "nat \<Rightarrow> int"

definition EAGAIN :: int where "EAGAIN = 11"
definition EBADF :: int where "EBADF = 9"
definition EINPROGRESS :: int where "EINPROGRESS = 115"

definition pass :: "world \<Rightarrow> world" where
  "pass w = w\<lparr>tick := Suc (tick w)\<rparr>"

section \<open>Calls\<close>

text \<open>\<open>FD_SET\<close> indexes an array of \<open>FD_SETSIZE\<close> bits.\<close>

definition fd_set_ok :: "int \<Rightarrow> bool" where
  "fd_set_ok s \<longleftrightarrow> 0 \<le> s \<and> s < 1024"

definition timeval_of :: "int \<Rightarrow> int \<times> int" where
  "timeval_of timeout = (timeout sdiv 1000, (timeout smod 1000) * 1000)"

definition os_select :: "int \<Rightarrow> int \<times> int \<Rightarrow> world \<Rightarrow> int \<times> world" where
  "os_select s tv w = (if s \<in> set (open_fds w) then sel_ans w (tick w) tv else -1, pass w)"

definition os_send :: "int \<Rightarrow> string \<Rightarrow> world \<Rightarrow> (int \<times> int) \<times> world" where
  "os_send s d w =
     (if s \<notin> set (open_fds w) then ((-1, EBADF), pass w)
      else let (rc, e) = send_ans w (tick w) (length d)
           in ((rc, e), (pass w)\<lparr>wire := (wire w)(s := wire w s @ take (nat rc) d)\<rparr>))"

text \<open>\<open>Some bs\<close>: the bytes stored in the buffer, none of them when the peer has closed.\<close>

definition os_recv :: "int \<Rightarrow> nat \<Rightarrow> world \<Rightarrow> (string option \<times> int) \<times> world" where
  "os_recv s n w =
     (if s \<notin> set (open_fds w) then ((None, EBADF), pass w) else (recv_ans w (tick w) n, pass w))"

definition os_close :: "int \<Rightarrow> world \<Rightarrow> world" where
  "os_close s w = w\<lparr>open_fds := removeAll s (open_fds w), close_log := s # close_log w\<rparr>"

definition os_socket :: "world \<Rightarrow> int \<times> world" where
  "os_socket w =
     (let s = sock_ans w (tick w)
      in (s, if s = -1 then pass w else (pass w)\<lparr>open_fds := s # open_fds w\<rparr>))"

definition os_connect :: "int \<Rightarrow> nat \<Rightarrow> world \<Rightarrow> (int \<times> int) \<times> world" where
  "os_connect s addr w =
     (if s \<in> set (open_fds w) then conn_ans w (tick w) else (-1, EBADF), pass w)"

text \<open>\<open>fread\<close> and \<open>feof\<close> on a stream: a read error sets no end-of-file flag.\<close>

definition os_fread :: "int \<Rightarrow> nat \<Rightarrow> world \<Rightarrow> string \<times> world" where
  "os_fread fp n w =
     (case files w fp of
        None \<Rightarrow> ([], pass w)
      | Some f \<Rightarrow>
          if io_err w (tick w) then ([], pass w)
          else let d = take n (drop (fpos f) (fdata f))
               in (d, (pass w)\<lparr>files := (files w)(fp \<mapsto>
                      f\<lparr>fpos := fpos f + length d, eof_flag := length d < n\<rparr>)\<rparr>))"

definition os_feof :: "int \<Rightarrow> world \<Rightarrow> bool" where
  "os_feof fp w = (case files w fp of None \<Rightarrow> False | Some f \<Rightarrow> eof_flag f)"

definition os_fwrite :: "int \<Rightarrow> string \<Rightarrow> world \<Rightarrow> int \<times> world" where
  "os_fwrite fp d w =
     (case files w fp of
        None \<Rightarrow> (0, pass w)
      | Some f \<Rightarrow>
          if io_err w (tick w) then (0, pass w)
          else (int (length d),
                (pass w)\<lparr>files := (files w)(fp \<mapsto>
                   f\<lparr>fdata := take (fpos f) (fdata f) @ d @ drop (fpos f + length d) (fdata f),
                     fpos := fpos f + length d\<rparr>)\<rparr>))"

section \<open>What POSIX says of the answers\<close>

definition send_ok :: "world \<Rightarrow> bool" where
  "send_ok w \<longleftrightarrow> (\<forall>t n. fst (send_ans w t n) = -1 \<or> 0 \<le> fst (send_ans w t n) \<and> fst (send_ans w t n) \<le> int n)"

definition recv_ok :: "world \<Rightarrow> bool" where
  "recv_ok w \<longleftrightarrow> (\<forall>t n. case fst (recv_ans w t n) of None \<Rightarrow> True | Some bs \<Rightarrow> length bs \<le> n)"

text \<open>\<open>same_system w w'\<close>: the calls between the two worlds changed no answer.\<close>

definition same_system :: "world \<Rightarrow> world \<Rightarrow> bool" where
  "same_system w w' \<longleftrightarrow> sel_ans w' = sel_ans w \<and> send_ans w' = send_ans w \<and> recv_ans w' = recv_ans w \<and>
     io_err w' = io_err w \<and> tick w \<le> tick w'"

lemma same_system_refl [simp]: "same_system w w"
  by (simp add: same_system_def)

lemma same_system_trans: "same_system w w1 \<Longrightarrow> same_system w1 w2 \<Longrightarrow> same_system w w2"
  by (simp add: same_system_def)

lemma pass_simps [simp]:
  "wire (pass w) = wire w" "open_fds (pass w) = open_fds w" "close_log (pass w) = close_log w"
  "files (pass w) = files w" "tick (pass w) = Suc (tick w)" "same_system w (pass w)"
  "sel_ans (pass w) = sel_ans w" "send_ans (pass w) = send_ans w" "recv_ans (pass w) = recv_ans w"
  "io_err (pass w) = io_err w" "gai_ans (pass w) = gai_ans w" "sock_ans (pass w) = sock_ans w"
  by (simp_all add: pass_def same_system_def)

lemma same_system_ok: "same_system w w' \<Longrightarrow> send_ok w' = send_ok w" "same_system w w' \<Longrightarrow> recv_ok w' = recv_ok w"
  by (simp_all add: same_system_def send_ok_def recv_ok_def)

lemma os_send_facts:
  assumes "os_send s d w = ((rc, e), w')"
  shows "same_system w w'" "open_fds w' = open_fds w" "files w' = files w" "tick w' = Suc (tick w)"
    "close_log w' = close_log w" "0 < rc \<Longrightarrow> s \<in> set (open_fds w)"
    "wire w' = (if s \<in> set (open_fds w) then (wire w)(s := wire w s @ take (nat rc) d) else wire w)"
    "send_ok w \<Longrightarrow> rc \<le> int (length d)"
    "s \<in> set (open_fds w) \<Longrightarrow> (rc, e) = send_ans w (tick w) (length d)"
  using assms
  by (auto simp: os_send_def Let_def same_system_def send_ok_def split: if_splits prod.splits)
    (metis fst_conv int_one_le_iff_zero_less le_minus_one_simps(1) of_nat_0_le_iff order.trans)+

lemma os_recv_facts:
  assumes "os_recv s n w = ((r, e), w')"
  shows "w' = pass w" "recv_ok w \<Longrightarrow> r = Some bs \<Longrightarrow> length bs \<le> n"
    "s \<in> set (open_fds w) \<Longrightarrow> (r, e) = recv_ans w (tick w) n"
  using assms by (auto simp: os_recv_def recv_ok_def split: if_splits option.splits) (metis fst_conv option.simps(5))+

text \<open>A quiet world: one open socket, every call succeeds and takes everything.\<close>

definition quiet_world :: world where
  "quiet_world = \<lparr>open_fds = [5], close_log = [], wire = (\<lambda>_. []), files = (\<lambda>_. None), tick = 0,
     sel_ans = (\<lambda>_ _. 1), isset_ans = (\<lambda>_. True), send_ans = (\<lambda>_ n. (int n, 0)),
     recv_ans = (\<lambda>_ n. (Some (replicate n (CHR ''x'')), 0)), sock_ans = (\<lambda>_. 7), conn_ans = (\<lambda>_. (0, 0)),
     gai_ans = (\<lambda>_. (0, [1])), io_err = (\<lambda>_. False), errno_ans = (\<lambda>_. 0)\<rparr>"

lemma quiet_world_ok: "send_ok quiet_world" "recv_ok quiet_world"
  by (simp_all add: send_ok_def recv_ok_def quiet_world_def)

lemma quiet_world_simps: "5 \<in> set (open_fds quiet_world)" "wire quiet_world s = []"
  by (simp_all add: quiet_world_def)

section \<open>Sending a block with partial sends\<close>

text \<open>What the loops that send a whole block may assume of one attempt: a positive answer \<open>rc\<close> means
  that exactly the first \<open>rc\<close> bytes went out, any other that nothing did.\<close>

definition delivers :: "('w \<Rightarrow> string) \<Rightarrow> string \<Rightarrow> 'w \<Rightarrow> 'w \<Rightarrow> nat \<Rightarrow> bool" where
  "delivers out d w w' k \<longleftrightarrow> k \<le> length d \<and> out w' = out w @ take k d"

locale partial_sender =
  fixes good :: "'w \<Rightarrow> bool"
    and out :: "'w \<Rightarrow> string"
    and attempt :: "string \<Rightarrow> 'w \<Rightarrow> int \<Rightarrow> 'w \<Rightarrow> bool"
  assumes good_attempt: "good w \<Longrightarrow> attempt d w rc w' \<Longrightarrow> good w'"
    and attempt_sent: "good w \<Longrightarrow> attempt d w rc w' \<Longrightarrow> 0 < rc \<Longrightarrow>
      rc \<le> int (length d) \<and> out w' = out w @ take (nat rc) d"
    and attempt_failed: "good w \<Longrightarrow> attempt d w rc w' \<Longrightarrow> rc \<le> 0 \<Longrightarrow> out w' = out w"
begin

lemma delivers_stop: "good w \<Longrightarrow> attempt d w rc w' \<Longrightarrow> rc \<le> 0 \<Longrightarrow> delivers out d w w' 0"
  by (simp add: delivers_def attempt_failed)

lemma delivers_more:
  assumes "good w" and "attempt d w rc w1" and "0 < rc" and "delivers out (drop (nat rc) d) w1 w' k"
  shows "delivers out d w w' (nat rc + k)"
proof -
  have "rc \<le> int (length d)" "out w1 = out w @ take (nat rc) d"
    using attempt_sent[OF assms(1-3)] by auto
  then show ?thesis using assms(4) by (auto simp: delivers_def take_add)
qed

end

lemma delivers_nil [simp]: "delivers out d w w 0"
  by (simp add: delivers_def)

text \<open>\<open>send\<close> on an open socket keeps that contract.\<close>

definition sent_by :: "int \<Rightarrow> string \<Rightarrow> world \<Rightarrow> int \<Rightarrow> world \<Rightarrow> bool" where
  "sent_by s d w rc w' \<longleftrightarrow> (\<exists>e. os_send s d w = ((rc, e), w'))"

interpretation os: partial_sender send_ok "\<lambda>w. wire w s" "sent_by s" for s
proof
  fix w d rc w'
  assume g: "send_ok w" and a: "sent_by s d w rc w'"
  then obtain e where e: "os_send s d w = ((rc, e), w')" by (auto simp: sent_by_def)
  note f = os_send_facts[OF e]
  show "send_ok w'" using g same_system_ok(1)[OF f(1)] by simp
  show "0 < rc \<Longrightarrow> rc \<le> int (length d) \<and> wire w' s = wire w s @ take (nat rc) d"
    using f(6,7) f(8)[OF g] by simp
  show "rc \<le> 0 \<Longrightarrow> wire w' s = wire w s" using f(7) by simp
qed

end
