(* ===== verification/Thread_Pool.thy ===== *)
theory Thread_Pool
  imports Sync "HOL-Library.Multiset"
begin

text \<open>
  The thread pool of \<open>src/src/threadpool.c\<close> as a system of threads: the workers that run
  \<open>_thread_proc\<close>, the threads inside \<open>simple_thread_pool_add_task\<close>, and the thread inside
  \<open>simple_thread_pool_destroy\<close>. A step is one access to the shared state; the lock and the
  semaphore are those of \<open>Sync\<close>, and a thread that would block has no step. The ring of tasks is the
  list of its tasks, first node first.
\<close>

section \<open>State\<close>

text \<open>A task: the handler and its argument.\<close>

record task_t =
  handle :: nat
  opaque :: nat

definition simple_task_create :: "nat \<Rightarrow> nat \<Rightarrow> task_t" where
  "simple_task_create h o' = \<lparr>handle = h, opaque = o'\<rparr>"

text \<open>Where a worker stands in \<open>_thread_proc\<close>: before \<open>while (!tp->quit)\<close>, at \<open>simple_sem_wait\<close>, at
  \<open>if (tp->quit)\<close>, at \<open>simple_mutex_lock\<close>, at the test of the list, at \<open>simple_mutex_unlock\<close>, at
  \<open>if (task)\<close>, and behind the loop. Its variable \<open>task\<close> lives as long as the thread.\<close>

datatype wpc = W_Test | W_Wait | W_Check | W_Lock | W_Pop | W_Unlock | W_Run | W_Exit

record worker =
  wpc :: wpc
  task :: "task_t option"

datatype apc = A_Idle | A_Lock task_t | A_Append task_t | A_Unlock task_t | A_Post task_t
datatype dpc = D_Idle | D_Post nat | D_Join nat | D_Free | D_Done

text \<open>\<open>added\<close>, \<open>popped\<close>, \<open>ran\<close> and \<open>freed\<close> record the history: the tasks in the order they were
  appended, taken, handed to their handler, and freed by \<open>destroy\<close>.\<close>

record pool =
  tasks :: "task_t list"
  sem :: semaphore_t
  lock :: mutex_t
  quit :: bool
  thread_cnt :: nat
  workers :: "worker list"
  adders :: "apc list"
  destroyer :: dpc
  added :: "task_t list"
  popped :: "task_t list"
  ran :: "task_t list"
  freed :: "task_t list"

definition pool_thread_cnt :: "int \<Rightarrow> nat" where
  "pool_thread_cnt cnt = (if cnt \<le> 0 then 4 else nat cnt)"

text \<open>\<open>k\<close> threads may call \<open>add_task\<close>.\<close>

definition simple_thread_pool_create :: "int \<Rightarrow> nat \<Rightarrow> pool" where
  "simple_thread_pool_create cnt k =
     \<lparr>tasks = [], sem = simple_sem_create 0, lock = simple_mutex_create, quit = False,
      thread_cnt = pool_thread_cnt cnt,
      workers = replicate (pool_thread_cnt cnt) \<lparr>wpc = W_Test, task = None\<rparr>,
      adders = replicate k A_Idle, destroyer = D_Idle, added = [], popped = [], ran = [], freed = []\<rparr>"

section \<open>Steps\<close>

definition set_worker :: "nat \<Rightarrow> worker \<Rightarrow> pool \<Rightarrow> pool" where
  "set_worker i x p = p\<lparr>workers := (workers p)[i := x]\<rparr>"

text \<open>The call of the handler, \<open>task->handle (...)\<close>, is one step of the worker: from \<open>W_Run\<close> to \<open>W_Test\<close>. That
  a worker always has this step means that every handler returns; where a property depends on it, the
  tasks whose handler returns are a parameter (\<open>pool_step_with\<close> below).\<close>

definition thread_proc :: "nat \<Rightarrow> pool \<Rightarrow> pool result" where
  "thread_proc i p =
     (let x = workers p ! i in
      case wpc x of
        W_Test \<Rightarrow> Inr (set_worker i (x\<lparr>wpc := (if quit p then W_Exit else W_Wait)\<rparr>) p)
      | W_Wait \<Rightarrow> bind_r (simple_sem_wait (sem p)) (\<lambda>s. Inr (set_worker i (x\<lparr>wpc := W_Check\<rparr>) (p\<lparr>sem := s\<rparr>)))
      | W_Check \<Rightarrow> Inr (set_worker i (x\<lparr>wpc := (if quit p then W_Exit else W_Lock)\<rparr>) p)
      | W_Lock \<Rightarrow> bind_r (simple_mutex_lock i (lock p)) (\<lambda>l. Inr (set_worker i (x\<lparr>wpc := W_Pop\<rparr>) (p\<lparr>lock := l\<rparr>)))
      | W_Pop \<Rightarrow>
          (case tasks p of
             [] \<Rightarrow> Inr (set_worker i (x\<lparr>wpc := W_Unlock\<rparr>) p)
           | t # ts \<Rightarrow> Inr (set_worker i (x\<lparr>wpc := W_Unlock, task := Some t\<rparr>)
               (p\<lparr>tasks := ts, popped := popped p @ [t]\<rparr>)))
      | W_Unlock \<Rightarrow> bind_r (simple_mutex_unlock i (lock p)) (\<lambda>l. Inr (set_worker i (x\<lparr>wpc := W_Run\<rparr>) (p\<lparr>lock := l\<rparr>)))
      | W_Run \<Rightarrow> Inr (set_worker i (x\<lparr>wpc := W_Test\<rparr>)
          (case task x of None \<Rightarrow> p | Some t \<Rightarrow> p\<lparr>ran := ran p @ [t]\<rparr>))
      | W_Exit \<Rightarrow> Inl Would_Block)"

definition set_adder :: "nat \<Rightarrow> apc \<Rightarrow> pool \<Rightarrow> pool" where
  "set_adder j a p = p\<lparr>adders := (adders p)[j := a]\<rparr>"

text \<open>The threads that add have the numbers behind the workers'.\<close>

definition simple_thread_pool_add_task :: "nat \<Rightarrow> pool \<Rightarrow> pool result" where
  "simple_thread_pool_add_task j p =
     (let me = length (workers p) + j in
      case adders p ! j of
        A_Idle \<Rightarrow> Inl Would_Block
      | A_Lock t \<Rightarrow> bind_r (simple_mutex_lock me (lock p)) (\<lambda>l. Inr (set_adder j (A_Append t) (p\<lparr>lock := l\<rparr>)))
      | A_Append t \<Rightarrow> Inr (set_adder j (A_Unlock t) (p\<lparr>tasks := tasks p @ [t], added := added p @ [t]\<rparr>))
      | A_Unlock t \<Rightarrow> bind_r (simple_mutex_unlock me (lock p)) (\<lambda>l. Inr (set_adder j (A_Post t) (p\<lparr>lock := l\<rparr>)))
      | A_Post t \<Rightarrow> Inr (set_adder j A_Idle (p\<lparr>sem := simple_sem_post (sem p)\<rparr>)))"

text \<open>\<open>list_add\<close> put every new thread first, so they are joined in the reverse order.\<close>

definition simple_thread_pool_destroy :: "pool \<Rightarrow> pool result" where
  "simple_thread_pool_destroy p =
     (case destroyer p of
        D_Idle \<Rightarrow> Inr (p\<lparr>quit := True, destroyer := D_Post (thread_cnt p)\<rparr>)
      | D_Post 0 \<Rightarrow> Inr (p\<lparr>destroyer := D_Join 0\<rparr>)
      | D_Post (Suc n) \<Rightarrow> Inr (p\<lparr>sem := simple_sem_post (sem p), destroyer := D_Post n\<rparr>)
      | D_Join i \<Rightarrow>
          if i < length (workers p) then
            (if wpc (rev (workers p) ! i) = W_Exit then Inr (p\<lparr>destroyer := D_Join (Suc i)\<rparr>) else Inl Would_Block)
          else Inr (p\<lparr>destroyer := D_Free\<rparr>)
      | D_Free \<Rightarrow> Inr (p\<lparr>freed := tasks p, tasks := [], destroyer := D_Done\<rparr>)
      | D_Done \<Rightarrow> Inl Would_Block)"

text \<open>A thread of the caller starts \<open>add_task\<close> only before \<open>destroy\<close> begins, and \<open>destroy\<close> begins when
  no \<open>add_task\<close> is running: behind it the pool is freed memory.\<close>

inductive pool_step :: "pool \<Rightarrow> pool \<Rightarrow> bool" where
  worker: "i < length (workers p) \<Longrightarrow> thread_proc i p = Inr p' \<Longrightarrow> pool_step p p'"
| submit: "j < length (adders p) \<Longrightarrow> adders p ! j = A_Idle \<Longrightarrow> destroyer p = D_Idle \<Longrightarrow>
    pool_step p (set_adder j (A_Lock t) p)"
| add: "j < length (adders p) \<Longrightarrow> simple_thread_pool_add_task j p = Inr p' \<Longrightarrow> pool_step p p'"
| destroy: "list_all (\<lambda>a. a = A_Idle) (adders p) \<Longrightarrow> simple_thread_pool_destroy p = Inr p' \<Longrightarrow> pool_step p p'"

inductive_cases pool_stepE: "pool_step p p'"

lemmas pool_step_cases [consumes 1, case_names worker submit add destroy] = pool_stepE

inductive pool_reachable :: "int \<Rightarrow> nat \<Rightarrow> pool \<Rightarrow> bool" for cnt k where
  start: "pool_reachable cnt k (simple_thread_pool_create cnt k)"
| step: "pool_reachable cnt k p \<Longrightarrow> pool_step p p' \<Longrightarrow> pool_reachable cnt k p'"

section \<open>Counting threads\<close>

definition count_if :: "('a \<Rightarrow> bool) \<Rightarrow> 'a list \<Rightarrow> nat" where
  "count_if P xs = length (filter P xs)"

lemma count_if_update:
  "i < length xs \<Longrightarrow> count_if P (xs[i := x]) + (if P (xs ! i) then 1 else 0) = count_if P xs + (if P x then 1 else 0)"
proof (induction xs arbitrary: i)
  case (Cons y ys)
  show ?case
  proof (cases i)
    case (Suc l)
    then show ?thesis using Cons.IH[of l] Cons.prems by (cases "P y") (auto simp: count_if_def)
  qed (auto simp: count_if_def)
qed simp

lemma count_if_pos: "i < length xs \<Longrightarrow> P (xs ! i) \<Longrightarrow> 0 < count_if P xs"
  by (auto simp: count_if_def filter_empty_conv intro: nth_mem)

lemma count_if_le: "count_if P xs \<le> length xs"
  by (simp add: count_if_def)

lemma count_if_mono: "(\<And>x. P x \<Longrightarrow> Q x) \<Longrightarrow> count_if P xs \<le> count_if Q xs"
  by (induction xs) (auto simp: count_if_def)

lemma count_if_replicate: "count_if P (replicate n x) = (if P x then n else 0)"
  by (simp add: count_if_def)

text \<open>The tasks that workers have taken and not yet handed to their handler.\<close>

definition holds :: "worker \<Rightarrow> task_t multiset" where
  "holds x = (if wpc x = W_Unlock \<or> wpc x = W_Run then (case task x of None \<Rightarrow> {#} | Some t \<Rightarrow> {#t#}) else {#})"

definition held :: "worker list \<Rightarrow> task_t multiset" where
  "held xs = sum_list (map holds xs)"

lemma held_update: "i < length xs \<Longrightarrow> held (xs[i := x]) + holds (xs ! i) = held xs + holds x"
  by (induction xs arbitrary: i) (auto simp: held_def nth_Cons ac_simps split: nat.split)

section \<open>The invariant\<close>

definition in_lock :: "worker \<Rightarrow> bool" where
  "in_lock x \<longleftrightarrow> wpc x = W_Pop \<or> wpc x = W_Unlock"

definition a_in_lock :: "apc \<Rightarrow> bool" where
  "a_in_lock a \<longleftrightarrow> (case a of A_Append t \<Rightarrow> True | A_Unlock t \<Rightarrow> True | _ \<Rightarrow> False)"

text \<open>Workers with a token of the semaphore that are still to take a task, and \<open>add_task\<close> calls that
  are still to post.\<close>

definition has_token :: "worker \<Rightarrow> bool" where
  "has_token x \<longleftrightarrow> wpc x = W_Check \<or> wpc x = W_Lock \<or> wpc x = W_Pop"

definition will_pop :: "worker \<Rightarrow> bool" where
  "will_pop x \<longleftrightarrow> wpc x = W_Lock \<or> wpc x = W_Pop"

definition waits :: "worker \<Rightarrow> bool" where
  "waits x \<longleftrightarrow> wpc x = W_Wait"

definition will_post :: "apc \<Rightarrow> bool" where
  "will_post a \<longleftrightarrow> (case a of A_Unlock t \<Rightarrow> True | A_Post t \<Rightarrow> True | _ \<Rightarrow> False)"

lemmas pc_defs = in_lock_def a_in_lock_def has_token_def will_pop_def waits_def will_post_def

definition lock_inv :: "pool \<Rightarrow> bool" where
  "lock_inv p \<longleftrightarrow>
     depth (lock p) = (if owner (lock p) = None then 0 else 1) \<and>
     (\<forall>u. owner (lock p) = Some u \<longrightarrow> u < length (workers p) + length (adders p)) \<and>
     (\<forall>i<length (workers p). in_lock (workers p ! i) \<longleftrightarrow> owner (lock p) = Some i) \<and>
     (\<forall>j<length (adders p). a_in_lock (adders p ! j) \<longleftrightarrow> owner (lock p) = Some (length (workers p) + j))"

definition hist_inv :: "pool \<Rightarrow> bool" where
  "hist_inv p \<longleftrightarrow> added p = popped p @ tasks p @ freed p \<and> (destroyer p \<noteq> D_Done \<longrightarrow> freed p = [])"

definition run_inv :: "pool \<Rightarrow> bool" where
  "run_inv p \<longleftrightarrow> mset (popped p) = mset (ran p) + held (workers p) \<and>
     (\<forall>i<length (workers p). wpc (workers p ! i) = W_Unlock \<or> wpc (workers p ! i) = W_Run \<longrightarrow> task (workers p ! i) \<noteq> None)"

definition tokens :: "pool \<Rightarrow> nat" where
  "tokens p = sem_count (sem p) + count_if has_token (workers p) + count_if will_post (adders p)"

definition posts_left :: "pool \<Rightarrow> nat" where
  "posts_left p = (case destroyer p of D_Post n \<Rightarrow> n | _ \<Rightarrow> 0)"

definition token_inv :: "pool \<Rightarrow> bool" where
  "token_inv p \<longleftrightarrow>
     (\<not> quit p \<longrightarrow> tokens p \<le> length (tasks p) \<and> (length (added p) \<le> sem_max \<longrightarrow> tokens p = length (tasks p))) \<and>
     count_if will_pop (workers p) \<le> length (tasks p)"

definition quit_inv :: "pool \<Rightarrow> bool" where
  "quit_inv p \<longleftrightarrow> (quit p \<longleftrightarrow> destroyer p \<noteq> D_Idle) \<and> length (workers p) = thread_cnt p \<and>
     (quit p \<longrightarrow> list_all (\<lambda>a. a = A_Idle) (adders p)) \<and>
     (\<not> quit p \<longrightarrow> (\<forall>i<length (workers p). wpc (workers p ! i) \<noteq> W_Exit)) \<and>
     (quit p \<longrightarrow> thread_cnt p \<le> sem_max \<longrightarrow> count_if waits (workers p) \<le> sem_count (sem p) + posts_left p) \<and>
     (\<forall>i. destroyer p = D_Join i \<longrightarrow> i \<le> length (workers p) \<and> (\<forall>l<i. wpc (rev (workers p) ! l) = W_Exit)) \<and>
     (destroyer p = D_Free \<or> destroyer p = D_Done \<longrightarrow> (\<forall>i<length (workers p). wpc (workers p ! i) = W_Exit))"

definition pool_inv :: "pool \<Rightarrow> bool" where
  "pool_inv p \<longleftrightarrow> lock_inv p \<and> hist_inv p \<and> run_inv p \<and> token_inv p \<and> quit_inv p"

lemma held_replicate: "held (replicate n \<lparr>wpc = W_Test, task = None\<rparr>) = {#}"
  by (induction n) (simp_all add: held_def holds_def)

lemma pool_inv_create: "pool_inv (simple_thread_pool_create cnt k)"
  by (simp add: pool_inv_def lock_inv_def hist_inv_def run_inv_def token_inv_def quit_inv_def tokens_def
      simple_thread_pool_create_def pc_defs simple_mutex_create_def simple_sem_create_def count_if_replicate
      held_replicate)

text \<open>What one step of a worker does, case by case.\<close>

lemma thread_procE:
  assumes "thread_proc i p = Inr p'"
  obtains (test) "wpc (workers p ! i) = W_Test"
      "p' = set_worker i ((workers p ! i)\<lparr>wpc := (if quit p then W_Exit else W_Wait)\<rparr>) p"
  | (wait) s where "wpc (workers p ! i) = W_Wait" "simple_sem_wait (sem p) = Inr s"
      "p' = set_worker i ((workers p ! i)\<lparr>wpc := W_Check\<rparr>) (p\<lparr>sem := s\<rparr>)"
  | (check) "wpc (workers p ! i) = W_Check"
      "p' = set_worker i ((workers p ! i)\<lparr>wpc := (if quit p then W_Exit else W_Lock)\<rparr>) p"
  | (lock) l where "wpc (workers p ! i) = W_Lock" "simple_mutex_lock i (lock p) = Inr l"
      "p' = set_worker i ((workers p ! i)\<lparr>wpc := W_Pop\<rparr>) (p\<lparr>lock := l\<rparr>)"
  | (none) "wpc (workers p ! i) = W_Pop" "tasks p = []"
      "p' = set_worker i ((workers p ! i)\<lparr>wpc := W_Unlock\<rparr>) p"
  | (pop) t ts where "wpc (workers p ! i) = W_Pop" "tasks p = t # ts"
      "p' = set_worker i ((workers p ! i)\<lparr>wpc := W_Unlock, task := Some t\<rparr>) (p\<lparr>tasks := ts, popped := popped p @ [t]\<rparr>)"
  | (unlock) l where "wpc (workers p ! i) = W_Unlock" "simple_mutex_unlock i (lock p) = Inr l"
      "p' = set_worker i ((workers p ! i)\<lparr>wpc := W_Run\<rparr>) (p\<lparr>lock := l\<rparr>)"
  | (run) "wpc (workers p ! i) = W_Run"
      "p' = set_worker i ((workers p ! i)\<lparr>wpc := W_Test\<rparr>)
        (case task (workers p ! i) of None \<Rightarrow> p | Some t \<Rightarrow> p\<lparr>ran := ran p @ [t]\<rparr>)"
  using assms by (cases "wpc (workers p ! i)") (auto simp: thread_proc_def Let_def split: list.splits)

lemma sem_wait_Inr: "simple_sem_wait s = Inr s' \<Longrightarrow> sem_count s = Suc (sem_count s')"
  by (auto simp: simple_sem_wait_def split: nat.splits)

lemma lock_Inr:
  "simple_mutex_lock t m = Inr m' \<Longrightarrow> owner m \<noteq> Some t \<Longrightarrow>
   owner m = None \<and> owner m' = Some t \<and> depth m' = 1"
  by (auto simp: simple_mutex_lock_def split: option.splits if_splits)

lemma unlock_Inr:
  "simple_mutex_unlock t m = Inr m' \<Longrightarrow> depth m = 1 \<Longrightarrow> owner m = Some t \<and> owner m' = None \<and> depth m' = 0"
  by (auto simp: simple_mutex_unlock_def split: if_splits)

section \<open>A worker keeps the invariant\<close>

lemma set_worker_simps [simp]:
  "workers (set_worker i x p) = (workers p)[i := x]" "tasks (set_worker i x p) = tasks p"
  "sem (set_worker i x p) = sem p" "lock (set_worker i x p) = lock p" "quit (set_worker i x p) = quit p"
  "thread_cnt (set_worker i x p) = thread_cnt p" "adders (set_worker i x p) = adders p"
  "destroyer (set_worker i x p) = destroyer p" "added (set_worker i x p) = added p"
  "popped (set_worker i x p) = popped p" "ran (set_worker i x p) = ran p" "freed (set_worker i x p) = freed p"
  by (simp_all add: set_worker_def)

lemma worker_lock_inv:
  assumes "lock_inv p" and "i < length (workers p)" and "thread_proc i p = Inr p'"
  shows "lock_inv p'"
  using assms(3)
proof (cases rule: thread_procE)
  case (lock l)
  have "owner (Thread_Pool.lock p) \<noteq> Some i" using assms(1,2) lock(1) by (auto simp: lock_inv_def in_lock_def)
  note l = lock_Inr[OF lock(2) this]
  show ?thesis using assms(1,2) lock l by (auto simp: lock_inv_def pc_defs nth_list_update)
next
  case (unlock l)
  have "owner (Thread_Pool.lock p) = Some i" using assms(1,2) unlock(1) by (auto simp: lock_inv_def in_lock_def)
  with unlock_Inr[OF unlock(2)] assms(1) have "owner l = None" "depth l = 0" by (auto simp: lock_inv_def)
  with assms(1,2) unlock \<open>owner (Thread_Pool.lock p) = Some i\<close> show ?thesis
    by (auto simp: lock_inv_def pc_defs nth_list_update)
next
  case run
  have e: "lock_inv (case task (workers p ! i) of None \<Rightarrow> p | Some t \<Rightarrow> p\<lparr>ran := ran p @ [t]\<rparr>)"
    using assms(1) by (auto simp: lock_inv_def split: option.split)
  show ?thesis using assms(1,2) run by (auto simp: lock_inv_def pc_defs nth_list_update split: option.splits)
qed (use assms(1,2) in \<open>auto simp: lock_inv_def pc_defs nth_list_update\<close>)

lemma worker_hist_inv:
  assumes "hist_inv p" and "thread_proc i p = Inr p'"
  shows "hist_inv p'"
  using assms(2) by (cases rule: thread_procE) (use assms(1) in \<open>auto simp: hist_inv_def split: option.split\<close>)

text \<open>A worker at the list finds a task there.\<close>

lemma pop_finds_task:
  assumes "token_inv p" and "i < length (workers p)" and "wpc (workers p ! i) = W_Pop"
  shows "tasks p \<noteq> []"
  using assms count_if_pos[of i "workers p" will_pop] by (auto simp: token_inv_def will_pop_def)

lemma worker_run_inv:
  assumes "run_inv p" and "token_inv p" and i: "i < length (workers p)" and "thread_proc i p = Inr p'"
  shows "run_inv p'"
  using assms(4)
proof (cases rule: thread_procE)
  case none
  with pop_finds_task[OF assms(2) i] show ?thesis by simp
next
  case (pop t ts)
  let ?x = "(workers p ! i)\<lparr>wpc := W_Unlock, task := Some t\<rparr>"
  have "held ((workers p)[i := ?x]) = held (workers p) + {#t#}"
    using held_update[OF i, of ?x] pop(1) by (simp add: holds_def)
  with assms(1) i pop show ?thesis by (auto simp: run_inv_def nth_list_update)
next
  case run
  obtain t where t: "task (workers p ! i) = Some t" using assms(1) i run(1) by (auto simp: run_inv_def)
  let ?x = "(workers p ! i)\<lparr>wpc := W_Test\<rparr>"
  have "held ((workers p)[i := ?x]) + {#t#} = held (workers p)"
    using held_update[OF i, of ?x] run(1) t by (simp add: holds_def)
  with assms(1) i run t show ?thesis by (auto simp: run_inv_def nth_list_update)
next
  case (unlock l)
  let ?x = "(workers p ! i)\<lparr>wpc := W_Run\<rparr>"
  have "held ((workers p)[i := ?x]) = held (workers p)"
    using held_update[OF i, of ?x] unlock(1) by (simp add: holds_def)
  with assms(1) i unlock show ?thesis by (auto simp: run_inv_def nth_list_update)
next
  case test
  have "held ((workers p)[i := (workers p ! i)\<lparr>wpc := (if quit p then W_Exit else W_Wait)\<rparr>]) = held (workers p)"
    using held_update[OF i, of "(workers p ! i)\<lparr>wpc := (if quit p then W_Exit else W_Wait)\<rparr>"] test(1) by (simp add: holds_def)
  with assms(1) i test show ?thesis by (auto simp: run_inv_def nth_list_update)
next
  case (wait s)
  have "held ((workers p)[i := (workers p ! i)\<lparr>wpc := W_Check\<rparr>]) = held (workers p)"
    using held_update[OF i, of "(workers p ! i)\<lparr>wpc := W_Check\<rparr>"] wait(1) by (simp add: holds_def)
  with assms(1) i wait show ?thesis by (auto simp: run_inv_def nth_list_update)
next
  case check
  have "held ((workers p)[i := (workers p ! i)\<lparr>wpc := (if quit p then W_Exit else W_Lock)\<rparr>]) = held (workers p)"
    using held_update[OF i, of "(workers p ! i)\<lparr>wpc := (if quit p then W_Exit else W_Lock)\<rparr>"] check(1) by (simp add: holds_def)
  with assms(1) i check show ?thesis by (auto simp: run_inv_def nth_list_update)
next
  case (lock l)
  have "held ((workers p)[i := (workers p ! i)\<lparr>wpc := W_Pop\<rparr>]) = held (workers p)"
    using held_update[OF i, of "(workers p ! i)\<lparr>wpc := W_Pop\<rparr>"] lock(1) by (simp add: holds_def)
  with assms(1) i lock show ?thesis by (auto simp: run_inv_def nth_list_update)
qed

lemma worker_token_inv:
  assumes "token_inv p" and i: "i < length (workers p)" and "thread_proc i p = Inr p'"
  shows "token_inv p'"
  using assms(3)
proof (cases rule: thread_procE)
  case (wait s)
  with count_if_update[OF i, of has_token "(workers p ! i)\<lparr>wpc := W_Check\<rparr>"]
    count_if_update[OF i, of will_pop "(workers p ! i)\<lparr>wpc := W_Check\<rparr>"] sem_wait_Inr[OF wait(2)] assms(1)
  show ?thesis by (auto simp: token_inv_def tokens_def pc_defs)
next
  case check
  let ?x = "(workers p ! i)\<lparr>wpc := (if quit p then W_Exit else W_Lock)\<rparr>"
  have "count_if will_pop ((workers p)[i := ?x]) \<le> count_if has_token ((workers p)[i := ?x])"
    by (rule count_if_mono) (auto simp: pc_defs)
  with count_if_update[OF i, of has_token ?x] count_if_update[OF i, of will_pop ?x] assms(1) check
  show ?thesis by (auto simp: token_inv_def tokens_def pc_defs)
next
  case none
  with pop_finds_task[OF assms(1) i] show ?thesis by simp
next
  case (pop t ts)
  let ?x = "(workers p ! i)\<lparr>wpc := W_Unlock, task := Some t\<rparr>"
  show ?thesis
    using count_if_update[OF i, of has_token ?x] count_if_update[OF i, of will_pop ?x] assms(1) pop
    by (auto simp: token_inv_def tokens_def pc_defs)
next
  case test
  let ?x = "(workers p ! i)\<lparr>wpc := (if quit p then W_Exit else W_Wait)\<rparr>"
  show ?thesis
    using count_if_update[OF i, of has_token ?x] count_if_update[OF i, of will_pop ?x] assms(1) test
    by (auto simp: token_inv_def tokens_def pc_defs)
next
  case (lock l)
  let ?x = "(workers p ! i)\<lparr>wpc := W_Pop\<rparr>"
  show ?thesis
    using count_if_update[OF i, of has_token ?x] count_if_update[OF i, of will_pop ?x] assms(1) lock
    by (auto simp: token_inv_def tokens_def pc_defs)
next
  case (unlock l)
  let ?x = "(workers p ! i)\<lparr>wpc := W_Run\<rparr>"
  show ?thesis
    using count_if_update[OF i, of has_token ?x] count_if_update[OF i, of will_pop ?x] assms(1) unlock
    by (auto simp: token_inv_def tokens_def pc_defs)
next
  case run
  let ?x = "(workers p ! i)\<lparr>wpc := W_Test\<rparr>"
  show ?thesis
    using count_if_update[OF i, of has_token ?x] count_if_update[OF i, of will_pop ?x] assms(1) run
    by (auto simp: token_inv_def tokens_def pc_defs split: option.split)
qed

lemma worker_exit_stays:
  assumes "thread_proc i p = Inr p'" and "l < length (workers p)" and "wpc (workers p ! l) = W_Exit"
  shows "wpc (workers p' ! l) = W_Exit"
proof -
  have "l \<noteq> i" using assms(1,3) by (auto simp: thread_proc_def)
  with assms show ?thesis by (cases rule: thread_procE) (auto split: option.splits)
qed

lemma worker_no_exit:
  assumes "thread_proc i p = Inr p'" and "\<not> quit p" and "i < length (workers p)"
    and "\<forall>l<length (workers p). wpc (workers p ! l) \<noteq> W_Exit"
  shows "\<forall>l<length (workers p). wpc (workers p' ! l) \<noteq> W_Exit"
  using assms by (cases rule: thread_procE) (auto simp: nth_list_update split: option.split)

lemma worker_shape:
  "thread_proc i p = Inr p' \<Longrightarrow> length (workers p') = length (workers p) \<and> thread_cnt p' = thread_cnt p \<and>
   adders p' = adders p \<and> destroyer p' = destroyer p \<and> quit p' = quit p"
  by (cases "task (workers p ! i)"; erule thread_procE) auto

lemma worker_waits:
  assumes i: "i < length (workers p)" and "thread_proc i p = Inr p'"
    and "quit p" and "count_if waits (workers p) \<le> sem_count (sem p) + n"
  shows "count_if waits (workers p') \<le> sem_count (sem p') + n"
  using assms(2)
proof (cases rule: thread_procE)
  case (wait s)
  with sem_wait_Inr[OF wait(2)] count_if_update[OF i, of waits "(workers p ! i)\<lparr>wpc := W_Check\<rparr>"] assms(4)
  show ?thesis by (simp add: waits_def)
next
  case test
  with count_if_update[OF i, of waits "(workers p ! i)\<lparr>wpc := W_Exit\<rparr>"] assms(3,4)
  show ?thesis by (simp add: waits_def)
next
  case check
  with count_if_update[OF i, of waits "(workers p ! i)\<lparr>wpc := W_Exit\<rparr>"] assms(3,4)
  show ?thesis by (simp add: waits_def)
next
  case (lock l)
  with count_if_update[OF i, of waits "(workers p ! i)\<lparr>wpc := W_Pop\<rparr>"] assms(4) show ?thesis by (simp add: waits_def)
next
  case none
  with count_if_update[OF i, of waits "(workers p ! i)\<lparr>wpc := W_Unlock\<rparr>"] assms(4) show ?thesis by (simp add: waits_def)
next
  case (pop t ts)
  with count_if_update[OF i, of waits "(workers p ! i)\<lparr>wpc := W_Unlock, task := Some t\<rparr>"] assms(4)
  show ?thesis by (simp add: waits_def)
next
  case (unlock l)
  with count_if_update[OF i, of waits "(workers p ! i)\<lparr>wpc := W_Run\<rparr>"] assms(4) show ?thesis by (simp add: waits_def)
next
  case run
  with count_if_update[OF i, of waits "(workers p ! i)\<lparr>wpc := W_Test\<rparr>"] assms(4)
  show ?thesis by (simp add: waits_def split: option.split)
qed

lemma worker_quit_inv:
  assumes "quit_inv p" and "i < length (workers p)" and "thread_proc i p = Inr p'"
  shows "quit_inv p'"
proof -
  note s = worker_shape[OF assms(3)] and e = worker_exit_stays[OF assms(3)]
  have "posts_left p' = posts_left p" using s by (simp add: posts_left_def)
  then show ?thesis
    using assms(1) s e worker_waits[OF assms(2,3), of "posts_left p"] worker_no_exit[OF assms(3) _ assms(2)]
    by (auto simp: quit_inv_def rev_nth)
qed

lemma worker_pool_inv:
  "pool_inv p \<Longrightarrow> i < length (workers p) \<Longrightarrow> thread_proc i p = Inr p' \<Longrightarrow> pool_inv p'"
  unfolding pool_inv_def
  using worker_lock_inv worker_hist_inv worker_run_inv worker_token_inv worker_quit_inv by blast

section \<open>The other threads keep it\<close>

lemma set_adder_simps [simp]:
  "workers (set_adder j a p) = workers p" "tasks (set_adder j a p) = tasks p"
  "sem (set_adder j a p) = sem p" "lock (set_adder j a p) = lock p" "quit (set_adder j a p) = quit p"
  "thread_cnt (set_adder j a p) = thread_cnt p" "adders (set_adder j a p) = (adders p)[j := a]"
  "destroyer (set_adder j a p) = destroyer p" "added (set_adder j a p) = added p"
  "popped (set_adder j a p) = popped p" "ran (set_adder j a p) = ran p" "freed (set_adder j a p) = freed p"
  by (simp_all add: set_adder_def)

lemma add_taskE:
  assumes "simple_thread_pool_add_task j p = Inr p'"
  obtains (lock) t l where "adders p ! j = A_Lock t" "simple_mutex_lock (length (workers p) + j) (lock p) = Inr l"
      "p' = set_adder j (A_Append t) (p\<lparr>lock := l\<rparr>)"
  | (append) t where "adders p ! j = A_Append t"
      "p' = set_adder j (A_Unlock t) (p\<lparr>tasks := tasks p @ [t], added := added p @ [t]\<rparr>)"
  | (unlock) t l where "adders p ! j = A_Unlock t" "simple_mutex_unlock (length (workers p) + j) (lock p) = Inr l"
      "p' = set_adder j (A_Post t) (p\<lparr>lock := l\<rparr>)"
  | (post) t where "adders p ! j = A_Post t" "p' = set_adder j A_Idle (p\<lparr>sem := simple_sem_post (sem p)\<rparr>)"
  using assms by (cases "adders p ! j") (auto simp: simple_thread_pool_add_task_def Let_def)

lemma adder_lock_inv:
  assumes "lock_inv p" and j: "j < length (adders p)" and "simple_thread_pool_add_task j p = Inr p'"
  shows "lock_inv p'"
  using assms(3)
proof (cases rule: add_taskE)
  case (lock t l)
  have "owner (Thread_Pool.lock p) \<noteq> Some (length (workers p) + j)"
    using assms(1) j lock(1) by (auto simp: lock_inv_def a_in_lock_def)
  note l = lock_Inr[OF lock(2) this]
  show ?thesis using assms(1) j lock l by (auto simp: lock_inv_def pc_defs nth_list_update)
next
  case (unlock t l)
  have o: "owner (Thread_Pool.lock p) = Some (length (workers p) + j)"
    using assms(1) j unlock(1) by (auto simp: lock_inv_def a_in_lock_def)
  with unlock_Inr[OF unlock(2)] assms(1) have "owner l = None" "depth l = 0" by (auto simp: lock_inv_def)
  with assms(1) j unlock o show ?thesis by (auto simp: lock_inv_def pc_defs nth_list_update)
qed (use assms(1) j in \<open>auto simp: lock_inv_def pc_defs nth_list_update\<close>)

lemma sem_post_count: "sem_count (simple_sem_post s) = (if sem_count s < sem_max then Suc (sem_count s) else sem_count s)"
  by (simp add: simple_sem_post_def)

lemma adder_token_inv:
  assumes "token_inv p" and "hist_inv p" and j: "j < length (adders p)" and "simple_thread_pool_add_task j p = Inr p'"
  shows "token_inv p'"
  using assms(4)
proof (cases rule: add_taskE)
  case (lock t l)
  with count_if_update[OF j, of will_post "A_Append t"] assms(1) show ?thesis
    by (simp add: token_inv_def tokens_def will_post_def)
next
  case (append t)
  with count_if_update[OF j, of will_post "A_Unlock t"] assms(1) show ?thesis
    by (auto simp: token_inv_def tokens_def will_post_def)
next
  case (unlock t l)
  with count_if_update[OF j, of will_post "A_Post t"] assms(1) show ?thesis
    by (simp add: token_inv_def tokens_def will_post_def)
next
  case (post t)
  have "length (tasks p) \<le> length (added p)" using assms(2) by (simp add: hist_inv_def)
  with post count_if_update[OF j, of will_post A_Idle] assms(1) show ?thesis
    by (auto simp: token_inv_def tokens_def will_post_def sem_post_count)
qed

lemma adder_pool_inv:
  assumes "pool_inv p" and j: "j < length (adders p)" and "simple_thread_pool_add_task j p = Inr p'"
    and "\<not> quit p"
  shows "pool_inv p'"
proof -
  have i: "lock_inv p" "hist_inv p" "run_inv p" "token_inv p" "quit_inv p" using assms(1) by (simp_all add: pool_inv_def)
  have "hist_inv p' \<and> run_inv p' \<and> quit_inv p'"
    using assms(3)
    by (cases rule: add_taskE) (use i(2,3,5) assms(4) in \<open>auto simp: hist_inv_def run_inv_def quit_inv_def posts_left_def\<close>)
  with adder_lock_inv[OF i(1) j assms(3)] adder_token_inv[OF i(4,2) j assms(3)] show ?thesis
    by (simp add: pool_inv_def)
qed

lemma submit_pool_inv:
  assumes "pool_inv p" and j: "j < length (adders p)" "adders p ! j = A_Idle" and "destroyer p = D_Idle"
  shows "pool_inv (set_adder j (A_Lock t) p)"
  using assms count_if_update[OF j(1), of will_post "A_Lock t"]
  by (auto simp: pool_inv_def lock_inv_def hist_inv_def run_inv_def quit_inv_def token_inv_def tokens_def
      posts_left_def nth_list_update a_in_lock_def will_post_def)

lemma destroyE:
  assumes "simple_thread_pool_destroy p = Inr p'"
  obtains (started) "destroyer p = D_Idle" "p' = p\<lparr>quit := True, destroyer := D_Post (thread_cnt p)\<rparr>"
  | (posted) "destroyer p = D_Post 0" "p' = p\<lparr>destroyer := D_Join 0\<rparr>"
  | (post) n where "destroyer p = D_Post (Suc n)" "p' = p\<lparr>sem := simple_sem_post (sem p), destroyer := D_Post n\<rparr>"
  | (join) i where "destroyer p = D_Join i" "i < length (workers p)" "wpc (rev (workers p) ! i) = W_Exit"
      "p' = p\<lparr>destroyer := D_Join (Suc i)\<rparr>"
  | (joined) i where "destroyer p = D_Join i" "\<not> i < length (workers p)" "p' = p\<lparr>destroyer := D_Free\<rparr>"
  | (free) "destroyer p = D_Free" "p' = p\<lparr>freed := tasks p, tasks := [], destroyer := D_Done\<rparr>"
  using assms by (auto simp: simple_thread_pool_destroy_def split: dpc.splits nat.splits if_splits)

lemma destroy_quit_inv:
  assumes "quit_inv p" and "list_all (\<lambda>a. a = A_Idle) (adders p)" and "simple_thread_pool_destroy p = Inr p'"
  shows "quit_inv p'"
  using assms(3)
proof (cases rule: destroyE)
  case started
  have "count_if waits (workers p) \<le> thread_cnt p" using assms(1) count_if_le[of waits "workers p"] by (simp add: quit_inv_def)
  with started assms show ?thesis by (auto simp: quit_inv_def posts_left_def)
next
  case (post n)
  have "count_if waits (workers p) \<le> thread_cnt p" using assms(1) count_if_le[of waits "workers p"] by (simp add: quit_inv_def)
  with post assms(1) show ?thesis by (auto simp: quit_inv_def posts_left_def sem_post_count)
next
  case (join i)
  with assms(1) show ?thesis by (auto simp: quit_inv_def posts_left_def less_Suc_eq)
next
  case (joined i)
  then have i: "i = length (workers p)" and r: "\<And>l. l < i \<Longrightarrow> wpc (rev (workers p) ! l) = W_Exit"
    using assms(1) by (auto simp: quit_inv_def)
  have "wpc (workers p ! l) = W_Exit" if "l < length (workers p)" for l
    using r[of "length (workers p) - Suc l"] that i by (simp add: rev_nth)
  with joined assms(1) show ?thesis by (auto simp: quit_inv_def posts_left_def)
qed (use assms(1) in \<open>auto simp: quit_inv_def posts_left_def\<close>)

lemma destroy_pool_inv:
  assumes "pool_inv p" and "list_all (\<lambda>a. a = A_Idle) (adders p)" and "simple_thread_pool_destroy p = Inr p'"
  shows "pool_inv p'"
proof -
  have i: "lock_inv p" "hist_inv p" "run_inv p" "token_inv p" "quit_inv p" using assms(1) by (simp_all add: pool_inv_def)
  have q: "destroyer p \<noteq> D_Idle \<Longrightarrow> quit p" using i(5) by (simp add: quit_inv_def)
  have "token_inv p' \<and> lock_inv p' \<and> hist_inv p' \<and> run_inv p'"
    using assms(3)
  proof (cases rule: destroyE)
    case free
    have "\<not> will_pop x" if "x \<in> set (workers p)" for x
      using that i(5) free(1) by (auto simp: quit_inv_def will_pop_def in_set_conv_nth)
    then have "count_if will_pop (workers p) = 0" by (simp add: count_if_def filter_empty_conv)
    with free i q show ?thesis by (auto simp: token_inv_def lock_inv_def hist_inv_def run_inv_def)
  qed (use i q in \<open>auto simp: token_inv_def lock_inv_def hist_inv_def run_inv_def\<close>)
  with destroy_quit_inv[OF i(5) assms(2,3)] show ?thesis by (simp add: pool_inv_def)
qed

lemma reachable_inv: "pool_reachable cnt k p \<Longrightarrow> pool_inv p"
proof (induction rule: pool_reachable.induct)
  case (step p p')
  from step(2) show ?case
  proof (cases rule: pool_step_cases)
    case (add j)
    have "\<not> quit p"
    proof
      assume "quit p"
      with step(3) have "adders p ! j = A_Idle" using add(1) by (auto simp: pool_inv_def quit_inv_def list_all_length)
      with add(2) show False by (simp add: simple_thread_pool_add_task_def)
    qed
    with add step(3) adder_pool_inv show ?thesis by blast
  qed (use step(3) worker_pool_inv submit_pool_inv destroy_pool_inv in blast)+
qed (rule pool_inv_create)

lemma reachable_workers: "pool_reachable cnt k p \<Longrightarrow> length (workers p) = pool_thread_cnt cnt \<and> thread_cnt p = pool_thread_cnt cnt"
proof (induction rule: pool_reachable.induct)
  case (step p p')
  from step(2) show ?case
  proof (cases rule: pool_step_cases)
    case (worker i)
    with worker_shape[of i p p'] step(3) show ?thesis by simp
  next
    case (add j)
    from add(2) show ?thesis by (cases rule: add_taskE) (use step(3) in auto)
  next
    case destroy
    from destroy(2) show ?thesis by (cases rule: destroyE) (use step(3) in auto)
  qed (use step(3) in auto)
qed (simp add: simple_thread_pool_create_def)

section \<open>Properties\<close>

text \<open>A run of the pool for the witnesses: one worker, one task, run to the end by a fixed schedule.\<close>

datatype move = Work nat | Submit nat task_t | Add nat | Destroy

definition pool_move :: "move \<Rightarrow> pool \<Rightarrow> pool option" where
  "pool_move v p =
     (case v of
        Work i \<Rightarrow> if i < length (workers p) then (case thread_proc i p of Inr p' \<Rightarrow> Some p' | _ \<Rightarrow> None) else None
      | Submit j t \<Rightarrow>
          if j < length (adders p) \<and> adders p ! j = A_Idle \<and> destroyer p = D_Idle
          then Some (set_adder j (A_Lock t) p) else None
      | Add j \<Rightarrow> if j < length (adders p)
                then (case simple_thread_pool_add_task j p of Inr p' \<Rightarrow> Some p' | _ \<Rightarrow> None) else None
      | Destroy \<Rightarrow> if list_all (\<lambda>a. a = A_Idle) (adders p)
                  then (case simple_thread_pool_destroy p of Inr p' \<Rightarrow> Some p' | _ \<Rightarrow> None) else None)"

fun pool_moves :: "move list \<Rightarrow> pool \<Rightarrow> pool option" where
  "pool_moves [] p = Some p"
| "pool_moves (v # vs) p = (case pool_move v p of None \<Rightarrow> None | Some p' \<Rightarrow> pool_moves vs p')"

lemma pool_move_step: "pool_move v p = Some p' \<Longrightarrow> pool_step p p'"
  by (auto simp: pool_move_def split: move.splits if_splits sum.splits intro: pool_step.intros)

lemma pool_moves_reachable: "pool_reachable cnt k p \<Longrightarrow> pool_moves vs p = Some p' \<Longrightarrow> pool_reachable cnt k p'"
  by (induction vs arbitrary: p) (auto split: option.splits dest: pool_move_step intro: pool_reachable.step)

definition sample_moves :: "move list" where
  "sample_moves = [Submit 0 \<lparr>handle = 1, opaque = 2\<rparr>, Add 0, Add 0, Add 0, Add 0, Work 0, Work 0]"

definition sample_pool :: pool where
  "sample_pool =
     \<lparr>tasks = [\<lparr>handle = 1, opaque = 2\<rparr>], sem = \<lparr>sem_count = 0\<rparr>, lock = \<lparr>owner = None, depth = 0\<rparr>,
      quit = False, thread_cnt = 1, workers = [\<lparr>wpc = W_Check, task = None\<rparr>], adders = [A_Idle],
      destroyer = D_Idle, added = [\<lparr>handle = 1, opaque = 2\<rparr>], popped = [], ran = [], freed = []\<rparr>"

lemma sample_pool_eq: "pool_moves sample_moves (simple_thread_pool_create 1 1) = Some sample_pool"
  by (simp add: sample_moves_def sample_pool_def simple_thread_pool_create_def pool_move_def pool_thread_cnt_def
      simple_thread_pool_add_task_def thread_proc_def set_adder_def set_worker_def simple_sem_create_def
      simple_sem_post_def simple_sem_wait_def simple_mutex_create_def simple_mutex_lock_def
      simple_mutex_unlock_def sem_max_def)

lemma sample_reachable: "pool_reachable 1 1 sample_pool"
  by (rule pool_moves_reachable[OF pool_reachable.start sample_pool_eq])

text \<open>C1: in every reachable state the tasks that were taken, that wait and that \<open>destroy\<close> freed are, in this
  order, exactly the tasks that were added (so tasks start in the order they were added and none is lost
  or taken twice); every task that was taken has been handed to its handler once, or is in the hands of
  a worker about to do so; and a worker that reaches the list always finds a task there, so the stale
  value of its variable \<open>task\<close> is never run again.\<close>

theorem pool_fifo_exactly_once:
  assumes "pool_reachable cnt k p"
  shows "added p = popped p @ tasks p @ freed p \<and> mset (popped p) = mset (ran p) + held (workers p) \<and>
    (\<forall>i. i < length (workers p) \<and> wpc (workers p ! i) = W_Pop \<longrightarrow> tasks p \<noteq> [])"
proof -
  have i: "pool_inv p" using reachable_inv[OF assms] .
  then show ?thesis using pop_finds_task[of p] by (auto simp: pool_inv_def hist_inv_def run_inv_def)
qed

theorem pool_fifo_exactly_once_witness:
  "added sample_pool = [\<lparr>handle = 1, opaque = 2\<rparr>] \<and> popped sample_pool @ tasks sample_pool @ freed sample_pool = added sample_pool"
proof -
  have "added sample_pool = [\<lparr>handle = 1, opaque = 2\<rparr>]" by (simp add: sample_pool_def)
  with pool_fifo_exactly_once[OF sample_reachable] show ?thesis by simp
qed

text \<open>C22: no thread of the pool ever faults: it releases the lock only while it holds it, and its only other
  outcome is to wait; and at most one thread is between the lock and its release: never two workers,
  two threads that add a task, or one of each.\<close>

theorem pool_lock_safe:
  assumes "pool_reachable cnt k p"
  shows "(\<forall>i e. i < length (workers p) \<longrightarrow> thread_proc i p = Inl e \<longrightarrow> e = Would_Block) \<and>
    (\<forall>j e. j < length (adders p) \<longrightarrow> simple_thread_pool_add_task j p = Inl e \<longrightarrow> e = Would_Block) \<and>
    (\<forall>e. simple_thread_pool_destroy p = Inl e \<longrightarrow> e = Would_Block) \<and>
    (\<forall>i i'. i < length (workers p) \<longrightarrow> i' < length (workers p) \<longrightarrow>
       in_lock (workers p ! i) \<longrightarrow> in_lock (workers p ! i') \<longrightarrow> i = i') \<and>
    (\<forall>i j. i < length (workers p) \<longrightarrow> j < length (adders p) \<longrightarrow>
       \<not> (in_lock (workers p ! i) \<and> a_in_lock (adders p ! j))) \<and>
    (\<forall>j j'. j < length (adders p) \<longrightarrow> j' < length (adders p) \<longrightarrow>
       a_in_lock (adders p ! j) \<longrightarrow> a_in_lock (adders p ! j') \<longrightarrow> j = j')"
proof -
  have l: "lock_inv p" using reachable_inv[OF assms] by (simp add: pool_inv_def)
  have lock_fault: "simple_mutex_lock t m = Inl e \<Longrightarrow> e = Would_Block" for t m e
    by (auto simp: simple_mutex_lock_def split: option.splits if_splits)
  have wait_fault: "simple_sem_wait s = Inl e \<Longrightarrow> e = Would_Block" for s e
    by (auto simp: simple_sem_wait_def split: nat.splits)
  have own: "simple_mutex_unlock t m \<noteq> Inl e" if "owner m = Some t" for t m e
    using that by (simp add: simple_mutex_unlock_def)
  have w: "owner (lock p) = Some i" if "i < length (workers p)" "wpc (workers p ! i) = W_Unlock" for i
    using l that by (auto simp: lock_inv_def in_lock_def)
  have a: "owner (lock p) = Some (length (workers p) + j)" if "j < length (adders p)" "adders p ! j = A_Unlock t" for j t
    using l that by (auto simp: lock_inv_def a_in_lock_def)
  have bind_l: "bind_r m (\<lambda>x. Inr (f x)) = Inl e \<Longrightarrow> m = Inl e" for m :: "'a result" and f :: "'a \<Rightarrow> pool" and e
    by (cases m) auto
  have "thread_proc i p = Inl e \<Longrightarrow> e = Would_Block" if "i < length (workers p)" for i e
    using that own[OF w[OF that]]
    by (cases "wpc (workers p ! i)")
      (auto simp: thread_proc_def Let_def split: list.splits dest!: bind_l dest: lock_fault wait_fault)
  moreover have "simple_thread_pool_add_task j p = Inl e \<Longrightarrow> e = Would_Block" if "j < length (adders p)" for j e
    using that own[OF a[OF that]]
    by (cases "adders p ! j")
      (auto simp: simple_thread_pool_add_task_def Let_def dest!: bind_l dest: lock_fault)
  moreover have "simple_thread_pool_destroy p = Inl e \<Longrightarrow> e = Would_Block" for e
    by (auto simp: simple_thread_pool_destroy_def split: dpc.splits nat.splits if_splits)
  ultimately show ?thesis
    using l by (auto simp: lock_inv_def)
qed

theorem pool_lock_safe_witness:
  "simple_thread_pool_add_task 0 sample_pool \<noteq> Inl Bad_Unlock \<and> simple_thread_pool_destroy sample_pool \<noteq> Inl Null_Ptr"
proof -
  have "length (adders sample_pool) = 1" by (simp add: sample_pool_def)
  moreover have "\<forall>j e. j < length (adders sample_pool) \<longrightarrow> simple_thread_pool_add_task j sample_pool = Inl e \<longrightarrow>
      e = Would_Block"
    by (rule conjunct1[OF conjunct2[OF pool_lock_safe[OF sample_reachable]]])
  moreover have "\<forall>e. simple_thread_pool_destroy sample_pool = Inl e \<longrightarrow> e = Would_Block"
    by (rule conjunct1[OF conjunct2[OF conjunct2[OF pool_lock_safe[OF sample_reachable]]]])
  ultimately show ?thesis by (metis fault.distinct fault.simps zero_less_one)
qed

lemma worker_enabled:
  assumes "i < length (workers p)" and "wpc (workers p ! i) \<noteq> W_Exit"
    and "wpc (workers p ! i) = W_Wait \<Longrightarrow> 0 < sem_count (sem p)"
    and "wpc (workers p ! i) = W_Lock \<Longrightarrow> owner (lock p) = None"
    and "wpc (workers p ! i) = W_Unlock \<Longrightarrow> owner (lock p) = Some i"
  shows "\<exists>p'. thread_proc i p = Inr p'"
  using assms
  by (cases "wpc (workers p ! i)")
    (auto simp: thread_proc_def Let_def simple_sem_wait_def simple_mutex_lock_def simple_mutex_unlock_def
      split: nat.splits list.splits)

text \<open>The holder of the lock can always go on.\<close>

lemma holder_enabled:
  assumes "lock_inv p" and "owner (lock p) = Some u"
  shows "(\<exists>i<length (workers p). \<exists>p'. thread_proc i p = Inr p') \<or>
    (\<exists>j<length (adders p). \<exists>p'. simple_thread_pool_add_task j p = Inr p')"
proof (cases "u < length (workers p)")
  case True
  then have "wpc (workers p ! u) = W_Pop \<or> wpc (workers p ! u) = W_Unlock"
    using assms by (auto simp: lock_inv_def in_lock_def)
  then show ?thesis using worker_enabled[OF True] assms(2) True by auto
next
  case False
  then obtain j where j: "u = length (workers p) + j" "j < length (adders p)"
    using assms by (auto simp: lock_inv_def le_iff_add not_less)
  then have "a_in_lock (adders p ! j)" using assms by (auto simp: lock_inv_def)
  then have "\<exists>p'. simple_thread_pool_add_task j p = Inr p'"
    using j assms(2) by (cases "adders p ! j")
      (auto simp: a_in_lock_def simple_thread_pool_add_task_def Let_def simple_mutex_unlock_def)
  with j show ?thesis by blast
qed

lemma count_if_someD: "0 < count_if P xs \<Longrightarrow> \<exists>i<length xs. P (xs ! i)"
  by (auto simp: count_if_def filter_empty_conv in_set_conv_nth)

text \<open>C23: no wake-up is lost: as long as a task waits and the pool is not being destroyed, some worker, or
  some \<open>add_task\<close> that has still to post, can go on; the pool never sleeps with work in its list (fewer
  than the maximal count of the semaphore tasks having been added).\<close>

theorem pool_no_lost_wakeup:
  assumes "pool_reachable cnt k p" and "\<not> quit p" and "tasks p \<noteq> []" and "length (added p) \<le> sem_max"
  shows "(\<exists>i<length (workers p). \<exists>p'. thread_proc i p = Inr p') \<or>
    (\<exists>j<length (adders p). \<exists>p'. simple_thread_pool_add_task j p = Inr p')"
proof -
  have inv: "lock_inv p" "token_inv p" "quit_inv p" using reachable_inv[OF assms(1)] by (simp_all add: pool_inv_def)
  have n: "0 < length (workers p)" using reachable_workers[OF assms(1)] by (simp add: pool_thread_cnt_def)
  have t: "0 < tokens p" using inv(2) assms(2-4) by (simp add: token_inv_def)
  have ne: "wpc (workers p ! i) \<noteq> W_Exit" if "i < length (workers p)" for i
    using inv(3) assms(2) that by (simp add: quit_inv_def)
  show ?thesis
  proof (cases "owner (lock p)")
    case (Some u)
    then show ?thesis by (rule holder_enabled[OF inv(1)])
  next
    case None
    have free: "wpc (workers p ! i) \<noteq> W_Unlock" if "i < length (workers p)" for i
      using inv(1) None that by (auto simp: lock_inv_def in_lock_def)
    consider "0 < sem_count (sem p)" | "0 < count_if has_token (workers p)" | "0 < count_if will_post (adders p)"
      using t by (auto simp: tokens_def)
    then show ?thesis
    proof cases
      case 1
      then show ?thesis using worker_enabled[OF n ne[OF n]] None free[OF n] n by blast
    next
      case 2
      then obtain i where i: "i < length (workers p)" "has_token (workers p ! i)" using count_if_someD by blast
      then show ?thesis using worker_enabled[OF i(1) ne[OF i(1)]] None free[OF i(1)] by (auto simp: has_token_def)
    next
      case 3
      then obtain j where j: "j < length (adders p)" "will_post (adders p ! j)" using count_if_someD by blast
      then have "\<not> a_in_lock (adders p ! j)" using inv(1) None by (auto simp: lock_inv_def)
      with j(2) have "\<exists>p'. simple_thread_pool_add_task j p = Inr p'"
        by (cases "adders p ! j") (auto simp: will_post_def a_in_lock_def simple_thread_pool_add_task_def Let_def)
      with j show ?thesis by blast
    qed
  qed
qed

theorem pool_no_lost_wakeup_witness:
  "(\<exists>i<1. \<exists>p'. thread_proc i sample_pool = Inr p') \<or> (\<exists>j<1. \<exists>p'. simple_thread_pool_add_task j sample_pool = Inr p')"
  using pool_no_lost_wakeup[OF sample_reachable] by (simp add: sample_pool_def sem_max_def)

section \<open>Destroying the pool\<close>

definition wrank :: "wpc \<Rightarrow> nat" where
  "wrank c = (case c of W_Exit \<Rightarrow> 0 | W_Test \<Rightarrow> 1 | W_Run \<Rightarrow> 2 | W_Unlock \<Rightarrow> 3 | W_Pop \<Rightarrow> 4 | W_Lock \<Rightarrow> 5
     | W_Check \<Rightarrow> 1 | W_Wait \<Rightarrow> 2)"

definition drank :: "nat \<Rightarrow> dpc \<Rightarrow> nat" where
  "drank N d = (case d of D_Idle \<Rightarrow> 2 * N + 5 | D_Post n \<Rightarrow> n + N + 4 | D_Join i \<Rightarrow> (N - i) + 2 | D_Free \<Rightarrow> 1 | D_Done \<Rightarrow> 0)"

definition pool_measure :: "pool \<Rightarrow> nat" where
  "pool_measure p = sum_list (map (\<lambda>x. wrank (wpc x)) (workers p)) + drank (length (workers p)) (destroyer p)"

lemma rank_update:
  "i < length xs \<Longrightarrow> f (x :: 'a) < (f (xs ! i) :: nat) \<Longrightarrow> sum_list (map f (xs[i := x])) < sum_list (map f xs)"
proof (induction xs arbitrary: i)
  case (Cons y ys)
  then show ?case by (cases i) auto
qed simp

lemma quit_step_decreases:
  assumes "pool_inv p" and "quit p" and "pool_step p p'"
  shows "quit p' \<and> pool_measure p' < pool_measure p"
  using assms(3)
proof (cases rule: pool_step_cases)
  case (worker i)
  have s: "length (workers p') = length (workers p)" "destroyer p' = destroyer p" "quit p' = quit p"
    using worker_shape[OF worker(2)] by auto
  have "sum_list (map (\<lambda>x. wrank (wpc x)) (workers p')) < sum_list (map (\<lambda>x. wrank (wpc x)) (workers p))"
    using worker(2)
    by (cases rule: thread_procE; cases "task (workers p ! i)")
      (auto intro!: rank_update[OF worker(1)] simp: wrank_def assms(2))
  with s assms(2) show ?thesis by (simp add: pool_measure_def)
next
  case (submit j)
  then show ?thesis using assms(1,2) by (simp add: pool_inv_def quit_inv_def)
next
  case (add j)
  then have "adders p ! j = A_Idle" using assms(1,2) by (auto simp: pool_inv_def quit_inv_def list_all_length)
  with add(2) show ?thesis by (simp add: simple_thread_pool_add_task_def)
next
  case destroy
  from destroy(2) show ?thesis
    by (cases rule: destroyE) (use assms(1,2) in \<open>auto simp: pool_measure_def drank_def pool_inv_def quit_inv_def\<close>)
qed

lemma quit_can_step:
  assumes "pool_inv p" and "quit p" and "thread_cnt p \<le> sem_max" and "destroyer p \<noteq> D_Done"
  shows "\<exists>p'. pool_step p p'"
proof -
  have inv: "lock_inv p" "quit_inv p" using assms(1) by (simp_all add: pool_inv_def)
  have a: "list_all (\<lambda>a. a = A_Idle) (adders p)" using inv(2) assms(2) by (simp add: quit_inv_def)
  show ?thesis
  proof (cases "\<exists>p'. simple_thread_pool_destroy p = Inr p'")
    case True
    with a show ?thesis by (blast intro: pool_step.destroy)
  next
    case False
    then obtain l where l: "destroyer p = D_Join l" "l < length (workers p)" "wpc (rev (workers p) ! l) \<noteq> W_Exit"
      using assms(4) by (auto simp: simple_thread_pool_destroy_def split: dpc.splits nat.splits if_splits)
    let ?i = "length (workers p) - Suc l"
    have i: "?i < length (workers p)" "wpc (workers p ! ?i) \<noteq> W_Exit" using l by (auto simp: rev_nth)
    show ?thesis
    proof (cases "owner (lock p)")
      case (Some u)
      have "simple_thread_pool_add_task j p \<noteq> Inr p'" if "j < length (adders p)" for j p'
        using a that by (auto simp: list_all_length simple_thread_pool_add_task_def)
      with holder_enabled[OF inv(1) Some] show ?thesis by (blast intro: pool_step.worker)
    next
      case None
      have u: "wpc (workers p ! ?i) \<noteq> W_Unlock" using inv(1) None i(1) by (auto simp: lock_inv_def in_lock_def)
      have "0 < sem_count (sem p)" if "wpc (workers p ! ?i) = W_Wait"
      proof -
        have "0 < count_if waits (workers p)" using count_if_pos[OF i(1), of waits] that by (simp add: waits_def)
        with inv(2) assms(2,3) l(1) show ?thesis by (simp add: quit_inv_def posts_left_def)
      qed
      then obtain p' where "thread_proc ?i p = Inr p'" using worker_enabled[OF i] None u by blast
      with i(1) show ?thesis by (blast intro: pool_step.worker)
    qed
  qed
qed

lemma done_no_tasks: "pool_reachable cnt k p \<Longrightarrow> destroyer p = D_Done \<Longrightarrow> tasks p = []"
proof (induction rule: pool_reachable.induct)
  case (step p p')
  from step(2) show ?case
  proof (cases rule: pool_step_cases)
    case (worker i)
    then show ?thesis using step(3,4) by (cases rule: thread_procE[OF worker(2)]) (auto split: option.splits)
  next
    case (add j)
    have "pool_inv p" using reachable_inv[OF step(1)] .
    then show ?thesis using add step(3,4)
      by (cases rule: add_taskE[OF add(2)]) (auto simp: pool_inv_def quit_inv_def list_all_length)
  next
    case destroy
    then show ?thesis using step(3,4) by (cases rule: destroyE[OF destroy(2)]) auto
  qed (use step in auto)
qed (simp add: simple_thread_pool_create_def)

text \<open>The steps of a pool in which only the handlers of some tasks return: a worker in a handler that does not
  stays there.\<close>

definition in_handler :: "pool \<Rightarrow> nat \<Rightarrow> task_t \<Rightarrow> bool" where
  "in_handler p i t \<longleftrightarrow> i < length (workers p) \<and> wpc (workers p ! i) = W_Run \<and> task (workers p ! i) = Some t"

inductive pool_step_with :: "(task_t \<Rightarrow> bool) \<Rightarrow> pool \<Rightarrow> pool \<Rightarrow> bool" for returns where
  worker: "i < length (workers p) \<Longrightarrow> \<forall>t. in_handler p i t \<longrightarrow> returns t \<Longrightarrow> thread_proc i p = Inr p' \<Longrightarrow>
    pool_step_with returns p p'"
| submit: "j < length (adders p) \<Longrightarrow> adders p ! j = A_Idle \<Longrightarrow> destroyer p = D_Idle \<Longrightarrow>
    pool_step_with returns p (set_adder j (A_Lock t) p)"
| add: "j < length (adders p) \<Longrightarrow> simple_thread_pool_add_task j p = Inr p' \<Longrightarrow> pool_step_with returns p p'"
| destroy: "list_all (\<lambda>a. a = A_Idle) (adders p) \<Longrightarrow> simple_thread_pool_destroy p = Inr p' \<Longrightarrow>
    pool_step_with returns p p'"

inductive pool_steps_with :: "(task_t \<Rightarrow> bool) \<Rightarrow> pool \<Rightarrow> pool \<Rightarrow> bool" for returns where
  stay: "pool_steps_with returns p p"
| go: "pool_steps_with returns p q \<Longrightarrow> pool_step_with returns q r \<Longrightarrow> pool_steps_with returns p r"

lemma step_with_step: "pool_step_with returns p p' \<Longrightarrow> pool_step p p'"
  by (induction rule: pool_step_with.induct) (auto intro: pool_step.intros)

lemma held_member: "i < length xs \<Longrightarrow> holds (xs ! i) \<subseteq># held xs"
  by (induction xs arbitrary: i) (auto simp: held_def nth_Cons subset_mset.add_increasing split: nat.split)

lemma in_handler_added:
  assumes "pool_inv p" and "in_handler p i t"
  shows "t \<in> set (added p)"
proof -
  have "t \<in># holds (workers p ! i)" using assms(2) by (simp add: holds_def in_handler_def)
  then have "t \<in># held (workers p)" using held_member[of i "workers p"] assms(2) by (auto simp: in_handler_def dest: mset_subset_eqD)
  moreover have "mset (popped p) = mset (ran p) + held (workers p)" using assms(1) by (simp add: pool_inv_def run_inv_def)
  ultimately have "t \<in># mset (popped p)" by simp
  then show ?thesis using assms(1) by (simp add: pool_inv_def hist_inv_def)
qed

lemma step_step_with:
  assumes "pool_step p p'" and "pool_inv p" and "\<forall>t\<in>set (added p). returns t"
  shows "pool_step_with returns p p'"
  using assms(1)
proof (cases rule: pool_step_cases)
  case (worker i)
  then show ?thesis using in_handler_added[OF assms(2)] assms(3) by (auto intro: pool_step_with.worker)
qed (auto intro: pool_step_with.intros)

lemma quit_keeps_added:
  assumes "pool_inv p" and "quit p" and "pool_step p p'"
  shows "added p' = added p"
  using assms(3)
proof (cases rule: pool_step_cases)
  case (worker i)
  then show ?thesis by (cases "task (workers p ! i)"; cases rule: thread_procE[OF worker(2)]) auto
next
  case (submit j)
  then show ?thesis by (simp add: set_adder_def)
next
  case (add j)
  then have "adders p ! j = A_Idle" using assms(1,2) by (auto simp: pool_inv_def quit_inv_def list_all_length)
  with add(2) show ?thesis by (simp add: simple_thread_pool_add_task_def)
next
  case destroy
  then show ?thesis by (cases rule: destroyE[OF destroy(2)]) auto
qed

lemma handler_stays:
  assumes "pool_step_with returns p p'" and "in_handler p i t" and "\<not> returns t"
  shows "in_handler p' i t"
  using assms(1)
proof cases
  case (worker j)
  then have "j \<noteq> i" using assms(2,3) by auto
  with worker(3) assms(2) show ?thesis
    by (cases "task (workers p ! j)"; cases rule: thread_procE[OF worker(3)]) (auto simp: in_handler_def set_worker_def)
next
  case (submit j)
  then show ?thesis using assms(2) by (simp add: in_handler_def set_adder_def)
next
  case (add j)
  then show ?thesis using assms(2) by (cases rule: add_taskE[OF add(2)]) (auto simp: in_handler_def set_adder_def)
next
  case destroy
  then show ?thesis using assms(2) by (cases rule: destroyE[OF destroy(2)]) (auto simp: in_handler_def)
qed

text \<open>A handler that never returns: \<open>destroy\<close> waits for its worker for ever.\<close>

theorem pool_destroy_waits:
  assumes "pool_reachable cnt k p" and "in_handler p i t" and "\<not> returns t" and "pool_steps_with returns p p'"
  shows "destroyer p' \<noteq> D_Done"
proof -
  have "pool_reachable cnt k p' \<and> in_handler p' i t"
    using assms(4,1,2)
  proof (induction rule: pool_steps_with.induct)
    case (go p q r)
    then have "pool_reachable cnt k q" "in_handler q i t" by simp_all
    with go.hyps(2) assms(3) show ?case
      by (auto intro: pool_reachable.step step_with_step handler_stays)
  qed simp
  then have "pool_inv p'" "in_handler p' i t" using reachable_inv by auto
  then show ?thesis by (auto simp: pool_inv_def quit_inv_def in_handler_def)
qed

text \<open>C24: \<open>simple_thread_pool_destroy\<close> returns as long as the handlers of the tasks that were added do: once it
  has begun, some thread can go on until it is done, every step of any thread brings it nearer to its
  end (the measure decreases), nothing is added any more, and at its end every worker has left
  \<open>_thread_proc\<close> and every task that nobody took has been freed. A call of a handler is one step here;
  that it returns is assumed (a handler that does not keeps \<open>destroy\<close> waiting for ever:
  \<open>pool_destroy_waits\<close>).\<close>

theorem pool_destroy_returns:
  assumes "pool_reachable cnt k p" and "quit p" and "pool_thread_cnt cnt \<le> sem_max" and "\<forall>t\<in>set (added p). returns t"
  shows "(destroyer p \<noteq> D_Done \<longrightarrow> (\<exists>p'. pool_step_with returns p p')) \<and>
    (\<forall>p'. pool_step_with returns p p' \<longrightarrow> quit p' \<and> added p' = added p \<and> pool_measure p' < pool_measure p) \<and>
    (destroyer p = D_Done \<longrightarrow> (\<forall>x\<in>set (workers p). wpc x = W_Exit) \<and> added p = popped p @ freed p)"
proof -
  have inv: "pool_inv p" using reachable_inv[OF assms(1)] .
  have "destroyer p = D_Done \<Longrightarrow> tasks p = []" using done_no_tasks[OF assms(1)] .
  moreover have "\<exists>p'. pool_step_with returns p p'" if "destroyer p \<noteq> D_Done"
    using quit_can_step[OF inv assms(2) _ that] step_step_with[OF _ inv assms(4)] reachable_workers[OF assms(1)] assms(3)
    by metis
  ultimately show ?thesis
    using quit_step_decreases[OF inv assms(2) step_with_step] quit_keeps_added[OF inv assms(2) step_with_step] inv
    by (auto simp: pool_inv_def quit_inv_def hist_inv_def in_set_conv_nth)
qed

definition quitting_pool :: pool where
  "quitting_pool = sample_pool\<lparr>quit := True, destroyer := D_Post 1\<rparr>"

lemma quitting_reachable: "pool_reachable 1 1 quitting_pool"
proof (rule pool_reachable.step[OF sample_reachable pool_move_step])
  show "pool_move Destroy sample_pool = Some quitting_pool"
    by (simp add: pool_move_def sample_pool_def quitting_pool_def simple_thread_pool_destroy_def)
qed

theorem pool_destroy_returns_witness:
  "\<exists>p'. pool_step_with (\<lambda>t. t \<in> set (added quitting_pool)) quitting_pool p' \<and> pool_measure p' < pool_measure quitting_pool"
proof -
  have "quit quitting_pool" "destroyer quitting_pool \<noteq> D_Done" by (simp_all add: quitting_pool_def)
  moreover have "pool_thread_cnt 1 \<le> sem_max" by (simp add: pool_thread_cnt_def sem_max_def)
  moreover have "\<forall>t\<in>set (added quitting_pool). t \<in> set (added quitting_pool)" by simp
  ultimately show ?thesis using pool_destroy_returns[OF quitting_reachable] by blast
qed

end
