(* ===== verification/Http_Server.thy ===== *)
theory Http_Server
  imports Http_Parser_Props Url_Parser Os_World Thread_Pool
begin

text \<open>
  The HTTP server of \<open>src/httpsrv\<close>: one connection from the first byte received to the close
  (\<open>client.c\<close>), and the answer to a request (\<open>httprequest.c\<close>). The file system is a parameter, and so
  are the two matchers of \<open>Url_Parser\<close>.
\<close>

section \<open>The file system\<close>

text \<open>What \<open>getcwd\<close>, \<open>stat\<close> (mode and size) and \<open>fopen\<close> answer.\<close>

record file_system =
  cwd :: string
  stat_ans :: "string \<Rightarrow> (32 word \<times> int) option"
  content_ans :: "string \<Rightarrow> string option"

definition S_IFDIR :: "32 word" where "S_IFDIR = 0x4000"
definition S_IFMT :: "32 word" where "S_IFMT = 0xF000"

definition os_fopen :: "file_system \<Rightarrow> string \<Rightarrow> world \<Rightarrow> int \<times> world" where
  "os_fopen fs name w =
     (case content_ans fs name of
        None \<Rightarrow> (0, pass w)
      | Some d \<Rightarrow>
          let fp = int (tick w) + 1
          in (fp, (pass w)\<lparr>files := (files w)(fp \<mapsto> \<lparr>fdata = d, fpos = 0, eof_flag = False\<rparr>)\<rparr>))"

definition os_fclose :: "int \<Rightarrow> world \<Rightarrow> world" where
  "os_fclose fp w = w\<lparr>files := (files w)(fp := None)\<rparr>"

section \<open>Receiving the request\<close>

record client =
  c_sock :: int

definition build_client :: "int \<Rightarrow> client" where
  "build_client s = \<lparr>c_sock = s\<rparr>"

definition got_request :: "HttpMessage option \<Rightarrow> bool" where
  "got_request req \<longleftrightarrow> httpc_Message_state req = HTTP_COMPLETE \<or> httpc_Message_state req = HTTP_BODY"

text \<open>What \<open>make_request\<close> returns behind its loop.\<close>

definition finish_request :: "HttpMessage option \<Rightarrow> HttpMessage option" where
  "finish_request req = (if req \<noteq> None \<and> got_request req then req else None)"

partial_function (option) make_request_loop ::
    "int \<Rightarrow> HttpMessage option \<Rightarrow> world \<Rightarrow> (HttpMessage option \<times> world) result option" where
  "make_request_loop s req w =
     (case os_recv s 1 w of
        ((None, _), w) \<Rightarrow> Some (Inr (finish_request req, w))
      | ((Some [], _), w) \<Rightarrow> Some (Inr (finish_request req, w))
      | ((Some (ch # _), _), w) \<Rightarrow>
          (case httpc_parser_parse req [ch] of
             Inl e \<Rightarrow> Some (Inl e)
           | Inr (m, _) \<Rightarrow>
               if got_request (Some m) then Some (Inr (finish_request (Some m), w))
               else make_request_loop s (Some m) w))"

definition make_request :: "client \<Rightarrow> world \<Rightarrow> (HttpMessage option \<times> world) result option" where
  "make_request c w = make_request_loop (c_sock c) None w"

section \<open>The response\<close>

definition make_default_response :: HttpMessage where
  "make_default_response =
     (let res = the (httpc_Message_setStartLine (Some httpc_Message_create) (Some ''HTTP/1.0'') (Some ''200'') (Some ''OK''));
          res = fst (httpc_Message_setValue res ''Server'' ''test_http_srv 1.0'')
      in fst (httpc_Message_setValue res ''Connection'' ''Close''))"

text \<open>\<open>while (len > 0)\<close>: the loop of \<open>send_data\<close>, and of \<open>send_res\<close> on the encoded message. Every
  round sends at least one byte, so it ends.\<close>

function send_data :: "int \<Rightarrow> string \<Rightarrow> world \<Rightarrow> int \<times> world" where
  "send_data s d w =
     (if d = [] then (0, w)
      else (case os_send s d w of
              ((rc, _), w) \<Rightarrow> if rc > 0 then send_data s (drop (nat rc) d) w else (-1, w)))"
  by pat_completeness auto
termination by (relation "measure (\<lambda>(s, d, w). length d)") auto

declare send_data.simps [simp del]

definition send_res :: "client \<Rightarrow> HttpMessage \<Rightarrow> world \<Rightarrow> (int \<times> world) result" where
  "send_res c res w =
     bind_r (httpc_Message_get_encode_length (Some res) True) (\<lambda>len.
     bind_r (c_int (len + 1)) (\<lambda>room.
     bind_r (httpc_Message_encode res (replicate (nat room) NUL) True) (\<lambda>buf.
     Inr (send_data (c_sock c) (take (nat len) buf) w))))"

section \<open>Answering\<close>

definition is_local_file :: "file_system \<Rightarrow> string \<Rightarrow> bool" where
  "is_local_file fs name =
     (case stat_ans fs name of
        None \<Rightarrow> False
      | Some (mode, _) \<Rightarrow> if and mode S_IFDIR \<noteq> 0 then False else and mode S_IFMT \<noteq> 0)"

definition content_types :: "(string \<times> string) list" where
  "content_types =
     [(''.txt'', ''text/plain''), (''.c'', ''text/plain''), (''.h'', ''text/plain''),
      (''.cpp'', ''text/plain''), (''.html'', ''text/html''), (''.htm'', ''text/html''),
      (''.ico'', ''image/x-icon''), (''.jpg'', ''image/jpeg''), (''.jpeg'', ''image/jpeg''),
      (''.gif'', ''image/gif''), (''.mp3'', ''audio/mp3''), (''.mpeg'', ''video/mpg''),
      (''.mp4'', ''video/mpeg''), (''.js'', ''application/x-javascript''), (''.java'', ''java/*''),
      (''.png'', ''image/png''), (''.gz'', ''application/x-gzip''), (''.ppt'', ''application/mspowerpoint'')]"

fun content_type_loop :: "(string \<times> string) list \<Rightarrow> string \<Rightarrow> string" where
  "content_type_loop [] ext = ''application/octet-stream''"
| "content_type_loop ((e, t) # et) ext = (if str_case_eq ext e then t else content_type_loop et ext)"

text \<open>\<open>ext\<close> is the result of \<open>strrchr\<close>: a null pointer when the name has no dot.\<close>

definition get_context_type_from_ext :: "string option \<Rightarrow> string result" where
  "get_context_type_from_ext ext =
     (case ext of None \<Rightarrow> Inl Null_Ptr | Some ext \<Rightarrow> Inr (content_type_loop content_types ext))"

definition strrchr_dot :: "string \<Rightarrow> string option" where
  "strrchr_dot s =
     (if CHR ''.'' \<in> set s then Some (CHR ''.'' # rev (takeWhile (\<lambda>c. c \<noteq> CHR ''.'') (rev s))) else None)"

partial_function (option) send_file_loop :: "int \<Rightarrow> int \<Rightarrow> int \<Rightarrow> world \<Rightarrow> (int \<times> world) option" where
  "send_file_loop s fp err w =
     (if os_feof fp w then Some (err, w)
      else (case os_fread fp 4096 w of
              (d, w) \<Rightarrow>
                if d \<noteq> [] then (case send_data s d w of
                                 (rc, w) \<Rightarrow> if rc < 0 then Some (-1, w) else send_file_loop s fp err w)
                else send_file_loop s fp err w))"

definition send_local_file ::
    "file_system \<Rightarrow> client \<Rightarrow> HttpMessage \<Rightarrow> string \<Rightarrow> world \<Rightarrow> (int \<times> world) result option" where
  "send_local_file fs c res filename w =
     (let size = (case stat_ans fs filename of None \<Rightarrow> 0 | Some (_, n) \<Rightarrow> n);
          vbuf = dec_str (nat (size mod 2 ^ 32))
      in case get_context_type_from_ext (strrchr_dot filename) of
           Inl e \<Rightarrow> Some (Inl e)
         | Inr ct \<Rightarrow>
             let res = fst (httpc_Message_setValue res ''Content-Type'' ct);
                 res = fst (httpc_Message_setValue res ''Content-Length'' vbuf)
             in case bind_r (httpc_Message_get_encode_length (Some res) False) (\<lambda>alen.
                     bind_r (c_int (alen + 1)) (\<lambda>room.
                     bind_r (httpc_Message_encode res (replicate (nat room) NUL) False) (\<lambda>abuf.
                     Inr (alen, abuf)))) of
                  Inl e \<Rightarrow> Some (Inl e)
                | Inr (alen, abuf) \<Rightarrow>
                    (case send_data (c_sock c) (take (nat alen) abuf) w of
                       (rc, w) \<Rightarrow>
                         if rc < 0 then Some (Inr (-1, w))
                         else (case os_fopen fs filename w of
                                 (fp, w) \<Rightarrow>
                                   if fp = 0 then Some (Inr (-1, w))
                                   else map_option (\<lambda>(err, w). Inr (err, os_fclose fp w))
                                          (send_file_loop (c_sock c) fp 1 w))))"

text \<open>\<open>snprintf (body, 1024, ...)\<close> keeps 1023 characters; the terminating NUL is part of the body.\<close>

definition ret_404 :: "HttpMessage \<Rightarrow> string \<Rightarrow> (HttpMessage \<times> int) result" where
  "ret_404 res name =
     (let body = take 1023 (''NOT found '' @ name);
          res = the (httpc_Message_setStartLine (Some res) (Some ''HTTP/1.0'') (Some ''404'') (Some ''File Not Found''));
          res = fst (httpc_Message_setValue res ''Content-Type'' ''text/plain'')
      in bind_r (httpc_Message_appendBody (Some res) (body @ [NUL]) (int (length body) + 1)) (\<lambda>(m, _).
         (case m of None \<Rightarrow> Inl Null_Ptr | Some m \<Rightarrow> Inr (m, 0))))"

text \<open>Two \<open>strcat\<close>: \<open>size\<close> is not looked at.\<close>

definition build_filename :: "nat \<Rightarrow> string \<Rightarrow> string \<Rightarrow> string result" where
  "build_filename bufsize root dir =
     bind_r (check_r (length (c_str root) < bufsize) Mem_Bounds) (\<lambda>_.
     bind_r (check_r (length (c_str root) + length (c_str dir) < bufsize) Mem_Bounds) (\<lambda>_.
     Inr (c_str root @ c_str dir)))"

definition http_request ::
    "file_system \<Rightarrow> client \<Rightarrow> url_t \<Rightarrow> HttpMessage \<Rightarrow> world \<Rightarrow> (HttpMessage \<times> int \<times> world) result option" where
  "http_request fs c url res w =
     (case build_filename 1024 (cwd fs) (path url) of
        Inl e \<Rightarrow> Some (Inl e)
      | Inr filename \<Rightarrow>
          if is_local_file fs filename then
            (case send_local_file fs c res filename w of
               None \<Rightarrow> None
             | Some (Inl e) \<Rightarrow> Some (Inl e)
             | Some (Inr (rc, w)) \<Rightarrow> Some (Inr (res, rc, w)))
          else (case ret_404 res filename of
                  Inl e \<Rightarrow> Some (Inl e)
                | Inr (res, rc) \<Rightarrow> Some (Inr (res, rc, w))))"

definition handle_http ::
    "file_system \<Rightarrow> matcher \<Rightarrow> matcher \<Rightarrow> client \<Rightarrow> HttpMessage \<Rightarrow> HttpMessage \<Rightarrow> world \<Rightarrow>
     (HttpMessage \<times> int \<times> world) result option" where
  "handle_http fs rx_url rx_auth c req res w =
     (case p2 req of
        None \<Rightarrow> Some (Inl Null_Ptr)
      | Some p \<Rightarrow>
          (case simple_url_parse rx_url rx_auth p of
             Inl e \<Rightarrow> Some (Inl e)
           | Inr None \<Rightarrow> Some (Inr (res, -1, w))
           | Inr (Some url) \<Rightarrow> http_request fs c url res w))"

section \<open>One connection\<close>

definition handle ::
    "file_system \<Rightarrow> matcher \<Rightarrow> matcher \<Rightarrow> client \<Rightarrow> world \<Rightarrow> world result option" where
  "handle fs rx_url rx_auth c w =
     (case make_request c w of
        None \<Rightarrow> None
      | Some (Inl e) \<Rightarrow> Some (Inl e)
      | Some (Inr (None, w)) \<Rightarrow> Some (Inr (os_close (c_sock c) w))
      | Some (Inr (Some req, w)) \<Rightarrow>
          (case handle_http fs rx_url rx_auth c req make_default_response w of
             None \<Rightarrow> None
           | Some (Inl e) \<Rightarrow> Some (Inl e)
           | Some (Inr (res, rc, w)) \<Rightarrow>
               if rc \<noteq> 0 then Some (Inr (os_close (c_sock c) w))
               else (case send_res c res w of
                       Inl e \<Rightarrow> Some (Inl e)
                     | Inr (_, w) \<Rightarrow> Some (Inr (os_close (c_sock c) w)))))"

section \<open>Sending\<close>

lemma send_data_facts:
  "send_ok w \<Longrightarrow> send_data s d w = (rc, w') \<Longrightarrow>
   \<exists>k. delivers (\<lambda>w. wire w s) d w w' k \<and> (rc = 0 \<and> k = length d \<or> rc = -1 \<and> k < length d) \<and>
     open_fds w' = open_fds w"
proof (induction s d w rule: send_data.induct)
  case (1 s d w)
  show ?case
  proof (cases "d = []")
    case True
    with 1(3) show ?thesis by (auto simp: send_data.simps intro!: exI[of _ 0])
  next
    case False
    obtain r e w1 where o: "os_send s d w = ((r, e), w1)" by (metis surj_pair)
    have a: "sent_by s d w r w1" using o by (auto simp: sent_by_def)
    note f = os_send_facts[OF o]
    show ?thesis
    proof (cases "r > 0")
      case True
      then have "send_data s (drop (nat r) d) w1 = (rc, w')" using 1(3) False o by (simp add: send_data.simps[of s d])
      from 1(1)[OF False o[symmetric] refl True os.good_attempt[OF 1(2) a] this] obtain k where
        k: "delivers (\<lambda>w. wire w s) (drop (nat r) d) w1 w' k"
          "rc = 0 \<and> k = length (drop (nat r) d) \<or> rc = -1 \<and> k < length (drop (nat r) d)" "open_fds w' = open_fds w1"
        by blast
      have "nat r \<le> length d" using f(8)[OF 1(2)] by linarith
      then show ?thesis
        using os.delivers_more[OF 1(2) a True k(1)] k(2,3) f(2) by (intro exI[of _ "nat r + k"]) auto
    next
      case r: False
      then have "rc = -1" "w' = w1" using 1(3) False o by (auto simp: send_data.simps[of s d])
      then show ?thesis using os.delivers_stop[OF 1(2) a] r f(2) False by (intro exI[of _ 0]) auto
    qed
  qed
qed

text \<open>A peer that takes at least one byte per call.\<close>

definition send_some :: "world \<Rightarrow> bool" where
  "send_some w \<longleftrightarrow> send_ok w \<and> (\<forall>t n. 0 < n \<longrightarrow> 0 < fst (send_ans w t n))"

lemma send_data_all:
  "send_some w \<Longrightarrow> s \<in> set (open_fds w) \<Longrightarrow> fst (send_data s d w) = 0"
proof (induction s d w rule: send_data.induct)
  case (1 s d w)
  show ?case
  proof (cases "d = []")
    case True
    then show ?thesis by (simp add: send_data.simps)
  next
    case False
    obtain r e w1 where o: "os_send s d w = ((r, e), w1)" by (metis surj_pair)
    note f = os_send_facts[OF o]
    have "(r, e) = send_ans w (tick w) (length d)" using f(9)[OF 1(3)] .
    then have r: "r > 0" using 1(2) False by (metis fst_conv length_greater_0_conv send_some_def)
    have "send_some w1" using 1(2) f(1) same_system_ok(1)[OF f(1)] by (simp add: send_some_def same_system_def)
    from 1(1)[OF False o[symmetric] refl r this] f(2) 1(3) show ?thesis
      using False o r by (simp add: send_data.simps[of s d])
  qed
qed

section \<open>Receiving\<close>

text \<open>The next calls of \<open>recv\<close> each deliver one byte of \<open>bs\<close>.\<close>

definition arrives :: "string \<Rightarrow> world \<Rightarrow> bool" where
  "arrives bs w \<longleftrightarrow> (\<forall>i<length bs. fst (recv_ans w (tick w + i) 1) = Some [bs ! i])"

lemma arrives_Cons:
  assumes "arrives (b # bs) w"
  shows "fst (recv_ans w (tick w) 1) = Some [b]" and "arrives bs (pass w)"
  using assms by (force simp: arrives_def)+

lemma make_request_loop_reads:
  assumes "s \<in> set (open_fds w)" and "arrives bs w" and "bs \<noteq> []"
    and "case req of None \<Rightarrow> True | Some m \<Rightarrow> parser_inv m"
    and "httpc_parser_parse req bs = Inr (m', u)" and "got_request (Some m')"
    and "\<And>k m1 v. 0 < k \<Longrightarrow> k < length bs \<Longrightarrow> httpc_parser_parse req (take k bs) = Inr (m1, v) \<Longrightarrow> \<not> got_request (Some m1)"
  shows "\<exists>w'. make_request_loop s req w = Some (Inr (Some m', w')) \<and> same_system w w' \<and>
    open_fds w' = open_fds w \<and> wire w' = wire w"
  using assms
proof (induction bs arbitrary: req w u)
  case (Cons b bs)
  let ?m = "case req of None \<Rightarrow> fresh_message | Some m \<Rightarrow> m"
  have inv: "parser_inv ?m" using Cons.prems(4) parser_inv_fresh by (auto split: option.splits)
  have parse: "httpc_parser_parse req d = parse_loop ?m d 0" for d
    using inv by (auto simp: httpc_parser_parse_def parser_inv_def)
  have recv: "\<exists>e. os_recv s 1 w = ((Some [b], e), pass w)"
    using Cons.prems(1) arrives_Cons(1)[OF Cons.prems(2)] by (cases "recv_ans w (tick w) 1") (auto simp: os_recv_def)
  obtain m1 v where m1: "parse_loop ?m [b] 0 = Inr (m1, v)"
    using Cons.prems(5) parse_loop_append[OF inv, of "[b]" bs 0] by (cases "parse_loop ?m [b] 0") (auto simp: parse)
  have step: "make_request_loop s req w =
      (if got_request (Some m1) then Some (Inr (finish_request (Some m1), pass w)) else make_request_loop s (Some m1) (pass w))"
    using recv m1 by (subst make_request_loop.simps) (auto simp: parse)
  show ?case
  proof (cases "bs = []")
    case True
    then have "m1 = m'" using Cons.prems(5) m1 by (simp add: parse)
    then show ?thesis using step Cons.prems(6) by (intro exI[of _ "pass w"]) (simp add: finish_request_def)
  next
    case False
    have n: "\<not> got_request (Some m1)" using Cons.prems(7)[of 1 m1 v] m1 False by (simp add: parse)
    have inv1: "parser_inv m1" using parse_loop_inv[OF inv m1] by simp
    have rest: "httpc_parser_parse (Some m1) d = parse_loop m1 d 0" for d using parse_saved[OF inv1] .
    have app: "parse_loop ?m (b # d) 0 = bind_r (parse_loop m1 d 0) (\<lambda>(m', w). Inr (m', w + v))" for d
      using parse_loop_append[OF inv, of "[b]" d 0] m1 parse_loop_shift[of m1 d 0 v] by simp
    obtain u' where u': "parse_loop m1 bs 0 = Inr (m', u')"
      using Cons.prems(5) app[of bs] by (cases "parse_loop m1 bs 0") (auto simp: parse)
    have "\<exists>w'. make_request_loop s (Some m1) (pass w) = Some (Inr (Some m', w')) \<and> same_system (pass w) w' \<and>
        open_fds w' = open_fds (pass w) \<and> wire w' = wire (pass w)"
    proof (rule Cons.IH[of "pass w" "Some m1" u'])
      fix k m2 v2 assume k: "0 < k" "k < length bs" "httpc_parser_parse (Some m1) (take k bs) = Inr (m2, v2)"
      then have "httpc_parser_parse req (take (Suc k) (b # bs)) = Inr (m2, v2 + v)" using app[of "take k bs"] by (simp add: parse rest)
      with Cons.prems(7)[of "Suc k"] k(2) show "\<not> got_request (Some m2)" by simp
    qed (use Cons.prems(1,6) arrives_Cons(2)[OF Cons.prems(2)] False inv1 u' rest in auto)
    then show ?thesis using step n same_system_trans[OF pass_simps(6)] by fastforce
  qed
qed simp

text \<open>Before the last byte of a message without a body the parser is in neither of the two states.\<close>

lemma no_body_prefix:
  assumes "parser_inv m" and "parse_loop m (a @ b) 0 = Inr (m', int (length (a @ b)))" and "b \<noteq> []"
    and "bodylen m' = 0" and "parse_loop m a 0 = Inr (m1, v)"
  shows "\<not> got_request (Some m1)"
proof
  assume g: "got_request (Some m1)"
  have i: "parser_inv m1" "v \<le> int (length a)" using parse_loop_inv[OF assms(1,5)] by auto
  then obtain pd where pd: "pri_data m1 = Some pd" "pd_inv m1 pd" by (auto simp: parser_inv_def)
  have l: "parse_loop m1 b v = Inr (m', int (length (a @ b)))"
    using parse_loop_append[OF assms(1), of a b 0] assms(2,5) by simp
  show False
  proof (cases "state pd = HTTP_BODY")
    case True
    then obtain n where n: "getmsglen m1 = Inr n" using pd(2) by (auto simp: pd_inv_def)
    have "0 \<le> bodylen m1" using i(1) by (simp add: parser_inv_def body_ok_def)
    moreover have "m' = body_after m1 pd n b" "bodylen m1 < n"
      using parse_loop_body[OF i(1) pd(1) True assms(3) n] l by auto
    moreover have "0 < int (length b)" using assms(3) by simp
    moreover have "bodylen (body_after m1 pd n b) = bodylen m1 + min (int (length b)) (n - bodylen m1)"
      by (simp add: body_after_def)
    moreover have "0 < bodylen m1 + min (int (length b)) (n - bodylen m1)"
      using calculation(1,3,4) by linarith
    ultimately have "0 < bodylen m'" by simp
    with assms(4) show False by simp
  next
    case False
    then have "parse_done m1" using g pd(1) by (simp add: got_request_def httpc_Message_state_def parse_done_def)
    then have "v = int (length (a @ b))" using l by simp
    with i(2) assms(3) show False by simp
  qed
qed

section \<open>A request for a file that is not there\<close>

text \<open>The response \<open>ret_404\<close> builds from the default response.\<close>

definition body_404 :: "string \<Rightarrow> string" where
  "body_404 name = take 1023 (''NOT found '' @ name) @ [NUL]"

definition response_404 :: "string \<Rightarrow> HttpMessage" where
  "response_404 name =
     httpc_Message_create\<lparr>p1 := Some ''HTTP/1.0'', p2 := Some ''404'', p3 := Some ''File Not Found'',
       headers := [(''Content-Length'', dec_str (length (body_404 name))), (''Content-Type'', ''text/plain''),
                   (''Connection'', ''Close''), (''Server'', ''test_http_srv 1.0'')],
       header_cnt := 4, body := Some (body_404 name), bodylen := int (length (body_404 name))\<rparr>"

lemma body_404_length: "0 < length (body_404 name)" "length (body_404 name) \<le> 1024"
  by (auto simp: body_404_def)

lemma default_response_eq:
  "make_default_response = httpc_Message_create\<lparr>p1 := Some ''HTTP/1.0'', p2 := Some ''200'', p3 := Some ''OK'',
     headers := [(''Connection'', ''Close''), (''Server'', ''test_http_srv 1.0'')], header_cnt := 2\<rparr>"
  by (simp add: make_default_response_def httpc_Message_setStartLine_def httpc_Message_setValue_def make_kvpair_def
      httpc_Message_create_def)

lemma ret_404_eq: "ret_404 make_default_response name = Inr (response_404 name, 0)"
proof -
  let ?m = "httpc_Message_create\<lparr>p1 := Some ''HTTP/1.0'', p2 := Some ''404'', p3 := Some ''File Not Found'',
     headers := [(''Content-Type'', ''text/plain''), (''Connection'', ''Close''), (''Server'', ''test_http_srv 1.0'')],
     header_cnt := 3\<rparr>"
  have b: "body_ok ?m" "body_bytes ?m = []" "bodylen ?m = 0"
    by (simp_all add: body_ok_def body_bytes_def httpc_Message_create_def int_ok_def)
  have "body_404 name \<noteq> []" "int_ok (bodylen ?m + int (length (body_404 name)))"
    using body_404_length[of name] b by (auto simp: int_ok_def)
  from appendBody_ok[OF b(1) this] have a: "httpc_Message_appendBody (Some ?m) (body_404 name) (int (length (body_404 name))) =
      Inr (Some (response_404 name), int (length (body_404 name)))"
    using b by (simp add: response_404_def httpc_Message_create_def)
  have l: "int (length (take 1023 (''NOT found '' @ name))) + 1 = int (length (body_404 name))"
    by (simp add: body_404_def)
  have f: "take 1023 (''NOT found '' @ name) @ [NUL] = body_404 name"
    by (simp add: body_404_def)
  show ?thesis
    unfolding ret_404_def Let_def l f
    using a by (simp add: default_response_eq httpc_Message_setStartLine_def httpc_Message_setValue_def make_kvpair_def
        httpc_Message_create_def)
qed

lemma response_404_wire_ok: "wire_ok (response_404 name)"
proof -
  let ?n = "length (body_404 name)"
  have "start_ok ''HTTP/1.0'' ''404'' ''File Not Found''" by code_simp
  moreover have "header_ok (''Content-Type'', ''text/plain'')" "header_ok (''Connection'', ''Close'')"
      "header_ok (''Server'', ''test_http_srv 1.0'')" by code_simp+
  moreover have "?n < 2147483648" using body_404_length(2)[of name] by simp
  moreover have "\<not> str_case_eq ''Server'' ''Content-Length''" "\<not> str_case_eq ''Connection'' ''Content-Length''"
      "\<not> str_case_eq ''Content-Type'' ''Content-Length''" by code_simp+
  ultimately show ?thesis
    using content_length_ok[of ?n] atoi_dec_str[of ?n]
    by (simp add: wire_ok_def response_404_def body_ok_def body_bytes_def int_ok_def getmsglen_def
        httpc_Message_getValue_def)
qed

lemma response_404_short: "length (encoding (response_404 name) True) < 2147483647"
proof -
  have "length (dec_str (length (body_404 name))) \<le> 4"
    using dec_str_length[of "length (body_404 name)" 3] body_404_length(2)[of name] by simp
  then show ?thesis
    using body_404_length(2)[of name] by (simp add: encoding_def response_404_def head_text_def header_text_def body_bytes_def)
qed

text \<open>The encoded text, behind the length and the buffer of that size.\<close>

lemma encode_for_sending:
  assumes "has_start_line m" and "body_ok m" and "length (encoding m wb) < 2147483647"
  obtains buf where
    "httpc_Message_get_encode_length (Some m) wb = Inr (int (length (encoding m wb)))"
    "c_int (int (length (encoding m wb)) + 1) = Inr (int (length (encoding m wb)) + 1)"
    "httpc_Message_encode m (replicate (nat (int (length (encoding m wb)) + 1)) NUL) wb = Inr buf"
    "take (length (encoding m wb)) buf = encoding m wb"
proof -
  let ?e = "encoding m wb"
  have "c_int (int (length ?e) + 1) = Inr (int (length ?e) + 1)"
    using assms(3) by (simp add: c_int_def int_ok_def)
  moreover have "length ?e < length (replicate (nat (int (length ?e) + 1)) NUL)" by simp
  from encode_fills[OF assms(1,2) this] obtain buf where
    "httpc_Message_encode m (replicate (nat (int (length ?e) + 1)) NUL) wb = Inr buf" "take (length ?e) buf = ?e" by blast
  ultimately show thesis using that encode_length_short[OF assms(1,2)] assms(3) by simp
qed

lemma send_res_sends:
  assumes "wire_ok res" and "length (encoding res True) < 2147483647"
    and "send_some w" and "c_sock c \<in> set (open_fds w)"
  obtains w' where "send_res c res w = Inr (0, w')" and "open_fds w' = open_fds w"
    and "wire w' (c_sock c) = wire w (c_sock c) @ encoding res True"
proof -
  have st: "has_start_line res" and b: "body_ok res"
    using assms(1) by (auto simp: wire_ok_def has_start_line_def split: option.splits)
  obtain buf where buf: "httpc_Message_get_encode_length (Some res) True = Inr (int (length (encoding res True)))"
      "c_int (int (length (encoding res True)) + 1) = Inr (int (length (encoding res True)) + 1)"
      "httpc_Message_encode res (replicate (nat (int (length (encoding res True)) + 1)) NUL) True = Inr buf"
      "take (length (encoding res True)) buf = encoding res True"
    by (rule encode_for_sending[OF st b assms(2)])
  obtain rc w' where s: "send_data (c_sock c) (encoding res True) w = (rc, w')" by fastforce
  have "rc = 0" using send_data_all[OF assms(3,4), of "encoding res True"] s by simp
  with send_data_facts[OF _ s] assms(3) have "wire w' (c_sock c) = wire w (c_sock c) @ encoding res True"
      "open_fds w' = open_fds w"
    by (auto simp: send_some_def delivers_def)
  moreover have "send_res c res w = Inr (0, w')"
    using buf s \<open>rc = 0\<close> by (simp add: send_res_def)
  ultimately show thesis using that by blast
qed

text \<open>The first half of \<open>handle\<close>: the request is received, and its path is the name of a file.\<close>

lemma request_received:
  assumes "wire_ok req" and "bodylen req = 0" and "c_sock c \<in> set (open_fds w)" and "arrives (encoding req True) w"
  obtains m' w1 where "make_request c w = Some (Inr (Some m', w1))" and "p2 m' = p2 req" and "same_system w w1"
    and "open_fds w1 = open_fds w" and "wire w1 = wire w"
proof -
  let ?e = "encoding req True"
  have st: "has_start_line req"
    using assms(1) by (auto simp: wire_ok_def has_start_line_def split: option.splits)
  obtain m' where m': "httpc_parser_parse None ?e = Inr (m', int (length ?e))"
      "httpc_Message_state (Some m') = HTTP_COMPLETE" "p2 m' = p2 req" "bodylen m' = 0"
    using parse_encoding[OF assms(1)] assms(2) by auto
  have pl: "httpc_parser_parse None d = parse_loop fresh_message d 0" for d
    by (simp add: httpc_parser_parse_def fresh_message_def)
  have pre: "\<not> got_request (Some m1)" if "k < length ?e" "httpc_parser_parse None (take k ?e) = Inr (m1, v)" for k m1 v
    using no_body_prefix[OF parser_inv_fresh, of "take k ?e" "drop k ?e" m' m1 v] that m'(1,4) by (simp add: pl)
  have "?e \<noteq> []" using st by (auto simp: encoding_def head_text_def elim!: has_start_lineE)
  then obtain w1 where "make_request c w = Some (Inr (Some m', w1))" "same_system w w1"
      "open_fds w1 = open_fds w" "wire w1 = wire w"
    using make_request_loop_reads[OF assms(3,4), of None m'] m'(1,2) pre by (auto simp: make_request_def got_request_def)
  with m'(3) that show thesis by blast
qed

lemma request_names_file:
  assumes "matcher_ok rx_url" and "matcher_ok rx_auth" and "rx_url p = Some subs" and "nul_free p" and "nul_free (cwd fs)"
    and "name = cwd fs @ group p subs 5" and "length name < 1024" and "p2 m = Some p"
  shows "handle_http fs rx_url rx_auth c m res w = (if is_local_file fs name then
      (case send_local_file fs c res name w of
         None \<Rightarrow> None | Some (Inl e) \<Rightarrow> Some (Inl e) | Some (Inr (rc, w)) \<Rightarrow> Some (Inr (res, rc, w)))
    else (case ret_404 res name of Inl e \<Rightarrow> Some (Inl e) | Inr (res, rc) \<Rightarrow> Some (Inr (res, rc, w))))"
proof -
  have g: "nul_free (group p subs 5)" by (rule nul_free_group[OF assms(4)])
  obtain u where u: "simple_url_parse rx_url rx_auth p = Inr (Some u)" "path u = group p subs 5"
    using url_parse_path[OF assms(1,2,4,3)] by blast
  have "build_filename 1024 (cwd fs) (path u) = Inr name"
    using assms(5-7) g u(2) by (simp add: build_filename_def)
  then show ?thesis using assms(8) u(1) by (simp add: handle_http_def http_request_def)
qed

lemma answers_404:
  assumes req: "wire_ok req" "bodylen req = 0" "p2 req = Some p"
    and net: "c_sock c \<in> set (open_fds w)" "arrives (encoding req True) w" "send_some w"
    and url: "matcher_ok rx_url" "matcher_ok rx_auth" "rx_url p = Some subs" "nul_free p" "nul_free (cwd fs)"
    and name: "name = cwd fs @ group p subs 5" "length name < 1024" "\<not> is_local_file fs name"
  shows "\<exists>w'. handle fs rx_url rx_auth c w = Some (Inr w') \<and> c_sock c \<notin> set (open_fds w') \<and>
    wire w' (c_sock c) = wire w (c_sock c) @ encoding (response_404 name) True \<and> wire_ok (response_404 name)"
proof -
  obtain m' w1 where w1: "make_request c w = Some (Inr (Some m', w1))" "p2 m' = p2 req" "same_system w w1"
      "open_fds w1 = open_fds w" "wire w1 = wire w"
    by (rule request_received[OF req(1,2) net(1,2)])
  have h: "handle_http fs rx_url rx_auth c m' make_default_response w1 = Some (Inr (response_404 name, 0, w1))"
    using request_names_file[OF url(1-5) name(1,2), of m'] w1(2) req(3) name(3) by (simp add: ret_404_eq)
  have "send_some w1" using net(3) w1(3) same_system_ok(1)[OF w1(3)] by (simp add: send_some_def same_system_def)
  moreover have "c_sock c \<in> set (open_fds w1)" using net(1) w1(4) by simp
  ultimately obtain w2 where w2: "send_res c (response_404 name) w1 = Inr (0, w2)" "open_fds w2 = open_fds w1"
      "wire w2 (c_sock c) = wire w1 (c_sock c) @ encoding (response_404 name) True"
    by (rule send_res_sends[OF response_404_wire_ok response_404_short])
  show ?thesis
    using w1 h w2 response_404_wire_ok by (simp add: handle_def os_close_def)
qed

text \<open>C14: the whole server, on one connection: when the bytes of a request without a body arrive one by one
  and the peer keeps taking bytes, and the path the URL names below the working directory is no local
  file, the server sends exactly one message, the encoded 404 response naming that file, and then
  closes the connection; that response is well formed, so the library's own parser reads it back.\<close>

theorem handle_answers_404:
  assumes req: "wire_ok req" "bodylen req = 0" "p2 req = Some p"
    and net: "c_sock c \<in> set (open_fds w)" "arrives (encoding req True) w" "send_some w"
    and url: "matcher_ok rx_url" "matcher_ok rx_auth" "rx_url p = Some subs" "nul_free p" "nul_free (cwd fs)"
    and name: "name = cwd fs @ group p subs 5" "length name < 1024" "\<not> is_local_file fs name"
  shows "\<exists>w'. handle fs rx_url rx_auth c w = Some (Inr w') \<and> c_sock c \<notin> set (open_fds w') \<and>
    wire w' (c_sock c) = wire w (c_sock c) @ encoding (response_404 name) True \<and> wire_ok (response_404 name)"
  using answers_404[OF req net url name] .

text \<open>A request, a file system and a world for the witness.\<close>

definition sample_request :: HttpMessage where
  "sample_request = httpc_Message_create\<lparr>p1 := Some ''GET'', p2 := Some ''/a'', p3 := Some ''HTTP/1.0''\<rparr>"

definition rx_path :: matcher where
  "rx_path s = Some ((0, int (length s)) # replicate 4 (-1, -1) @ (0, int (length s)) # replicate 4 (-1, -1))"

lemma rx_path_ok: "matcher_ok rx_path"
  by (auto simp: matcher_ok_def match_ok_def rx_path_def eval_nat_numeral)

definition empty_fs :: file_system where
  "empty_fs = \<lparr>cwd = ''/srv'', stat_ans = (\<lambda>_. None), content_ans = (\<lambda>_. None)\<rparr>"

definition world_receiving :: "string \<Rightarrow> world" where
  "world_receiving e = quiet_world\<lparr>recv_ans := \<lambda>t n. (if t < length e then Some [e ! t] else None, 0)\<rparr>"

lemma world_receiving_simps:
  "arrives e (world_receiving e)" "send_some (world_receiving e)" "open_fds (world_receiving e) = [5]"
  "wire (world_receiving e) s = []"
  by (simp_all add: arrives_def send_some_def send_ok_def world_receiving_def quiet_world_def)

lemma sample_answered:
  "\<exists>w'. handle empty_fs rx_path rx_path (build_client 5) (world_receiving (encoding sample_request True)) = Some (Inr w') \<and>
     wire w' 5 = encoding (response_404 ''/srv/a'') True"
proof -
  have r: "wire_ok sample_request" by code_simp
  have "bodylen sample_request = 0" "p2 sample_request = Some ''/a''"
    by (simp_all add: sample_request_def httpc_Message_create_def)
  moreover have "rx_path ''/a'' = Some ((0, 2) # replicate 4 (-1, -1) @ (0, 2) # replicate 4 (-1, -1))"
    by (simp add: rx_path_def)
  moreover have "''/srv/a'' = cwd empty_fs @ group ''/a'' ((0, 2) # replicate 4 (-1, -1) @ (0, 2) # replicate 4 (-1, -1)) 5"
    by (simp add: empty_fs_def group_def eval_nat_numeral)
  moreover have "\<not> is_local_file empty_fs ''/srv/a''" "nul_free (cwd empty_fs)"
    by (simp_all add: is_local_file_def empty_fs_def)
  moreover have "c_sock (build_client 5) \<in> set (open_fds (world_receiving (encoding sample_request True)))"
    by (simp add: build_client_def world_receiving_simps)
  moreover have "nul_free ''/a''" "length ''/srv/a'' < 1024" by simp_all
  ultimately obtain w' where "handle empty_fs rx_path rx_path (build_client 5) (world_receiving (encoding sample_request True)) = Some (Inr w')"
      "wire w' (c_sock (build_client 5)) = wire (world_receiving (encoding sample_request True)) (c_sock (build_client 5)) @
         encoding (response_404 ''/srv/a'') True"
    using answers_404[OF r _ _ _ world_receiving_simps(1,2) rx_path_ok rx_path_ok] by blast
  then show ?thesis by (simp add: build_client_def world_receiving_simps)
qed

theorem handle_answers_404_witness:
  "\<exists>w'. handle empty_fs rx_path rx_path (build_client 5) (world_receiving (encoding sample_request True)) = Some (Inr w') \<and>
     wire w' 5 = encoding (response_404 ''/srv/a'') True"
proof -
  have r: "wire_ok sample_request" by code_simp
  have "bodylen sample_request = 0" "p2 sample_request = Some ''/a''"
    by (simp_all add: sample_request_def httpc_Message_create_def)
  moreover have "rx_path ''/a'' = Some ((0, 2) # replicate 4 (-1, -1) @ (0, 2) # replicate 4 (-1, -1))"
    by (simp add: rx_path_def)
  moreover have "''/srv/a'' = cwd empty_fs @ group ''/a'' ((0, 2) # replicate 4 (-1, -1) @ (0, 2) # replicate 4 (-1, -1)) 5"
    by (simp add: empty_fs_def group_def eval_nat_numeral)
  moreover have "\<not> is_local_file empty_fs ''/srv/a''" "nul_free (cwd empty_fs)"
    by (simp_all add: is_local_file_def empty_fs_def)
  moreover have "c_sock (build_client 5) \<in> set (open_fds (world_receiving (encoding sample_request True)))"
    by (simp add: build_client_def world_receiving_simps)
  moreover have "nul_free ''/a''" "length ''/srv/a'' < 1024" by simp_all
  ultimately obtain w' where "handle empty_fs rx_path rx_path (build_client 5) (world_receiving (encoding sample_request True)) = Some (Inr w')"
      "wire w' (c_sock (build_client 5)) = wire (world_receiving (encoding sample_request True)) (c_sock (build_client 5)) @
         encoding (response_404 ''/srv/a'') True"
    using handle_answers_404[OF r _ _ _ world_receiving_simps(1,2) rx_path_ok rx_path_ok] by blast
  then show ?thesis by (simp add: build_client_def world_receiving_simps)
qed

section \<open>Requests that bring the server down\<close>

lemma blank_parse:
  obtains m where "httpc_parser_parse None crlf = Inr (m, 2)" and "got_request (Some m)" and "p2 m = None"
proof -
  have "case httpc_parser_parse None crlf of Inr (m, u) \<Rightarrow> u = 2 \<and> got_request (Some m) \<and> p2 m = None | Inl _ \<Rightarrow> False"
    by code_simp
  then show thesis using that by (auto split: sum.splits)
qed

lemma cr_parse: "httpc_parser_parse None [CR] = Inr (m, u) \<Longrightarrow> \<not> got_request (Some m)"
proof -
  have "case httpc_parser_parse None [CR] of Inr (m, u) \<Rightarrow> \<not> got_request (Some m) | Inl _ \<Rightarrow> True" by code_simp
  then show "httpc_parser_parse None [CR] = Inr (m, u) \<Longrightarrow> \<not> got_request (Some m)" by simp
qed

text \<open>two bytes bring the server down: a connection that sends an empty line is taken for a complete
  request without a start line, and \<open>simple_url_parse\<close> gets the null pointer of its URL.\<close>

theorem blank_request_crashes:
  assumes "c_sock c \<in> set (open_fds w)" and "arrives crlf w"
  shows "handle fs rx_url rx_auth c w = Some (Inl Null_Ptr)"
proof -
  obtain m where m: "httpc_parser_parse None crlf = Inr (m, 2)" "got_request (Some m)" "p2 m = None"
    by (rule blank_parse)
  have "\<not> got_request (Some m1)" if "0 < k" "k < length crlf" "httpc_parser_parse None (take k crlf) = Inr (m1, v)" for k m1 v
  proof -
    have "k = 1" using that(1,2) by simp
    with that(3) cr_parse show ?thesis by simp
  qed
  then obtain w' where "make_request c w = Some (Inr (Some m, w'))"
    using make_request_loop_reads[OF assms, of None m 2] m by (auto simp: make_request_def)
  then show ?thesis using m(3) by (simp add: handle_def handle_http_def)
qed

theorem blank_request_crashes_witness:
  "handle empty_fs rx_path rx_path (build_client 5) (world_receiving crlf) = Some (Inl Null_Ptr)"
  by (rule blank_request_crashes) (simp_all add: build_client_def world_receiving_simps)

text \<open>a request for an existing file whose whole path has no dot dereferences the null pointer that
  \<open>strrchr\<close> returns, and a path that does not fit the 1024 bytes of \<open>filename\<close> together with the working
  directory overflows that buffer, since \<open>build_filename\<close> ignores its size.\<close>

theorem http_request_faults:
  assumes "nul_free (cwd fs)" and "nul_free (path url)"
  shows "(is_local_file fs (cwd fs @ path url) \<and> CHR ''.'' \<notin> set (cwd fs @ path url) \<and> length (cwd fs @ path url) < 1024 \<longrightarrow>
      http_request fs c url res w = Some (Inl Null_Ptr)) \<and>
    (1024 \<le> length (cwd fs @ path url) \<longrightarrow> http_request fs c url res w = Some (Inl Mem_Bounds))"
  using assms
  by (auto simp: http_request_def build_filename_def send_local_file_def strrchr_dot_def Let_def
      get_context_type_from_ext_def check_r_def)

theorem http_request_faults_witness:
  "http_request (empty_fs\<lparr>stat_ans := \<lambda>_. Some (0x8000, 3)\<rparr>) (build_client 5)
     \<lparr>schema = [], username = [], passwd = [], host = [], port = [], path = ''/Makefile'', query = [], fragment = [],
      query_pairs = []\<rparr> make_default_response quiet_world = Some (Inl Null_Ptr)"
  using http_request_faults[of "empty_fs\<lparr>stat_ans := \<lambda>_. Some (0x8000, 3)\<rparr>"
      "\<lparr>schema = [], username = [], passwd = [], host = [], port = [], path = ''/Makefile'', query = [], fragment = [],
        query_pairs = []\<rparr>"]
  by (simp add: empty_fs_def is_local_file_def S_IFDIR_def S_IFMT_def)

text \<open>The loop that sends a file tests for its end only: when every \<open>fread\<close> from now on fails, it runs for ever.\<close>

lemma send_file_loop_stuck:
  assumes "files w fp = Some f" and "\<not> eof_flag f" and "\<forall>t. tick w \<le> t \<longrightarrow> io_err w t"
  shows "send_file_loop s fp err w = None"
proof -
  define stuck where "stuck w fp \<longleftrightarrow> (\<exists>f. files w fp = Some f \<and> \<not> eof_flag f \<and> (\<forall>t. tick w \<le> t \<longrightarrow> io_err w t))"
    for w :: world and fp
  have "\<not> stuck w fp" if "send_file_loop s fp err w = Some y" for y
  proof (rule send_file_loop.raw_induct[of "\<lambda>s fp err w y. \<not> stuck w fp", OF _ that])
    fix loop s fp err w y
    assume IH: "\<And>s fp err w y. loop s fp err w = Some y \<Longrightarrow> \<not> stuck w fp"
      and eq: "(if os_feof fp w then Some (err, w)
        else (case os_fread fp 4096 w of
              (d, w) \<Rightarrow>
                if d \<noteq> [] then (case send_data s d w of
                                 (rc, w) \<Rightarrow> if rc < 0 then Some (-1, w) else loop s fp err w)
                else loop s fp err w)) = Some y"
    show "\<not> stuck w fp"
    proof
      assume st: "stuck w fp"
      then have "os_fread fp 4096 w = ([], pass w)" "\<not> os_feof fp w" "stuck (pass w) fp"
        by (auto simp: stuck_def os_fread_def os_feof_def)
      with eq IH show False by auto
    qed
  qed
  moreover have "stuck w fp" using assms by (auto simp: stuck_def)
  ultimately show ?thesis by (cases "send_file_loop s fp err w") auto
qed

end
