(* ===== verification/Fd.thy ===== *)
theory Fd
  imports Os_World
begin

text \<open>
  Descriptor objects of \<open>src/src/fd.c\<close> and \<open>src/src/fd_impl.h\<close>: a struct of a socket or a stream and
  its function pointers. A pointer field that no one assigned is \<open>None\<close>; calling through it is a
  read of an uninitialised field.
\<close>

datatype FDTYPE = TYPE_SOCKET | TYPE_FILE

text \<open>The functions a pointer can point to; \<open>file_f\<close> and \<open>sock_f\<close> are the static functions
  \<open>_file_f\<close> and \<open>_sock_f\<close>.\<close>

datatype fd_fun =
    file_read | file_write | file_eof | file_set_nonblock | file_set_read_buf | file_set_write_buf
  | sock_read | sock_write | sock_eof | sock_set_nonblock | sock_set_read_buf | sock_set_write_buf
  | lasterr

text \<open>\<open>handle\<close> is the union: the socket, or the stream (0 is the null pointer).\<close>

record fd_t =
  handle :: int
  ftype :: FDTYPE
  err :: int
  f_lasterr :: "fd_fun option"
  f_read :: "fd_fun option"
  f_write :: "fd_fun option"
  f_is_eof :: "fd_fun option"
  f_set_nonblock :: "fd_fun option"
  f_set_read_buf :: "fd_fun option"
  f_set_write_buf :: "fd_fun option"

section \<open>Opening, detaching, closing\<close>

definition simple_fd_open_from_file :: "int \<Rightarrow> fd_t" where
  "simple_fd_open_from_file fp =
     \<lparr>handle = fp, ftype = TYPE_FILE, err = 0, f_lasterr = Some lasterr, f_read = Some file_read,
      f_write = Some file_write, f_is_eof = Some file_eof, f_set_nonblock = Some file_set_nonblock,
      f_set_read_buf = None, f_set_write_buf = None\<rparr>"

definition simple_fd_open_from_socket :: "int \<Rightarrow> fd_t" where
  "simple_fd_open_from_socket sock =
     \<lparr>handle = sock, ftype = TYPE_SOCKET, err = 0, f_lasterr = Some lasterr, f_read = Some sock_read,
      f_write = Some sock_write, f_is_eof = Some sock_eof, f_set_nonblock = Some sock_set_nonblock,
      f_set_read_buf = None, f_set_write_buf = None\<rparr>"

definition simple_fd_detach :: "fd_t \<Rightarrow> fd_t" where
  "simple_fd_detach fd = (if ftype fd = TYPE_SOCKET then fd\<lparr>handle := -1\<rparr> else fd\<lparr>handle := 0\<rparr>)"

definition os_fclose :: "int \<Rightarrow> world \<Rightarrow> world" where
  "os_fclose fp w = (pass w)\<lparr>files := (files w)(fp := None)\<rparr>"

definition simple_fd_close :: "fd_t \<Rightarrow> world \<Rightarrow> world" where
  "simple_fd_close fd w =
     (if ftype fd = TYPE_SOCKET
      then (if handle fd \<noteq> -1 then os_close (handle fd) w else w)
      else (if handle fd \<noteq> 0 then os_fclose (handle fd) w else w))"

section \<open>The functions behind the pointers\<close>

text \<open>\<open>read\<close>: the bytes stored in the buffer, the return value and the new descriptor and world.\<close>

definition fd_file_read :: "fd_t \<Rightarrow> nat \<Rightarrow> world \<Rightarrow> string \<times> int \<times> fd_t \<times> world" where
  "fd_file_read fd n w =
     (let (d, w') = os_fread (handle fd) n w
      in (d, int (length d), fd\<lparr>err := errno_ans w (tick w)\<rparr>, w'))"

definition fd_sock_read :: "fd_t \<Rightarrow> nat \<Rightarrow> world \<Rightarrow> string \<times> int \<times> fd_t \<times> world" where
  "fd_sock_read fd n w =
     (case os_recv (handle fd) n w of
        ((Some bs, _), w) \<Rightarrow> (bs, int (length bs), fd, w)
      | ((None, e), w) \<Rightarrow> ([], -1, fd\<lparr>err := e\<rparr>, w))"

definition fd_read :: "fd_t \<Rightarrow> nat \<Rightarrow> world \<Rightarrow> (string \<times> int \<times> fd_t \<times> world) result" where
  "fd_read fd n w =
     (case f_read fd of
        Some file_read \<Rightarrow> Inr (fd_file_read fd n w)
      | Some sock_read \<Rightarrow> Inr (fd_sock_read fd n w)
      | Some _ \<Rightarrow> Inl Stuck
      | None \<Rightarrow> Inl Uninit_Read)"

definition fd_file_write :: "fd_t \<Rightarrow> string \<Rightarrow> world \<Rightarrow> int \<times> fd_t \<times> world" where
  "fd_file_write fd d w =
     (let (rc, w') = os_fwrite (handle fd) d w in (rc, fd\<lparr>err := errno_ans w (tick w)\<rparr>, w'))"

definition fd_sock_write :: "fd_t \<Rightarrow> string \<Rightarrow> world \<Rightarrow> int \<times> fd_t \<times> world" where
  "fd_sock_write fd d w =
     (let ((rc, e), w) = os_send (handle fd) d w
      in (rc, if rc = -1 then fd\<lparr>err := e\<rparr> else fd, w))"

definition fd_write :: "fd_t \<Rightarrow> string \<Rightarrow> world \<Rightarrow> (int \<times> fd_t \<times> world) result" where
  "fd_write fd d w =
     (case f_write fd of
        Some file_write \<Rightarrow> Inr (fd_file_write fd d w)
      | Some sock_write \<Rightarrow> Inr (fd_sock_write fd d w)
      | Some _ \<Rightarrow> Inl Stuck
      | None \<Rightarrow> Inl Uninit_Read)"

definition fd_file_eof :: "fd_t \<Rightarrow> world \<Rightarrow> bool \<times> world" where
  "fd_file_eof fd w = (os_feof (handle fd) w, w)"

text \<open>\<open>recv (sock, &c, 1, MSG_PEEK) == 0\<close>.\<close>

definition fd_sock_eof :: "fd_t \<Rightarrow> world \<Rightarrow> bool \<times> world" where
  "fd_sock_eof fd w = (case os_recv (handle fd) 1 w of ((r, _), w) \<Rightarrow> (r = Some [], w))"

definition fd_is_eof :: "fd_t \<Rightarrow> world \<Rightarrow> (bool \<times> world) result" where
  "fd_is_eof fd w =
     (case f_is_eof fd of
        Some file_eof \<Rightarrow> Inr (fd_file_eof fd w)
      | Some sock_eof \<Rightarrow> Inr (fd_sock_eof fd w)
      | Some _ \<Rightarrow> Inl Stuck
      | None \<Rightarrow> Inl Uninit_Read)"

text \<open>\<open>set_nonblock\<close>: a stream has no such mode; on a socket \<open>flags\<close> is what \<open>fcntl (F_GETFL)\<close> answers
  and the result is what \<open>F_SETFL\<close> is called with (\<open>O_NONBLOCK\<close> is bit 11 of Linux's flags).\<close>

definition O_NONBLOCK :: "32 word" where "O_NONBLOCK = 2048"

definition nonblock_flags :: "32 word \<Rightarrow> bool \<Rightarrow> 32 word" where
  "nonblock_flags flags enable = (if enable then or flags O_NONBLOCK else and flags (not O_NONBLOCK))"

text \<open>The functions of a stream refuse: it has no such modes.\<close>

definition fd_file_set_nonblock :: int where "fd_file_set_nonblock = -1"
definition fd_file_set_read_buf :: int where "fd_file_set_read_buf = -1"
definition fd_file_set_write_buf :: int where "fd_file_set_write_buf = -1"

definition fd_set_nonblock :: "fd_t \<Rightarrow> int \<Rightarrow> bool \<Rightarrow> (int \<times> 32 word option) result" where
  "fd_set_nonblock fd flags enable =
     (case f_set_nonblock fd of
        Some file_set_nonblock \<Rightarrow> Inr (fd_file_set_nonblock, None)
      | Some sock_set_nonblock \<Rightarrow>
          if flags < 0 then Inr (-1, None)
          else Inr (0, Some (nonblock_flags (word_of_int flags) enable))
      | Some _ \<Rightarrow> Inl Stuck
      | None \<Rightarrow> Inl Uninit_Read)"

definition fd_set_read_buf :: "fd_t \<Rightarrow> int \<Rightarrow> int result" where
  "fd_set_read_buf fd answer =
     (case f_set_read_buf fd of
        Some file_set_read_buf \<Rightarrow> Inr fd_file_set_read_buf | Some sock_set_read_buf \<Rightarrow> Inr answer
      | Some _ \<Rightarrow> Inl Stuck | None \<Rightarrow> Inl Uninit_Read)"

definition fd_set_write_buf :: "fd_t \<Rightarrow> int \<Rightarrow> int result" where
  "fd_set_write_buf fd answer =
     (case f_set_write_buf fd of
        Some file_set_write_buf \<Rightarrow> Inr fd_file_set_write_buf | Some sock_set_write_buf \<Rightarrow> Inr answer
      | Some _ \<Rightarrow> Inl Stuck | None \<Rightarrow> Inl Uninit_Read)"

definition fd_lasterr :: "fd_t \<Rightarrow> int" where
  "fd_lasterr fd = err fd"

definition simple_fd_lasterr :: "fd_t \<Rightarrow> int result" where
  "simple_fd_lasterr fd =
     (case f_lasterr fd of Some lasterr \<Rightarrow> Inr (fd_lasterr fd) | Some _ \<Rightarrow> Inl Stuck | None \<Rightarrow> Inl Uninit_Read)"

text \<open>The Windows table of \<open>simple_fd_lasterr_string\<close>: a loop up to the entry \<open>-1\<close>.\<close>

definition winsock_err_table :: "(int \<times> string) list" where
  "winsock_err_table = [(10038, ''winsock NOT inited!''), (-1, [])]"

fun lasterr_loop :: "(int \<times> string) list \<Rightarrow> int \<Rightarrow> string option result" where
  "lasterr_loop [] e = Inl Mem_Bounds"
| "lasterr_loop ((c, s) # t) e =
     (if c = -1 then Inr None else if c = e then Inr (Some s) else lasterr_loop t e)"

definition simple_fd_lasterr_string :: "(int \<Rightarrow> string) \<Rightarrow> bool \<Rightarrow> fd_t \<Rightarrow> int \<Rightarrow> string option result" where
  "simple_fd_lasterr_string strerror win32 fd e =
     (if win32 \<and> ftype fd = TYPE_SOCKET then lasterr_loop winsock_err_table e else Inr (Some (strerror e)))"

section \<open>Properties\<close>

text \<open>reading and writing through a descriptor opened on a socket does what \<open>recv\<close> and \<open>send\<close> do,
  keeps the descriptor open, and records \<open>errno\<close> exactly when the call failed; on success the error of
  an earlier call stays.\<close>

theorem socket_fd_io:
  assumes fd: "fd = (simple_fd_open_from_socket s)\<lparr>err := e0\<rparr>" and s: "s \<in> set (open_fds w)" and ok: "send_ok w"
  shows "(\<exists>rc fd' w'. fd_write fd d w = Inr (rc, fd', w') \<and>
      wire w' s = wire w s @ take (nat rc) d \<and> rc \<le> int (length d) \<and> open_fds w' = open_fds w \<and>
      simple_fd_lasterr fd' = Inr (if rc = -1 then snd (send_ans w (tick w) (length d)) else e0)) \<and>
    (\<exists>bs rc fd' w'. fd_read fd n w = Inr (bs, rc, fd', w') \<and> wire w' = wire w \<and> open_fds w' = open_fds w \<and>
      (case recv_ans w (tick w) n of
         (Some b, _) \<Rightarrow> bs = b \<and> rc = int (length b) \<and> simple_fd_lasterr fd' = Inr e0
       | (None, e) \<Rightarrow> bs = [] \<and> rc = -1 \<and> simple_fd_lasterr fd' = Inr e))"
proof (rule conjI)
  obtain rc e w' where o: "os_send s d w = ((rc, e), w')" by (metis surj_pair)
  note f = os_send_facts[OF o]
  have h: "handle fd = s" "f_write fd = Some sock_write" "f_read fd = Some sock_read" "err fd = e0"
    "f_lasterr fd = Some lasterr"
    by (simp_all add: fd simple_fd_open_from_socket_def)
  have w: "fd_write fd d w = Inr (rc, if rc = -1 then fd\<lparr>err := e\<rparr> else fd, w')"
    by (simp add: fd_write_def fd_sock_write_def h o)
  show "\<exists>rc fd' w'. fd_write fd d w = Inr (rc, fd', w') \<and>
      wire w' s = wire w s @ take (nat rc) d \<and> rc \<le> int (length d) \<and> open_fds w' = open_fds w \<and>
      simple_fd_lasterr fd' = Inr (if rc = -1 then snd (send_ans w (tick w) (length d)) else e0)"
    unfolding w using f(2,7) f(8)[OF ok] f(9)[OF s] s h
    by (cases "rc = -1"; cases "send_ans w (tick w) (length d)") (auto simp: simple_fd_lasterr_def fd_lasterr_def)
  show "\<exists>bs rc fd' w'. fd_read fd n w = Inr (bs, rc, fd', w') \<and> wire w' = wire w \<and> open_fds w' = open_fds w \<and>
      (case recv_ans w (tick w) n of
         (Some b, _) \<Rightarrow> bs = b \<and> rc = int (length b) \<and> simple_fd_lasterr fd' = Inr e0
       | (None, e) \<Rightarrow> bs = [] \<and> rc = -1 \<and> simple_fd_lasterr fd' = Inr e)"
    using s h by (auto simp: fd_read_def fd_sock_read_def os_recv_def simple_fd_lasterr_def fd_lasterr_def
        split: prod.splits option.splits)
qed

theorem socket_fd_io_witness:
  "\<exists>rc fd' w'. fd_write (simple_fd_open_from_socket 5) ''hi'' quiet_world = Inr (rc, fd', w') \<and> wire w' 5 = take (nat rc) ''hi''"
proof -
  have "simple_fd_open_from_socket 5 = (simple_fd_open_from_socket 5)\<lparr>err := 0\<rparr>"
    by (simp add: simple_fd_open_from_socket_def)
  from socket_fd_io[OF this quiet_world_simps(1) quiet_world_ok(1), of "''hi''" 0] show ?thesis
    unfolding quiet_world_simps(2) by fastforce
qed

text \<open>closing a descriptor closes the socket it was opened from, \<open>simple_fd_detach\<close> before closing
  leaves it open, and no descriptor object ever gets its two buffer-size functions: calling
  \<open>set_read_buf\<close> or \<open>set_write_buf\<close> of a fresh descriptor jumps through an uninitialised pointer.\<close>

theorem fd_close_detach:
  "s \<noteq> -1 \<Longrightarrow> s \<notin> set (open_fds (simple_fd_close (simple_fd_open_from_socket s) w)) \<and>
     close_log (simple_fd_close (simple_fd_open_from_socket s) w) = s # close_log w \<and>
     simple_fd_close (simple_fd_detach (simple_fd_open_from_socket s)) w = w \<and>
     simple_fd_close (simple_fd_detach (simple_fd_open_from_file fp)) w = w \<and>
     fd_set_read_buf (simple_fd_open_from_socket s) a = Inl Uninit_Read \<and>
     fd_set_write_buf (simple_fd_open_from_socket s) a = Inl Uninit_Read \<and>
     fd_set_read_buf (simple_fd_open_from_file fp) a = Inl Uninit_Read \<and>
     fd_set_write_buf (simple_fd_open_from_file fp) a = Inl Uninit_Read"
  by (simp add: simple_fd_close_def simple_fd_open_from_socket_def simple_fd_detach_def os_close_def
      simple_fd_open_from_file_def fd_set_read_buf_def fd_set_write_buf_def)

theorem fd_close_detach_witness:
  "open_fds (simple_fd_close (simple_fd_open_from_socket 5) quiet_world) = [] \<and>
   5 \<notin> set (open_fds (simple_fd_close (simple_fd_open_from_socket 5) quiet_world))"
  using fd_close_detach[of 5 quiet_world 3 0]
  by (simp add: simple_fd_close_def simple_fd_open_from_socket_def os_close_def quiet_world_def)

end
