(* ===== verification/Tcp_Client.thy ===== *)
theory Tcp_Client
  imports Fd
begin

text \<open>
  The TCP client of \<open>src/src/tcpclient.c\<close>. A loop that may retry for ever is a
  \<open>partial_function\<close>; \<open>None\<close> is a call that never returns.
\<close>

record tcpclient_t =
  sock :: int
  tc_fd :: fd_t

section \<open>Connecting\<close>

text \<open>\<open>_connect\<close>. Before the connection, \<open>set_nonblock\<close> changes no state of the model.\<close>

definition connect_sock :: "int \<Rightarrow> nat \<Rightarrow> int \<Rightarrow> world \<Rightarrow> (int \<times> world) result" where
  "connect_sock s addr timeout w =
     (let fd = simple_fd_open_from_socket s;
          ((rc, errno), w) = os_connect s addr w;
          wait = (rc = -1 \<and> errno = EINPROGRESS)
      in if wait then
           bind_r (check_r (fd_set_ok s) Mem_Bounds) (\<lambda>_.
           let isset = isset_ans w (tick w);
               (n, w) = os_select s (timeval_of timeout) w;
               rc = (if n \<le> 0 then -1 else if isset then 0 else -1)
           in Inr (rc, simple_fd_close fd w))
         else Inr (rc, simple_fd_close fd w))"

text \<open>The loop over the addresses, and what is stored in \<open>sock\<close> behind it.\<close>

fun try_addrs :: "nat list \<Rightarrow> int \<Rightarrow> world \<Rightarrow> int \<Rightarrow> (int \<times> world) result" where
  "try_addrs [] timeout w s = Inr (s, w)"
| "try_addrs (p # ps) timeout w s =
     (let (s, w) = os_socket w
      in if s \<noteq> -1 then
           bind_r (connect_sock s p timeout w) (\<lambda>(rc, w).
           if rc < 0 then try_addrs ps timeout (os_close s w) (-1) else Inr (s, w))
         else try_addrs ps timeout w s)"

text \<open>\<open>getaddrinfo\<close> returns 0 and the addresses, or an error code; the list is not written then.\<close>

definition try_connect :: "int \<Rightarrow> world \<Rightarrow> (int \<times> world) result" where
  "try_connect timeout w =
     (let (rc, addrs) = gai_ans w (tick w); w = pass w
      in if rc = -1 then Inr (-1, w)
         else bind_r (check_r (rc = 0) Uninit_Read) (\<lambda>_. try_addrs addrs timeout w (-1)))"

definition simple_tcpclient_open :: "int \<Rightarrow> world \<Rightarrow> (tcpclient_t option \<times> world) result" where
  "simple_tcpclient_open timeout w =
     bind_r (try_connect timeout w) (\<lambda>(s, w).
     if s = -1 then Inr (None, w)
     else Inr (Some \<lparr>sock = s, tc_fd = simple_fd_open_from_socket s\<rparr>, w))"

definition simple_tcpclient_close :: "tcpclient_t \<Rightarrow> world \<Rightarrow> world" where
  "simple_tcpclient_close tc w = simple_fd_close (tc_fd tc) w"

section \<open>One block\<close>

text \<open>The result is the return value, what is stored at \<open>sent\<close>, and the world.\<close>

partial_function (option) sendt_retry :: "int \<Rightarrow> string \<Rightarrow> int \<times> int \<Rightarrow> world \<Rightarrow> (int \<times> int \<times> world) option" where
  "sendt_retry s d tv w =
     (let (n, w) = os_select s tv w
      in if n = 0 then Some (-2, 0, w)
         else if n = -1 then Some (-1, 0, w)
         else (let ((rc, errno), w) = os_send s d w
               in if rc \<ge> 0 then Some (rc, rc, w)
                  else if errno = EAGAIN then sendt_retry s d tv w
                  else Some (-1, 0, w)))"

definition simple_tcpclient_sendt ::
    "tcpclient_t \<Rightarrow> string \<Rightarrow> int \<Rightarrow> world \<Rightarrow> (int \<times> int \<times> world) result option" where
  "simple_tcpclient_sendt tc d timeout w =
     (if fd_set_ok (sock tc) then map_option Inr (sendt_retry (sock tc) d (timeval_of timeout) w)
      else Some (Inl Mem_Bounds))"

text \<open>Receiving: the bytes stored in the buffer of \<open>n\<close> bytes come first.\<close>

partial_function (option) recvt_retry :: "int \<Rightarrow> nat \<Rightarrow> int \<times> int \<Rightarrow> world \<Rightarrow> (string \<times> int \<times> world) option" where
  "recvt_retry s n tv w =
     (let (k, w) = os_select s tv w
      in if k = 0 then Some ([], -2, w)
         else if k = -1 then Some ([], -1, w)
         else (case os_recv s n w of
                 ((Some bs, _), w) \<Rightarrow> Some (bs, int (length bs), w)
               | ((None, errno), w) \<Rightarrow>
                   if errno = EAGAIN then recvt_retry s n tv w else Some ([], -1, w)))"

definition simple_tcpclient_recvt ::
    "tcpclient_t \<Rightarrow> nat \<Rightarrow> int \<Rightarrow> world \<Rightarrow> (string \<times> int \<times> world) result option" where
  "simple_tcpclient_recvt tc n timeout w =
     (if fd_set_ok (sock tc) then map_option Inr (recvt_retry (sock tc) n (timeval_of timeout) w)
      else Some (Inl Mem_Bounds))"

section \<open>Exactly n bytes\<close>

text \<open>The loops of \<open>sendnt\<close> and \<open>recvnt\<close>: \<open>len\<close> is the whole length, \<open>sent\<close> and \<open>got\<close> what is done.\<close>

partial_function (option) sendnt_loop ::
    "tcpclient_t \<Rightarrow> int \<Rightarrow> int \<Rightarrow> string \<Rightarrow> int \<Rightarrow> world \<Rightarrow> (int \<times> int \<times> world) result option" where
  "sendnt_loop tc timeout len d sent w =
     (if d = [] then Some (Inr (len, sent, w))
      else (case simple_tcpclient_sendt tc d timeout w of
              None \<Rightarrow> None
            | Some (Inl e) \<Rightarrow> Some (Inl e)
            | Some (Inr (rc, bytes, w)) \<Rightarrow>
                if rc > 0 then sendnt_loop tc timeout len (drop (nat bytes) d) (sent + bytes) w
                else Some (Inr (rc, sent, w))))"

definition simple_tcpclient_sendnt ::
    "tcpclient_t \<Rightarrow> string \<Rightarrow> int \<Rightarrow> world \<Rightarrow> (int \<times> int \<times> world) result option" where
  "simple_tcpclient_sendnt tc d timeout w = sendnt_loop tc timeout (int (length d)) d 0 w"

partial_function (option) recvnt_loop ::
    "tcpclient_t \<Rightarrow> int \<Rightarrow> int \<Rightarrow> nat \<Rightarrow> string \<Rightarrow> world \<Rightarrow> (string \<times> int \<times> world) result option" where
  "recvnt_loop tc timeout len rest got w =
     (if rest = 0 then Some (Inr (got, len, w))
      else (case simple_tcpclient_recvt tc rest timeout w of
              None \<Rightarrow> None
            | Some (Inl e) \<Rightarrow> Some (Inl e)
            | Some (Inr (bs, rc, w)) \<Rightarrow>
                if rc > 0 then recvnt_loop tc timeout len (rest - length bs) (got @ bs) w
                else Some (Inr (got, rc, w))))"

definition simple_tcpclient_recvnt ::
    "tcpclient_t \<Rightarrow> nat \<Rightarrow> int \<Rightarrow> world \<Rightarrow> (string \<times> int \<times> world) result option" where
  "simple_tcpclient_recvnt tc n timeout w = recvnt_loop tc timeout (int n) n [] w"

text \<open>The versions without a timeout pass the largest one.\<close>

definition simple_tcpclient_sendn where
  "simple_tcpclient_sendn tc d w = simple_tcpclient_sendnt tc d 2147483647 w"

definition simple_tcpclient_send where
  "simple_tcpclient_send tc d w = simple_tcpclient_sendt tc d 2147483647 w"

definition simple_tcpclient_recv where
  "simple_tcpclient_recv tc n w = simple_tcpclient_recvt tc n 2147483647 w"

definition simple_tcpclient_recvn where
  "simple_tcpclient_recvn tc n w = simple_tcpclient_recvnt tc n 2147483647 w"

section \<open>Sending\<close>

text \<open>The whole of one attempt, as the loops around it see it.\<close>

definition sendt_attempt :: "tcpclient_t \<Rightarrow> int \<Rightarrow> string \<Rightarrow> world \<Rightarrow> int \<Rightarrow> world \<Rightarrow> bool" where
  "sendt_attempt tc timeout d w rc w' \<longleftrightarrow>
     (\<exists>sent. simple_tcpclient_sendt tc d timeout w = Some (Inr (rc, sent, w')))"

definition sent_right :: "int \<Rightarrow> string \<Rightarrow> world \<Rightarrow> int \<times> int \<times> world \<Rightarrow> bool" where
  "sent_right s d w y \<longleftrightarrow> (case y of (rc, sent, w') \<Rightarrow> send_ok w \<longrightarrow>
     same_system w w' \<and> tick w < tick w' \<and> sent = max rc 0 \<and> rc \<le> int (length d) \<and>
     wire w' s = wire w s @ take (nat sent) d)"

lemma sendt_round:
  assumes IH: "\<And>w y. f w = Some y \<Longrightarrow> sent_right s d w y"
    and eq: "(let (n, w) = os_select s tv w
      in if n = 0 then Some (-2, 0, w) else if n = -1 then Some (-1, 0, w)
         else (let ((rc, errno), w) = os_send s d w
               in if rc \<ge> 0 then Some (rc, rc, w)
                  else if errno = EAGAIN then f w else Some (-1, 0, w))) = Some (rc, sent, w')"
  shows "sent_right s d w (rc, sent, w')"
proof -
  obtain n where n: "os_select s tv w = (n, pass w)" by (simp add: os_select_def)
  obtain r e w2 where o: "os_send s d (pass w) = ((r, e), w2)" by (metis surj_pair)
  note f = os_send_facts[OF o]
  have ss: "same_system w w2" "tick w < tick w2"
    using same_system_trans[OF pass_simps(6) f(1)] f(4) by simp_all
  consider "n = 0 \<or> n = -1" | "n \<noteq> 0" "n \<noteq> -1" "0 \<le> r" | "n \<noteq> 0" "n \<noteq> -1" "r < 0" by linarith
  then show ?thesis
  proof cases
    case 1
    then show ?thesis using eq n by (auto simp: sent_right_def split: if_splits)
  next
    case 2
    then show ?thesis using eq n o f(6,7,8) ss same_system_ok(1)[OF pass_simps(6)[of w]]
      by (cases "r = 0") (auto simp: sent_right_def)
  next
    case 3
    then have w2: "wire w2 s = wire w s" using f(7) by auto
    show ?thesis
    proof (cases "e = EAGAIN")
      case True
      with 3 eq n o have "f w2 = Some (rc, sent, w')" by simp
      from IH[OF this] show ?thesis
        using ss w2 same_system_trans[OF ss(1)] same_system_ok(1)[OF ss(1)] by (auto simp: sent_right_def)
    next
      case False
      with 3 eq n o have "rc = -1" "sent = 0" "w' = w2" by auto
      with ss w2 show ?thesis by (simp add: sent_right_def)
    qed
  qed
qed

lemma sendt_retry_facts:
  assumes "sendt_retry s d tv w = Some (rc, sent, w')" and "send_ok w"
  shows "same_system w w' \<and> tick w < tick w' \<and> sent = max rc 0 \<and> rc \<le> int (length d) \<and>
    wire w' s = wire w s @ take (nat sent) d"
proof -
  have "sent_right s d w (rc, sent, w')"
  proof (rule sendt_retry.raw_induct[of "\<lambda>s d tv w y. sent_right s d w y", OF _ assms(1)])
    fix f s d tv w y
    assume IH: "\<And>s d tv w y. f s d tv w = Some y \<Longrightarrow> sent_right s d w y"
      and eq: "(let (n, w) = os_select s tv w
        in if n = 0 then Some (-2, 0, w) else if n = -1 then Some (-1, 0, w)
           else (let ((rc, errno), w) = os_send s d w
                 in if rc \<ge> 0 then Some (rc, rc, w)
                    else if errno = EAGAIN then f s d tv w else Some (-1, 0, w))) = Some y"
    obtain rc sent w' where y: "y = (rc, sent, w')" by (cases y)
    show "sent_right s d w y"
      unfolding y by (rule sendt_round[of "f s d tv", OF IH eq[unfolded y]])
  qed
  with assms(2) show ?thesis by (simp add: sent_right_def)
qed

text \<open>So one attempt keeps the contract of the loops.\<close>

interpretation tcp: partial_sender send_ok "\<lambda>w. wire w (sock tc)" "sendt_attempt tc timeout" for tc timeout
proof
  fix w d rc w'
  assume g: "send_ok w" and a: "sendt_attempt tc timeout d w rc w'"
  then obtain sent where "sendt_retry (sock tc) d (timeval_of timeout) w = Some (rc, sent, w')"
    by (auto simp: sendt_attempt_def simple_tcpclient_sendt_def split: if_splits)
  note f = sendt_retry_facts[OF this g]
  show "send_ok w'" using f g same_system_ok(1) by blast
  show "0 < rc \<Longrightarrow> rc \<le> int (length d) \<and> wire w' (sock tc) = wire w (sock tc) @ take (nat rc) d"
    using f by simp
  show "rc \<le> 0 \<Longrightarrow> wire w' (sock tc) = wire w (sock tc)" using f by simp
qed

lemma sendt_sent:
  "send_ok w \<Longrightarrow> simple_tcpclient_sendt tc d timeout w = Some (Inr (rc, sent, w')) \<Longrightarrow>
   sent = max rc 0 \<and> rc \<le> int (length d)"
  using sendt_retry_facts[of "sock tc" d _ w rc sent w']
  by (auto simp: simple_tcpclient_sendt_def split: if_splits)

lemma sendnt_loop_facts:
  assumes "sendnt_loop tc timeout len d sent w = Some (Inr (rc, sent', w'))" and "send_ok w"
  shows "sent \<le> sent' \<and> delivers (\<lambda>w. wire w (sock tc)) d w w' (nat (sent' - sent)) \<and>
    (rc = len \<and> sent' - sent = int (length d) \<or> rc \<le> 0 \<and> sent' - sent < int (length d))"
  using assms
proof (induction "length d" arbitrary: d sent w rule: less_induct)
  case less
  show ?case
  proof (cases "d = []")
    case True
    with less.prems show ?thesis by (subst (asm) sendnt_loop.simps) auto
  next
    case False
    with less.prems(1) obtain rc1 b1 w1 where one: "simple_tcpclient_sendt tc d timeout w = Some (Inr (rc1, b1, w1))"
        "(if rc1 > 0 then sendnt_loop tc timeout len (drop (nat b1) d) (sent + b1) w1 else Some (Inr (rc1, sent, w1)))
          = Some (Inr (rc, sent', w'))"
      by (subst (asm) sendnt_loop.simps) (auto split: option.splits sum.splits)
    have a: "sendt_attempt tc timeout d w rc1 w1" using one(1) by (auto simp: sendt_attempt_def)
    have b1: "b1 = max rc1 0" "rc1 \<le> int (length d)" using sendt_sent[OF less.prems(2) one(1)] by auto
    have g: "send_ok w1" using tcp.good_attempt[OF less.prems(2) a] .
    show ?thesis
    proof (cases "rc1 > 0")
      case True
      have "length (drop (nat b1) d) < length d" using True b1 False by simp
      moreover have "sendnt_loop tc timeout len (drop (nat b1) d) (sent + b1) w1 = Some (Inr (rc, sent', w'))"
        using one(2) True by simp
      ultimately have IH: "sent + b1 \<le> sent' \<and>
          delivers (\<lambda>w. wire w (sock tc)) (drop (nat b1) d) w1 w' (nat (sent' - (sent + b1))) \<and>
          (rc = len \<and> sent' - (sent + b1) = int (length (drop (nat b1) d)) \<or>
           rc \<le> 0 \<and> sent' - (sent + b1) < int (length (drop (nat b1) d)))"
        by (rule less.hyps[OF _ _ g])
      have b: "b1 = rc1" "int (length (drop (nat b1) d)) = int (length d) - b1" using b1 True by simp_all
      have "nat rc1 + nat (sent' - (sent + b1)) = nat (sent' - sent)"
        using conjunct1[OF IH] b(1) True by linarith
      with tcp.delivers_more[OF less.prems(2) a True, of w' "nat (sent' - (sent + b1))"] IH b True
      show ?thesis by (simp only: b(2) b(1)) auto
    next
      case False
      with one(2) \<open>d \<noteq> []\<close> tcp.delivers_stop[OF less.prems(2) a] show ?thesis by auto
    qed
  qed
qed

text \<open>C9: \<open>simple_tcpclient_sendnt\<close> puts a prefix of the data on the wire, exactly the \<open>sent\<close> bytes it
  reports; it returns the whole length if and only if that prefix is all of the data, else a code that
  is not positive.\<close>

theorem sendnt_sends_prefix:
  assumes "simple_tcpclient_sendnt tc d timeout w = Some (Inr (rc, sent, w'))" and "send_ok w"
  shows "0 \<le> sent \<and> sent \<le> int (length d) \<and> wire w' (sock tc) = wire w (sock tc) @ take (nat sent) d \<and>
    (sent = int (length d) \<longrightarrow> rc = int (length d)) \<and> (sent < int (length d) \<longrightarrow> rc \<le> 0)"
proof -
  note f = sendnt_loop_facts[OF assms(1)[unfolded simple_tcpclient_sendnt_def] assms(2)]
  show ?thesis
    using f by (auto simp: delivers_def)
qed

definition quiet_client :: tcpclient_t where
  "quiet_client = \<lparr>sock = 5, tc_fd = simple_fd_open_from_socket 5\<rparr>"

lemma quiet_sendnt:
  "\<exists>w'. simple_tcpclient_sendnt quiet_client ''hi'' 1000 quiet_world = Some (Inr (2, 2, w'))"
  by (simp add: simple_tcpclient_sendnt_def sendnt_loop.simps simple_tcpclient_sendt_def sendt_retry.simps
      quiet_client_def quiet_world_def fd_set_ok_def os_select_def os_send_def pass_def)

theorem sendnt_sends_prefix_witness:
  "\<exists>w'. simple_tcpclient_sendnt quiet_client ''hi'' 1000 quiet_world = Some (Inr (2, 2, w')) \<and> wire w' 5 = ''hi''"
proof -
  obtain w' where s: "simple_tcpclient_sendnt quiet_client ''hi'' 1000 quiet_world = Some (Inr (2, 2, w'))"
    using quiet_sendnt by blast
  from sendnt_sends_prefix[OF s quiet_world_ok(1)] s show ?thesis
    by (auto simp: quiet_client_def quiet_world_simps)
qed

section \<open>The retry loops end\<close>

text \<open>From the call \<open>N\<close> on, no call answers \<open>EAGAIN\<close>.\<close>

definition eagain_ends :: "nat \<Rightarrow> world \<Rightarrow> bool" where
  "eagain_ends N w \<longleftrightarrow> (\<forall>t\<ge>N. (\<forall>n. fst (send_ans w t n) \<ge> 0 \<or> snd (send_ans w t n) \<noteq> EAGAIN) \<and>
     (\<forall>n. fst (recv_ans w t n) \<noteq> None \<or> snd (recv_ans w t n) \<noteq> EAGAIN))"

lemma eagain_ends_same: "same_system w w' \<Longrightarrow> eagain_ends N w' = eagain_ends N w"
  by (simp add: same_system_def eagain_ends_def)

lemma EBADF_not_EAGAIN: "EBADF \<noteq> EAGAIN"
  by (simp add: EBADF_def EAGAIN_def)

lemma sendt_retry_ends: "eagain_ends N w \<Longrightarrow> \<exists>y. sendt_retry s d tv w = Some y"
proof (induction "N - tick w" arbitrary: w rule: less_induct)
  case less
  obtain n where n: "os_select s tv w = (n, pass w)" by (simp add: os_select_def)
  obtain r e w2 where o: "os_send s d (pass w) = ((r, e), w2)" by (metis surj_pair)
  note f = os_send_facts[OF o]
  have e2: "eagain_ends N w2"
    using less.prems eagain_ends_same[OF same_system_trans[OF pass_simps(6) f(1)]] by simp
  show ?case
  proof (cases "r < 0 \<and> e = EAGAIN")
    case True
    have "s \<in> set (open_fds w)"
      using True o EBADF_not_EAGAIN by (auto simp: os_send_def split: if_splits)
    then have "(r, e) = send_ans w (Suc (tick w)) (length d)" using f(9) by simp
    with True less.prems have "\<not> N \<le> Suc (tick w)"
      by (metis eagain_ends_def fst_conv snd_conv not_less)
    then have "N - tick w2 < N - tick w" using f(4) by simp
    from less.hyps[OF this e2] show ?thesis
      using n o by (subst sendt_retry.simps) auto
  next
    case False
    then show ?thesis using n o by (subst sendt_retry.simps) auto
  qed
qed

lemma sendnt_loop_ends:
  "send_ok w \<Longrightarrow> eagain_ends N w \<Longrightarrow> fd_set_ok (sock tc) \<Longrightarrow> \<exists>y. sendnt_loop tc timeout len d sent w = Some (Inr y)"
proof (induction "length d" arbitrary: d sent w rule: less_induct)
  case less
  show ?case
  proof (cases "d = []")
    case True
    then show ?thesis by (simp add: sendnt_loop.simps)
  next
    case False
    obtain rc b w1 where r: "sendt_retry (sock tc) d (timeval_of timeout) w = Some (rc, b, w1)"
      using sendt_retry_ends[OF less.prems(2), of "sock tc" d "timeval_of timeout"] by auto
    note f = sendt_retry_facts[OF r less.prems(1)]
    have s: "simple_tcpclient_sendt tc d timeout w = Some (Inr (rc, b, w1))"
      using r less.prems(3) by (simp add: simple_tcpclient_sendt_def)
    show ?thesis
    proof (cases "rc > 0")
      case True
      then have "length (drop (nat b) d) < length d" using f False by simp
      from less.hyps[OF this _ _ less.prems(3), of w1 "sent + b"] f less.prems(1,2) show ?thesis
        using False s True same_system_ok(1) eagain_ends_same by (subst sendnt_loop.simps) auto
    next
      case False
      with s \<open>d \<noteq> []\<close> show ?thesis by (subst sendnt_loop.simps) auto
    qed
  qed
qed

text \<open>C35: on a socket whose number is between 0 and 1023, so that \<open>FD_SET\<close> stays inside its set (a larger one
  makes it write out of bounds, and the code does not check), \<open>simple_tcpclient_sendnt\<close> returns whenever
  the socket stops answering \<open>EAGAIN\<close> at some point: the retries behind \<open>select\<close> and the loop over the
  rest of the data both end, without a fault.\<close>

theorem sendnt_returns:
  assumes "send_ok w" and "eagain_ends N w" and "fd_set_ok (sock tc)"
  shows "\<exists>rc sent w'. simple_tcpclient_sendnt tc d timeout w = Some (Inr (rc, sent, w'))"
  using sendnt_loop_ends[OF assms, of timeout "int (length d)" d 0]
  by (auto simp: simple_tcpclient_sendnt_def)

theorem sendnt_returns_witness:
  "\<exists>rc sent w'. simple_tcpclient_sendnt quiet_client ''hello'' 50 quiet_world = Some (Inr (rc, sent, w'))"
  by (rule sendnt_returns[OF quiet_world_ok(1), of 0])
    (simp_all add: eagain_ends_def quiet_world_def quiet_client_def fd_set_ok_def)

section \<open>Receiving\<close>

lemma recvt_retry_ends: "eagain_ends N w \<Longrightarrow> \<exists>y. recvt_retry s n tv w = Some y"
proof (induction "N - tick w" arbitrary: w rule: less_induct)
  case less
  obtain k where k: "os_select s tv w = (k, pass w)" by (simp add: os_select_def)
  obtain r e where o: "os_recv s n (pass w) = ((r, e), pass (pass w))"
    using os_recv_facts(1) by (metis surj_pair)
  have e2: "eagain_ends N (pass (pass w))"
    using less.prems eagain_ends_same[OF pass_simps(6)] by simp
  show ?case
  proof (cases "r = None \<and> e = EAGAIN")
    case True
    have "s \<in> set (open_fds w)"
      using True o EBADF_not_EAGAIN by (auto simp: os_recv_def split: if_splits)
    then have "(r, e) = recv_ans w (Suc (tick w)) n" using os_recv_facts(3)[OF o] by simp
    with True less.prems have "\<not> N \<le> Suc (tick w)" by (metis eagain_ends_def fst_conv snd_conv)
    then have "N - tick (pass (pass w)) < N - tick w" by simp
    from less.hyps[OF this e2] show ?thesis
      using k o True by (subst recvt_retry.simps) auto
  next
    case False
    then show ?thesis using k o by (subst recvt_retry.simps) (auto split: option.split)
  qed
qed

lemma recvt_retry_facts:
  assumes "recvt_retry s n tv w = Some (bs, rc, w')" and "recv_ok w"
  shows "same_system w w' \<and> wire w' = wire w \<and> length bs \<le> n \<and> rc \<le> int n \<and>
    (0 \<le> rc \<longrightarrow> rc = int (length bs)) \<and> (rc < 0 \<longrightarrow> bs = [])"
proof -
  let ?Q = "\<lambda>n w y. case y of (bs, rc, w') \<Rightarrow> recv_ok w \<longrightarrow>
    same_system w w' \<and> wire w' = wire w \<and> length bs \<le> n \<and> rc \<le> int n \<and>
    (0 \<le> rc \<longrightarrow> rc = int (length bs)) \<and> (rc < 0 \<longrightarrow> bs = [])"
  have "?Q n w (bs, rc, w')"
  proof (rule recvt_retry.raw_induct[of "\<lambda>s n tv w y. ?Q n w y", OF _ assms(1)])
    fix f s n tv w y
    assume IH: "\<And>s n tv w y. f s n tv w = Some y \<Longrightarrow> ?Q n w y"
      and eq: "(let (k, w) = os_select s tv w
      in if k = 0 then Some ([], -2, w) else if k = -1 then Some ([], -1, w)
         else (case os_recv s n w of
                 ((Some bs, _), w) \<Rightarrow> Some (bs, int (length bs), w)
               | ((None, errno), w) \<Rightarrow> if errno = EAGAIN then f s n tv w else Some ([], -1, w))) = Some y"
    obtain k where k: "os_select s tv w = (k, pass w)" by (simp add: os_select_def)
    obtain r e where o: "os_recv s n (pass w) = ((r, e), pass (pass w))"
      using os_recv_facts(1) by (metis surj_pair)
    have ss: "same_system w (pass (pass w))" using same_system_trans[OF pass_simps(6) pass_simps(6)] .
    consider "k = 0 \<or> k = -1" | "k \<noteq> 0" "k \<noteq> -1" "r = None" "e = EAGAIN"
      | "k \<noteq> 0" "k \<noteq> -1" "r = None" "e \<noteq> EAGAIN" | b where "k \<noteq> 0" "k \<noteq> -1" "r = Some b" by fastforce
    then show "?Q n w y"
    proof cases
      case 2
      with eq k o have "f s n tv (pass (pass w)) = Some y" by simp
      from IH[OF this] show ?thesis
        using same_system_trans[OF ss] same_system_ok(2)[OF ss] by (auto split: prod.splits)
    next
      case 4
      then show ?thesis
        using eq k o ss os_recv_facts(2)[OF o] same_system_ok(2)[OF pass_simps(6)[of w]] by auto
    qed (use eq k o ss in auto)
  qed
  with assms(2) show ?thesis by simp
qed

lemma recvnt_loop_ends:
  "recv_ok w \<Longrightarrow> eagain_ends N w \<Longrightarrow> fd_set_ok (sock tc) \<Longrightarrow>
   \<exists>got' rc w'. recvnt_loop tc timeout len rest got w = Some (Inr (got', rc, w')) \<and> wire w' = wire w \<and>
     (\<exists>bs. got' = got @ bs \<and> (rc = len \<and> length bs = rest \<or> rc \<le> 0 \<and> length bs < rest))"
proof (induction rest arbitrary: got w rule: less_induct)
  case (less rest)
  show ?case
  proof (cases "rest = 0")
    case True
    then show ?thesis by (simp add: recvnt_loop.simps)
  next
    case False
    obtain bs rc w1 where r: "recvt_retry (sock tc) rest (timeval_of timeout) w = Some (bs, rc, w1)"
      using recvt_retry_ends[OF less.prems(2), of "sock tc" rest "timeval_of timeout"] by auto
    note f = recvt_retry_facts[OF r less.prems(1)]
    have s: "simple_tcpclient_recvt tc rest timeout w = Some (Inr (bs, rc, w1))"
      using r less.prems(3) by (simp add: simple_tcpclient_recvt_def)
    show ?thesis
    proof (cases "rc > 0")
      case True
      then have "0 < length bs" using f by simp
      then have "rest - length bs < rest" using False by linarith
      moreover have "recv_ok w1" "eagain_ends N w1"
        using f less.prems(1,2) same_system_ok(2) eagain_ends_same by blast+
      ultimately obtain got' rc' w' cs where
        l: "recvnt_loop tc timeout len (rest - length bs) (got @ bs) w1 = Some (Inr (got', rc', w'))"
          "wire w' = wire w1" "got' = (got @ bs) @ cs"
          "rc' = len \<and> length cs = rest - length bs \<or> rc' \<le> 0 \<and> length cs < rest - length bs"
        using less.IH[OF _ _ _ less.prems(3), of "rest - length bs" w1 "got @ bs"] by blast
      have "recvnt_loop tc timeout len rest got w = Some (Inr (got', rc', w'))"
        using False s True l(1) by (subst recvnt_loop.simps) simp
      moreover have "got' = got @ (bs @ cs) \<and>
          (rc' = len \<and> length (bs @ cs) = rest \<or> rc' \<le> 0 \<and> length (bs @ cs) < rest)"
        using l(3,4) f by auto
      moreover have "wire w' = wire w" using l(2) f by simp
      ultimately show ?thesis by (intro exI[of _ got'] exI[of _ rc'] exI[of _ w']) blast
    next
      case False
      then have "bs = []" using f by (cases "rc = 0") auto
      with False s \<open>rest \<noteq> 0\<close> f show ?thesis by (subst recvnt_loop.simps) auto
    qed
  qed
qed

text \<open>\<open>simple_tcpclient_recvnt\<close> returns whenever the socket stops answering \<open>EAGAIN\<close>; it stores at
  most \<open>n\<close> bytes, never writes to the socket, and returns \<open>n\<close> exactly when it stored all \<open>n\<close> bytes,
  else a code that is not positive.\<close>

theorem recvnt_receives:
  assumes "recv_ok w" and "eagain_ends N w" and "fd_set_ok (sock tc)"
  shows "\<exists>got rc w'. simple_tcpclient_recvnt tc n timeout w = Some (Inr (got, rc, w')) \<and> wire w' = wire w \<and>
    (rc = int n \<and> length got = n \<or> rc \<le> 0 \<and> length got < n)"
  using recvnt_loop_ends[OF assms, of timeout "int n" n "[]"]
  by (auto simp: simple_tcpclient_recvnt_def)

theorem recvnt_receives_witness:
  "\<exists>got rc w'. simple_tcpclient_recvnt quiet_client 4 50 quiet_world = Some (Inr (got, rc, w')) \<and>
     (rc = 4 \<and> length got = 4 \<or> rc \<le> 0 \<and> length got < 4)"
proof -
  have "eagain_ends 0 quiet_world" "fd_set_ok (sock quiet_client)"
    by (simp_all add: eagain_ends_def quiet_world_def quiet_client_def fd_set_ok_def)
  from recvnt_receives[OF quiet_world_ok(2) this, of 4 50] show ?thesis by auto
qed

section \<open>Opening a connection\<close>

lemma connect_sock_closes:
  assumes "connect_sock s p timeout w = Inr (rc, w')" and "s \<noteq> -1"
  shows "s \<notin> set (open_fds w') \<and> s \<in> set (close_log w')"
  using assms
  by (auto simp: connect_sock_def Let_def os_connect_def simple_fd_close_def simple_fd_open_from_socket_def
      os_close_def os_select_def split: if_splits prod.splits)

lemma try_addrs_closes:
  "try_addrs ps timeout w s0 = Inr (s, w') \<Longrightarrow> s \<noteq> -1 \<Longrightarrow> s0 = -1 \<Longrightarrow>
   s \<notin> set (open_fds w') \<and> s \<in> set (close_log w')"
proof (induction ps timeout w s0 rule: try_addrs.induct)
  case (2 p ps timeout w s0)
  obtain s1 w1 where s1: "os_socket w = (s1, w1)" by fastforce
  show ?case
  proof (cases "s1 = -1")
    case True
    with 2 s1 show ?thesis by auto
  next
    case False
    obtain rc w2 where c: "connect_sock s1 p timeout w1 = Inr (rc, w2)"
      using "2.prems"(1) s1 False by (auto simp: Let_def elim!: bind_r_InrE)
    show ?thesis
    proof (cases "rc < 0")
      case True
      with 2 s1 False c show ?thesis by (auto simp: Let_def)
    next
      case rc: False
      with "2.prems"(1) s1 False c have "s = s1" "w' = w2" by (auto simp: Let_def)
      with connect_sock_closes[OF c False] show ?thesis by simp
    qed
  qed
qed simp

text \<open>every client that \<open>simple_tcpclient_open\<close> returns has a socket that is closed already, because
  \<open>_connect\<close> ends with \<open>simple_fd_close\<close> on the descriptor object around it: the first send reports an
  error, and closing the client closes the same descriptor number a second time.\<close>

theorem open_returns_closed_socket:
  assumes "simple_tcpclient_open timeout w = Inr (Some tc, w')"
  shows "sock tc \<notin> set (open_fds w') \<and> sock tc \<in> set (close_log w') \<and>
    (fd_set_ok (sock tc) \<longrightarrow> (\<exists>w''. simple_tcpclient_sendt tc d t w' = Some (Inr (-1, 0, w'')))) \<and>
    close_log (simple_tcpclient_close tc w') = sock tc # close_log w'"
proof -
  obtain s w1 where s: "try_connect timeout w = Inr (s, w1)" "s \<noteq> -1"
      "tc = \<lparr>sock = s, tc_fd = simple_fd_open_from_socket s\<rparr>" "w' = w1"
    using assms by (auto simp: simple_tcpclient_open_def split: if_splits elim!: bind_r_InrE)
  then obtain ps w0 where "try_addrs ps timeout w0 (-1) = Inr (s, w1)"
    by (auto simp: try_connect_def Let_def split: prod.splits if_splits elim!: bind_r_InrE)
  from try_addrs_closes[OF this s(2) refl] s have "sock tc \<notin> set (open_fds w')" "sock tc \<in> set (close_log w')" by auto
  then show ?thesis
    using s by (auto simp: simple_tcpclient_sendt_def sendt_retry.simps[of s] os_select_def
        simple_tcpclient_close_def simple_fd_close_def simple_fd_open_from_socket_def os_close_def)
qed

theorem open_returns_closed_socket_witness:
  "\<exists>tc w'. simple_tcpclient_open 3000 quiet_world = Inr (Some tc, w') \<and> sock tc \<notin> set (open_fds w')"
proof -
  obtain tc w' where o: "simple_tcpclient_open 3000 quiet_world = Inr (Some tc, w')"
    by (simp add: simple_tcpclient_open_def try_connect_def quiet_world_def os_socket_def connect_sock_def
        os_connect_def pass_def EINPROGRESS_def)
  with open_returns_closed_socket[OF this] show ?thesis by blast
qed

text \<open>\<open>getaddrinfo\<close> reports errors by any code that is not 0, and the client tests for \<open>-1\<close> only: for
  every other code it walks the list \<open>addr\<close> that was never written.\<close>

theorem resolver_error_unchecked:
  assumes "fst (gai_ans w (tick w)) \<noteq> 0"
  shows "simple_tcpclient_open timeout w =
    (if fst (gai_ans w (tick w)) = -1 then Inr (None, pass w) else Inl Uninit_Read)"
  using assms by (auto simp: simple_tcpclient_open_def try_connect_def Let_def split: prod.splits)

theorem resolver_error_unchecked_witness:
  "simple_tcpclient_open 3000 (quiet_world\<lparr>gai_ans := \<lambda>_. (-2, [])\<rparr>) = Inl Uninit_Read"
  using resolver_error_unchecked[of "quiet_world\<lparr>gai_ans := \<lambda>_. (-2, [])\<rparr>" 3000] by simp

end
