(* ===== verification/Thread_Rpc.thy ===== *)
theory Thread_Rpc
  imports Sync
begin

text \<open>
  The exchange of requests and replies of \<open>src/src/thread.c\<close>: any number of threads call
  \<open>simple_thread_req\<close> on one \<open>thread_t\<close>, whose thread answers them with \<open>simple_thread_getreq\<close> or
  \<open>simple_thread_chkreq\<close> and \<open>simple_thread_reply\<close>. A step is one access to the shared fields. Requests
  and replies are addresses; a field that was never written is \<open>None\<close>. The thread may return at any
  time; \<open>simple_thread_join\<close> waits for that and frees the objects, which every other operation looks at
  first.
\<close>

section \<open>State\<close>

record thread_t =
  sem_req :: semaphore_t
  sem_rpl :: semaphore_t
  mut :: mutex_t
  req :: "nat option"
  rpl :: "nat option"

definition new_thread :: thread_t where
  "new_thread =
     \<lparr>sem_req = simple_sem_create 0, sem_rpl = simple_sem_create 0, mut = simple_mutex_create,
      req = None, rpl = None\<rparr>"

text \<open>The blocks of the object, its lock and its semaphores.\<close>

record thread_own =
  t_self :: nat
  t_mut :: nat
  t_req :: nat
  t_rpl :: nat

definition simple_thread_create :: "memory \<Rightarrow> thread_t \<times> thread_own \<times> memory" where
  "simple_thread_create mem =
     (let (t, mem) = malloc mem; (m, mem) = malloc mem; (a, mem) = malloc mem; (b, mem) = malloc mem
      in (new_thread, \<lparr>t_self = t, t_mut = m, t_req = a, t_rpl = b\<rparr>, mem))"

text \<open>\<open>ended\<close>: the thread's function has returned; \<open>on_req\<close> and \<open>on_rpl\<close> threads are blocked on the semaphores.\<close>

definition simple_thread_join ::
    "bool \<Rightarrow> nat \<Rightarrow> nat \<Rightarrow> thread_t \<Rightarrow> thread_own \<Rightarrow> memory \<Rightarrow> memory result" where
  "simple_thread_join ended on_req on_rpl t ow mem =
     (if ended then
        bind_r (simple_mutex_destroy (mut t) (t_mut ow) mem) (\<lambda>mem.
        bind_r (simple_sem_destroy on_req (t_req ow) mem) (\<lambda>mem.
        bind_r (simple_sem_destroy on_rpl (t_rpl ow) mem) (free_block (t_self ow))))
      else Inl Would_Block)"

definition thread_ms :: "thread_own \<Rightarrow> nat multiset" where
  "thread_ms ow = {#t_self ow, t_mut ow, t_req ow, t_rpl ow#}"

lemma thread_create_has:
  assumes "heap_has base M mem" and "simple_thread_create mem = (t, ow, mem')"
  shows "heap_has base (thread_ms ow + M) mem' \<and> t = new_thread"
  using blk.alloc_all_has[OF assms(1), of 4] assms(2)
  by (auto simp: simple_thread_create_def thread_ms_def eval_nat_numeral split_beta Let_def add_mset_commute)

lemma thread_join_frees:
  assumes "heap_has base (thread_ms ow + M) mem" and "owner (mut t) = None"
  shows "\<exists>mem'. simple_thread_join True 0 0 t ow mem = Inr mem' \<and> heap_has base M mem'"
proof -
  have "mset [t_mut ow, t_req ow, t_rpl ow, t_self ow] = thread_ms ow" by (simp add: thread_ms_def)
  then show ?thesis
    using blk.release_all_has[of base "[t_mut ow, t_req ow, t_rpl ow, t_self ow]" M mem] assms
    by (auto simp: simple_thread_join_def)
qed

text \<open>A caller: before its call, at the lock, at the store of \<open>req\<close>, at the post, at the wait, at the
  read of \<open>rpl\<close>, at the unlock, and behind the call with the reply.\<close>

datatype cpc = C_Idle | C_Lock nat | C_Store nat | C_Post nat | C_Wait nat | C_Read nat
  | C_Unlock nat nat | C_Ret nat nat

text \<open>The thread: waiting for a request, at the read of \<open>req\<close>, with a request in hand, at the post, and
  behind its function.\<close>

datatype spc = S_Get | S_Load | S_Work nat | S_Post nat | S_Exit

record rpc =
  th :: thread_t
  t_own :: thread_own
  heap :: memory
  callers :: "cpc list"
  server :: spc
  joined :: bool

section \<open>Steps\<close>

definition req_step :: "nat \<Rightarrow> rpc \<Rightarrow> rpc result" where
  "req_step j s =
     (let t = th s; go = (\<lambda>c t. s\<lparr>th := t, callers := (callers s)[j := c]\<rparr>) in
      case callers s ! j of
        C_Lock q \<Rightarrow> bind_r (simple_mutex_lock j (mut t)) (\<lambda>l. Inr (go (C_Store q) (t\<lparr>mut := l\<rparr>)))
      | C_Store q \<Rightarrow> Inr (go (C_Post q) (t\<lparr>req := Some q\<rparr>))
      | C_Post q \<Rightarrow> Inr (go (C_Wait q) (t\<lparr>sem_req := simple_sem_post (sem_req t)\<rparr>))
      | C_Wait q \<Rightarrow> bind_r (simple_sem_wait (sem_rpl t)) (\<lambda>x. Inr (go (C_Read q) (t\<lparr>sem_rpl := x\<rparr>)))
      | C_Read q \<Rightarrow> (case rpl t of None \<Rightarrow> Inl Uninit_Read | Some r \<Rightarrow> Inr (go (C_Unlock q r) t))
      | C_Unlock q r \<Rightarrow> bind_r (simple_mutex_unlock j (mut t)) (\<lambda>l. Inr (go (C_Ret q r) (t\<lparr>mut := l\<rparr>)))
      | C_Ret q r \<Rightarrow> Inr (go C_Idle t)
      | C_Idle \<Rightarrow> Inl Would_Block)"

text \<open>The objects that the next step of a caller, or of the thread, looks at.\<close>

definition c_touches :: "cpc \<Rightarrow> thread_own \<Rightarrow> nat list" where
  "c_touches c ow =
     (case c of
        C_Lock q \<Rightarrow> [t_self ow, t_mut ow]
      | C_Store q \<Rightarrow> [t_self ow]
      | C_Post q \<Rightarrow> [t_self ow, t_req ow]
      | C_Wait q \<Rightarrow> [t_self ow, t_rpl ow]
      | C_Read q \<Rightarrow> [t_self ow]
      | C_Unlock q r \<Rightarrow> [t_self ow, t_mut ow]
      | _ \<Rightarrow> [])"

definition s_touches :: "spc \<Rightarrow> thread_own \<Rightarrow> nat list" where
  "s_touches c ow =
     (case c of
        S_Get \<Rightarrow> [t_self ow, t_req ow]
      | S_Load \<Rightarrow> [t_self ow]
      | S_Work q \<Rightarrow> [t_self ow]
      | S_Post q \<Rightarrow> [t_self ow, t_rpl ow]
      | S_Exit \<Rightarrow> [])"

definition simple_thread_req :: "nat \<Rightarrow> rpc \<Rightarrow> rpc result" where
  "simple_thread_req j s =
     bind_r (live (c_touches (callers s ! j) (t_own s)) (heap s)) (\<lambda>_. req_step j s)"

text \<open>\<open>getreq\<close> waits and then reads \<open>req\<close>; \<open>chkreq\<close> is the same when its timed wait succeeds.\<close>

definition getreq_step :: "rpc \<Rightarrow> rpc result" where
  "getreq_step s =
     (let t = th s in
      case server s of
        S_Get \<Rightarrow> bind_r (simple_sem_wait (sem_req t)) (\<lambda>x. Inr (s\<lparr>th := t\<lparr>sem_req := x\<rparr>, server := S_Load\<rparr>))
      | S_Load \<Rightarrow> (case req t of None \<Rightarrow> Inl Uninit_Read | Some q \<Rightarrow> Inr (s\<lparr>server := S_Work q\<rparr>))
      | _ \<Rightarrow> Inl Would_Block)"

definition simple_thread_getreq :: "rpc \<Rightarrow> rpc result" where
  "simple_thread_getreq s = bind_r (live (s_touches (server s) (t_own s)) (heap s)) (\<lambda>_. getreq_step s)"

definition simple_thread_chkreq :: "bool \<Rightarrow> rpc \<Rightarrow> rpc result" where
  "simple_thread_chkreq timed_out s =
     (if server s = S_Get \<and> timed_out
      then bind_r (live (s_touches S_Get (t_own s)) (heap s)) (\<lambda>_. Inr s)
      else simple_thread_getreq s)"

text \<open>\<open>reply\<close>: the thread answers the request \<open>q\<close> by \<open>f q\<close>.\<close>

definition reply_step :: "(nat \<Rightarrow> nat) \<Rightarrow> rpc \<Rightarrow> rpc result" where
  "reply_step f s =
     (let t = th s in
      case server s of
        S_Work q \<Rightarrow> Inr (s\<lparr>th := t\<lparr>rpl := Some (f q)\<rparr>, server := S_Post q\<rparr>)
      | S_Post q \<Rightarrow> Inr (s\<lparr>th := t\<lparr>sem_rpl := simple_sem_post (sem_rpl t)\<rparr>, server := S_Get\<rparr>)
      | _ \<Rightarrow> Inl Would_Block)"

definition simple_thread_reply :: "(nat \<Rightarrow> nat) \<Rightarrow> rpc \<Rightarrow> rpc result" where
  "simple_thread_reply f s =
     bind_r (live (s_touches (server s) (t_own s)) (heap s)) (\<lambda>_. reply_step f s)"

text \<open>\<open>_posix_proc\<close>: the thread runs \<open>proc\<close>, which returns from its own code, that is before a call of
  \<open>getreq\<close> or with a request in hand, answered or not.\<close>

definition posix_proc_returns :: "rpc \<Rightarrow> rpc result" where
  "posix_proc_returns s =
     (case server s of
        S_Get \<Rightarrow> Inr (s\<lparr>server := S_Exit\<rparr>)
      | S_Work q \<Rightarrow> Inr (s\<lparr>server := S_Exit\<rparr>)
      | _ \<Rightarrow> Inl Would_Block)"

definition is_wait :: "cpc \<Rightarrow> bool" where
  "is_wait c \<longleftrightarrow> (case c of C_Wait _ \<Rightarrow> True | _ \<Rightarrow> False)"

definition join_step :: "rpc \<Rightarrow> rpc result" where
  "join_step s =
     bind_r (live [t_self (t_own s)] (heap s)) (\<lambda>_.
     bind_r (simple_thread_join (server s = S_Exit) (if server s = S_Get then 1 else 0)
         (length (filter is_wait (callers s))) (th s) (t_own s) (heap s))
       (\<lambda>mem. Inr (s\<lparr>heap := mem, joined := True\<rparr>)))"

text \<open>The owner of the object joins when no call is under way, and nobody calls behind that.\<close>

inductive rpc_step :: "(nat \<Rightarrow> nat) \<Rightarrow> rpc \<Rightarrow> rpc \<Rightarrow> bool" for f where
  begin_call: "j < length (callers s) \<Longrightarrow> callers s ! j = C_Idle \<Longrightarrow> \<not> joined s \<Longrightarrow>
    rpc_step f s (s\<lparr>callers := (callers s)[j := C_Lock q]\<rparr>)"
| caller: "j < length (callers s) \<Longrightarrow> simple_thread_req j s = Inr s' \<Longrightarrow> rpc_step f s s'"
| getreq: "simple_thread_getreq s = Inr s' \<Longrightarrow> rpc_step f s s'"
| chkreq: "simple_thread_chkreq b s = Inr s' \<Longrightarrow> rpc_step f s s'"
| reply: "simple_thread_reply f s = Inr s' \<Longrightarrow> rpc_step f s s'"
| return: "posix_proc_returns s = Inr s' \<Longrightarrow> rpc_step f s s'"
| join: "list_all (\<lambda>c. c = C_Idle) (callers s) \<Longrightarrow> \<not> joined s \<Longrightarrow> join_step s = Inr s' \<Longrightarrow> rpc_step f s s'"

inductive_cases rpc_stepE: "rpc_step f s s'"

lemmas rpc_step_cases [consumes 1, case_names begin_call caller getreq chkreq reply return join] = rpc_stepE

definition rpc_start :: "nat \<Rightarrow> memory \<Rightarrow> rpc" where
  "rpc_start n mem =
     (let (t, ow, mem) = simple_thread_create mem
      in \<lparr>th = t, t_own = ow, heap = mem, callers = replicate n C_Idle, server = S_Get, joined = False\<rparr>)"

text \<open>\<open>n\<close> callers, on any heap whose blocks are all older than the next one.\<close>

inductive rpc_reachable :: "(nat \<Rightarrow> nat) \<Rightarrow> nat \<Rightarrow> memory \<Rightarrow> rpc \<Rightarrow> bool" for f n mem where
  start: "heap_has (blocks mem) {#} mem \<Longrightarrow> rpc_reachable f n mem (rpc_start n mem)"
| step: "rpc_reachable f n mem s \<Longrightarrow> rpc_step f s s' \<Longrightarrow> rpc_reachable f n mem s'"

section \<open>The invariant\<close>

text \<open>What the fields hold while the holder of the lock is at \<open>c\<close>; outside the lock the exchange is at rest.\<close>

definition idle :: "rpc \<Rightarrow> bool" where
  "idle s \<longleftrightarrow> server s = S_Get \<or> server s = S_Exit"

definition at_rest :: "rpc \<Rightarrow> bool" where
  "at_rest s \<longleftrightarrow> sem_count (sem_req (th s)) = 0 \<and> sem_count (sem_rpl (th s)) = 0 \<and> idle s"

definition phase_ok :: "(nat \<Rightarrow> nat) \<Rightarrow> cpc \<Rightarrow> rpc \<Rightarrow> bool" where
  "phase_ok f c s \<longleftrightarrow>
     (let t = th s in
      case c of
        C_Store q \<Rightarrow> at_rest s
      | C_Post q \<Rightarrow> at_rest s \<and> req t = Some q
      | C_Wait q \<Rightarrow> req t = Some q \<and>
          (sem_count (sem_req t) = 1 \<and> sem_count (sem_rpl t) = 0 \<and> idle s \<or>
           sem_count (sem_req t) = 0 \<and> sem_count (sem_rpl t) = 0 \<and>
             (server s = S_Load \<or> server s = S_Work q \<or> server s = S_Post q \<and> rpl t = Some (f q) \<or> server s = S_Exit) \<or>
           sem_count (sem_req t) = 0 \<and> sem_count (sem_rpl t) = 1 \<and> idle s \<and> rpl t = Some (f q))
      | C_Read q \<Rightarrow> at_rest s \<and> rpl t = Some (f q)
      | C_Unlock q r \<Rightarrow> at_rest s \<and> r = f q
      | _ \<Rightarrow> False)"

definition c_in_lock :: "cpc \<Rightarrow> bool" where
  "c_in_lock c \<longleftrightarrow> (case c of C_Idle \<Rightarrow> False | C_Lock _ \<Rightarrow> False | C_Ret _ _ \<Rightarrow> False | _ \<Rightarrow> True)"

definition rpc_inv :: "(nat \<Rightarrow> nat) \<Rightarrow> rpc \<Rightarrow> bool" where
  "rpc_inv f s \<longleftrightarrow>
     depth (mut (th s)) = (if owner (mut (th s)) = None then 0 else 1) \<and>
     (\<forall>j<length (callers s). c_in_lock (callers s ! j) \<longleftrightarrow> owner (mut (th s)) = Some j) \<and>
     (case owner (mut (th s)) of
        None \<Rightarrow> at_rest s
      | Some j \<Rightarrow> j < length (callers s) \<and> phase_ok f (callers s ! j) s) \<and>
     (\<forall>j<length (callers s). \<forall>q r. callers s ! j = C_Ret q r \<longrightarrow> r = f q)"

lemma idle_upd [simp]: "idle (s\<lparr>callers := cs\<rparr>) = idle s" "idle (s\<lparr>th := t\<rparr>) = idle s"
  by (simp_all add: idle_def)

lemma holder_pc:
  assumes "rpc_inv f s" and "j < length (callers s)" and "c_in_lock (callers s ! j)"
  shows "owner (mut (th s)) = Some j" "phase_ok f (callers s ! j) s" "depth (mut (th s)) = 1"
  using assms by (auto simp: rpc_inv_def)

lemma sem_wait_count: "simple_sem_wait s = Inr s' \<longleftrightarrow> 0 < sem_count s \<and> s' = s\<lparr>sem_count := sem_count s - 1\<rparr>"
  by (auto simp: simple_sem_wait_def split: nat.splits)

lemma sem_post_small: "sem_count s = 0 \<Longrightarrow> sem_count (simple_sem_post s) = 1"
  by (simp add: simple_sem_post_def sem_max_def)

lemma rpc_lock: "simple_mutex_lock t m = Inr m' \<Longrightarrow> owner m \<noteq> Some t \<Longrightarrow> owner m = None \<and> owner m' = Some t \<and> depth m' = 1"
  by (auto simp: simple_mutex_lock_def split: option.splits if_splits)

lemma rpc_unlock: "simple_mutex_unlock t m = Inr m' \<Longrightarrow> depth m = 1 \<Longrightarrow> owner m' = None \<and> depth m' = 0"
  by (auto simp: simple_mutex_unlock_def split: if_splits)

text \<open>The holder moves on inside the lock.\<close>

lemma rpc_inv_holder:
  assumes "rpc_inv f s" and "j < length (callers s)" and "owner (mut (th s)) = Some j"
    and "mut t = mut (th s)" and "c_in_lock c" and "phase_ok f c (s\<lparr>th := t, callers := (callers s)[j := c]\<rparr>)"
  shows "rpc_inv f (s\<lparr>th := t, callers := (callers s)[j := c]\<rparr>)"
  using assms by (auto simp: rpc_inv_def nth_list_update c_in_lock_def)

text \<open>A thread outside the lock moves and stays outside.\<close>

lemma phase_callers [simp]:
  "phase_ok f c (s\<lparr>callers := cs\<rparr>) = phase_ok f c s" "at_rest (s\<lparr>callers := cs\<rparr>) = at_rest s"
  by (cases c; simp add: phase_ok_def at_rest_def) (simp add: at_rest_def)

lemma rpc_inv_outside:
  assumes "rpc_inv f s" and "j < length (callers s)" and "\<not> c_in_lock (callers s ! j)" and "\<not> c_in_lock c"
    and "\<And>q r. c = C_Ret q r \<Longrightarrow> r = f q"
  shows "rpc_inv f (s\<lparr>callers := (callers s)[j := c]\<rparr>)"
proof -
  have "owner (mut (th s)) \<noteq> Some j" using assms(1-3) by (auto simp: rpc_inv_def)
  then show ?thesis
    using assms by (auto simp: rpc_inv_def nth_list_update split: option.splits)
qed

lemma caller_inv:
  assumes inv: "rpc_inv f s" and j: "j < length (callers s)" and "req_step j s = Inr s'"
  shows "rpc_inv f s'"
proof (cases "c_in_lock (callers s ! j)")
  case False
  show ?thesis
  proof (cases "callers s ! j")
    case (C_Lock q)
    then obtain l where l: "simple_mutex_lock j (mut (th s)) = Inr l"
        "s' = s\<lparr>th := (th s)\<lparr>mut := l\<rparr>, callers := (callers s)[j := C_Store q]\<rparr>"
      using assms(3) by (auto simp: req_step_def Let_def)
    have "owner (mut (th s)) \<noteq> Some j" using inv j False by (auto simp: rpc_inv_def)
    from rpc_lock[OF l(1) this] inv j l(2) C_Lock show ?thesis
      by (auto simp: rpc_inv_def phase_ok_def at_rest_def Let_def nth_list_update c_in_lock_def)
  next
    case (C_Ret q r)
    with assms(3) have "s' = s\<lparr>callers := (callers s)[j := C_Idle]\<rparr>" by (simp add: req_step_def Let_def)
    with C_Ret show ?thesis using rpc_inv_outside[OF inv j, of C_Idle] by (simp add: c_in_lock_def)
  qed (use assms(3) False in \<open>auto simp: req_step_def c_in_lock_def\<close>)
next
  case True
  note h = holder_pc[OF inv j True]
  show ?thesis
  proof (cases "callers s ! j")
    case (C_Store q)
    with assms(3) have "s' = s\<lparr>th := (th s)\<lparr>req := Some q\<rparr>, callers := (callers s)[j := C_Post q]\<rparr>"
      by (simp add: req_step_def Let_def)
    with C_Store h show ?thesis
      by (auto intro!: rpc_inv_holder[OF inv j h(1)] simp: c_in_lock_def phase_ok_def at_rest_def Let_def)
  next
    case (C_Post q)
    with assms(3) have "s' = s\<lparr>th := (th s)\<lparr>sem_req := simple_sem_post (sem_req (th s))\<rparr>, callers := (callers s)[j := C_Wait q]\<rparr>"
      by (simp add: req_step_def Let_def)
    with C_Post h show ?thesis
      by (auto intro!: rpc_inv_holder[OF inv j h(1)] simp: c_in_lock_def phase_ok_def at_rest_def Let_def sem_post_small)
  next
    case (C_Wait q)
    with assms(3) obtain x where "simple_sem_wait (sem_rpl (th s)) = Inr x"
        "s' = s\<lparr>th := (th s)\<lparr>sem_rpl := x\<rparr>, callers := (callers s)[j := C_Read q]\<rparr>"
      by (auto simp: req_step_def Let_def)
    with C_Wait h show ?thesis
      by (auto intro!: rpc_inv_holder[OF inv j h(1)] simp: c_in_lock_def phase_ok_def at_rest_def Let_def sem_wait_count)
  next
    case (C_Read q)
    with h have "rpl (th s) = Some (f q)" by (simp add: phase_ok_def Let_def)
    with C_Read assms(3) have "s' = s\<lparr>th := th s, callers := (callers s)[j := C_Unlock q (f q)]\<rparr>"
      by (simp add: req_step_def Let_def)
    with C_Read h show ?thesis
      using rpc_inv_holder[OF inv j h(1), of "th s" "C_Unlock q (f q)"]
      by (simp add: c_in_lock_def phase_ok_def at_rest_def Let_def)
  next
    case (C_Unlock q r)
    then obtain l where l: "simple_mutex_unlock j (mut (th s)) = Inr l"
        "s' = s\<lparr>th := (th s)\<lparr>mut := l\<rparr>, callers := (callers s)[j := C_Ret q r]\<rparr>"
      using assms(3) by (auto simp: req_step_def Let_def)
    from rpc_unlock[OF l(1) h(3)] h(1,2) inv j l(2) C_Unlock show ?thesis
      by (auto simp: rpc_inv_def phase_ok_def at_rest_def Let_def nth_list_update c_in_lock_def)
  qed (use True in \<open>auto simp: c_in_lock_def\<close>)
qed

text \<open>The thread acts only while a caller waits inside the lock.\<close>

lemma server_inv:
  assumes inv: "rpc_inv f s" and "\<not> at_rest s"
    and keep: "\<And>q. phase_ok f (C_Wait q) s \<Longrightarrow> phase_ok f (C_Wait q) s'"
    and same: "mut (th s') = mut (th s)" "callers s' = callers s"
  shows "rpc_inv f s'"
proof -
  obtain j where j: "owner (mut (th s)) = Some j" "j < length (callers s)" "phase_ok f (callers s ! j) s"
    using inv assms(2) by (auto simp: rpc_inv_def split: option.splits)
  then obtain q where "callers s ! j = C_Wait q"
    using assms(2) by (cases "callers s ! j") (auto simp: phase_ok_def Let_def)
  with j keep have "phase_ok f (callers s ! j) s'" by simp
  with inv j same show ?thesis by (auto simp: rpc_inv_def)
qed

lemma getreq_inv:
  assumes "rpc_inv f s" and "getreq_step s = Inr s'"
  shows "rpc_inv f s'"
proof (cases "server s")
  case S_Get
  with assms(2) have "0 < sem_count (sem_req (th s))"
      "s' = s\<lparr>th := (th s)\<lparr>sem_req := (sem_req (th s))\<lparr>sem_count := sem_count (sem_req (th s)) - 1\<rparr>\<rparr>, server := S_Load\<rparr>"
    by (auto simp: getreq_step_def Let_def sem_wait_count)
  then show ?thesis
    by (intro server_inv[OF assms(1)]) (auto simp: idle_def at_rest_def phase_ok_def Let_def)
next
  case S_Load
  with assms(2) show ?thesis
    by (intro server_inv[OF assms(1)]) (auto simp: idle_def at_rest_def phase_ok_def getreq_step_def Let_def split: option.splits)
qed (use assms(2) in \<open>auto simp: getreq_step_def\<close>)

lemma reply_inv:
  assumes "rpc_inv f s" and "reply_step f s = Inr s'"
  shows "rpc_inv f s'"
proof (cases "server s")
  case (S_Work q)
  with assms(2) show ?thesis
    by (intro server_inv[OF assms(1)]) (auto simp: idle_def at_rest_def phase_ok_def reply_step_def Let_def)
next
  case (S_Post q)
  with assms(2) show ?thesis
    by (intro server_inv[OF assms(1)]) (auto simp: idle_def at_rest_def phase_ok_def reply_step_def Let_def sem_post_small)
qed (use assms(2) in \<open>auto simp: reply_step_def\<close>)

lemma return_inv:
  assumes "rpc_inv f s" and "posix_proc_returns s = Inr s'"
  shows "rpc_inv f s'"
proof (cases "server s")
  case S_Get
  with assms(2) have s': "s' = s\<lparr>server := S_Exit\<rparr>" by (simp add: posix_proc_returns_def)
  have "at_rest s \<Longrightarrow> at_rest s'" using s' by (simp add: at_rest_def idle_def)
  moreover have "phase_ok f c s \<Longrightarrow> phase_ok f c s'" for c
    using s' S_Get by (cases c) (auto simp: phase_ok_def at_rest_def idle_def Let_def)
  ultimately show ?thesis using assms(1) s' by (auto simp: rpc_inv_def split: option.splits)
next
  case (S_Work q)
  with assms(2) have "s' = s\<lparr>server := S_Exit\<rparr>" by (simp add: posix_proc_returns_def)
  with S_Work show ?thesis
    by (intro server_inv[OF assms(1)]) (auto simp: idle_def at_rest_def phase_ok_def Let_def)
qed (use assms(2) in \<open>auto simp: posix_proc_returns_def\<close>)

text \<open>The operations look at live objects and then do their step.\<close>

lemma live_stepE: "bind_r (live bs mem) (\<lambda>_. m) = Inr s' \<Longrightarrow> m = Inr s'"
  by (cases "live bs mem") auto

lemmas live_steps = simple_thread_req_def simple_thread_getreq_def simple_thread_reply_def

lemma chkreq_step: "simple_thread_chkreq b s = Inr s' \<Longrightarrow> s' = s \<or> simple_thread_getreq s = Inr s'"
  by (auto simp: simple_thread_chkreq_def split: if_splits dest: live_stepE)

text \<open>Joining leaves the exchange as it is.\<close>

lemma join_stepE:
  assumes "join_step s = Inr s'"
  obtains mem where "s' = s\<lparr>heap := mem, joined := True\<rparr>" and "server s = S_Exit"
    and "simple_thread_join True 0 (length (filter is_wait (callers s))) (th s) (t_own s) (heap s) = Inr mem"
  using assms by (auto simp: join_step_def simple_thread_join_def split: if_splits)

lemma rpc_inv_heap [simp]: "rpc_inv f (s\<lparr>heap := mem, joined := b\<rparr>) = rpc_inv f s"
proof -
  have "phase_ok f c (s\<lparr>heap := mem, joined := b\<rparr>) = phase_ok f c s" for c
    by (cases c) (simp_all add: phase_ok_def at_rest_def idle_def Let_def)
  moreover have "at_rest (s\<lparr>heap := mem, joined := b\<rparr>) = at_rest s" by (simp add: at_rest_def idle_def)
  ultimately show ?thesis by (simp add: rpc_inv_def split: option.splits)
qed

lemma rpc_step_inv:
  assumes "rpc_step f s s'" and "rpc_inv f s"
  shows "rpc_inv f s'"
  using assms(1)
proof (cases rule: rpc_step_cases)
  case (begin_call j q)
  then show ?thesis using rpc_inv_outside[OF assms(2), of j "C_Lock q"] by (simp add: c_in_lock_def)
next
  case (caller j)
  then show ?thesis using caller_inv[OF assms(2)] by (auto simp: live_steps dest: live_stepE)
next
  case getreq
  then show ?thesis using getreq_inv[OF assms(2)] by (auto simp: live_steps dest: live_stepE)
next
  case (chkreq b)
  then show ?thesis using getreq_inv[OF assms(2)] assms(2) by (auto simp: live_steps dest!: chkreq_step dest: live_stepE)
next
  case reply
  then show ?thesis using reply_inv[OF assms(2)] by (auto simp: live_steps dest: live_stepE)
next
  case return
  then show ?thesis using return_inv[OF assms(2)] by blast
next
  case join
  with assms(2) show ?thesis by (auto elim!: join_stepE)
qed

section \<open>The objects of the thread\<close>

definition outside :: "cpc \<Rightarrow> bool" where
  "outside c \<longleftrightarrow> (case c of C_Idle \<Rightarrow> True | C_Ret _ _ \<Rightarrow> True | _ \<Rightarrow> False)"

definition own_inv :: "nat set \<Rightarrow> rpc \<Rightarrow> bool" where
  "own_inv base s \<longleftrightarrow>
     heap_has base (if joined s then {#} else thread_ms (t_own s)) (heap s) \<and>
     (joined s \<longrightarrow> server s = S_Exit \<and> (\<forall>j<length (callers s). outside (callers s ! j)))"

lemma req_step_frame:
  assumes "req_step j s = Inr s'" and "j < length (callers s)"
  shows "t_own s' = t_own s \<and> heap s' = heap s \<and> joined s' = joined s \<and> server s' = server s \<and>
    length (callers s') = length (callers s) \<and> (outside (callers s ! j) \<longrightarrow> outside (callers s' ! j)) \<and>
    (\<forall>l. l \<noteq> j \<longrightarrow> callers s' ! l = callers s ! l)"
  using assms(2,1) by (cases "callers s ! j") (auto simp: req_step_def Let_def outside_def split: option.splits)

lemma server_step_frame:
  assumes "getreq_step s = Inr s' \<or> reply_step f s = Inr s'"
  shows "t_own s' = t_own s \<and> heap s' = heap s \<and> joined s' = joined s \<and> callers s' = callers s \<and> server s \<noteq> S_Exit"
  using assms by (cases "server s") (auto simp: getreq_step_def reply_step_def Let_def split: option.splits)

lemma own_inv_server:
  "getreq_step s = Inr s' \<or> reply_step f s = Inr s' \<Longrightarrow> own_inv base s \<Longrightarrow> own_inv base s'"
  using server_step_frame[of s s' f] by (auto simp: own_inv_def)

lemma rpc_step_own:
  assumes "rpc_step f s s'" and "own_inv base s" and "rpc_inv f s"
  shows "own_inv base s'"
  using assms(1)
proof (cases rule: rpc_step_cases)
  case (caller j)
  from caller(2) have "req_step j s = Inr s'" by (auto simp: live_steps dest: live_stepE)
  note fr = req_step_frame[OF this caller(1)]
  have "outside (callers s' ! l)" if "joined s" "l < length (callers s)" for l
    using fr assms(2) that caller(1) by (cases "l = j") (auto simp: own_inv_def)
  with fr assms(2) show ?thesis by (auto simp: own_inv_def)
next
  case getreq
  then show ?thesis using own_inv_server[of s s' f] assms(2) by (auto simp: live_steps dest: live_stepE)
next
  case (chkreq b)
  then show ?thesis using own_inv_server[of s s' f] assms(2) by (auto simp: live_steps dest!: chkreq_step dest: live_stepE)
next
  case reply
  then show ?thesis using own_inv_server[of s s' f] assms(2) by (auto simp: live_steps dest: live_stepE)
next
  case return
  then show ?thesis using assms(2) by (cases "server s") (auto simp: posix_proc_returns_def own_inv_def)
next
  case join
  then have idle: "callers s ! j = C_Idle" if "j < length (callers s)" for j using that by (simp add: list_all_length)
  then have "filter is_wait (callers s) = []" by (auto simp: filter_empty_conv in_set_conv_nth is_wait_def)
  moreover have "owner (mut (th s)) = None"
    using assms(3) idle by (auto simp: rpc_inv_def c_in_lock_def phase_ok_def Let_def split: option.splits)
  ultimately show ?thesis
    using join assms(2) idle thread_join_frees[of base "t_own s" "{#}" "heap s" "th s"]
    by (auto simp: own_inv_def outside_def elim!: join_stepE)
qed (use assms(2) in \<open>auto simp: own_inv_def nth_list_update\<close>)

lemma rpc_start_inv:
  assumes "heap_has (blocks mem) {#} mem"
  shows "rpc_inv f (rpc_start n mem)" "own_inv (blocks mem) (rpc_start n mem)"
proof -
  obtain t ow mem' where c: "simple_thread_create mem = (t, ow, mem')" by (cases "simple_thread_create mem")
  note h = thread_create_has[OF assms c]
  show "rpc_inv f (rpc_start n mem)" "own_inv (blocks mem) (rpc_start n mem)"
    using c h by (simp_all add: rpc_start_def rpc_inv_def c_in_lock_def at_rest_def idle_def new_thread_def
        simple_mutex_create_def simple_sem_create_def own_inv_def)
qed

lemma rpc_reachable_inv:
  "rpc_reachable f n mem s \<Longrightarrow> rpc_inv f s \<and> own_inv (blocks mem) s"
  by (induction rule: rpc_reachable.induct) (auto simp: rpc_start_inv intro: rpc_step_inv rpc_step_own)

section \<open>Properties\<close>

lemma touches_live:
  assumes "own_inv base s"
  shows "j < length (callers s) \<Longrightarrow> live (c_touches (callers s ! j) (t_own s)) (heap s) = Inr ()"
    and "live (s_touches (server s) (t_own s)) (heap s) = Inr ()"
proof -
  have l: "live [] mem = Inr ()" for mem by (simp add: live_def)
  have h: "\<not> joined s \<Longrightarrow> set bs \<subseteq> set_mset (thread_ms (t_own s)) \<Longrightarrow> live bs (heap s) = Inr ()" for bs
    using assms live_has by (auto simp: own_inv_def)
  show "j < length (callers s) \<Longrightarrow> live (c_touches (callers s ! j) (t_own s)) (heap s) = Inr ()"
    using assms by (cases "joined s"; cases "callers s ! j")
      (auto simp: own_inv_def outside_def c_touches_def thread_ms_def l intro!: h)
  show "live (s_touches (server s) (t_own s)) (heap s) = Inr ()"
    using assms by (cases "joined s"; cases "server s")
      (auto simp: own_inv_def s_touches_def thread_ms_def l intro!: h)
qed

lemma lock_fault: "simple_mutex_lock t m = Inl e \<Longrightarrow> e = Would_Block"
  by (auto simp: simple_mutex_lock_def split: option.splits if_splits)

lemma wait_fault: "simple_sem_wait x = Inl e \<Longrightarrow> e = Would_Block"
  by (auto simp: simple_sem_wait_def split: nat.splits)

lemma bind_Inl: "bind_r m (\<lambda>x. Inr (g x)) = Inl e \<Longrightarrow> m = Inl e"
  by (cases m) auto

lemma req_step_fault:
  assumes "rpc_inv f s" and "j < length (callers s)" and "req_step j s = Inl e"
  shows "e = Would_Block"
  using holder_pc[OF assms(1,2)] assms(3)
  by (cases "callers s ! j")
    (auto simp: req_step_def Let_def c_in_lock_def phase_ok_def simple_mutex_unlock_def
      dest!: bind_Inl dest: lock_fault wait_fault)

lemma getreq_step_fault:
  assumes "rpc_inv f s" and "getreq_step s = Inl e"
  shows "e = Would_Block"
proof -
  have "req (th s) \<noteq> None" if l: "server s = S_Load"
  proof -
    obtain i where "owner (mut (th s)) = Some i" "phase_ok f (callers s ! i) s"
      using assms(1) l by (auto simp: rpc_inv_def at_rest_def idle_def split: option.splits)
    then show ?thesis using l by (cases "callers s ! i") (auto simp: phase_ok_def at_rest_def idle_def Let_def)
  qed
  with assms(2) show ?thesis
    by (cases "server s") (auto simp: getreq_step_def Let_def dest!: bind_Inl dest: wait_fault split: option.splits)
qed

text \<open>C7: every call of \<open>simple_thread_req\<close> returns the reply to its own request, however many threads
  call at once, however the thread alternates \<open>getreq\<close>, \<open>chkreq\<close> and \<open>reply\<close>, and wherever it ends; no
  field is read before it was written, and no object is used after \<open>simple_thread_join\<close> freed it.\<close>

theorem rpc_own_reply:
  assumes "rpc_reachable f n mem s" and "j < length (callers s)"
  shows "(\<forall>q r. callers s ! j = C_Ret q r \<longrightarrow> r = f q) \<and>
    (\<forall>e. simple_thread_req j s = Inl e \<longrightarrow> e = Would_Block) \<and>
    (\<forall>e. simple_thread_getreq s = Inl e \<longrightarrow> e = Would_Block) \<and>
    (\<forall>e. simple_thread_reply f s = Inl e \<longrightarrow> e = Would_Block)"
proof -
  have inv: "rpc_inv f s" "own_inv (blocks mem) s" using rpc_reachable_inv[OF assms(1)] by simp_all
  have "reply_step f s = Inl e \<Longrightarrow> e = Would_Block" for e
    by (cases "server s") (auto simp: reply_step_def Let_def)
  then show ?thesis
    using inv(1) assms(2) touches_live[OF inv(2)] req_step_fault[OF inv(1) assms(2)] getreq_step_fault[OF inv(1)]
    by (auto simp: rpc_inv_def live_steps)
qed

text \<open>A whole exchange, for the witnesses: the thread answers a request by its successor, returns, and is
  joined.\<close>

datatype rpc_move = Call | Caller | Get | Reply | Return | Join

definition rpc_move :: "rpc_move \<Rightarrow> rpc \<Rightarrow> rpc result" where
  "rpc_move v s =
     (case v of
        Call \<Rightarrow> if callers s = [C_Idle] \<and> \<not> joined s then Inr (s\<lparr>callers := [C_Lock 7]\<rparr>) else Inl Stuck
      | Caller \<Rightarrow> if callers s = [] then Inl Stuck else simple_thread_req 0 s
      | Get \<Rightarrow> simple_thread_getreq s
      | Reply \<Rightarrow> simple_thread_reply Suc s
      | Return \<Rightarrow> posix_proc_returns s
      | Join \<Rightarrow> if callers s = [C_Idle] \<and> \<not> joined s then join_step s else Inl Stuck)"

fun rpc_moves :: "rpc_move list \<Rightarrow> rpc \<Rightarrow> rpc result" where
  "rpc_moves [] s = Inr s"
| "rpc_moves (v # vs) s = bind_r (rpc_move v s) (rpc_moves vs)"

lemma rpc_move_step: "rpc_move v s = Inr s' \<Longrightarrow> rpc_step Suc s s'"
  using rpc_step.begin_call[of 0 s Suc 7]
  by (auto simp: rpc_move_def split: rpc_move.splits if_splits intro: rpc_step.intros)

lemma rpc_moves_reachable: "rpc_reachable Suc n mem s \<Longrightarrow> rpc_moves vs s = Inr s' \<Longrightarrow> rpc_reachable Suc n mem s'"
  by (induction vs arbitrary: s) (auto dest: rpc_move_step intro: rpc_reachable.step)

lemma rpc_moves_append: "rpc_moves (vs @ ws) s = bind_r (rpc_moves vs s) (rpc_moves ws)"
proof (induction vs arbitrary: s)
  case (Cons v vs)
  then show ?case by (cases "rpc_move v s") simp_all
qed simp

lemma rpc_moves_steps: "rpc_moves vs s = Inr s' \<Longrightarrow> (rpc_step Suc)\<^sup>*\<^sup>* s s'"
proof (induction vs arbitrary: s)
  case (Cons v vs)
  from Cons.prems obtain s1 where "rpc_move v s = Inr s1" "rpc_moves vs s1 = Inr s'" by auto
  with Cons.IH show ?case by (blast dest: rpc_move_step intro: converse_rtranclp_into_rtranclp)
qed simp

definition no_heap :: memory where
  "no_heap = \<lparr>blocks = {}, fresh = 0\<rparr>"

definition exchange :: "rpc_move list" where
  "exchange = [Call, Caller, Caller, Caller, Get, Get, Reply, Reply, Caller, Caller, Caller]"

lemmas rpc_eval = exchange_def rpc_move_def simple_thread_req_def req_step_def simple_thread_getreq_def getreq_step_def
  simple_thread_reply_def reply_step_def posix_proc_returns_def join_step_def simple_thread_join_def c_touches_def
  s_touches_def live_def Let_def rpc_start_def simple_thread_create_def new_thread_def malloc_def no_heap_def
  free_block_def simple_sem_create_def simple_mutex_create_def simple_mutex_lock_def simple_mutex_unlock_def
  simple_sem_post_def simple_sem_wait_def sem_max_def is_wait_def

lemma no_heap_start: "rpc_reachable f n no_heap (rpc_start n no_heap)"
  by (rule rpc_reachable.start) (simp add: no_heap_def heap_has_def)

lemma sample_exchange:
  obtains s where "rpc_reachable Suc 1 no_heap s" and "callers s = [C_Ret 7 8]"
proof -
  have "\<exists>s. rpc_moves exchange (rpc_start 1 no_heap) = Inr s \<and> callers s = [C_Ret 7 8]"
    by (simp add: rpc_eval)
  then show thesis using that rpc_moves_reachable[OF no_heap_start] by blast
qed

theorem rpc_own_reply_witness: "\<exists>s q r. rpc_reachable Suc 1 no_heap s \<and> callers s ! 0 = C_Ret q r \<and> r = Suc q"
proof -
  obtain s where s: "rpc_reachable Suc 1 no_heap s" "callers s = [C_Ret 7 8]" by (rule sample_exchange)
  with rpc_own_reply[OF s(1), of 0] show ?thesis by auto
qed

text \<open>C8: \<open>simple_thread_join\<close>, called by the owner of the object when no call of \<open>simple_thread_req\<close> is under
  way (every caller idle; the calls before it and their interleavings are arbitrary), blocks as long as
  the thread's function has not ended, and behind its end frees exactly what \<open>simple_thread_create\<close>
  allocated: it neither destroys a lock or semaphore in use nor touches freed memory. That no call is
  under way is the caller's duty, the library does nothing to ensure it.\<close>

theorem join_frees_thread:
  assumes "rpc_reachable f n mem s"
  shows "(joined s \<longrightarrow> server s = S_Exit \<and> blocks (heap s) = blocks mem) \<and>
    (\<not> joined s \<longrightarrow> list_all (\<lambda>c. c = C_Idle) (callers s) \<longrightarrow>
       (if server s = S_Exit then \<exists>s'. join_step s = Inr s' \<and> blocks (heap s') = blocks mem
        else join_step s = Inl Would_Block))"
proof -
  have inv: "rpc_inv f s" "own_inv (blocks mem) s" using rpc_reachable_inv[OF assms] by simp_all
  have "\<exists>s'. join_step s = Inr s' \<and> blocks (heap s') = blocks mem"
    if j: "\<not> joined s" "list_all (\<lambda>c. c = C_Idle) (callers s)" "server s = S_Exit"
  proof -
    have idle: "callers s ! j = C_Idle" if "j < length (callers s)" for j using that j(2) by (simp add: list_all_length)
    then have w: "filter is_wait (callers s) = []" by (auto simp: filter_empty_conv in_set_conv_nth is_wait_def)
    have "owner (mut (th s)) = None"
      using inv(1) idle by (auto simp: rpc_inv_def c_in_lock_def phase_ok_def Let_def split: option.splits)
    moreover have h: "heap_has (blocks mem) (thread_ms (t_own s) + {#}) (heap s)" using inv(2) j(1) by (simp add: own_inv_def)
    ultimately obtain mem' where "simple_thread_join True 0 0 (th s) (t_own s) (heap s) = Inr mem'"
        "heap_has (blocks mem) {#} mem'" using thread_join_frees by blast
    moreover have "live [t_self (t_own s)] (heap s) = Inr ()" using live_has[OF h] by (simp add: thread_ms_def)
    ultimately show ?thesis using w j(3) by (auto simp: join_step_def heap_has_none)
  qed
  moreover have "join_step s = Inl Would_Block" if "\<not> joined s" "server s \<noteq> S_Exit"
    using inv(2) that live_has[of "blocks mem" "thread_ms (t_own s)" "heap s" "[t_self (t_own s)]"]
    by (simp add: join_step_def simple_thread_join_def own_inv_def thread_ms_def)
  moreover have "joined s \<Longrightarrow> server s = S_Exit \<and> blocks (heap s) = blocks mem"
    using inv(2) heap_has_none[of "blocks mem" "heap s"] by (simp add: own_inv_def)
  ultimately show ?thesis by simp
qed

theorem join_frees_thread_witness:
  "\<exists>s. rpc_moves (exchange @ [Caller, Return, Join]) (rpc_start 1 no_heap) = Inr s \<and> joined s \<and> blocks (heap s) = {}"
proof -
  have "\<exists>s. rpc_moves (exchange @ [Caller, Return, Join]) (rpc_start 1 no_heap) = Inr s \<and> joined s"
    by (simp add: rpc_eval)
  then obtain s where s: "rpc_moves (exchange @ [Caller, Return, Join]) (rpc_start 1 no_heap) = Inr s" "joined s" by blast
  with join_frees_thread[OF rpc_moves_reachable[OF no_heap_start s(1)]] show ?thesis by (simp add: no_heap_def)
qed

section \<open>A thread that has returned\<close>

definition ended_inv :: "rpc \<Rightarrow> bool" where
  "ended_inv s \<longleftrightarrow> server s = S_Exit \<and> sem_count (sem_rpl (th s)) = 0 \<and>
     (\<forall>j<length (callers s). case callers s ! j of C_Read _ \<Rightarrow> False | C_Unlock _ _ \<Rightarrow> False | C_Ret _ _ \<Rightarrow> False | _ \<Rightarrow> True)"

lemma ended_step:
  assumes "rpc_step f s s'" and "ended_inv s"
  shows "ended_inv s'"
  using assms(1)
proof (cases rule: rpc_step_cases)
  case (begin_call j q)
  with assms(2) show ?thesis by (auto simp: ended_inv_def nth_list_update)
next
  case (caller j)
  then have "req_step j s = Inr s'" by (auto simp: live_steps dest: live_stepE)
  with caller(1) assms(2) show ?thesis
    by (cases "callers s ! j")
      (auto simp: ended_inv_def req_step_def Let_def nth_list_update sem_wait_count split: option.splits)
next
  case getreq
  with assms(2) show ?thesis by (auto simp: live_steps getreq_step_def ended_inv_def dest!: live_stepE)
next
  case (chkreq b)
  with assms(2) show ?thesis by (auto simp: live_steps getreq_step_def ended_inv_def dest!: chkreq_step live_stepE)
next
  case reply
  with assms(2) show ?thesis by (auto simp: live_steps reply_step_def ended_inv_def dest!: live_stepE)
next
  case return
  with assms(2) show ?thesis by (simp add: posix_proc_returns_def ended_inv_def)
next
  case join
  with assms(2) show ?thesis by (auto simp: ended_inv_def elim!: join_stepE)
qed

text \<open>a request to a thread whose function has returned is never answered: once the thread has
  ended with no call under way, no call of \<open>simple_thread_req\<close> begun since ever gets to its return.\<close>

theorem ended_thread_hangs:
  assumes "rpc_reachable f n mem s" and "server s = S_Exit" and "list_all (\<lambda>c. c = C_Idle) (callers s)"
    and "(rpc_step f)\<^sup>*\<^sup>* s s'"
  shows "\<forall>j<length (callers s'). \<forall>q r. callers s' ! j \<noteq> C_Ret q r"
proof -
  have inv: "rpc_inv f s" using rpc_reachable_inv[OF assms(1)] by simp
  have idle: "callers s ! j = C_Idle" if "j < length (callers s)" for j using that assms(3) by (simp add: list_all_length)
  then have "at_rest s" using inv by (auto simp: rpc_inv_def c_in_lock_def split: option.splits)
  with assms(2) idle have "ended_inv s" by (simp add: ended_inv_def at_rest_def)
  with assms(4) have "ended_inv s'" by (induction rule: rtranclp_induct) (auto intro: ended_step)
  then show ?thesis by (fastforce simp: ended_inv_def)
qed

lemma sample_ended:
  obtains s s' where "rpc_reachable Suc 1 no_heap s" and "server s = S_Exit" and "callers s = [C_Idle]"
    and "(rpc_step Suc)\<^sup>*\<^sup>* s s'" and "callers s' = [C_Wait 7]"
proof -
  have "\<exists>s. rpc_moves [Return] (rpc_start 1 no_heap) = Inr s \<and> server s = S_Exit \<and> callers s = [C_Idle]"
    by (simp add: rpc_eval)
  then obtain s where s: "rpc_moves [Return] (rpc_start 1 no_heap) = Inr s" "server s = S_Exit" "callers s = [C_Idle]"
    by blast
  have "\<exists>s'. rpc_moves ([Return] @ [Call, Caller, Caller, Caller]) (rpc_start 1 no_heap) = Inr s' \<and> callers s' = [C_Wait 7]"
    by (simp add: rpc_eval)
  with s(1) obtain s' where s: "rpc_moves [Return] (rpc_start 1 no_heap) = Inr s" "server s = S_Exit" "callers s = [C_Idle]"
      "rpc_moves [Call, Caller, Caller, Caller] s = Inr s'" "callers s' = [C_Wait 7]"
    using s(2,3) unfolding rpc_moves_append by auto
  from that[OF rpc_moves_reachable[OF no_heap_start s(1)] s(2,3) rpc_moves_steps[OF s(4)] s(5)] show thesis .
qed

theorem ended_thread_hangs_witness:
  "\<exists>s s'. server s = S_Exit \<and> (rpc_step Suc)\<^sup>*\<^sup>* s s' \<and> callers s' = [C_Wait 7] \<and> callers s' ! 0 \<noteq> C_Ret 7 8"
proof -
  obtain s s' where s: "rpc_reachable Suc 1 no_heap s" "server s = S_Exit" "callers s = [C_Idle]"
      "(rpc_step Suc)\<^sup>*\<^sup>* s s'" "callers s' = [C_Wait 7]" by (rule sample_ended)
  from ended_thread_hangs[OF s(1,2) _ s(4)] s(3,5) have "callers s' ! 0 \<noteq> C_Ret 7 8" by simp
  with s(2,4,5) show ?thesis by (intro exI[of _ s] exI[of _ s'] conjI)
qed

end
