(* ===== verification/Pool_Memory.thy ===== *)
theory Pool_Memory
  imports Thread_Pool Thread_Rpc
begin

text \<open>
  The thread pool of \<open>src/src/threadpool.c\<close> with its memory: the blocks of the pool, its semaphore, its
  lock, its list of threads and the nodes of its task list, and the tasks themselves. Every step is the
  step of \<open>Thread_Pool\<close> with what it allocates, looks at and frees. A task belongs to the pool from
  \<open>simple_thread_pool_add_task\<close> on; its handler ends with \<open>simple_task_destroy\<close>, as \<open>threadpool.h\<close>
  asks and \<open>handle\<close> of \<open>client.c\<close> does.
\<close>

section \<open>State\<close>

text \<open>\<open>threads_b\<close> is \<open>p->threads\<close>: the node and the object of every thread, the last created first.
  \<open>ring_b\<close> has the node and the task of every entry of \<open>p->tasks\<close>, \<open>adders_b\<close> those an \<open>add_task\<close> has
  not yet put there, and \<open>hands_b\<close> is the variable \<open>task\<close> of every worker.\<close>

record pool_own =
  pool_b :: nat
  psem_b :: nat
  plock_b :: nat
  threads_b :: "(nat \<times> thread_own) list"
  ring_b :: "(nat \<times> nat) list"
  adders_b :: "(nat \<times> nat) option list"
  hands_b :: "nat option list"

record pool_mem =
  pl :: pool
  ow :: pool_own
  mem :: memory

section \<open>Creation\<close>

fun create_threads :: "nat \<Rightarrow> (nat \<times> thread_own) list \<Rightarrow> memory \<Rightarrow> (nat \<times> thread_own) list \<times> memory" where
  "create_threads 0 ts m = (ts, m)"
| "create_threads (Suc n) ts m =
     (let (b, m) = malloc m; (t, o', m) = simple_thread_create m in create_threads n ((b, o') # ts) m)"

definition pool_create_mem :: "int \<Rightarrow> nat \<Rightarrow> memory \<Rightarrow> pool_mem" where
  "pool_create_mem cnt k m =
     (let (p, m) = malloc m; (s, m) = malloc m; (l, m) = malloc m; (ts, m) = create_threads (pool_thread_cnt cnt) [] m
      in \<lparr>pl = simple_thread_pool_create cnt k,
          ow = \<lparr>pool_b = p, psem_b = s, plock_b = l, threads_b = ts, ring_b = [], adders_b = replicate k None,
                hands_b = replicate (pool_thread_cnt cnt) None\<rparr>,
          mem = m\<rparr>)"

section \<open>Steps\<close>

definition simple_task_destroy :: "nat \<Rightarrow> memory \<Rightarrow> memory result" where
  "simple_task_destroy t m = free_block t m"

definition worker_touches :: "wpc \<Rightarrow> pool_own \<Rightarrow> nat list" where
  "worker_touches c o' =
     (case c of
        W_Test \<Rightarrow> [pool_b o']
      | W_Wait \<Rightarrow> [pool_b o', psem_b o']
      | W_Check \<Rightarrow> [pool_b o']
      | W_Lock \<Rightarrow> [pool_b o', plock_b o']
      | W_Pop \<Rightarrow> [pool_b o']
      | W_Unlock \<Rightarrow> [pool_b o', plock_b o']
      | _ \<Rightarrow> [])"

text \<open>At the list the worker reads the first node, unlinks it from the next and frees it; at the handler it reads the task, and the handler
  destroys it.\<close>

definition worker_blocks :: "nat \<Rightarrow> wpc \<Rightarrow> pool_own \<Rightarrow> memory \<Rightarrow> (pool_own \<times> memory) result" where
  "worker_blocks i c o' m =
     (case c of
        W_Pop \<Rightarrow>
          (case ring_b o' of
             [] \<Rightarrow> Inr (o', m)
           | (n, t) # r \<Rightarrow>
               bind_r (live (n # map fst (take 1 r)) m) (\<lambda>_.
               bind_r (free_block n m) (\<lambda>m. Inr (o'\<lparr>ring_b := r, hands_b := (hands_b o')[i := Some t]\<rparr>, m))))
      | W_Run \<Rightarrow>
          (case hands_b o' ! i of
             None \<Rightarrow> Inr (o', m)
           | Some t \<Rightarrow> bind_r (live [t] m) (\<lambda>_. bind_r (simple_task_destroy t m) (\<lambda>m. Inr (o', m))))
      | _ \<Rightarrow> Inr (o', m))"

definition thread_proc_mem :: "nat \<Rightarrow> pool_mem \<Rightarrow> pool_mem result" where
  "thread_proc_mem i s =
     (let c = wpc (workers (pl s) ! i) in
      bind_r (live (worker_touches c (ow s)) (mem s)) (\<lambda>_.
      bind_r (thread_proc i (pl s)) (\<lambda>p.
      bind_r (worker_blocks i c (ow s) (mem s)) (\<lambda>(o', m). Inr \<lparr>pl = p, ow = o', mem = m\<rparr>))))"

text \<open>The caller creates its task and calls \<open>add_task\<close>, which allocates the node before it locks.\<close>

definition submit_mem :: "nat \<Rightarrow> task_t \<Rightarrow> pool_mem \<Rightarrow> pool_mem" where
  "submit_mem j t s =
     (let (b, m) = malloc (mem s); (n, m) = malloc m
      in \<lparr>pl = set_adder j (A_Lock t) (pl s), ow = (ow s)\<lparr>adders_b := (adders_b (ow s))[j := Some (n, b)]\<rparr>, mem = m\<rparr>)"

definition adder_touches :: "apc \<Rightarrow> pool_own \<Rightarrow> nat list" where
  "adder_touches a o' =
     (case a of
        A_Lock t \<Rightarrow> [pool_b o', plock_b o']
      | A_Append t \<Rightarrow> [pool_b o']
      | A_Unlock t \<Rightarrow> [pool_b o', plock_b o']
      | A_Post t \<Rightarrow> [pool_b o', psem_b o']
      | A_Idle \<Rightarrow> [])"

definition adder_blocks :: "nat \<Rightarrow> apc \<Rightarrow> pool_own \<Rightarrow> memory \<Rightarrow> pool_own result" where
  "adder_blocks j a o' m =
     (case a of
        A_Append t \<Rightarrow>
          (case adders_b o' ! j of
             None \<Rightarrow> Inl Uninit_Read
           | Some x \<Rightarrow>
               bind_r (live (fst x # map fst (take 1 (rev (ring_b o')))) m) (\<lambda>_.
               Inr (o'\<lparr>ring_b := ring_b o' @ [x], adders_b := (adders_b o')[j := None]\<rparr>)))
      | _ \<Rightarrow> Inr o')"

definition add_task_mem :: "nat \<Rightarrow> pool_mem \<Rightarrow> pool_mem result" where
  "add_task_mem j s =
     (let a = adders (pl s) ! j in
      bind_r (live (adder_touches a (ow s)) (mem s)) (\<lambda>_.
      bind_r (simple_thread_pool_add_task j (pl s)) (\<lambda>p.
      bind_r (adder_blocks j a (ow s) (mem s)) (\<lambda>o'. Inr (s\<lparr>pl := p, ow := o'\<rparr>)))))"

text \<open>\<open>destroy\<close> joins every thread and frees its node; then the tasks nobody took and their nodes, the
  lock, the semaphore and the pool. No worker may be blocked on the semaphore then.\<close>

fun free_pending :: "(nat \<times> nat) list \<Rightarrow> memory \<Rightarrow> memory result" where
  "free_pending [] m = Inr m"
| "free_pending ((n, t) # r) m =
     bind_r (simple_task_destroy t m) (\<lambda>m. bind_r (free_block n m) (free_pending r))"

definition destroy_blocks :: "pool \<Rightarrow> pool_own \<Rightarrow> memory \<Rightarrow> (pool_own \<times> memory) result" where
  "destroy_blocks p o' m =
     (case destroyer p of
        D_Join i \<Rightarrow>
          (case threads_b o' of
             [] \<Rightarrow> Inr (o', m)
           | (n, t) # r \<Rightarrow>
               bind_r (simple_thread_join (wpc (rev (workers p) ! i) = W_Exit) 0 0 new_thread t m) (\<lambda>m.
               bind_r (free_block n m) (\<lambda>m. Inr (o'\<lparr>threads_b := r\<rparr>, m))))
      | D_Free \<Rightarrow>
          bind_r (free_pending (ring_b o') m) (\<lambda>m.
          bind_r (simple_mutex_destroy (lock p) (plock_b o') m) (\<lambda>m.
          bind_r (simple_sem_destroy (count_if waits (workers p)) (psem_b o') m) (\<lambda>m.
          bind_r (free_block (pool_b o') m) (\<lambda>m. Inr (o'\<lparr>ring_b := []\<rparr>, m)))))
      | _ \<Rightarrow> Inr (o', m))"

definition destroy_touches :: "dpc \<Rightarrow> pool_own \<Rightarrow> nat list" where
  "destroy_touches d o' =
     (case d of
        D_Post n \<Rightarrow> [pool_b o', psem_b o']
      | D_Done \<Rightarrow> []
      | _ \<Rightarrow> [pool_b o'])"

definition pool_destroy_mem :: "pool_mem \<Rightarrow> pool_mem result" where
  "pool_destroy_mem s =
     (let p = pl s in
      bind_r (live (destroy_touches (destroyer p) (ow s)) (mem s)) (\<lambda>_.
      bind_r (simple_thread_pool_destroy p) (\<lambda>p'.
      bind_r (destroy_blocks p (ow s) (mem s)) (\<lambda>(o', m). Inr \<lparr>pl = p', ow = o', mem = m\<rparr>))))"

inductive pool_mem_step :: "pool_mem \<Rightarrow> pool_mem \<Rightarrow> bool" where
  worker: "i < length (workers (pl s)) \<Longrightarrow> thread_proc_mem i s = Inr s' \<Longrightarrow> pool_mem_step s s'"
| submit: "j < length (adders (pl s)) \<Longrightarrow> adders (pl s) ! j = A_Idle \<Longrightarrow> destroyer (pl s) = D_Idle \<Longrightarrow>
    pool_mem_step s (submit_mem j t s)"
| add: "j < length (adders (pl s)) \<Longrightarrow> add_task_mem j s = Inr s' \<Longrightarrow> pool_mem_step s s'"
| destroy: "list_all (\<lambda>a. a = A_Idle) (adders (pl s)) \<Longrightarrow> pool_destroy_mem s = Inr s' \<Longrightarrow> pool_mem_step s s'"

inductive_cases pool_mem_stepE: "pool_mem_step s s'"

lemmas pool_mem_step_cases [consumes 1, case_names worker submit add destroy] = pool_mem_stepE

inductive pool_mem_reachable :: "int \<Rightarrow> nat \<Rightarrow> memory \<Rightarrow> pool_mem \<Rightarrow> bool" for cnt k m where
  start: "heap_has (blocks m) {#} m \<Longrightarrow> pool_mem_reachable cnt k m (pool_create_mem cnt k m)"
| step: "pool_mem_reachable cnt k m s \<Longrightarrow> pool_mem_step s s' \<Longrightarrow> pool_mem_reachable cnt k m s'"

section \<open>The steps of \<open>Thread_Pool\<close>\<close>

lemma thread_proc_memE:
  assumes "thread_proc_mem i s = Inr s'"
  obtains o' m where "thread_proc i (pl s) = Inr (pl s')"
    and "worker_blocks i (wpc (workers (pl s) ! i)) (ow s) (mem s) = Inr (o', m)" and "ow s' = o'" and "mem s' = m"
  using assms by (auto simp: thread_proc_mem_def Let_def)

lemma add_task_memE:
  assumes "add_task_mem j s = Inr s'"
  obtains o' where "simple_thread_pool_add_task j (pl s) = Inr (pl s')"
    and "adder_blocks j (adders (pl s) ! j) (ow s) (mem s) = Inr o'" and "ow s' = o'" and "mem s' = mem s"
  using assms by (auto simp: add_task_mem_def Let_def)

lemma pool_destroy_memE:
  assumes "pool_destroy_mem s = Inr s'"
  obtains o' m where "simple_thread_pool_destroy (pl s) = Inr (pl s')"
    and "destroy_blocks (pl s) (ow s) (mem s) = Inr (o', m)" and "ow s' = o'" and "mem s' = m"
  using assms by (auto simp: pool_destroy_mem_def Let_def)

lemma pool_mem_step_pool:
  assumes "pool_mem_step s s'"
  shows "pool_step (pl s) (pl s')"
  using assms
  by (cases rule: pool_mem_step_cases)
    (auto simp: submit_mem_def split_beta Let_def
      elim!: thread_proc_memE add_task_memE pool_destroy_memE intro: pool_step.intros)

lemma pool_mem_reachable_pool: "pool_mem_reachable cnt k m s \<Longrightarrow> pool_reachable cnt k (pl s)"
proof (induction rule: pool_mem_reachable.induct)
  case start
  then show ?case by (simp add: pool_create_mem_def split_beta Let_def pool_reachable.start)
qed (blast intro: pool_reachable.step pool_mem_step_pool)

section \<open>What the pool owns\<close>

definition pair_ms :: "nat \<times> nat \<Rightarrow> nat multiset" where
  "pair_ms x = {#fst x, snd x#}"

definition opt_pair_ms :: "(nat \<times> nat) option \<Rightarrow> nat multiset" where
  "opt_pair_ms x = (case x of None \<Rightarrow> {#} | Some y \<Rightarrow> pair_ms y)"

definition thread_node_ms :: "nat \<times> thread_own \<Rightarrow> nat multiset" where
  "thread_node_ms x = add_mset (fst x) (thread_ms (snd x))"

definition has_task :: "wpc \<Rightarrow> bool" where
  "has_task c \<longleftrightarrow> c = W_Unlock \<or> c = W_Run"

definition hand_ms :: "worker \<times> nat option \<Rightarrow> nat multiset" where
  "hand_ms x = (if has_task (wpc (fst x)) then opt_ms (snd x) else {#})"

definition self_ms :: "dpc \<Rightarrow> pool_own \<Rightarrow> nat multiset" where
  "self_ms d o' = (if d = D_Done then {#} else {#pool_b o', psem_b o', plock_b o'#})"

lemma self_ms_upd [simp]: "self_ms d (o'\<lparr>adders_b := a\<rparr>) = self_ms d o'" "self_ms d (o'\<lparr>ring_b := r\<rparr>) = self_ms d o'"
  by (simp_all add: self_ms_def)

definition pool_ms :: "pool \<Rightarrow> pool_own \<Rightarrow> nat multiset" where
  "pool_ms p o' = self_ms (destroyer p) o' + sum_list (map thread_node_ms (threads_b o')) + sum_list (map pair_ms (ring_b o')) +
     sum_list (map opt_pair_ms (adders_b o')) + sum_list (map hand_ms (zip (workers p) (hands_b o')))"

definition not_queued :: "apc \<Rightarrow> bool" where
  "not_queued a \<longleftrightarrow> (case a of A_Lock t \<Rightarrow> True | A_Append t \<Rightarrow> True | _ \<Rightarrow> False)"

definition joined_cnt :: "dpc \<Rightarrow> nat \<Rightarrow> nat" where
  "joined_cnt d n = (case d of D_Join i \<Rightarrow> i | D_Free \<Rightarrow> n | D_Done \<Rightarrow> n | _ \<Rightarrow> 0)"

text \<open>The pointers agree with the pool: as many nodes as tasks, a thread object for every thread that was not
  joined, and a block in the hand of every worker that has a task.\<close>

definition shape_ok :: "pool \<Rightarrow> pool_own \<Rightarrow> bool" where
  "shape_ok p o' \<longleftrightarrow>
     length (ring_b o') = length (tasks p) \<and>
     length (threads_b o') = length (workers p) - joined_cnt (destroyer p) (length (workers p)) \<and>
     length (adders_b o') = length (adders p) \<and>
     (\<forall>j<length (adders p). not_queued (adders p ! j) \<longleftrightarrow> adders_b o' ! j \<noteq> None) \<and>
     length (hands_b o') = length (workers p) \<and>
     (\<forall>i<length (workers p). has_task (wpc (workers p ! i)) \<longrightarrow> hands_b o' ! i \<noteq> None)"

definition pool_mem_inv :: "nat set \<Rightarrow> pool_mem \<Rightarrow> bool" where
  "pool_mem_inv base s \<longleftrightarrow> shape_ok (pl s) (ow s) \<and> heap_has base (pool_ms (pl s) (ow s)) (mem s)"

text \<open>What an update of one place of a list does to a sum over it.\<close>

lemma sum_update:
  fixes f :: "'a \<Rightarrow> nat multiset"
  shows "i < length xs \<Longrightarrow> sum_list (map f (xs[i := x])) + f (xs ! i) = sum_list (map f xs) + f x"
  by (induction xs arbitrary: i) (auto simp: nth_Cons ac_simps split: nat.split)

lemma sum_member: "x \<in> set xs \<Longrightarrow> f x \<subseteq># sum_list (map f xs)" for f :: "'a \<Rightarrow> nat multiset"
  by (induction xs) (auto intro: subset_mset.add_increasing subset_mset.add_increasing2)

lemma sum_none: "(\<And>x. x \<in> set xs \<Longrightarrow> f x = {#}) \<Longrightarrow> sum_list (map f xs) = {#}" for f :: "'a \<Rightarrow> nat multiset"
  by (induction xs) auto

lemma hands_update:
  assumes "i < length ws" and "length hs = length ws"
  shows "sum_list (map hand_ms (zip (ws[i := w]) (hs[i := h]))) + hand_ms (ws ! i, hs ! i) =
    sum_list (map hand_ms (zip ws hs)) + hand_ms (w, h)"
  using sum_update[of i "zip ws hs" hand_ms "(w, h)"] assms by (simp add: update_zip)

lemma hands_same:
  assumes "i < length ws" and "length hs = length ws" and "hand_ms (w, hs ! i) = hand_ms (ws ! i, hs ! i)"
  shows "sum_list (map hand_ms (zip (ws[i := w]) hs)) = sum_list (map hand_ms (zip ws hs))"
  using hands_update[OF assms(1,2), of w "hs ! i"] assms(2,3) by simp

section \<open>The workers\<close>

lemma live_pool:
  assumes "heap_has base (pool_ms p o') m" and "destroyer p \<noteq> D_Done" and "set bs \<subseteq> {pool_b o', psem_b o', plock_b o'}"
  shows "live bs m = Inr ()"
  using assms by (intro live_has[OF assms(1)]) (auto simp: pool_ms_def self_ms_def)

lemma worker_live:
  assumes "pool_inv p" and "i < length (workers p)" and "heap_has base (pool_ms p o') m"
  shows "live (worker_touches (wpc (workers p ! i)) o') m = Inr ()"
proof (cases "wpc (workers p ! i) = W_Exit")
  case True
  then show ?thesis by (simp add: worker_touches_def live_def)
next
  case False
  then have "destroyer p \<noteq> D_Done" using assms(1,2) by (auto simp: pool_inv_def quit_inv_def)
  then show ?thesis
    using live_pool[OF assms(3)] by (cases "wpc (workers p ! i)") (simp_all add: worker_touches_def)
qed

text \<open>A step of a worker that allocates and frees nothing.\<close>

lemma worker_quiet:
  assumes sh: "shape_ok p o'" and i: "i < length (workers p)"
    and w: "has_task (wpc w) = has_task (wpc (workers p ! i))"
    and p': "workers p' = (workers p)[i := w]" "tasks p' = tasks p" "adders p' = adders p" "destroyer p' = destroyer p"
  shows "shape_ok p' o' \<and> pool_ms p' o' = pool_ms p o'"
proof -
  have "shape_ok p' o'"
    using sh i w p' by (auto simp: shape_ok_def nth_list_update)
  moreover have "sum_list (map hand_ms (zip (workers p') (hands_b o'))) = sum_list (map hand_ms (zip (workers p) (hands_b o')))"
    using hands_same[of i "workers p" "hands_b o'" w] sh i w p'(1) by (simp add: shape_ok_def hand_ms_def)
  ultimately show ?thesis using p'(4) by (simp add: pool_ms_def)
qed

lemma worker_pop:
  assumes sh: "shape_ok p o'" and i: "i < length (workers p)" and "wpc (workers p ! i) = W_Pop" and ts: "tasks p = t # ts"
    and p': "workers p' = (workers p)[i := w]" "tasks p' = ts" "adders p' = adders p" "destroyer p' = destroyer p"
    and w: "wpc w = W_Unlock" and heap: "heap_has base (pool_ms p o') m"
  shows "\<exists>o'' m'. worker_blocks i W_Pop o' m = Inr (o'', m') \<and> shape_ok p' o'' \<and> heap_has base (pool_ms p' o'') m'"
proof -
  obtain n b r where r: "ring_b o' = (n, b) # r" using sh ts by (cases "ring_b o'") (auto simp: shape_ok_def)
  let ?o = "o'\<lparr>ring_b := r, hands_b := (hands_b o')[i := Some b]\<rparr>"
  have "shape_ok p' ?o"
    using sh i p' ts r by (auto simp: shape_ok_def nth_list_update)
  moreover have "sum_list (map hand_ms (zip (workers p') (hands_b ?o))) = add_mset b (sum_list (map hand_ms (zip (workers p) (hands_b o'))))"
    using hands_update[of i "workers p" "hands_b o'" w "Some b"] sh i assms(3) p'(1) w
    by (simp add: shape_ok_def hand_ms_def has_task_def)
  then have ms: "pool_ms p o' = add_mset n (pool_ms p' ?o)"
    using r p'(4) by (simp add: pool_ms_def pair_ms_def self_ms_def)
  with heap obtain m' where "free_block n m = Inr m'" "heap_has base (pool_ms p' ?o) m'" using free_block_has by metis
  moreover have "live (n # map fst (take 1 r)) m = Inr ()"
    using r by (intro live_has[OF heap]) (cases r, auto simp: pool_ms_def pair_ms_def)
  ultimately show ?thesis using r by (simp add: worker_blocks_def)
qed

lemma worker_run:
  assumes sh: "shape_ok p o'" and i: "i < length (workers p)" and "wpc (workers p ! i) = W_Run"
    and p': "workers p' = (workers p)[i := w]" "tasks p' = tasks p" "adders p' = adders p" "destroyer p' = destroyer p"
    and w: "wpc w = W_Test" and heap: "heap_has base (pool_ms p o') m"
  shows "\<exists>o'' m'. worker_blocks i W_Run o' m = Inr (o'', m') \<and> shape_ok p' o'' \<and> heap_has base (pool_ms p' o'') m'"
proof -
  obtain b where b: "hands_b o' ! i = Some b" using sh i assms(3) by (auto simp: shape_ok_def has_task_def)
  have len: "length (hands_b o') = length (workers p)" using sh by (simp add: shape_ok_def)
  have "shape_ok p' o'"
    using sh i p' w by (auto simp: shape_ok_def nth_list_update has_task_def)
  moreover have "add_mset b (sum_list (map hand_ms (zip (workers p') (hands_b o')))) = sum_list (map hand_ms (zip (workers p) (hands_b o')))"
    using hands_update[OF i len, of w "Some b"] assms(3) p'(1) w b list_update_id[of "hands_b o'" i]
    by (simp add: hand_ms_def has_task_def)
  then have ms: "pool_ms p o' = add_mset b (pool_ms p' o')"
    using p'(4) by (simp add: pool_ms_def self_ms_def flip: \<open>add_mset b _ = _\<close>)
  with heap obtain m' where "free_block b m = Inr m'" "heap_has base (pool_ms p' o') m'" using free_block_has by metis
  moreover have "live [b] m = Inr ()" using ms by (intro live_has[OF heap]) simp
  ultimately show ?thesis using b \<open>shape_ok p' o'\<close> by (simp add: worker_blocks_def simple_task_destroy_def)
qed

lemma worker_blocks_ok:
  assumes inv: "pool_inv p" and sh: "shape_ok p o'" and heap: "heap_has base (pool_ms p o') m"
    and i: "i < length (workers p)" and st: "thread_proc i p = Inr p'"
  shows "\<exists>o'' m'. worker_blocks i (wpc (workers p ! i)) o' m = Inr (o'', m') \<and> shape_ok p' o'' \<and> heap_has base (pool_ms p' o'') m'"
  using st
proof (cases rule: thread_procE)
  case none
  then show ?thesis using pop_finds_task[of p i] inv i by (simp add: pool_inv_def)
next
  case (pop t ts)
  then show ?thesis using worker_pop[OF sh i pop(1,2) _ _ _ _ _ heap, of p'] by simp
next
  case run
  define w where "w = (workers p ! i)\<lparr>wpc := W_Test\<rparr>"
  have p': "workers p' = (workers p)[i := w]" "tasks p' = tasks p" "adders p' = adders p" "destroyer p' = destroyer p"
    using run(2) by (auto simp: w_def split: option.split)
  then show ?thesis using worker_run[OF sh i run(1) p' _ heap] run(1) by (simp add: w_def)
next
  case (unlock l)
  then show ?thesis
    using worker_quiet[OF sh i, of "(workers p ! i)\<lparr>wpc := W_Run\<rparr>" p'] heap by (simp add: worker_blocks_def has_task_def)
qed (use worker_quiet[OF sh i, of _ p'] heap in \<open>force simp: worker_blocks_def has_task_def\<close>)+

section \<open>The adding threads\<close>

lemma submit_ok:
  assumes "pool_mem_inv base s" and j: "j < length (adders (pl s))" and a: "adders (pl s) ! j = A_Idle"
  shows "pool_mem_inv base (submit_mem j t s)"
proof -
  have sh: "shape_ok (pl s) (ow s)" and h: "heap_has base (pool_ms (pl s) (ow s)) (mem s)"
    using assms(1) by (simp_all add: pool_mem_inv_def)
  obtain b m1 where 1: "malloc (mem s) = (b, m1)" "heap_has base (add_mset b (pool_ms (pl s) (ow s))) m1"
    using blk.alloc_hasE[OF h] .
  obtain n m2 where 2: "malloc m1 = (n, m2)" "heap_has base (add_mset n (add_mset b (pool_ms (pl s) (ow s)))) m2"
    using blk.alloc_hasE[OF 1(2)] .
  have len: "length (adders_b (ow s)) = length (adders (pl s))" using sh by (simp add: shape_ok_def)
  have "not_queued (adders (pl s) ! j) \<longleftrightarrow> adders_b (ow s) ! j \<noteq> None" using sh j unfolding shape_ok_def by blast
  then have none: "adders_b (ow s) ! j = None" using a by (simp add: not_queued_def del: not_None_eq)
  have "sum_list (map opt_pair_ms ((adders_b (ow s))[j := Some (n, b)])) = sum_list (map opt_pair_ms (adders_b (ow s))) + {#n, b#}"
    using sum_update[of j "adders_b (ow s)" opt_pair_ms "Some (n, b)"] none len j by (simp add: opt_pair_ms_def pair_ms_def)
  moreover have "shape_ok (set_adder j (A_Lock t) (pl s)) ((ow s)\<lparr>adders_b := (adders_b (ow s))[j := Some (n, b)]\<rparr>)"
    using sh j by (auto simp: shape_ok_def nth_list_update not_queued_def)
  ultimately show ?thesis
    using 1(1) 2 by (simp add: submit_mem_def pool_mem_inv_def pool_ms_def add_mset_commute)
qed

lemma adder_live:
  assumes "destroyer p \<noteq> D_Done" and "heap_has base (pool_ms p o') m"
  shows "live (adder_touches a o') m = Inr ()"
proof -
  have "live [] m = Inr ()" by (simp add: live_def)
  then show ?thesis using live_pool[OF assms(2,1)] by (cases a) (simp_all add: adder_touches_def)
qed

lemma adder_append:
  assumes sh: "shape_ok p o'" and heap: "heap_has base (pool_ms p o') m" and j: "j < length (adders p)"
    and a: "adders p ! j = A_Append t"
    and p': "workers p' = workers p" "tasks p' = tasks p @ [t]" "adders p' = (adders p)[j := A_Unlock t]" "destroyer p' = destroyer p"
  shows "\<exists>o''. adder_blocks j (A_Append t) o' m = Inr o'' \<and> shape_ok p' o'' \<and> heap_has base (pool_ms p' o'') m"
proof -
  obtain x where x: "adders_b o' ! j = Some x" and len: "length (adders_b o') = length (adders p)"
    using sh j a by (auto simp: shape_ok_def not_queued_def)
  let ?o = "o'\<lparr>ring_b := ring_b o' @ [x], adders_b := (adders_b o')[j := None]\<rparr>"
  have upd: "sum_list (map opt_pair_ms ((adders_b o')[j := None])) + pair_ms x = sum_list (map opt_pair_ms (adders_b o'))"
    using sum_update[of j "adders_b o'" opt_pair_ms None] x len j by (simp add: opt_pair_ms_def)
  then have "pool_ms p' ?o = pool_ms p o'" using p' by (simp add: pool_ms_def self_ms_def flip: upd)
  moreover have "shape_ok p' ?o" using sh j p' by (auto simp: shape_ok_def nth_list_update not_queued_def)
  moreover have "live (fst x # map fst (take 1 (rev (ring_b o')))) m = Inr ()"
  proof (rule live_has[OF heap])
    have "fst x \<in># pool_ms p o'" by (simp add: pool_ms_def pair_ms_def flip: upd)
    moreover have "fst y \<in># pool_ms p o'" if "y \<in> set (ring_b o')" for y
      using mset_subset_eqD[OF sum_member[OF that, of pair_ms], of "fst y"] by (simp add: pool_ms_def pair_ms_def)
    ultimately show "set (fst x # map fst (take 1 (rev (ring_b o')))) \<subseteq> set_mset (pool_ms p o')"
      using set_take_subset[of 1 "rev (ring_b o')"] by auto
  qed
  ultimately show ?thesis using x heap by (simp add: adder_blocks_def)
qed

lemma adder_blocks_ok:
  assumes sh: "shape_ok p o'" and heap: "heap_has base (pool_ms p o') m" and j: "j < length (adders p)"
    and st: "simple_thread_pool_add_task j p = Inr p'"
  shows "\<exists>o''. adder_blocks j (adders p ! j) o' m = Inr o'' \<and> shape_ok p' o'' \<and> heap_has base (pool_ms p' o'') m"
  using st
proof (cases rule: add_taskE)
  case (append t)
  then show ?thesis using adder_append[OF sh heap j, of t p'] by simp
next
  case (lock t l)
  then have "shape_ok p' o'" using sh j by (auto simp: shape_ok_def nth_list_update not_queued_def)
  moreover have "pool_ms p' o' = pool_ms p o'" using lock by (simp add: pool_ms_def)
  ultimately show ?thesis using lock(1) heap by (simp add: adder_blocks_def)
next
  case (unlock t l)
  then have "shape_ok p' o'" using sh j by (auto simp: shape_ok_def nth_list_update not_queued_def)
  moreover have "pool_ms p' o' = pool_ms p o'" using unlock by (simp add: pool_ms_def)
  ultimately show ?thesis using unlock(1) heap by (simp add: adder_blocks_def)
next
  case (post t)
  then have "shape_ok p' o'" using sh j by (auto simp: shape_ok_def nth_list_update not_queued_def)
  moreover have "pool_ms p' o' = pool_ms p o'" using post by (simp add: pool_ms_def)
  ultimately show ?thesis using post(1) heap by (simp add: adder_blocks_def)
qed

section \<open>The destroying thread\<close>

lemma free_pending_has:
  "heap_has base (sum_list (map pair_ms xs) + M) m \<Longrightarrow> \<exists>m'. free_pending xs m = Inr m' \<and> heap_has base M m'"
proof (induction xs arbitrary: m)
  case (Cons x xs)
  obtain n t where x: "x = (n, t)" by (cases x)
  have "heap_has base (add_mset t (add_mset n (sum_list (map pair_ms xs) + M))) m"
    using Cons.prems by (simp add: x) (simp add: pair_ms_def[of "(n, t)"] add_mset_commute)
  then obtain m1 where 1: "free_block t m = Inr m1" "heap_has base (add_mset n (sum_list (map pair_ms xs) + M)) m1"
    using free_block_has by blast
  then obtain m2 where "free_block n m1 = Inr m2" "heap_has base (sum_list (map pair_ms xs) + M) m2" using free_block_has by blast
  with 1 x Cons.IH show ?case by (simp add: simple_task_destroy_def)
qed simp

lemma destroy_join:
  assumes sh: "shape_ok p o'" and heap: "heap_has base (pool_ms p o') m" and d: "destroyer p = D_Join i"
    and i: "i < length (workers p)" and x: "wpc (rev (workers p) ! i) = W_Exit" and p': "p' = p\<lparr>destroyer := D_Join (Suc i)\<rparr>"
  shows "\<exists>o'' m'. destroy_blocks p o' m = Inr (o'', m') \<and> shape_ok p' o'' \<and> heap_has base (pool_ms p' o'') m'"
proof -
  obtain n t r where r: "threads_b o' = (n, t) # r"
    using sh d i by (cases "threads_b o'") (auto simp: shape_ok_def joined_cnt_def)
  let ?o = "o'\<lparr>threads_b := r\<rparr>"
  have ms: "pool_ms p o' = thread_ms t + add_mset n (pool_ms p' ?o)"
    using r p' d by (simp add: pool_ms_def self_ms_def thread_node_ms_def)
  have "owner (mut new_thread) = None" by (simp add: new_thread_def simple_mutex_create_def)
  then obtain m1 where 1: "simple_thread_join True 0 0 new_thread t m = Inr m1" "heap_has base (add_mset n (pool_ms p' ?o)) m1"
    using thread_join_frees heap ms by metis
  then obtain m2 where "free_block n m1 = Inr m2" "heap_has base (pool_ms p' ?o) m2" using free_block_has by blast
  moreover have "shape_ok p' ?o" using sh r p' d i by (auto simp: shape_ok_def joined_cnt_def)
  ultimately show ?thesis using 1(1) r d x by (simp add: destroy_blocks_def)
qed

text \<open>What is left when every thread has been joined and no \<open>add_task\<close> is running.\<close>

lemma pool_ms_exited:
  assumes sh: "shape_ok p o'" and "\<forall>i<length (workers p). wpc (workers p ! i) = W_Exit"
    and "list_all (\<lambda>a. a = A_Idle) (adders p)" and "destroyer p = D_Free \<or> destroyer p = D_Done"
  shows "pool_ms p o' = self_ms (destroyer p) o' + sum_list (map pair_ms (ring_b o'))"
proof -
  have "sum_list (map hand_ms (zip (workers p) (hands_b o'))) = {#}"
    using assms(2) by (intro sum_none) (auto simp: hand_ms_def has_task_def in_set_conv_nth)
  moreover have "adders_b o' ! j = None" if "j < length (adders p)" for j
  proof -
    have "not_queued (adders p ! j) \<longleftrightarrow> adders_b o' ! j \<noteq> None" using sh that unfolding shape_ok_def by blast
    then show ?thesis using assms(3) that by (simp add: not_queued_def list_all_length del: not_None_eq)
  qed
  then have "sum_list (map opt_pair_ms (adders_b o')) = {#}"
    using sh by (intro sum_none) (auto simp: shape_ok_def opt_pair_ms_def in_set_conv_nth)
  moreover have "threads_b o' = []" using sh assms(4) by (auto simp: shape_ok_def joined_cnt_def)
  ultimately show ?thesis by (simp add: pool_ms_def)
qed

lemma done_none_left:
  assumes "pool_inv p" and sh: "shape_ok p o'" and d: "destroyer p = D_Done" and "tasks p = []"
  shows "pool_ms p o' = {#}"
proof -
  have "\<forall>i<length (workers p). wpc (workers p ! i) = W_Exit" and "list_all (\<lambda>a. a = A_Idle) (adders p)"
    using assms(1) d by (simp_all add: pool_inv_def quit_inv_def)
  from pool_ms_exited[OF sh this] d have "pool_ms p o' = sum_list (map pair_ms (ring_b o'))" by (simp add: self_ms_def)
  moreover have "ring_b o' = []" using sh assms(4) by (simp add: shape_ok_def)
  ultimately show ?thesis by simp
qed

lemma exited_unlocked:
  assumes "lock_inv p" and "\<forall>i<length (workers p). wpc (workers p ! i) = W_Exit" and "list_all (\<lambda>a. a = A_Idle) (adders p)"
  shows "owner (lock p) = None"
proof (rule ccontr)
  assume "owner (lock p) \<noteq> None"
  then obtain u where u: "owner (lock p) = Some u" by blast
  from holder_enabled[OF assms(1) u] assms(2,3) show False
    by (auto simp: thread_proc_def simple_thread_pool_add_task_def list_all_length)
qed

lemma destroy_free:
  assumes inv: "pool_inv p" and sh: "shape_ok p o'" and heap: "heap_has base (pool_ms p o') m"
    and idle: "list_all (\<lambda>a. a = A_Idle) (adders p)" and d: "destroyer p = D_Free"
    and p': "p' = p\<lparr>freed := tasks p, tasks := [], destroyer := D_Done\<rparr>"
  shows "\<exists>o'' m'. destroy_blocks p o' m = Inr (o'', m') \<and> shape_ok p' o'' \<and> heap_has base (pool_ms p' o'') m'"
proof -
  let ?o = "o'\<lparr>ring_b := []\<rparr>"
  have x: "\<forall>i<length (workers p). wpc (workers p ! i) = W_Exit" using inv d by (simp add: pool_inv_def quit_inv_def)
  have "heap_has base (sum_list (map pair_ms (ring_b o')) + {#plock_b o', psem_b o', pool_b o'#}) m"
    using heap pool_ms_exited[OF sh x idle] d by (simp add: self_ms_def add_mset_commute)
  then obtain m1 where 1: "free_pending (ring_b o') m = Inr m1" "heap_has base (mset [plock_b o', psem_b o', pool_b o'] + {#}) m1"
    using free_pending_has by force
  then obtain m2 where 2: "release_all free_block [plock_b o', psem_b o', pool_b o'] m1 = Inr m2" "heap_has base {#} m2"
    using blk.release_all_has by blast
  have "owner (lock p) = None" using exited_unlocked[OF _ x idle] inv by (simp add: pool_inv_def)
  moreover have "filter waits (workers p) = []" using x by (auto simp: filter_empty_conv in_set_conv_nth waits_def)
  then have "count_if waits (workers p) = 0" by (simp add: count_if_def)
  ultimately have "destroy_blocks p o' m = Inr (?o, m2)"
    using 1(1) 2(1) d by (auto simp: destroy_blocks_def)
  moreover have sh': "shape_ok p' ?o" using sh d p' by (auto simp: shape_ok_def joined_cnt_def)
  moreover have "pool_ms p' ?o = {#}" using pool_ms_exited[OF sh'] x idle p' by (simp add: self_ms_def)
  ultimately show ?thesis using 2(2) by simp
qed

lemma destroy_blocks_ok:
  assumes inv: "pool_inv p" and sh: "shape_ok p o'" and heap: "heap_has base (pool_ms p o') m"
    and idle: "list_all (\<lambda>a. a = A_Idle) (adders p)" and st: "simple_thread_pool_destroy p = Inr p'"
  shows "\<exists>o'' m'. destroy_blocks p o' m = Inr (o'', m') \<and> shape_ok p' o'' \<and> heap_has base (pool_ms p' o'') m'"
  using st
proof (cases rule: destroyE)
  case (join i)
  then show ?thesis by (rule destroy_join[OF sh heap])
next
  case free
  then show ?thesis by (rule destroy_free[OF inv sh heap idle])
next
  case (joined i)
  then have "threads_b o' = []" and "shape_ok p' o'" using sh by (auto simp: shape_ok_def joined_cnt_def)
  moreover have "pool_ms p' o' = pool_ms p o'" using joined by (simp add: pool_ms_def self_ms_def)
  ultimately show ?thesis using joined(1) heap by (simp add: destroy_blocks_def)
qed (use sh heap in \<open>auto simp: destroy_blocks_def shape_ok_def joined_cnt_def pool_ms_def self_ms_def\<close>)

lemma destroy_live:
  assumes "heap_has base (pool_ms p o') m"
  shows "live (destroy_touches (destroyer p) o') m = Inr ()"
proof (cases "destroyer p = D_Done")
  case False
  then show ?thesis using live_pool[OF assms False] by (cases "destroyer p") (simp_all add: destroy_touches_def)
qed (simp add: destroy_touches_def live_def)

section \<open>Properties\<close>

lemma create_threads_has:
  "heap_has base (sum_list (map thread_node_ms ts) + M) m \<Longrightarrow> create_threads n ts m = (ts', m') \<Longrightarrow>
   heap_has base (sum_list (map thread_node_ms ts') + M) m' \<and> length ts' = length ts + n"
proof (induction n arbitrary: ts m)
  case (Suc n)
  obtain b m1 where 1: "malloc m = (b, m1)" "heap_has base (add_mset b (sum_list (map thread_node_ms ts) + M)) m1"
    using blk.alloc_hasE[OF Suc.prems(1)] .
  obtain t o' m2 where 2: "simple_thread_create m1 = (t, o', m2)" by (cases "simple_thread_create m1")
  have "heap_has base (thread_ms o' + add_mset b (sum_list (map thread_node_ms ts) + M)) m2"
    using thread_create_has[OF 1(2) 2] by simp
  then have "heap_has base (sum_list (map thread_node_ms ((b, o') # ts)) + M) m2"
    by (simp add: thread_node_ms_def ac_simps)
  from Suc.IH[OF this] Suc.prems(2) 1(1) 2 show ?case by simp
qed simp

lemma create_inv:
  assumes "heap_has (blocks m) {#} m"
  shows "pool_mem_inv (blocks m) (pool_create_mem cnt k m)"
proof -
  obtain p m1 where 1: "malloc m = (p, m1)" "heap_has (blocks m) {#p#} m1" using blk.alloc_hasE[OF assms] .
  obtain s m2 where 2: "malloc m1 = (s, m2)" "heap_has (blocks m) {#s, p#} m2" using blk.alloc_hasE[OF 1(2)] .
  obtain l m3 where 3: "malloc m2 = (l, m3)" "heap_has (blocks m) {#l, s, p#} m3" using blk.alloc_hasE[OF 2(2)] .
  obtain ts m4 where 4: "create_threads (pool_thread_cnt cnt) [] m3 = (ts, m4)"
    by (cases "create_threads (pool_thread_cnt cnt) [] m3")
  have h: "heap_has (blocks m) (sum_list (map thread_node_ms ts) + {#l, s, p#}) m4" "length ts = pool_thread_cnt cnt"
    using create_threads_has[of "blocks m" "[]" "{#l, s, p#}" m3, OF _ 4] 3(2) by simp_all
  have "sum_list (map opt_pair_ms (replicate k None)) = {#}"
    "sum_list (map hand_ms (zip (replicate n \<lparr>wpc = W_Test, task = None\<rparr>) (replicate n None))) = {#}" for n
    by (rule sum_none; auto simp: opt_pair_ms_def hand_ms_def dest: set_zip_rightD)+
  with h 1(1) 2(1) 3(1) 4 show ?thesis
    by (simp add: pool_create_mem_def pool_mem_inv_def simple_thread_pool_create_def shape_ok_def joined_cnt_def
        not_queued_def has_task_def pool_ms_def self_ms_def add_mset_commute)
qed

lemma pool_mem_step_inv:
  assumes "pool_mem_step s s'" and "pool_mem_inv base s" and "pool_inv (pl s)"
  shows "pool_mem_inv base s'"
  using assms(1)
proof (cases rule: pool_mem_step_cases)
  case (worker i)
  from worker(2) show ?thesis
    by (cases rule: thread_proc_memE) (use worker_blocks_ok[OF assms(3)] worker(1) assms(2) in \<open>force simp: pool_mem_inv_def\<close>)
next
  case (submit j t)
  then show ?thesis using submit_ok[OF assms(2)] by simp
next
  case (add j)
  from add(2) show ?thesis
    by (cases rule: add_task_memE) (use adder_blocks_ok add(1) assms(2) in \<open>force simp: pool_mem_inv_def\<close>)
next
  case destroy
  from destroy(2) show ?thesis
    by (cases rule: pool_destroy_memE)
      (use destroy_blocks_ok[OF assms(3)] destroy(1) assms(2) in \<open>force simp: pool_mem_inv_def\<close>)
qed

lemma pool_mem_reachable_inv:
  "pool_mem_reachable cnt k m s \<Longrightarrow> pool_mem_inv (blocks m) s \<and> pool_inv (pl s)"
proof (induction rule: pool_mem_reachable.induct)
  case start
  then show ?case using create_inv[OF start] reachable_inv[OF pool_mem_reachable_pool[OF pool_mem_reachable.start[OF start]]] by blast
next
  case (step s s')
  then show ?case
    using pool_mem_step_inv reachable_inv[OF pool_mem_reachable_pool[OF pool_mem_reachable.step[OF step(1,2)]]] by blast
qed

text \<open>C2: memory safety of the pool, in every interleaving: the pool with its memory does exactly what the
  pool without memory does. So no thread ever uses a block that was freed, frees one twice, or destroys
  the lock or the semaphore while they are in use; and what is allocated at any time is what the caller
  had allocated and what the pool still needs, at the end of \<open>simple_thread_pool_destroy\<close> nothing more.\<close>

theorem pool_memory_safe:
  assumes "pool_mem_reachable cnt k m s"
  shows "(\<forall>i<length (workers (pl s)). map_sum id pl (thread_proc_mem i s) = thread_proc i (pl s)) \<and>
    (\<forall>j<length (adders (pl s)). map_sum id pl (add_task_mem j s) = simple_thread_pool_add_task j (pl s)) \<and>
    (list_all (\<lambda>a. a = A_Idle) (adders (pl s)) \<longrightarrow> map_sum id pl (pool_destroy_mem s) = simple_thread_pool_destroy (pl s)) \<and>
    heap_has (blocks m) (pool_ms (pl s) (ow s)) (mem s) \<and>
    (destroyer (pl s) = D_Done \<longrightarrow> blocks (mem s) = blocks m)"
proof -
  have inv: "pool_inv (pl s)" and sh: "shape_ok (pl s) (ow s)" and heap: "heap_has (blocks m) (pool_ms (pl s) (ow s)) (mem s)"
    using pool_mem_reachable_inv[OF assms] by (simp_all add: pool_mem_inv_def)
  have w: "map_sum id pl (thread_proc_mem i s) = thread_proc i (pl s)" if i: "i < length (workers (pl s))" for i
  proof (cases "thread_proc i (pl s)")
    case (Inr p')
    with worker_blocks_ok[OF inv sh heap i Inr] worker_live[OF inv i heap] show ?thesis
      by (auto simp: thread_proc_mem_def Let_def)
  qed (simp add: thread_proc_mem_def Let_def worker_live[OF inv i heap])
  have l: "live (adder_touches (adders (pl s) ! j) (ow s)) (mem s) = Inr ()" if j: "j < length (adders (pl s))" for j
  proof (cases "destroyer (pl s) = D_Done")
    case True
    then have "adders (pl s) ! j = A_Idle" using inv j by (auto simp: pool_inv_def quit_inv_def list_all_length)
    then show ?thesis by (simp add: adder_touches_def live_def)
  qed (rule adder_live[OF _ heap])
  have a: "map_sum id pl (add_task_mem j s) = simple_thread_pool_add_task j (pl s)" if j: "j < length (adders (pl s))" for j
  proof (cases "simple_thread_pool_add_task j (pl s)")
    case (Inr p')
    with adder_blocks_ok[OF sh heap j Inr] l[OF j] show ?thesis by (auto simp: add_task_mem_def Let_def)
  qed (simp add: add_task_mem_def Let_def l[OF j])
  have "map_sum id pl (pool_destroy_mem s) = simple_thread_pool_destroy (pl s)" if idle: "list_all (\<lambda>a. a = A_Idle) (adders (pl s))"
  proof (cases "simple_thread_pool_destroy (pl s)")
    case (Inr p')
    with destroy_blocks_ok[OF inv sh heap idle Inr] destroy_live[OF heap] show ?thesis
      by (auto simp: pool_destroy_mem_def Let_def)
  qed (simp add: pool_destroy_mem_def Let_def destroy_live[OF heap])
  moreover have "blocks (mem s) = blocks m" if d: "destroyer (pl s) = D_Done"
    using heap done_none_left[OF inv sh d done_no_tasks[OF pool_mem_reachable_pool[OF assms] d]] by (simp add: heap_has_none)
  ultimately show ?thesis using w a heap by blast
qed

text \<open>A whole life of a pool of one worker, for the witness: a task is added, the pool destroyed.\<close>

definition mem_move :: "move \<Rightarrow> pool_mem \<Rightarrow> pool_mem option" where
  "mem_move v s =
     (case v of
        Work i \<Rightarrow> if i < length (workers (pl s)) then (case thread_proc_mem i s of Inr s' \<Rightarrow> Some s' | _ \<Rightarrow> None) else None
      | Submit j t \<Rightarrow>
          if j < length (adders (pl s)) \<and> adders (pl s) ! j = A_Idle \<and> destroyer (pl s) = D_Idle
          then Some (submit_mem j t s) else None
      | Add j \<Rightarrow> if j < length (adders (pl s)) then (case add_task_mem j s of Inr s' \<Rightarrow> Some s' | _ \<Rightarrow> None) else None
      | Destroy \<Rightarrow> if list_all (\<lambda>a. a = A_Idle) (adders (pl s))
                  then (case pool_destroy_mem s of Inr s' \<Rightarrow> Some s' | _ \<Rightarrow> None) else None)"

fun mem_moves :: "move list \<Rightarrow> pool_mem \<Rightarrow> pool_mem option" where
  "mem_moves [] s = Some s"
| "mem_moves (v # vs) s = (case mem_move v s of None \<Rightarrow> None | Some s' \<Rightarrow> mem_moves vs s')"

lemma mem_move_step: "mem_move v s = Some s' \<Longrightarrow> pool_mem_step s s'"
  by (auto simp: mem_move_def split: move.splits if_splits sum.splits intro: pool_mem_step.intros)

lemma mem_moves_reachable: "pool_mem_reachable cnt k m s \<Longrightarrow> mem_moves vs s = Some s' \<Longrightarrow> pool_mem_reachable cnt k m s'"
  by (induction vs arbitrary: s) (auto split: option.splits dest: mem_move_step intro: pool_mem_reachable.step)

definition life_moves :: "move list" where
  "life_moves = [Submit 0 \<lparr>handle = 1, opaque = 2\<rparr>, Add 0, Add 0, Add 0, Add 0,
     Destroy, Work 0, Destroy, Destroy, Destroy, Destroy, Destroy]"

lemmas pool_mem_eval = life_moves_def mem_move_def thread_proc_mem_def thread_proc_def worker_touches_def worker_blocks_def
  live_def submit_mem_def add_task_mem_def adder_touches_def adder_blocks_def simple_thread_pool_add_task_def
  pool_destroy_mem_def destroy_touches_def destroy_blocks_def simple_thread_pool_destroy_def simple_task_destroy_def
  simple_thread_join_def simple_thread_pool_create_def pool_create_mem_def pool_thread_cnt_def simple_thread_create_def
  new_thread_def malloc_def free_block_def set_adder_def set_worker_def simple_sem_create_def simple_sem_post_def
  simple_sem_wait_def simple_mutex_create_def simple_mutex_lock_def simple_mutex_unlock_def sem_max_def count_if_def
  waits_def no_heap_def

lemma sample_life:
  obtains s where "mem_moves life_moves (pool_create_mem 1 1 no_heap) = Some s" and "destroyer (pl s) = D_Done"
    and "length (freed (pl s)) = 1"
proof -
  have "\<exists>s. mem_moves life_moves (pool_create_mem 1 1 no_heap) = Some s \<and> destroyer (pl s) = D_Done \<and>
      length (freed (pl s)) = 1"
    by (simp add: pool_mem_eval Let_def insert_Diff_if cong: bind_r_weak)
  then show thesis using that by blast
qed

lemma pool_mem_start: "pool_mem_reachable cnt k no_heap (pool_create_mem cnt k no_heap)"
  by (rule pool_mem_reachable.start) (simp add: no_heap_def heap_has_def)

theorem pool_memory_safe_witness:
  "\<exists>s. mem_moves life_moves (pool_create_mem 1 1 no_heap) = Some s \<and> length (freed (pl s)) = 1 \<and> blocks (mem s) = {}"
proof -
  obtain s where s: "mem_moves life_moves (pool_create_mem 1 1 no_heap) = Some s" "destroyer (pl s) = D_Done"
    "length (freed (pl s)) = 1" by (rule sample_life)
  have "pool_mem_reachable 1 1 no_heap s" by (rule mem_moves_reachable[OF pool_mem_start s(1)])
  with pool_memory_safe[OF this] s show ?thesis by (simp add: no_heap_def)
qed

end
