(* ===== verification/Trace_Config.thy ===== *)
theory Trace_Config
  imports C_String Complex_Main
begin

text \<open>
  What the tracking program under \<open>src/tmp\<close> reads from its configuration and writes to it.

  \<open>KVConfig\<close> is not part of the repository: its operations are the parameter \<open>kvconfig\<close>, and
  \<open>kv_laws\<close> states what the sources rely on. Numbers in configuration text are read by \<open>atoi\<close>,
  \<open>atof\<close> and \<open>sscanf\<close> of the C library; a double is a real number, its rounding is not modelled.
  The theory also holds \<open>TracePolicy\<close> (\<open>TracePolicy.cpp\<close>) and the texts in which a calibrated
  polygon is stored (\<open>TeacherRunning::key_calibrating_handle\<close>, \<open>load_roi\<close>,
  \<open>Running::build_mask_internal\<close>).
\<close>

section \<open>The configuration\<close>

record 'c kvconfig =
  kv_open :: "string \<Rightarrow> 'c"
  kv_get :: "'c \<Rightarrow> string \<Rightarrow> string option \<Rightarrow> string option"
  kv_set :: "'c \<Rightarrow> string \<Rightarrow> string \<Rightarrow> 'c"
  kv_set_int :: "'c \<Rightarrow> string \<Rightarrow> int \<Rightarrow> 'c"
  kv_save :: "'c \<Rightarrow> 'c"
  kv_file :: "'c \<Rightarrow> 'c"

text \<open>\<open>kv_save\<close> is \<open>save_as (0)\<close>, which writes the values back to the file the configuration was opened from,
  and \<open>kv_file\<close> is what opening that file again would give, that is, what the next start reads. Nothing
  but saving is known to change the file.\<close>

definition kv_laws :: "'c kvconfig \<Rightarrow> bool" where
  "kv_laws K \<longleftrightarrow>
     (\<forall>c k v d. kv_get K (kv_set K c k v) k d = Some v) \<and>
     (\<forall>c k k' v d. k' \<noteq> k \<longrightarrow> kv_get K (kv_set K c k v) k' d = kv_get K c k' d) \<and>
     (\<forall>c k k' i d. k' \<noteq> k \<longrightarrow> kv_get K (kv_set_int K c k i) k' d = kv_get K c k' d) \<and>
     (\<forall>c k d. kv_get K (kv_save K c) k d = kv_get K c k d) \<and>
     (\<forall>c k d. kv_get K (kv_file K (kv_save K c)) k d = kv_get K c k d)"

lemma kv_lawsD:
  assumes "kv_laws K"
  shows "kv_get K (kv_set K c k v) k' d = (if k' = k then Some v else kv_get K c k' d)"
    and "k' \<noteq> k \<Longrightarrow> kv_get K (kv_set_int K c k i) k' d = kv_get K c k' d"
    and "kv_get K (kv_save K c) k d = kv_get K c k d"
    and "kv_get K (kv_file K (kv_save K c)) k d = kv_get K c k d"
  using assms by (auto simp: kv_laws_def)

text \<open>\<open>%d\<close> of an int.\<close>

definition int_str :: "int \<Rightarrow> string" where
  "int_str x = (if x < 0 then CHR ''-'' # dec_str (nat (- x)) else dec_str (nat x))"

section \<open>Numbers in the configuration\<close>

text \<open>\<open>atof\<close>: blanks, a sign, decimal digits with a point, an exponent.\<close>

definition text_sign :: "string \<Rightarrow> bool \<times> string" where
  "text_sign s = (case s of [] \<Rightarrow> (False, [])
     | c # t \<Rightarrow> if c = CHR ''-'' then (True, t) else if c = CHR ''+'' then (False, t) else (False, s))"

definition text_exponent :: "string \<Rightarrow> real" where
  "text_exponent s =
     (case s of [] \<Rightarrow> 1
      | c # t \<Rightarrow>
          if c_tolower c = CHR ''e'' then
            let (neg, t) = text_sign t; n = digits_val (takeWhile is_digit t)
            in if neg then 1 / 10 ^ n else 10 ^ n
          else 1)"

definition c_atof :: "string \<Rightarrow> real" where
  "c_atof s =
     (let (neg, s) = text_sign (dropWhile libc_isspace (c_str s));
          ip = takeWhile is_digit s; s = dropWhile is_digit s;
          (fp, s) = (case s of [] \<Rightarrow> ([], [])
             | c # t \<Rightarrow> if c = CHR ''.'' then (takeWhile is_digit t, dropWhile is_digit t) else ([], s));
          v = (real (digits_val ip) + real (digits_val fp) / 10 ^ length fp) * text_exponent s
      in if neg then - v else v)"

text \<open>\<open>get_value\<close> with a default, and the two conversions around it.\<close>

definition cfg_str :: "'c kvconfig \<Rightarrow> 'c \<Rightarrow> string \<Rightarrow> string \<Rightarrow> string result" where
  "cfg_str K c k d = (case kv_get K c k (Some d) of None \<Rightarrow> Inl Null_Ptr | Some v \<Rightarrow> Inr v)"

definition cfg_int :: "'c kvconfig \<Rightarrow> 'c \<Rightarrow> string \<Rightarrow> string \<Rightarrow> int result" where
  "cfg_int K c k d = bind_r (cfg_str K c k d) c_atoi"

definition cfg_real :: "'c kvconfig \<Rightarrow> 'c \<Rightarrow> string \<Rightarrow> string \<Rightarrow> real result" where
  "cfg_real K c k d = bind_r (cfg_str K c k d) (\<lambda>s. Inr (c_atof s))"

text \<open>What evaluates a number in a text.\<close>

lemmas text_number = c_atoi_def c_atof_def text_sign_def text_exponent_def c_str_def libc_isspace_def is_digit_def
  digits_val_def digit_val_def c_tolower_def

text \<open>The conversion of a double to int.\<close>

definition c_trunc :: "real \<Rightarrow> int result" where
  "c_trunc x = c_int (if 0 \<le> x then \<lfloor>x\<rfloor> else \<lceil>x\<rceil>)"

text \<open>The division of ints, which truncates towards zero.\<close>

definition c_div :: "int \<Rightarrow> int \<Rightarrow> int result" where
  "c_div a b = (if b = 0 then Inl Div_Zero else c_int (a sdiv b))"

lemma c_div_pos: "0 \<le> a \<Longrightarrow> int_ok a \<Longrightarrow> 0 < b \<Longrightarrow> c_div a b = Inr (a div b)"
proof -
  assume a: "0 \<le> a" "int_ok a" "0 < b"
  have "a div b \<le> a div 1" using a by (intro zdiv_mono2) auto
  moreover have "0 \<le> a div b" using a by (simp add: pos_imp_zdiv_nonneg_iff)
  moreover have "a div b < 2 ^ 31" using calculation(1) a(2) by (simp add: int_ok_def)
  ultimately show ?thesis using a by (simp add: c_div_def sdiv_nonneg c_int_def int_ok_def)
qed

section \<open>The tracing policy\<close>

text \<open>The policy is a second configuration, whose file name the first one holds.\<close>

record 'c TracePolicy =
  cfg_policy :: 'c

definition load_policy_data :: "'c kvconfig \<Rightarrow> 'c \<Rightarrow> 'c TracePolicy result" where
  "load_policy_data K c =
     bind_r (cfg_str K c ''trace_policy'' ''simple.trace.policy.config'') (\<lambda>name.
     Inr \<lparr>cfg_policy = kv_open K name\<rparr>)"

definition time_to_reset_ptz :: "'c kvconfig \<Rightarrow> 'c TracePolicy \<Rightarrow> real result" where
  "time_to_reset_ptz K p = cfg_real K (cfg_policy p) ''time_to_reset_ptz'' ''5.0''"

definition time_to_stop_tracing :: "'c kvconfig \<Rightarrow> 'c TracePolicy \<Rightarrow> real result" where
  "time_to_stop_tracing K p = cfg_real K (cfg_policy p) ''time_to_stop_tracing'' ''0.8''"

definition analyze_interval :: "'c kvconfig \<Rightarrow> 'c TracePolicy \<Rightarrow> real result" where
  "analyze_interval K p = cfg_real K (cfg_policy p) ''analyze_interval'' ''3.0''"

definition time_to_fullview_after_no_target :: "'c kvconfig \<Rightarrow> 'c TracePolicy \<Rightarrow> real result" where
  "time_to_fullview_after_no_target K p =
     cfg_real K (cfg_policy p) ''time_to_fullview_after_no_target'' ''1.0''"

definition time_to_closeview :: "'c kvconfig \<Rightarrow> 'c TracePolicy \<Rightarrow> real result" where
  "time_to_closeview K p = cfg_real K (cfg_policy p) ''time_to_closeview'' ''1.5''"

section \<open>Polygons in text\<close>

type_synonym point = "int \<times> int"

text \<open>\<open>%d\<close> of \<open>sscanf\<close>: the number and the rest, or no conversion.\<close>

definition scan_int :: "string \<Rightarrow> (int \<times> string) option result" where
  "scan_int s =
     (let (neg, t) = text_sign (dropWhile libc_isspace s); ds = takeWhile is_digit t
      in if ds = [] then Inr None
         else bind_r (c_int (if neg then - int (digits_val ds) else int (digits_val ds))) (\<lambda>v.
              Inr (Some (v, dropWhile is_digit t))))"

text \<open>\<open>sscanf (p, "%d,%d", &x, &y) == 2\<close>.\<close>

definition scan_point :: "string \<Rightarrow> point option result" where
  "scan_point s =
     bind_r (scan_int s) (\<lambda>r.
     case r of None \<Rightarrow> Inr None
     | Some (x, t) \<Rightarrow>
         (case t of [] \<Rightarrow> Inr None
          | c # t \<Rightarrow>
              if c = CHR '','' then
                bind_r (scan_int t) (\<lambda>r. Inr (case r of None \<Rightarrow> None | Some (y, _) \<Rightarrow> Some (x, y)))
              else Inr None))"

function points_loop :: "string \<Rightarrow> point list \<Rightarrow> point list result" where
  "points_loop str pts =
     (case strtok (CHR '';'') str of
        None \<Rightarrow> Inr pts
      | Some (p, rest) \<Rightarrow>
          bind_r (scan_point p) (\<lambda>q.
          points_loop rest (case q of None \<Rightarrow> pts | Some q \<Rightarrow> pts @ [q])))"
  by pat_completeness auto
termination by (relation "measure (\<lambda>(str, pts). length str)") (auto dest: strtok_shorter)

declare points_loop.simps [simp del]

definition load_points :: "'c kvconfig \<Rightarrow> 'c \<Rightarrow> string \<Rightarrow> point list result" where
  "load_points K c key =
     (case kv_get K c key None of None \<Rightarrow> Inr [] | Some pts \<Rightarrow> points_loop (c_str pts) [])"

text \<open>Writing: \<open>sprintf (pts+n, "%d,%d;", x, y)\<close> for every point, in the 4096 bytes of \<open>pts\<close>.\<close>

definition point_text :: "point \<Rightarrow> string" where
  "point_text p = int_str (fst p) @ '','' @ int_str (snd p) @ '';''"

definition polygon_text :: "point list \<Rightarrow> string" where
  "polygon_text ps = concat (map point_text ps)"

fun put_points :: "string \<Rightarrow> int \<Rightarrow> point list \<Rightarrow> (string \<times> int) result" where
  "put_points b n [] = Inr (b, n)"
| "put_points b n (p # ps) = bind_r (put_text b n (point_text p)) (\<lambda>(b, n). put_points b n ps)"

definition points_to_text :: "(nat \<Rightarrow> char) \<Rightarrow> point list \<Rightarrow> string result" where
  "points_to_text stack ps =
     bind_r (mem_write (map stack [0..<4096]) 0 [NUL]) (\<lambda>b.
     bind_r (put_points b 0 ps) (\<lambda>(b, n). Inr (c_str b)))"

text \<open>A room's configuration: its polygon, one area, a camera; its file is kept up to date with every change.\<close>

definition sample_edges :: "point list" where
  "sample_edges = [(100, 400), (860, 400), (860, 500), (100, 500)]"

definition sample_cfg :: "(string \<times> string) list" where
  "sample_cfg = [(''calibration_data2'', polygon_text sample_edges), (''teacher_area'', ''1''), (''ptz_serial_name'', ''COM1'')]"

text \<open>A configuration kept as a list of pairs satisfies the laws.\<close>

definition assoc_config :: "(string \<times> string) list kvconfig" where
  "assoc_config =
     \<lparr>kv_open = (\<lambda>name. if name = ''room.cfg'' then sample_cfg else []),
      kv_get = (\<lambda>c k d. case map_of c k of None \<Rightarrow> d | Some v \<Rightarrow> Some v),
      kv_set = (\<lambda>c k v. (k, v) # c),
      kv_set_int = (\<lambda>c k i. (k, int_str i) # c),
      kv_save = id, kv_file = id\<rparr>"

lemma assoc_config_laws: "kv_laws assoc_config"
  by (simp add: kv_laws_def assoc_config_def)

section \<open>Reading back what was written\<close>

lemma digits_end: "rest = [] \<or> \<not> is_digit (hd rest) \<Longrightarrow> list_all is_digit ds \<Longrightarrow>
   takeWhile is_digit (ds @ rest) = ds \<and> dropWhile is_digit (ds @ rest) = rest"
  by (cases rest; induction ds; simp)

lemma dec_str_hd: "\<exists>c s. dec_str n = c # s \<and> is_digit c"
  using dec_str_props(1,2)[of n] by (cases "dec_str n") auto

lemma scan_int_dec:
  assumes "rest = [] \<or> \<not> is_digit (hd rest)"
  shows "text_sign (dec_str n @ rest) = (False, dec_str n @ rest)"
    and "dropWhile libc_isspace (dec_str n @ rest) = dec_str n @ rest"
    and "takeWhile is_digit (dec_str n @ rest) = dec_str n"
    and "dropWhile is_digit (dec_str n @ rest) = rest"
  using dec_str_hd[of n] digits_end[OF assms dec_str_props(2)[of n]]
  by (auto simp: text_sign_def is_digit_other)

lemma scan_int_str:
  assumes x: "int_ok x" and r: "rest = [] \<or> \<not> is_digit (hd rest)"
  shows "scan_int (int_str x @ rest) = Inr (Some (x, rest))"
proof (cases "x < 0")
  case True
  have "libc_isspace CHR ''-'' = False" by (simp add: libc_isspace_def)
  then show ?thesis
    using True x scan_int_dec[OF r, of "nat (- x)"]
    by (simp add: scan_int_def int_str_def text_sign_def dec_str_props int_ok_def)
next
  case False
  then show ?thesis
    using x scan_int_dec[OF r, of "nat x"]
    by (simp add: scan_int_def int_str_def dec_str_props int_ok_def)
qed

definition point_ok :: "point \<Rightarrow> bool" where
  "point_ok p \<longleftrightarrow> int_ok (fst p) \<and> int_ok (snd p)"

lemma not_digits: "\<not> is_digit CHR '',''" "\<not> is_digit CHR '';''" "\<not> is_digit CHR ''-''"
  by (simp_all add: is_digit_def)

lemma scan_point_text:
  "point_ok p \<Longrightarrow> scan_point (int_str (fst p) @ CHR '','' # int_str (snd p)) = Inr (Some p)"
  using scan_int_str[of "fst p" "CHR '','' # int_str (snd p)"] scan_int_str[of "snd p" "[]"]
  by (simp add: scan_point_def point_ok_def not_digits)

lemma int_str_chars: "c \<in> set (int_str x) \<Longrightarrow> is_digit c \<or> c = CHR ''-''"
  using dec_str_props(2) by (auto simp: int_str_def list_all_iff split: if_splits)

lemma int_str_free: "CHR '';'' \<notin> set (int_str x)" "NUL \<notin> set (int_str x)" "int_str x \<noteq> []"
proof -
  show "CHR '';'' \<notin> set (int_str x)" using not_digits int_str_chars[of "CHR '';''" x] by auto
  show "NUL \<notin> set (int_str x)" using is_digit_other int_str_chars[of NUL x] by auto
  show "int_str x \<noteq> []" using dec_str_props(1) by (simp add: int_str_def)
qed

lemma strtok_token:
  assumes "p \<noteq> []" and "d \<notin> set p"
  shows "strtok d (p @ d # rest) = Some (p, rest)"
proof -
  have "dropWhile (\<lambda>c. c = d) (p @ d # rest) = p @ d # rest"
    using assms by (cases p) auto
  moreover have "takeWhile (\<lambda>c. c \<noteq> d) (p @ d # rest) = p" "dropWhile (\<lambda>c. c \<noteq> d) (p @ d # rest) = d # rest"
    using assms(2) by (induction p) auto
  ultimately show ?thesis by (simp add: strtok_def)
qed

lemma strtok_point:
  "strtok (CHR '';'') (point_text p @ rest) = Some (int_str (fst p) @ CHR '','' # int_str (snd p), rest)"
  using strtok_token[of "int_str (fst p) @ CHR '','' # int_str (snd p)" "CHR '';''" rest] int_str_free
  by (simp add: point_text_def)

lemma points_loop_text: "list_all point_ok ps \<Longrightarrow> points_loop (polygon_text ps) acc = Inr (acc @ ps)"
proof (induction ps arbitrary: acc)
  case Nil
  then show ?case by (subst points_loop.simps) (simp add: polygon_text_def strtok_def)
next
  case (Cons p ps)
  then show ?case
    using strtok_point[of p "polygon_text ps"]
    by (subst points_loop.simps) (simp add: polygon_text_def scan_point_text)
qed

lemma nul_free_polygon [simp]: "nul_free (polygon_text ps)"
  using int_str_free(2) by (auto simp: nul_free_def polygon_text_def point_text_def)

lemma put_points_at:
  assumes "take (length pre + 1) b = pre @ [NUL]" and "length pre + length (polygon_text ps) < length b"
  shows "\<exists>b' n. put_points b (int (length pre)) ps = Inr (b', n) \<and>
     take (length (pre @ polygon_text ps) + 1) b' = pre @ polygon_text ps @ [NUL]"
  using assms
proof (induction ps arbitrary: pre b)
  case Nil
  then show ?case by (simp add: polygon_text_def)
next
  case (Cons p ps)
  let ?t = "point_text p" and ?b = "take (length pre) b @ (point_text p @ [NUL]) @ drop (length pre + length (point_text p) + 1) b"
  have len: "length pre + length ?t < length b" using Cons.prems(2) by (simp add: polygon_text_def)
  then have w: "put_text b (int (length pre)) ?t = Inr (?b, int (length (pre @ ?t)))"
    by (simp add: put_text_def mem_write_ok)
  have "take (length pre) b = pre"
    using Cons.prems(1) len by (metis append_eq_conv_conj le_add1 min.absorb1 take_take)
  then have "take (length (pre @ ?t) + 1) ?b = (pre @ ?t) @ [NUL]" "length ?b = length b"
    using len by simp_all
  with Cons.IH[of "pre @ ?t" ?b] Cons.prems(2) w show ?case by (simp add: polygon_text_def)
qed

lemma put_points_full:
  assumes "length b \<le> n + length (polygon_text ps)" and "n < length b"
  shows "put_points b (int n) ps = Inl Mem_Bounds"
  using assms
proof (induction ps arbitrary: n b)
  case Nil
  then show ?case by (simp add: polygon_text_def)
next
  case (Cons p ps)
  show ?case
  proof (cases "n + length (point_text p) < length b")
    case True
    then obtain b' where w: "put_text b (int n) (point_text p) = Inr (b', int (n + length (point_text p)))"
        "length b' = length b"
      by (simp add: put_text_def mem_write_ok)
    with Cons.IH[of b' "n + length (point_text p)"] Cons.prems True show ?thesis
      by (simp add: polygon_text_def)
  next
    case False
    then show ?thesis by (simp add: put_text_full)
  qed
qed

text \<open>The text that is stored, and when it does not fit.\<close>

lemma points_to_text_eq:
  "points_to_text stack ps =
     (if length (polygon_text ps) < 4096 then Inr (polygon_text ps) else Inl Mem_Bounds)"
proof -
  let ?b = "NUL # drop 1 (map stack [0..<4096])"
  have w: "mem_write (map stack [0..<4096]) 0 [NUL] = Inr ?b" by (simp add: mem_write_ok)
  show ?thesis
  proof (cases "length (polygon_text ps) < 4096")
    case True
    obtain b' n where b': "put_points ?b 0 ps = Inr (b', n)"
        "take (length (polygon_text ps) + 1) b' = polygon_text ps @ [NUL]"
      using put_points_at[of "[]" ?b ps] True by auto
    then obtain r where "b' = polygon_text ps @ NUL # r"
      by (metis append.assoc append_Cons append_Nil append_take_drop_id)
    then have "c_str b' = polygon_text ps" by (simp add: c_str_append_NUL)
    with b'(1) True show ?thesis by (simp add: points_to_text_def w del: upt_Suc)
  next
    case False
    then have "put_points ?b 0 ps = Inl Mem_Bounds"
      using put_points_full[of ?b 0 ps] by simp
    with False show ?thesis by (simp add: points_to_text_def w)
  qed
qed

text \<open>A coordinate takes at most 11 characters, so 170 points always fit.\<close>

lemma int_str_length: "int_ok x \<Longrightarrow> length (int_str x) \<le> 11"
proof -
  assume x: "int_ok x"
  then have "nat (- x) < 10 ^ Suc 9" "nat x < 10 ^ Suc 9" by (auto simp: int_ok_def)
  then show ?thesis
    using dec_str_length[of "nat (- x)" 9] dec_str_length[of "nat x" 9] by (auto simp: int_str_def)
qed

lemma polygon_text_length: "list_all point_ok ps \<Longrightarrow> length (polygon_text ps) \<le> 24 * length ps"
proof (induction ps)
  case (Cons p ps)
  then show ?case
    using int_str_length[of "fst p"] int_str_length[of "snd p"]
    by (simp add: polygon_text_def point_text_def point_ok_def)
qed (simp add: polygon_text_def)

end
