(* ===== verification/Running_Base.thy ===== *)
theory Running_Base
  imports Trace_Config
begin

text \<open>
  \<open>Running.h\<close> and \<open>Running.cpp\<close>: the common base of the teacher's and the student's tracking, which
  scales, corrects and masks the pictures, and \<open>WindowThread\<close>, the queues of pictures to show.

  OpenCV and the scaler are not part of the repository: a picture is the term of the operations that
  made it, and a mask is what the code fills: a background and white polygons on it.
\<close>

section \<open>Pictures\<close>

record mask =
  white_ground :: bool
  polygons :: "point list list"

datatype colour = Red | Green | Yellow | Cyan

datatype draw =
    Draw_Rect point point colour
  | Draw_Line point point colour
  | Draw_Text string point colour
  | Draw_Circle point int colour

datatype image = Frame nat int int | Corrected image | Masked image mask | Drawn image "draw list"

definition cvZero :: "mask \<Rightarrow> mask" where
  "cvZero m = \<lparr>white_ground = False, polygons = []\<rparr>"

definition cvSet_white :: "mask \<Rightarrow> mask" where
  "cvSet_white m = \<lparr>white_ground = True, polygons = []\<rparr>"

definition cvFillPoly :: "point list \<Rightarrow> mask \<Rightarrow> mask" where
  "cvFillPoly ps m = m\<lparr>polygons := polygons m @ [ps]\<rparr>"

text \<open>No pixel of such a mask is white.\<close>

definition black :: "mask \<Rightarrow> bool" where
  "black m \<longleftrightarrow> \<not> white_ground m \<and> polygons m = []"

section \<open>The windows\<close>

record window_thread =
  wt_quit :: bool
  teacher_enabled :: bool
  student_enabled :: bool
  teacher_detect_images :: "image list"
  teacher_trace_images :: "image list"
  student_detect_images :: "image list"
  student_trace_images :: "image list"
  shown :: "image list"

definition WindowThread_open :: "bool \<Rightarrow> bool \<Rightarrow> window_thread" where
  "WindowThread_open te se =
     \<lparr>wt_quit = False, teacher_enabled = te, student_enabled = se, teacher_detect_images = [],
      teacher_trace_images = [], student_detect_images = [], student_trace_images = [], shown = []\<rparr>"

definition showImage :: "bool \<Rightarrow> bool \<Rightarrow> image \<Rightarrow> window_thread \<Rightarrow> window_thread" where
  "showImage teacher detect img w =
     (if teacher then
        if detect then w\<lparr>teacher_detect_images := teacher_detect_images w @ [img]\<rparr>
        else w\<lparr>teacher_trace_images := teacher_trace_images w @ [img]\<rparr>
      else
        if detect then w\<lparr>student_detect_images := student_detect_images w @ [img]\<rparr>
        else w\<lparr>student_trace_images := student_trace_images w @ [img]\<rparr>)"

text \<open>\<open>showimage\<close>: show and drop everything in a queue; the pictures shown go to the list.\<close>

fun showimage :: "image list \<Rightarrow> image list \<Rightarrow> image list \<times> image list" where
  "showimage out [] = (out, [])"
| "showimage out (img # imgs) = showimage (out @ [img]) imgs"

text \<open>The drawing part of one turn of the main loop.\<close>

definition show_turn :: "window_thread \<Rightarrow> window_thread" where
  "show_turn w =
     (let w = (if teacher_enabled w then
                 let (out, q) = showimage (shown w) (teacher_detect_images w);
                     (out, q2) = showimage out (teacher_trace_images w)
                 in w\<lparr>shown := out, teacher_detect_images := q, teacher_trace_images := q2\<rparr>
               else w)
      in if student_enabled w then
           let (out, q) = showimage (shown w) (student_detect_images w);
               (out, q2) = showimage out (student_trace_images w)
           in w\<lparr>shown := out, student_detect_images := q, student_trace_images := q2\<rparr>
         else w)"

section \<open>The base class\<close>

text \<open>\<open>scale_dims\<close> is the size and format the scaler was last built for, detecting and tracing.\<close>

record 'c Running =
  cfg :: 'c
  distortion :: int
  mask_opt :: int
  enabled_mask :: bool
  img_mask :: "mask option"
  masked :: bool
  width :: int
  height :: int
  width_tracing :: int
  height_tracing :: int
  debug :: int
  scale_dims :: "bool \<Rightarrow> (int \<times> int \<times> int) option"
  scalers_built :: nat

definition build_mask_internal :: "'c kvconfig \<Rightarrow> string \<Rightarrow> mask \<Rightarrow> 'c Running \<Rightarrow> (bool \<times> mask) result" where
  "build_mask_internal K key img r =
     bind_r (load_points K (cfg r) key) (\<lambda>points.
     if length points > 3 then
       let img = (if \<not> masked r then cvZero img else img)
       in Inr (True, cvFillPoly points img)
     else Inr (False, img))"

definition build_mask :: "'c kvconfig \<Rightarrow> string option \<Rightarrow> string option \<Rightarrow> 'c Running \<Rightarrow> (mask \<times> 'c Running) result" where
  "build_mask K key key2 r =
     (let img = \<lparr>white_ground = False, polygons = []\<rparr>;
          img = (if masked r then cvZero img else cvSet_white img) in
      bind_r (case key of None \<Rightarrow> Inr (img, r)
              | Some k \<Rightarrow> bind_r (build_mask_internal K k img r) (\<lambda>(b, img). Inr (img, r\<lparr>masked := b\<rparr>))) (\<lambda>(img, r).
      bind_r (case key2 of None \<Rightarrow> Inr img
              | Some k \<Rightarrow> bind_r (build_mask_internal K k img r) (\<lambda>(b, img). Inr img)) (\<lambda>img.
      Inr (img, r))))"

definition enable_mask :: "bool \<Rightarrow> 'c Running \<Rightarrow> 'c Running" where
  "enable_mask b r = r\<lparr>enabled_mask := b\<rparr>"

definition do_mask :: "image \<Rightarrow> 'c Running \<Rightarrow> image option" where
  "do_mask img r =
     (if enabled_mask r then (case img_mask r of None \<Rightarrow> None | Some m \<Rightarrow> Some (Masked img m)) else None)"

definition Running_open :: "'c kvconfig \<Rightarrow> 'c \<Rightarrow> 'c Running result" where
  "Running_open K c =
     bind_r (cfg_int K c ''distortion_correction'' ''0'') (\<lambda>dis.
     bind_r (cfg_int K c ''video_width'' ''960'') (\<lambda>w.
     bind_r (cfg_int K c ''video_height'' ''540'') (\<lambda>h.
     bind_r (cfg_int K c ''video_width'' ''960'') (\<lambda>wt.
     bind_r (cfg_int K c ''video_height'' ''540'') (\<lambda>ht.
     bind_r (cfg_int K c ''debug'' ''0'') (\<lambda>dbg.
     bind_r (cfg_int K c ''mask'' ''1'') (\<lambda>mk.
     let r = \<lparr>cfg = c, distortion = dis, mask_opt = mk, enabled_mask = True, img_mask = None, masked = False,
              width = w, height = h, width_tracing = wt, height_tracing = ht, debug = dbg,
              scale_dims = (\<lambda>_. None), scalers_built = 0\<rparr> in
     if mk \<noteq> 0 then
       bind_r (cfg_int K c ''hog_enabled'' ''0'') (\<lambda>hog.
       bind_r (if hog \<noteq> 0 then build_mask K (Some ''calibration_data'') None r
               else build_mask K (Some ''calibration_data2'') (Some ''calibration_data3'') r) (\<lambda>(m, r).
       Inr (r\<lparr>img_mask := Some m\<rparr>)))
     else Inr r)))))))"

text \<open>\<open>chk_scale\<close>: the scaler is rebuilt when the size or the format changes; \<open>sws\<close> says whether
  \<open>sws_getContext\<close> gives one, else the program exits.\<close>

definition chk_scale :: "(int \<Rightarrow> int \<Rightarrow> int \<Rightarrow> bool) \<Rightarrow> bool \<Rightarrow> int \<Rightarrow> int \<Rightarrow> int \<Rightarrow> 'c Running \<Rightarrow> ('c Running \<times> int) result" where
  "chk_scale sws tracing w h fmt r =
     (if scale_dims r tracing \<noteq> Some (w, h, fmt) then
        if sws w h fmt
        then Inr (r\<lparr>scale_dims := (scale_dims r)(tracing := Some (w, h, fmt)), scalers_built := scalers_built r + 1\<rparr>, 1)
        else Inl Stuck
      else Inr (r, 0))"

text \<open>The pictures \<open>write_img\<close> hands to \<open>one_image\<close>: the raw one and the masked one. \<open>n\<close> names the frame.\<close>

definition write_img ::
    "(int \<Rightarrow> int \<Rightarrow> int \<Rightarrow> bool) \<Rightarrow> int \<Rightarrow> int \<Rightarrow> int \<Rightarrow> nat \<Rightarrow> 'c Running \<Rightarrow> ('c Running \<times> image \<times> image option) result" where
  "write_img sws w h fmt n r =
     bind_r (chk_scale sws False w h fmt r) (\<lambda>(r, _).
     let img = Frame n (width r) (height r) in
     if distortion r \<noteq> 0 then
       let img_dis = Corrected img; img_masked = do_mask img_dis r in Inr (r, img, img_masked)
     else
       let img_masked = do_mask img r in Inr (r, img, img_masked))"

definition write_img_tracing ::
    "(int \<Rightarrow> int \<Rightarrow> int \<Rightarrow> bool) \<Rightarrow> int \<Rightarrow> int \<Rightarrow> int \<Rightarrow> nat \<Rightarrow> 'c Running \<Rightarrow> ('c Running \<times> image) result" where
  "write_img_tracing sws w h fmt n r =
     bind_r (chk_scale sws True w h fmt r) (\<lambda>(r, _). Inr (r, Frame n (width_tracing r) (height_tracing r)))"

section \<open>What a side promises\<close>

text \<open>\<open>Running\<close> is driven by events (keys, clicks, pictures) that its derived classes handle. \<open>run_all\<close> handles
  a list of them and stops at the first fault; \<open>reach\<close> are the states from a constructor on.\<close>

fun run_all :: "('e \<Rightarrow> 's \<Rightarrow> 's result) \<Rightarrow> 'e list \<Rightarrow> 's \<Rightarrow> 's result" where
  "run_all h [] s = Inr s"
| "run_all h (e # es) s = bind_r (h e s) (run_all h es)"

inductive reach :: "('s \<Rightarrow> bool) \<Rightarrow> ('e \<Rightarrow> 's \<Rightarrow> 's result) \<Rightarrow> 's \<Rightarrow> bool" for opened h where
  opened: "opened s \<Longrightarrow> reach opened h s"
| event: "reach opened h s \<Longrightarrow> h e s = Inr s' \<Longrightarrow> reach opened h s'"

lemma run_all_append: "run_all h (es @ fs) s = bind_r (run_all h es s) (run_all h fs)"
proof (induction es arbitrary: s)
  case (Cons e es)
  then show ?case by (cases "h e s") auto
qed simp

text \<open>The contract of a derived class: its constructor makes a consistent object, its handlers keep it so.\<close>

locale tracking_side =
  fixes opened :: "'s \<Rightarrow> bool"
    and handler :: "'e \<Rightarrow> 's \<Rightarrow> 's result"
    and consistent :: "'s \<Rightarrow> bool"
  assumes opened_consistent: "opened s \<Longrightarrow> consistent s"
    and handler_consistent: "consistent s \<Longrightarrow> handler e s = Inr s' \<Longrightarrow> consistent s'"
begin

lemma reach_consistent: "reach opened handler s \<Longrightarrow> consistent s"
  by (induction rule: reach.induct) (auto intro: opened_consistent handler_consistent)

lemma run_consistent: "consistent s \<Longrightarrow> run_all handler es s = Inr s' \<Longrightarrow> consistent s'"
proof (induction es arbitrary: s)
  case (Cons e es)
  then obtain s1 where "handler e s = Inr s1" "run_all handler es s1 = Inr s'" by auto
  with Cons show ?case by (blast intro: handler_consistent)
qed simp

end

section \<open>What the mask is\<close>

definition big_polygons :: "point list list \<Rightarrow> point list list" where
  "big_polygons pss = filter (\<lambda>ps. length ps > 3) pss"

lemma build_mask_two:
  assumes "load_points K (cfg r) k = Inr ps" and "load_points K (cfg r) k2 = Inr ps2"
  shows "build_mask K (Some k) (Some k2) r =
     Inr (\<lparr>white_ground = (big_polygons [ps, ps2] = [] \<and> \<not> masked r), polygons = big_polygons [ps, ps2]\<rparr>,
          r\<lparr>masked := length ps > 3\<rparr>)"
  using assms
  by (auto simp: build_mask_def build_mask_internal_def Let_def big_polygons_def cvZero_def cvSet_white_def cvFillPoly_def)

lemma build_mask_one:
  assumes "load_points K (cfg r) k = Inr ps"
  shows "build_mask K (Some k) None r =
     Inr (\<lparr>white_ground = (big_polygons [ps] = [] \<and> \<not> masked r), polygons = big_polygons [ps]\<rparr>,
          r\<lparr>masked := length ps > 3\<rparr>)"
  using assms
  by (auto simp: build_mask_def build_mask_internal_def Let_def big_polygons_def cvZero_def cvSet_white_def cvFillPoly_def)

text \<open>a mask built while an earlier one was in use forgets to start from white: with neither polygon in
  the configuration any more the new mask is black everywhere, and every picture the detector gets
  afterwards is empty.\<close>

theorem cleared_mask_is_black:
  assumes "masked r" and "load_points K (cfg r) k = Inr ps" and "length ps \<le> 3"
    and "load_points K (cfg r) k2 = Inr ps2" and "length ps2 \<le> 3"
  shows "\<exists>m r'. build_mask K (Some k) (Some k2) r = Inr (m, r') \<and> black m"
  using build_mask_two[OF assms(2,4)] assms by (simp add: big_polygons_def black_def)

definition sample_running :: "(string \<times> string) list Running" where
  "sample_running =
     \<lparr>cfg = [], distortion = 0, mask_opt = 1, enabled_mask = True, img_mask = None, masked = True, width = 960,
      height = 540, width_tracing = 960, height_tracing = 540, debug = 0, scale_dims = (\<lambda>_. None), scalers_built = 0\<rparr>"

theorem cleared_mask_is_black_witness:
  "\<exists>m r'. build_mask assoc_config (Some ''calibration_data2'') (Some ''calibration_data3'') sample_running = Inr (m, r') \<and>
     black m"
  by (rule cleared_mask_is_black[of _ _ _ "[]" _ "[]"])
    (simp_all add: sample_running_def load_points_def assoc_config_def)

text \<open>whatever frames come, the picture handed on is the whole frame, masked by the current mask exactly
  when masking is enabled; but the raw picture is the uncorrected one even when distortion correction
  is configured, so without a mask the correction is lost. The scaler is rebuilt only when the size or
  the format of the input changes.\<close>

theorem write_img_pictures:
  assumes "write_img sws w h fmt n r = Inr (r', raw, m)"
  shows "raw = Frame n (width r) (height r) \<and>
    m = (case img_mask r of None \<Rightarrow> None
         | Some k \<Rightarrow> if enabled_mask r then Some (Masked (if distortion r = 0 then raw else Corrected raw) k) else None) \<and>
    scalers_built r' = scalers_built r + (if scale_dims r False = Some (w, h, fmt) then 0 else 1) \<and>
    scale_dims r' False = Some (w, h, fmt)"
  using assms
  by (auto simp: write_img_def chk_scale_def do_mask_def Let_def split: if_splits option.splits)

theorem write_img_pictures_witness:
  "\<exists>r'. write_img (\<lambda>_ _ _. True) 640 480 0 7 (sample_running\<lparr>distortion := 1\<rparr>) = Inr (r', Frame 7 960 540, None)"
proof -
  obtain r' raw m where w: "write_img (\<lambda>_ _ _. True) 640 480 0 7 (sample_running\<lparr>distortion := 1\<rparr>) = Inr (r', raw, m)"
    by (simp add: write_img_def chk_scale_def sample_running_def Let_def)
  from write_img_pictures[OF w] w show ?thesis by (simp add: sample_running_def)
qed

text \<open>The window thread shows every picture of an enabled window in the order of arrival.\<close>

lemma showimage_all: "showimage out imgs = (out @ imgs, [])"
  by (induction imgs arbitrary: out) auto

text \<open>pictures for a window that is switched off pile up: no turn of the window thread ever takes them
  out of their queue.\<close>

theorem disabled_windows_pile_up:
  assumes "\<not> teacher_enabled w"
  shows "teacher_detect_images (((\<lambda>w. show_turn (showImage True True img w)) ^^ n) w) =
    teacher_detect_images w @ replicate n img"
proof -
  have step: "teacher_detect_images (show_turn (showImage True True img v)) = teacher_detect_images v @ [img] \<and>
      \<not> teacher_enabled (show_turn (showImage True True img v))" if "\<not> teacher_enabled v" for v
    using that by (auto simp: show_turn_def showImage_def showimage_all Let_def)
  have "teacher_detect_images (((\<lambda>w. show_turn (showImage True True img w)) ^^ n) w) =
      teacher_detect_images w @ replicate n img \<and> \<not> teacher_enabled (((\<lambda>w. show_turn (showImage True True img w)) ^^ n) w)"
    using step assms by (induction n) (auto simp: replicate_append_same)
  then show ?thesis by blast
qed

theorem disabled_windows_pile_up_witness:
  "length (teacher_detect_images (((\<lambda>w. show_turn (showImage True True (Frame 0 1 1) w)) ^^ 9) (WindowThread_open False True))) = 9"
  using disabled_windows_pile_up[of "WindowThread_open False True" 9 "Frame 0 1 1"] by (simp add: WindowThread_open_def)

end
