(* ===== verification/Teacher_Debounce.thy ===== *)
theory Teacher_Debounce
  imports Trace_Config
begin

text \<open>
  The filters through which \<open>TeacherPtz\<close> sees the detector: \<open>AreaDuration\<close> and \<open>ChkValidData\<close> of
  \<open>TeacherPtz.h\<close>, \<open>StateDuration.h\<close>, and the angle computation of \<open>TeacherDetecting.cpp\<close>. Time
  stamps are seconds, read from the clock by the caller. The member \<open>state_\<close> of \<open>AreaDuration\<close> is
  never read or written and is left out.
\<close>

section \<open>How long the target has been seen\<close>

record AreaDuration =
  ad_area :: int
  dur_valid :: real
  dur_invalid :: real
  dur_valid_area :: real
  ad_last :: real
  contious_cnt :: int
  ad_valid :: bool

definition CONTINIOUS_COUNT :: int where
  "CONTINIOUS_COUNT = 2"

definition AreaDuration_init :: AreaDuration where
  "AreaDuration_init =
     \<lparr>ad_area = -1, dur_valid = 0, dur_invalid = 0, dur_valid_area = 0, ad_last = -1,
      contious_cnt = CONTINIOUS_COUNT, ad_valid = False\<rparr>"

definition set_area :: "int \<Rightarrow> AreaDuration \<Rightarrow> AreaDuration" where
  "set_area i a =
     (let changed = (ad_area a \<noteq> i); a = a\<lparr>ad_area := i\<rparr>
      in if changed then a\<lparr>dur_valid_area := 0\<rparr> else a)"

definition set_valid_stamp :: "real \<Rightarrow> AreaDuration \<Rightarrow> AreaDuration" where
  "set_valid_stamp stamp a =
     (let a = (if ad_last a > 0
               then a\<lparr>dur_valid := dur_valid a + (stamp - ad_last a),
                      dur_valid_area := dur_valid_area a + (stamp - ad_last a)\<rparr> else a);
          a = a\<lparr>ad_last := stamp\<rparr>
      in if \<not> ad_valid a then
           let a = a\<lparr>contious_cnt := contious_cnt a - 1\<rparr>
           in if contious_cnt a = 0
              then a\<lparr>contious_cnt := CONTINIOUS_COUNT, ad_valid := True, dur_invalid := 0\<rparr> else a
         else a\<lparr>contious_cnt := CONTINIOUS_COUNT\<rparr>)"

definition set_invalid_stamp :: "real \<Rightarrow> AreaDuration \<Rightarrow> AreaDuration" where
  "set_invalid_stamp stamp a =
     (let a = (if ad_last a > 0 then a\<lparr>dur_invalid := dur_invalid a + (stamp - ad_last a)\<rparr> else a);
          a = a\<lparr>ad_last := stamp\<rparr>
      in if ad_valid a then
           let a = a\<lparr>contious_cnt := contious_cnt a - 1\<rparr>
           in if contious_cnt a = 0
              then a\<lparr>contious_cnt := CONTINIOUS_COUNT, ad_valid := False, dur_valid_area := 0, dur_valid := 0\<rparr>
              else a
         else a\<lparr>contious_cnt := CONTINIOUS_COUNT\<rparr>)"

definition valid_duration :: "AreaDuration \<Rightarrow> real" where
  "valid_duration a = (if ad_valid a then dur_valid a else 0)"

definition valid_duration_area :: "AreaDuration \<Rightarrow> real" where
  "valid_duration_area a = (if ad_valid a then dur_valid_area a else 0)"

definition invalid_duration :: "AreaDuration \<Rightarrow> real" where
  "invalid_duration a = (if \<not> ad_valid a then dur_invalid a else 0)"

section \<open>The second filter\<close>

record ChkValidData =
  cv_last :: bool
  cv_curr :: bool
  cv_cnt :: int
  changed_stamp :: real

definition VALID_CONTIOUS :: int where
  "VALID_CONTIOUS = 5"

definition ChkValidData_init :: "real \<Rightarrow> ChkValidData" where
  "ChkValidData_init now = \<lparr>cv_last = False, cv_curr = False, cv_cnt = VALID_CONTIOUS, changed_stamp = now\<rparr>"

definition ChkValidData_update :: "bool \<Rightarrow> real \<Rightarrow> ChkValidData \<Rightarrow> ChkValidData \<times> bool" where
  "ChkValidData_update d stamp c =
     (if d = cv_last c then
        if d = cv_curr c then (c, cv_curr c)
        else
          let c = c\<lparr>cv_cnt := cv_cnt c - 1\<rparr>
          in if cv_cnt c \<le> 0
             then (c\<lparr>cv_cnt := VALID_CONTIOUS, cv_curr := d, changed_stamp := stamp\<rparr>, d)
             else (c, cv_curr c)
      else (c\<lparr>cv_last := d, cv_cnt := VALID_CONTIOUS\<rparr>, cv_curr c))"

definition ChkValidData_duration :: "real \<Rightarrow> ChkValidData \<Rightarrow> real" where
  "ChkValidData_duration c d = c - changed_stamp d"

text \<open>\<open>StateDuration\<close>: since when a state has been the same. The state itself is set by the first
  \<open>set_state\<close>, before it the stamp is negative.\<close>

record StateDuration =
  sd_state :: int
  sd_stamp :: real

definition StateDuration_init :: "int \<Rightarrow> StateDuration" where
  "StateDuration_init garbage = \<lparr>sd_state = garbage, sd_stamp = -1\<rparr>"

definition StateDuration_set_state :: "int \<Rightarrow> real \<Rightarrow> StateDuration \<Rightarrow> StateDuration" where
  "StateDuration_set_state s now d =
     (if sd_stamp d < 0 \<or> s \<noteq> sd_state d then d\<lparr>sd_state := s, sd_stamp := now\<rparr> else d)"

definition StateDuration_duration :: "real \<Rightarrow> StateDuration \<Rightarrow> real" where
  "StateDuration_duration now d = now - sd_stamp d"

section \<open>The angle of a position\<close>

record Cal_Angle =
  angle_left :: real
  angle_right :: real
  p_left :: real
  p_right :: real

definition angle_at :: "Cal_Angle \<Rightarrow> real \<Rightarrow> real" where
  "angle_at t p =
     (let mid_len = \<bar>p_right t - p_left t\<bar> / (tan (angle_left t) + tan (angle_right t));
          left_len = mid_len * tan (angle_left t);
          m_l_angle = arctan ((left_len - (p - p_left t)) / mid_len)
      in angle_left t - m_l_angle)"

text \<open>\<open>get_angle\<close> itself: with an empty strip, or edges at the same angle, the divisions give no number.\<close>

definition get_angle :: "Cal_Angle \<Rightarrow> real \<Rightarrow> real result" where
  "get_angle t p =
     (if p_right t = p_left t \<or> tan (angle_left t) + tan (angle_right t) = 0 then Inl Div_Zero
      else Inr (angle_at t p))"

section \<open>Two frames switch the state\<close>

type_synonym frame = "bool \<times> real"

definition ad_frame :: "frame \<Rightarrow> AreaDuration \<Rightarrow> AreaDuration" where
  "ad_frame f a = (if fst f then set_valid_stamp (snd f) a else set_invalid_stamp (snd f) a)"

definition ad_run :: "frame list \<Rightarrow> AreaDuration \<Rightarrow> AreaDuration" where
  "ad_run fs a = fold ad_frame fs a"

text \<open>The state that two equal frames in a row decide, latest frame first.\<close>

fun two_in_a_row :: "bool list \<Rightarrow> bool" where
  "two_in_a_row (v # w # h) = (if v = w then v else two_in_a_row (w # h))"
| "two_in_a_row _ = False"

definition ad_inv :: "bool list \<Rightarrow> AreaDuration \<Rightarrow> bool" where
  "ad_inv h a \<longleftrightarrow> ad_valid a = two_in_a_row h \<and>
     contious_cnt a = (case h of [] \<Rightarrow> 2 | v # _ \<Rightarrow> if v = ad_valid a then 2 else 1)"

lemma ad_frame_inv: "ad_inv h a \<Longrightarrow> ad_inv (fst f # h) (ad_frame f a)"
  by (cases h; cases "fst f"; cases "ad_valid a")
    (auto simp: ad_inv_def ad_frame_def set_valid_stamp_def set_invalid_stamp_def Let_def CONTINIOUS_COUNT_def
      split: if_splits)

lemma ad_run_inv: "ad_inv h a \<Longrightarrow> ad_inv (rev (map fst fs) @ h) (ad_run fs a)"
proof (induction fs arbitrary: h a)
  case (Cons f fs)
  from Cons.IH[OF ad_frame_inv[OF Cons.prems]] show ?case by (simp add: ad_run_def)
qed (simp add: ad_run_def)

text \<open>C27: the state of \<open>AreaDuration\<close> after any frames is the value of the latest two equal frames in a
  row, invalid before any: a single frame without a target, or with one, never changes it.\<close>

theorem area_duration_debounces:
  "ad_valid (ad_run fs AreaDuration_init) = two_in_a_row (rev (map fst fs))"
proof -
  have "ad_inv [] AreaDuration_init" by (simp add: ad_inv_def AreaDuration_init_def CONTINIOUS_COUNT_def)
  from ad_run_inv[OF this, of fs] show ?thesis by (simp add: ad_inv_def)
qed

section \<open>The durations\<close>

text \<open>With increasing stamps the durations are between zero and the time since the first frame, and the
  time in the area is part of the time with a target.\<close>

definition dur_inv :: "real \<Rightarrow> AreaDuration \<Rightarrow> bool" where
  "dur_inv t0 a \<longleftrightarrow> 0 \<le> dur_valid_area a \<and> dur_valid_area a \<le> dur_valid a \<and> 0 \<le> dur_invalid a \<and>
     (if ad_last a > 0 then t0 \<le> ad_last a \<and> dur_valid a \<le> ad_last a - t0 \<and> dur_invalid a \<le> ad_last a - t0
      else dur_valid a = 0 \<and> dur_invalid a = 0)"

lemma ad_frame_dur:
  assumes "dur_inv t0 a" and "0 < t0" and "t0 \<le> snd f" and "ad_last a \<le> snd f"
  shows "dur_inv t0 (ad_frame f a) \<and> ad_last (ad_frame f a) = snd f"
  using assms
  by (auto simp: dur_inv_def ad_frame_def set_valid_stamp_def set_invalid_stamp_def Let_def)

lemma set_area_dur: "dur_inv t0 a \<Longrightarrow> dur_inv t0 (set_area i a)"
  by (auto simp: dur_inv_def set_area_def Let_def split: if_splits)

definition glitch_frames :: "frame list" where
  "glitch_frames =
     [(True, 1), (True, 2), (False, 4), (True, 5), (False, 7), (True, 8), (False, 10), (True, 11),
      (False, 11.2), (False, 11.4)]"

text \<open>an isolated frame without a target is added to \<open>duration_invalid_\<close> although it does not change
  the state, and nothing takes it out again when the target is really lost: there is a run of
  increasing stamps in which the target was seen 0.4 seconds ago and \<open>invalid_duration\<close> already exceeds
  the 5 seconds after which \<open>set_detected_data\<close> resets the camera.\<close>

theorem isolated_losses_add_up:
  "sorted (map snd glitch_frames) \<and> (True, 11) \<in> set glitch_frames \<and> snd (last glitch_frames) = 11.4 \<and>
   invalid_duration (ad_run glitch_frames AreaDuration_init) = 6.4"
  by (simp add: glitch_frames_def ad_run_def ad_frame_def set_valid_stamp_def set_invalid_stamp_def Let_def
      AreaDuration_init_def CONTINIOUS_COUNT_def invalid_duration_def)

section \<open>Six frames switch the second filter\<close>

definition cv_run :: "frame list \<Rightarrow> ChkValidData \<Rightarrow> ChkValidData" where
  "cv_run fs c = fold (\<lambda>f c. fst (ChkValidData_update (fst f) (snd f) c)) fs c"

text \<open>How often the latest value was repeated, and the value six equal frames decide.\<close>

fun run_length :: "bool list \<Rightarrow> nat" where
  "run_length (v # w # h) = (if v = w then run_length (w # h) + 1 else 1)"
| "run_length [v] = 1"
| "run_length [] = 0"

fun six_in_a_row :: "bool list \<Rightarrow> bool" where
  "six_in_a_row [] = False"
| "six_in_a_row (v # h) = (if 6 \<le> run_length (v # h) then v else six_in_a_row h)"

definition cv_inv :: "bool list \<Rightarrow> ChkValidData \<Rightarrow> bool" where
  "cv_inv h c \<longleftrightarrow> cv_curr c = six_in_a_row h \<and> cv_last c = (case h of [] \<Rightarrow> False | v # _ \<Rightarrow> v) \<and>
     (cv_last c \<noteq> cv_curr c \<longrightarrow> cv_cnt c = 6 - int (run_length h) \<and> run_length h < 6)"

lemma run_length_pos: "run_length (v # h) \<ge> 1"
  by (cases h) auto

lemma cv_update_inv:
  assumes "cv_inv h c"
  shows "cv_inv (d # h) (fst (ChkValidData_update d s c))"
proof (cases h)
  case Nil
  then show ?thesis
    using assms by (auto simp: cv_inv_def ChkValidData_update_def Let_def VALID_CONTIOUS_def)
next
  case (Cons v h')
  then show ?thesis
    using assms run_length_pos[of v h'] by (auto simp: cv_inv_def ChkValidData_update_def Let_def VALID_CONTIOUS_def)
qed

lemma cv_run_inv: "cv_inv h c \<Longrightarrow> cv_inv (rev (map fst fs) @ h) (cv_run fs c)"
proof (induction fs arbitrary: h c)
  case (Cons f fs)
  from Cons.IH[OF cv_update_inv[OF Cons.prems, of "fst f" "snd f"]] show ?case by (simp add: cv_run_def)
qed (simp add: cv_run_def)

text \<open>the value of \<open>ChkValidData\<close> after any frames is that of the latest six equal frames in a row,
  not of five as \<open>VALID_CONTIOUS\<close> says: the frame that changes \<open>last_valid\<close> is not counted.\<close>

theorem chk_valid_debounces:
  "cv_curr (cv_run fs (ChkValidData_init t)) = six_in_a_row (rev (map fst fs))"
proof -
  have "cv_inv [] (ChkValidData_init t)" by (simp add: cv_inv_def ChkValidData_init_def)
  from cv_run_inv[OF this, of fs] show ?thesis by (simp add: cv_inv_def)
qed

section \<open>From a position to an angle\<close>

definition cal_ok :: "Cal_Angle \<Rightarrow> bool" where
  "cal_ok t \<longleftrightarrow> 0 \<le> angle_left t \<and> angle_left t < pi / 2 \<and> 0 \<le> angle_right t \<and> angle_right t < pi / 2 \<and>
     0 < angle_left t + angle_right t \<and> p_left t < p_right t"

lemma cal_tan:
  assumes "cal_ok t"
  shows "0 \<le> tan (angle_left t)" "0 \<le> tan (angle_right t)" "0 < tan (angle_left t) + tan (angle_right t)"
proof -
  have nn: "0 \<le> a \<Longrightarrow> a < pi / 2 \<Longrightarrow> 0 \<le> tan a" for a :: real
    using tan_gt_zero[of a] by (cases "a = 0") auto
  show l: "0 \<le> tan (angle_left t)" and r: "0 \<le> tan (angle_right t)"
    using assms nn by (simp_all add: cal_ok_def)
  have "0 < angle_left t \<or> 0 < angle_right t" using assms by (auto simp: cal_ok_def)
  then have "0 < tan (angle_left t) \<or> 0 < tan (angle_right t)"
    using assms tan_gt_zero by (auto simp: cal_ok_def)
  with l r show "0 < tan (angle_left t) + tan (angle_right t)" by auto
qed

definition mid_len :: "Cal_Angle \<Rightarrow> real" where
  "mid_len t = (p_right t - p_left t) / (tan (angle_left t) + tan (angle_right t))"

lemma angle_at_eq:
  assumes "cal_ok t"
  shows "0 < mid_len t"
    and "angle_at t p = angle_left t - arctan (tan (angle_left t) - (p - p_left t) / mid_len t)"
proof -
  show m: "0 < mid_len t" using assms cal_tan[OF assms] by (simp add: mid_len_def cal_ok_def)
  have "\<bar>p_right t - p_left t\<bar> = p_right t - p_left t" using assms by (simp add: cal_ok_def)
  then have "angle_at t p = angle_left t - arctan ((mid_len t * tan (angle_left t) - (p - p_left t)) / mid_len t)"
    by (simp add: angle_at_def mid_len_def Let_def)
  also have "(mid_len t * tan (angle_left t) - (p - p_left t)) / mid_len t = tan (angle_left t) - (p - p_left t) / mid_len t"
    using m by (simp add: field_simps)
  finally show "angle_at t p = angle_left t - arctan (tan (angle_left t) - (p - p_left t) / mid_len t)" .
qed

lemma angle_at_mono: "cal_ok t \<Longrightarrow> p < q \<Longrightarrow> angle_at t p < angle_at t q"
  using angle_at_eq(1)[of t] by (simp add: angle_at_eq(2) arctan_less_iff divide_strict_right_mono)

lemma angle_at_left: "cal_ok t \<Longrightarrow> angle_at t (p_left t) = 0"
  using pi_gt_zero by (simp add: angle_at_eq cal_ok_def arctan_tan)

lemma angle_at_right: 
  assumes "cal_ok t"
  shows "angle_at t (p_right t) = angle_left t + angle_right t"
proof -
  have "(p_right t - p_left t) / mid_len t = tan (angle_left t) + tan (angle_right t)"
    using assms cal_tan[OF assms] by (simp add: mid_len_def cal_ok_def)
  then have "angle_at t (p_right t) = angle_left t - arctan (- tan (angle_right t))"
    using assms by (simp add: angle_at_eq)
  then show ?thesis using assms pi_gt_zero by (simp add: cal_ok_def arctan_minus arctan_tan)
qed

text \<open>\<open>TeacherDetecting::get_angle\<close> maps the calibrated strip onto the arc between its edges: 0 at the
  left edge, the whole angle at the right edge, strictly increasing between them.\<close>

theorem get_angle_spans:
  assumes "cal_ok t"
  shows "get_angle t (p_left t) = Inr 0 \<and> get_angle t (p_right t) = Inr (angle_left t + angle_right t) \<and>
    (\<forall>p q. p < q \<longrightarrow> (\<exists>a b. get_angle t p = Inr a \<and> get_angle t q = Inr b \<and> a < b))"
  using assms cal_tan[OF assms]
  by (simp add: get_angle_def angle_at_left angle_at_right angle_at_mono) (simp add: cal_ok_def)

lemma get_angle_between:
  assumes "cal_ok t" and "p_left t \<le> p" and "p \<le> p_right t"
  shows "get_angle t p = Inr (angle_at t p)" "0 \<le> angle_at t p" "angle_at t p \<le> angle_left t + angle_right t"
proof -
  show "get_angle t p = Inr (angle_at t p)"
    using assms(1) cal_tan[OF assms(1)] by (simp add: get_angle_def) (simp add: cal_ok_def)
  show "0 \<le> angle_at t p" "angle_at t p \<le> angle_left t + angle_right t"
    using angle_at_mono[OF assms(1), of "p_left t" p] angle_at_mono[OF assms(1), of p "p_right t"] assms
      angle_at_left[OF assms(1)] angle_at_right[OF assms(1)]
    by (cases "p = p_left t"; cases "p = p_right t"; auto)+
qed

definition wide_view :: Cal_Angle where
  "wide_view = \<lparr>angle_left = pi / 4, angle_right = pi / 4, p_left = 100, p_right = 860\<rparr>"

theorem get_angle_spans_witness:
  "get_angle wide_view 100 = Inr 0 \<and> get_angle wide_view 860 = Inr (pi / 2)"
  using get_angle_spans[of wide_view] pi_gt_zero by (simp add: cal_ok_def wide_view_def)

end
