(* ===== verification/Ptz_Worker.thy ===== *)
theory Ptz_Worker
  imports Trace_Config
begin

text \<open>
  The pan-tilt-zoom camera: \<open>ptz_oper.h\<close> and \<open>ptz_oper.cpp\<close> (its asynchronous tasks), \<open>Ptz.h\<close> and
  \<open>Ptz.cpp\<close> (the thread that works them off), and the task thread of \<open>StudentRunningImpl.cpp\<close>.

  The camera library behind \<open>ptz_t\<close> is not part of the repository: a call of it is an element of
  the command log. \<open>add\<close>, \<open>next_task\<close> and the constructor hold the mutex \<open>cs_\<close> for one atomic step
  each; \<open>sem_.post ()\<close> is a step of its own, so \<open>posting\<close> counts the threads between the two.
\<close>

section \<open>Commands and directions\<close>

datatype Dir = LEFT | RIGHT | UP | DOWN | UPLEFT | UPRIGHT | DOWNLEFT | DOWNRIGHT | MIDDLE

datatype ptz_cmd =
    Cmd_left int | Cmd_right int | Cmd_up int | Cmd_down int | Cmd_stop
  | Cmd_zoom_tele int | Cmd_zoom_wide int | Cmd_zoom_stop | Cmd_zoom_set int
  | Cmd_set_absolute_position int int int
  | Cmd_ext_location_center real real int int
  | Cmd_sleep int

text \<open>\<open>atan2\<close> of the C library.\<close>

definition c_atan2 :: "real \<Rightarrow> real \<Rightarrow> real" where
  "c_atan2 y x =
     (if x > 0 then arctan (y / x)
      else if x < 0 then (if y \<ge> 0 then arctan (y / x) + pi else arctan (y / x) - pi)
      else if y > 0 then pi / 2 else if y < 0 then - (pi / 2) else 0)"

definition ptz_dirs :: "Dir list" where
  "ptz_dirs = [LEFT, UPLEFT, UP, UPRIGHT, RIGHT, DOWNRIGHT, DOWN, DOWNLEFT]"

text \<open>The sector of 45 degrees in which the vector lies.\<close>

definition ptz_dir_index :: "real \<Rightarrow> real \<Rightarrow> int result" where
  "ptz_dir_index x y =
     (let a = c_atan2 y x + pi / 8;
          a = (if a < 0 then a + 2 * pi else a);
          a = a * 180 / pi
      in c_trunc (a / 45))"

text \<open>\<open>ptz_get_dir\<close>; an index outside the table executes the breakpoint \<open>int 3\<close>.\<close>

definition ptz_get_dir :: "point \<Rightarrow> point \<Rightarrow> Dir result" where
  "ptz_get_dir a b =
     bind_r (c_int (fst b - fst a)) (\<lambda>dx.
     bind_r (c_int (snd b - snd a)) (\<lambda>dy.
     let x = real_of_int dx; y = real_of_int dy in
     if sqrt (x ^ 2 + y ^ 2) < 5 then Inr MIDDLE
     else
       bind_r (ptz_dir_index x y) (\<lambda>index.
       if index < 0 \<or> index \<ge> 8 then Inl Stuck else Inr (ptz_dirs ! nat index))))"

section \<open>Tasks\<close>

datatype task_opaque =
    Opaque_ptz_move int int int      \<comment> \<open>speed, timeout, dir\<close>
  | Opaque_ptz_zoom bool int int     \<comment> \<open>tele, speed, timeout\<close>
  | Opaque_ptz_center real real int  \<comment> \<open>hr, vr, speed\<close>
  | Opaque_ptz_reset int int int     \<comment> \<open>h, v, z\<close>

datatype task_fn = Fn_move | Fn_zoom | Fn_center | Fn_reset

record Task =
  should_do :: "(int \<Rightarrow> bool) option"
  handle_fn :: "task_fn option"
  free_fn :: "task_fn option"
  opaque_arg :: task_opaque

definition task_ptz_move_handle :: "Task \<Rightarrow> ptz_cmd list result" where
  "task_ptz_move_handle t =
     (case opaque_arg t of
        Opaque_ptz_move speed timeout dir \<Rightarrow>
          Inr ((if dir = 1 then [Cmd_left speed] else if dir = 2 then [Cmd_right speed]
                else if dir = 3 then [Cmd_up speed] else if dir = 4 then [Cmd_down speed] else []) @
               [Cmd_sleep timeout, Cmd_stop])
      | _ \<Rightarrow> Inl Mem_Bounds)"

definition task_ptz_zoom_handle :: "Task \<Rightarrow> ptz_cmd list result" where
  "task_ptz_zoom_handle t =
     (case opaque_arg t of
        Opaque_ptz_zoom tele speed timeout \<Rightarrow>
          Inr [if tele then Cmd_zoom_tele speed else Cmd_zoom_wide speed, Cmd_sleep timeout, Cmd_zoom_stop]
      | _ \<Rightarrow> Inl Mem_Bounds)"

definition task_ptz_center_handle :: "Task \<Rightarrow> ptz_cmd list result" where
  "task_ptz_center_handle t =
     (case opaque_arg t of
        Opaque_ptz_center hr vr speed \<Rightarrow> Inr [Cmd_ext_location_center hr vr speed 0]
      | _ \<Rightarrow> Inl Mem_Bounds)"

definition task_ptz_reset_handle :: "Task \<Rightarrow> ptz_cmd list result" where
  "task_ptz_reset_handle t =
     (case opaque_arg t of
        Opaque_ptz_reset h v z \<Rightarrow> Inr [Cmd_zoom_set z, Cmd_set_absolute_position h v 30]
      | _ \<Rightarrow> Inl Mem_Bounds)"

fun call_handle :: "task_fn \<Rightarrow> Task \<Rightarrow> ptz_cmd list result" where
  "call_handle Fn_move t = task_ptz_move_handle t"
| "call_handle Fn_zoom t = task_ptz_zoom_handle t"
| "call_handle Fn_center t = task_ptz_center_handle t"
| "call_handle Fn_reset t = task_ptz_reset_handle t"

text \<open>The constructors return the null pointer without a camera.\<close>

definition task_ptz_move :: "bool \<Rightarrow> int \<Rightarrow> int \<Rightarrow> int \<Rightarrow> Task option" where
  "task_ptz_move ptz dir speed timeout =
     (if \<not> ptz then None
      else Some \<lparr>should_do = None, handle_fn = Some Fn_move, free_fn = Some Fn_move,
                 opaque_arg = Opaque_ptz_move speed timeout dir\<rparr>)"

definition task_ptz_zoom :: "bool \<Rightarrow> bool \<Rightarrow> int \<Rightarrow> int \<Rightarrow> Task option" where
  "task_ptz_zoom ptz tele speed timeout =
     (if \<not> ptz then None
      else Some \<lparr>should_do = None, handle_fn = Some Fn_zoom, free_fn = Some Fn_zoom,
                 opaque_arg = Opaque_ptz_zoom tele speed timeout\<rparr>)"

definition task_ptz_center :: "bool \<Rightarrow> real \<Rightarrow> real \<Rightarrow> int \<Rightarrow> Task option" where
  "task_ptz_center ptz hr vr speed =
     (if \<not> ptz then None
      else Some \<lparr>should_do = None, handle_fn = Some Fn_center, free_fn = Some Fn_center,
                 opaque_arg = Opaque_ptz_center hr vr speed\<rparr>)"

definition task_ptz_reset :: "bool \<Rightarrow> int \<Rightarrow> int \<Rightarrow> int \<Rightarrow> Task option" where
  "task_ptz_reset ptz h v z =
     (if \<not> ptz then None
      else Some \<lparr>should_do = None, handle_fn = Some Fn_reset, free_fn = Some Fn_reset,
                 opaque_arg = Opaque_ptz_reset h v z\<rparr>)"

definition task_ptz_set_position :: "bool \<Rightarrow> int \<Rightarrow> int \<Rightarrow> int \<Rightarrow> Task option" where
  "task_ptz_set_position ptz h v z = (if \<not> ptz then None else task_ptz_reset ptz h v z)"

section \<open>The worker of \<open>Ptz\<close>\<close>

datatype ppc = P_Reset | P_Test | P_Wait | P_Next | P_Exec Task | P_Done
datatype kpc = K_Idle | K_Join | K_Done

text \<open>\<open>all_added\<close>, \<open>worked\<close> and \<open>leaked\<close> are history: the tasks that entered the queue, those the worker
  finished, and those that were dropped without being freed. \<open>camera\<close> is the command log.\<close>

record Ptz =
  has_ptz :: bool
  ptz_quit :: bool
  ptz_sem :: nat
  ptz_tasks :: "Task list"
  posting :: nat
  worker_pc :: ppc
  killer :: kpc
  camera :: "ptz_cmd list"
  all_added :: "Task list"
  worked :: "Task list"
  leaked :: "Task list"

definition opt_list :: "'a option \<Rightarrow> 'a list" where
  "opt_list x = (case x of None \<Rightarrow> [] | Some x \<Rightarrow> [x])"

definition ptz_start :: "bool \<Rightarrow> Ptz" where
  "ptz_start cam = \<lparr>has_ptz = cam, ptz_quit = False, ptz_sem = 0, ptz_tasks = [], posting = 0,
     worker_pc = P_Reset, killer = K_Idle, camera = [], all_added = [], worked = [], leaked = []\<rparr>"

text \<open>\<open>PtzParam\<close>, without the converter of zoom values, which is not part of the repository.\<close>

record PtzParam =
  pp_focus :: real
  pp_view_angle_hori :: real
  pp_view_angle_verb :: real
  pp_ccd_hori :: real
  pp_ccd_verb :: real
  pp_min_angle_hori :: real
  pp_min_angle_verb :: real

definition load_ptz_params :: "'c kvconfig \<Rightarrow> 'c \<Rightarrow> PtzParam result" where
  "load_ptz_params K c =
     bind_r (cfg_real K c ''cam_trace_f'' ''3.5'') (\<lambda>f.
     bind_r (cfg_real K c ''cam_trace_ccd_w'' ''5.1326'') (\<lambda>cw.
     bind_r (cfg_real K c ''cam_trace_ccd_h'' ''2.8852'') (\<lambda>ch.
     bind_r (cfg_real K c ''cam_trace_min_hangle'' ''0.075'') (\<lambda>mh.
     bind_r (cfg_real K c ''cam_trace_min_vangle'' ''0.075'') (\<lambda>mv.
     bind_r (cfg_real K c ''cam_trace_view_hangle'' ''72.5'') (\<lambda>vh.
     bind_r (cfg_real K c ''cam_trace_view_vangle'' ''44.8'') (\<lambda>vv.
     Inr \<lparr>pp_focus = f, pp_view_angle_hori = vh, pp_view_angle_verb = vv, pp_ccd_hori = cw, pp_ccd_verb = ch,
          pp_min_angle_hori = mh, pp_min_angle_verb = mv\<rparr>)))))))"

text \<open>\<open>Ptz::Ptz\<close>: the camera is opened when a serial port is configured (\<open>port\<close> is \<open>ptz_open\<close>). The value
  is the state the threads share, and the parameters, which never change.\<close>

definition Ptz_open :: "'c kvconfig \<Rightarrow> 'c \<Rightarrow> (string \<Rightarrow> int \<Rightarrow> bool) \<Rightarrow> (Ptz \<times> PtzParam) result" where
  "Ptz_open K c port =
     bind_r (cfg_str K c ''ptz_serial_name'' ''COMX'') (\<lambda>name.
     bind_r (if c_str name \<noteq> ''COMX''
             then bind_r (cfg_int K c ''ptz_addr'' ''1'') (\<lambda>addr. Inr (port name addr))
             else Inr False) (\<lambda>p.
     bind_r (load_ptz_params K c) (\<lambda>prm.
     Inr (ptz_start p, prm))))"

text \<open>\<open>add\<close>: the locked part, and the post behind it.\<close>

definition Ptz_push :: "Task option \<Rightarrow> Ptz \<Rightarrow> Ptz" where
  "Ptz_push t p = p\<lparr>ptz_tasks := ptz_tasks p @ opt_list t, all_added := all_added p @ opt_list t, posting := posting p + 1\<rparr>"

definition Ptz_post :: "Ptz \<Rightarrow> Ptz" where
  "Ptz_post p = p\<lparr>posting := posting p - 1, ptz_sem := ptz_sem p + 1\<rparr>"

definition Ptz_add :: "Task option \<Rightarrow> Ptz \<Rightarrow> Ptz" where
  "Ptz_add t p = Ptz_post (Ptz_push t p)"

definition Ptz_reset_ptz :: "'c kvconfig \<Rightarrow> 'c \<Rightarrow> Ptz \<Rightarrow> Ptz result" where
  "Ptz_reset_ptz K c p =
     (if has_ptz p then
        bind_r (cfg_int K c ''ptz_init_x'' ''0'') (\<lambda>h.
        bind_r (cfg_int K c ''ptz_init_y'' ''0'') (\<lambda>v.
        bind_r (cfg_int K c ''ptz_init_z'' ''5000'') (\<lambda>z.
        Inr (Ptz_add (task_ptz_reset (has_ptz p) h v z) p))))
      else Inr p)"

definition Ptz_next_task :: "Ptz \<Rightarrow> Task option \<times> Ptz" where
  "Ptz_next_task p = (case ptz_tasks p of [] \<Rightarrow> (None, p) | t # ts \<Rightarrow> (Some t, p\<lparr>ptz_tasks := ts\<rparr>))"

text \<open>\<open>exec_task\<close>; \<open>now\<close> is what the call of \<open>now ()\<close> returns. A task that \<open>should_do\<close> rejects is not freed.\<close>

definition Ptz_exec_task :: "int \<Rightarrow> Task \<Rightarrow> Ptz \<Rightarrow> Ptz result" where
  "Ptz_exec_task now t p =
     (if (case should_do t of None \<Rightarrow> False | Some f \<Rightarrow> \<not> f now) then Inr (p\<lparr>leaked := leaked p @ [t]\<rparr>)
      else bind_r (case handle_fn t of None \<Rightarrow> Inr [] | Some f \<Rightarrow> call_handle f t) (\<lambda>cmds.
           Inr (p\<lparr>camera := camera p @ cmds, worked := worked p @ [t]\<rparr>)))"

text \<open>One step of \<open>run\<close>; \<open>one_loop\<close> is empty in \<open>Ptz\<close> and in \<open>TeacherPtz\<close>.\<close>

definition Ptz_run :: "'c kvconfig \<Rightarrow> 'c \<Rightarrow> int \<Rightarrow> Ptz \<Rightarrow> Ptz result" where
  "Ptz_run K c now p =
     (case worker_pc p of
        P_Reset \<Rightarrow> bind_r (Ptz_reset_ptz K c p) (\<lambda>p. Inr (p\<lparr>worker_pc := P_Test\<rparr>))
      | P_Test \<Rightarrow> Inr (p\<lparr>worker_pc := if ptz_quit p then P_Done else P_Wait\<rparr>)
      | P_Wait \<Rightarrow> if ptz_sem p = 0 then Inl Would_Block else Inr (p\<lparr>ptz_sem := ptz_sem p - 1, worker_pc := P_Next\<rparr>)
      | P_Next \<Rightarrow>
          (case Ptz_next_task p of
             (None, p) \<Rightarrow> Inr (p\<lparr>worker_pc := P_Test\<rparr>)
           | (Some t, p) \<Rightarrow> Inr (p\<lparr>worker_pc := P_Exec t\<rparr>))
      | P_Exec t \<Rightarrow> bind_r (Ptz_exec_task now t p) (\<lambda>p. Inr (p\<lparr>worker_pc := P_Next\<rparr>))
      | P_Done \<Rightarrow> Inl Stuck)"

text \<open>One step of the destructor: set \<open>quit_\<close>, then \<open>join ()\<close>. The queue is destroyed with the object; it holds
  pointers, so the tasks still in it are neither worked off nor freed.\<close>

definition Ptz_close :: "Ptz \<Rightarrow> Ptz result" where
  "Ptz_close p =
     (case killer p of
        K_Idle \<Rightarrow> Inr (p\<lparr>ptz_quit := True, killer := K_Join\<rparr>)
      | K_Join \<Rightarrow>
          if worker_pc p = P_Done
          then Inr (p\<lparr>killer := K_Done, leaked := leaked p @ ptz_tasks p, ptz_tasks := []\<rparr>) else Inl Would_Block
      | K_Done \<Rightarrow> Inl Stuck)"

text \<open>Any interleaving; \<open>add\<close> is called with what the constructors above return, and no more once the
  object is being destroyed.\<close>

definition task_made :: "Task option \<Rightarrow> bool" where
  "task_made t \<longleftrightarrow> t = None \<or> (\<exists>d s n. t = task_ptz_move True d s n) \<or> (\<exists>b s n. t = task_ptz_zoom True b s n) \<or>
     (\<exists>h v s. t = task_ptz_center True h v s) \<or> (\<exists>h v z. t = task_ptz_reset True h v z)"

inductive ptz_step :: "'c kvconfig \<Rightarrow> Ptz \<Rightarrow> Ptz \<Rightarrow> bool" for K where
  step_run: "Ptz_run K c now p = Inr p' \<Longrightarrow> ptz_step K p p'"
| step_push: "task_made t \<Longrightarrow> killer p = K_Idle \<Longrightarrow> ptz_step K p (Ptz_push t p)"
| step_post: "posting p > 0 \<Longrightarrow> ptz_step K p (Ptz_post p)"
| step_close: "Ptz_close p = Inr p' \<Longrightarrow> ptz_step K p p'"

inductive ptz_reachable :: "'c kvconfig \<Rightarrow> bool \<Rightarrow> Ptz \<Rightarrow> bool" for K cam where
  start: "ptz_reachable K cam (ptz_start cam)"
| step: "ptz_reachable K cam p \<Longrightarrow> ptz_step K p p' \<Longrightarrow> ptz_reachable K cam p'"

inductive ptz_steps :: "'c kvconfig \<Rightarrow> Ptz \<Rightarrow> Ptz \<Rightarrow> bool" for K where
  stay: "ptz_steps K p p"
| go: "ptz_steps K p q \<Longrightarrow> ptz_step K q r \<Longrightarrow> ptz_steps K p r"

section \<open>Invariants of the task thread\<close>

text \<open>What a task does to the camera, and the task the worker holds.\<close>

definition task_cmds :: "Task \<Rightarrow> ptz_cmd list" where
  "task_cmds t =
     (case handle_fn t of None \<Rightarrow> []
      | Some f \<Rightarrow> (case call_handle f t of Inl _ \<Rightarrow> [] | Inr cmds \<Rightarrow> cmds))"

fun in_hand :: "ppc \<Rightarrow> Task list" where
  "in_hand (P_Exec t) = [t]"
| "in_hand _ = []"

definition awake :: "ppc \<Rightarrow> bool" where
  "awake pc \<longleftrightarrow> pc = P_Next \<or> (\<exists>t. pc = P_Exec t)"

definition order_inv :: "Ptz \<Rightarrow> bool" where
  "order_inv p \<longleftrightarrow>
     all_added p = worked p @ in_hand (worker_pc p) @ ptz_tasks p @ leaked p \<and> (killer p \<noteq> K_Done \<longrightarrow> leaked p = []) \<and>
     camera p = concat (map task_cmds (worked p)) \<and> (\<forall>t\<in>set (all_added p). task_made (Some t))"

definition wake_inv :: "Ptz \<Rightarrow> bool" where
  "wake_inv p \<longleftrightarrow> ptz_tasks p \<noteq> [] \<longrightarrow> 0 < ptz_sem p \<or> 0 < posting p \<or> awake (worker_pc p)"

definition close_inv :: "Ptz \<Rightarrow> bool" where
  "close_inv p \<longleftrightarrow> (ptz_quit p \<longleftrightarrow> killer p \<noteq> K_Idle) \<and> (worker_pc p = P_Done \<longrightarrow> ptz_quit p) \<and>
     (killer p = K_Done \<longrightarrow> worker_pc p = P_Done \<and> ptz_tasks p = [])"

lemmas task_makers = task_ptz_move_def task_ptz_zoom_def task_ptz_center_def task_ptz_reset_def

lemma task_made_runs:
  assumes "task_made (Some t)"
  shows "should_do t = None" and "\<exists>f. handle_fn t = Some f \<and> call_handle f t = Inr (task_cmds t)"
    and "free_fn t \<noteq> None"
  using assms
  by (auto simp: task_made_def task_makers task_cmds_def task_ptz_move_handle_def task_ptz_zoom_handle_def
      task_ptz_center_handle_def task_ptz_reset_handle_def)

lemma task_made_cases:
  "task_made (task_ptz_move b d s n)" "task_made (task_ptz_zoom b e s n)" "task_made (task_ptz_center b x y s)"
  "task_made (task_ptz_reset b h v z)" "task_made (task_ptz_set_position b h v z)"
  by (auto simp: task_made_def task_makers task_ptz_set_position_def)

lemma exec_made: "task_made (Some t) \<Longrightarrow>
    Ptz_exec_task now t p = Inr (p\<lparr>camera := camera p @ task_cmds t, worked := worked p @ [t]\<rparr>)"
  using task_made_runs[of t] by (auto simp: Ptz_exec_task_def)

lemma push_inv:
  assumes "order_inv p" and "wake_inv p" and "close_inv p" and "task_made t" and "killer p \<noteq> K_Done"
  shows "order_inv (Ptz_push t p)" "wake_inv (Ptz_push t p)" "close_inv (Ptz_push t p)"
  using assms by (auto simp: order_inv_def wake_inv_def close_inv_def Ptz_push_def opt_list_def split: option.splits)

lemma post_inv:
  assumes "order_inv p" and "wake_inv p" and "close_inv p"
  shows "order_inv (Ptz_post p)" "wake_inv (Ptz_post p)" "close_inv (Ptz_post p)"
  using assms by (auto simp: order_inv_def wake_inv_def close_inv_def Ptz_post_def)

lemma reset_inv:
  assumes "order_inv p" and "wake_inv p" and "close_inv p" and "Ptz_reset_ptz K c p = Inr q" and "killer p \<noteq> K_Done"
  shows "order_inv q" "wake_inv q" "close_inv q" "worker_pc q = worker_pc p" "ptz_sem q > 0 \<or> ptz_tasks q = ptz_tasks p"
proof -
  have "q = p \<or> (\<exists>h v z. q = Ptz_add (task_ptz_reset (has_ptz p) h v z) p)"
    using assms(4) by (auto simp: Ptz_reset_ptz_def split: if_splits)
  then show "order_inv q" "wake_inv q" "close_inv q" "worker_pc q = worker_pc p" "ptz_sem q > 0 \<or> ptz_tasks q = ptz_tasks p"
    using assms(1,2,3) push_inv[OF assms(1-3) task_made_cases(4) assms(5)]
    by (auto simp: Ptz_add_def post_inv) (auto simp: Ptz_push_def Ptz_post_def)
qed

lemma run_inv:
  assumes inv: "order_inv p" "wake_inv p" "close_inv p" and run: "Ptz_run K c now p = Inr q"
  shows "order_inv q \<and> wake_inv q \<and> close_inv q"
proof (cases "worker_pc p")
  case P_Reset
  then obtain r where r: "Ptz_reset_ptz K c p = Inr r" "q = r\<lparr>worker_pc := P_Test\<rparr>"
    using run by (auto simp: Ptz_run_def)
  show ?thesis
    using reset_inv[OF inv r(1)] P_Reset r(2) inv(3)
    by (auto simp: order_inv_def wake_inv_def close_inv_def awake_def)
next
  case P_Test
  then show ?thesis using inv run by (auto simp: Ptz_run_def order_inv_def wake_inv_def close_inv_def awake_def)
next
  case P_Wait
  then show ?thesis
    using inv run by (auto simp: Ptz_run_def order_inv_def wake_inv_def close_inv_def awake_def split: if_splits)
next
  case P_Next
  then show ?thesis
    using inv run
    by (auto simp: Ptz_run_def Ptz_next_task_def order_inv_def wake_inv_def close_inv_def awake_def split: list.splits)
next
  case (P_Exec t)
  then have "task_made (Some t)" using inv(1) by (auto simp: order_inv_def)
  from exec_made[OF this] P_Exec show ?thesis
    using inv run by (auto simp: Ptz_run_def order_inv_def wake_inv_def close_inv_def awake_def)
next
  case P_Done
  then show ?thesis using run by (simp add: Ptz_run_def)
qed

lemma close_step_inv:
  assumes "order_inv p" and "wake_inv p" and "close_inv p" and "Ptz_close p = Inr q"
  shows "order_inv q \<and> wake_inv q \<and> close_inv q"
  using assms
  by (auto simp: Ptz_close_def order_inv_def wake_inv_def close_inv_def awake_def split: kpc.splits if_splits)

lemma ptz_reachable_inv: "ptz_reachable K cam p \<Longrightarrow> order_inv p \<and> wake_inv p \<and> close_inv p"
proof (induction rule: ptz_reachable.induct)
  case start
  show ?case by (simp add: ptz_start_def order_inv_def wake_inv_def close_inv_def)
next
  case (step p p')
  from step.hyps(2) show ?case
    by (cases rule: ptz_step.cases)
      (use step.IH in \<open>auto simp: push_inv post_inv dest: run_inv close_step_inv\<close>)
qed

section \<open>What the task thread guarantees\<close>

text \<open>C21: the camera gets the commands of the tasks in the order in which \<open>add\<close> was called, whatever
  threads call it: in every reachable state the added tasks are the finished ones, the one in the
  worker's hands, the queued ones and the dropped ones, in this order; the command log is the
  concatenation of the finished tasks' commands. No task is dropped before the destructor has
  returned; those dropped then are exactly the ones still in the queue, which are never worked off
  nor freed. As long as the object is not being destroyed, the worker has not ended, and a queued
  task finds it awake or about to be woken.\<close>

theorem ptz_tasks_in_order:
  assumes "ptz_reachable K cam p"
  shows "all_added p = worked p @ in_hand (worker_pc p) @ ptz_tasks p @ leaked p \<and>
    camera p = concat (map task_cmds (worked p)) \<and>
    (killer p \<noteq> K_Done \<longrightarrow> leaked p = []) \<and>
    (killer p = K_Done \<longrightarrow> ptz_tasks p = [] \<and> worker_pc p = P_Done) \<and>
    (killer p = K_Idle \<longrightarrow> worker_pc p \<noteq> P_Done \<and>
       (ptz_tasks p \<noteq> [] \<longrightarrow> 0 < ptz_sem p \<or> 0 < posting p \<or> awake (worker_pc p)))"
  using ptz_reachable_inv[OF assms] by (auto simp: order_inv_def wake_inv_def close_inv_def)

definition sample_ptz :: Ptz where
  "sample_ptz = Ptz_push (task_ptz_move True 1 1 200) (ptz_start True)"

lemma sample_ptz_reachable: "ptz_reachable assoc_config True sample_ptz"
  unfolding sample_ptz_def
  by (rule ptz_reachable.step[OF ptz_reachable.start])
    (simp add: ptz_step.step_push task_made_cases ptz_start_def)

theorem ptz_tasks_in_order_witness:
  "\<exists>p t. ptz_reachable assoc_config True p \<and> ptz_tasks p = [t] \<and> all_added p = worked p @ in_hand (worker_pc p) @ [t] \<and>
     0 < posting p \<and> worker_pc p \<noteq> P_Done"
proof -
  have "ptz_tasks sample_ptz = [the (task_ptz_move True 1 1 200)]" "posting sample_ptz = 1" "killer sample_ptz = K_Idle"
    by (simp_all add: sample_ptz_def Ptz_push_def ptz_start_def opt_list_def task_ptz_move_def)
  with ptz_tasks_in_order[OF sample_ptz_reachable] sample_ptz_reachable show ?thesis by auto
qed

text \<open>A run that drops a task: the destructor sets \<open>quit_\<close> before the worker tests it for the first time.\<close>

lemma ptz_destructor_drops:
  "\<exists>p t. ptz_reachable assoc_config True p \<and> killer p = K_Done \<and> leaked p = [t] \<and> worked p = [] \<and> all_added p = [t]"
proof -
  let ?t = "the (task_ptz_reset True 0 0 5000)"
  let ?p1 = "Ptz_add (Some ?t) (ptz_start True)\<lparr>worker_pc := P_Test\<rparr>"
  let ?p2 = "?p1\<lparr>ptz_quit := True, killer := K_Join\<rparr>"
  let ?p3 = "?p2\<lparr>worker_pc := P_Done\<rparr>"
  let ?p4 = "?p3\<lparr>killer := K_Done, leaked := [?t], ptz_tasks := []\<rparr>"
  have cfg: "cfg_int assoc_config [] ''ptz_init_x'' ''0'' = Inr 0" "cfg_int assoc_config [] ''ptz_init_y'' ''0'' = Inr 0"
      "cfg_int assoc_config [] ''ptz_init_z'' ''5000'' = Inr 5000" by code_simp+
  have "ptz_step assoc_config (ptz_start True) ?p1"
    by (rule step_run[of _ "[]" 0]) (simp add: Ptz_run_def Ptz_reset_ptz_def ptz_start_def cfg task_ptz_reset_def)
  with ptz_reachable.start have "ptz_reachable assoc_config True ?p1" by (rule ptz_reachable.step)
  moreover have "ptz_step assoc_config ?p1 ?p2"
    by (rule step_close) (simp add: Ptz_close_def ptz_start_def Ptz_add_def Ptz_push_def Ptz_post_def)
  ultimately have "ptz_reachable assoc_config True ?p2" by (rule ptz_reachable.step)
  moreover have "ptz_step assoc_config ?p2 ?p3" by (rule step_run[of _ "[]" 0]) (simp add: Ptz_run_def)
  ultimately have "ptz_reachable assoc_config True ?p3" by (rule ptz_reachable.step)
  moreover have "ptz_step assoc_config ?p3 ?p4"
    by (rule step_close) (simp add: Ptz_close_def ptz_start_def Ptz_add_def Ptz_push_def Ptz_post_def opt_list_def)
  ultimately have "ptz_reachable assoc_config True ?p4" by (rule ptz_reachable.step)
  then show ?thesis
    by (intro exI[of _ ?p4] exI[of _ ?t])
      (simp add: ptz_start_def Ptz_add_def Ptz_push_def Ptz_post_def opt_list_def)
qed

text \<open>A worker that waits on a semaphore nobody will post again.\<close>

definition asleep :: "Ptz \<Rightarrow> bool" where
  "asleep p \<longleftrightarrow> worker_pc p = P_Wait \<and> ptz_sem p = 0 \<and> posting p = 0"

lemma asleep_closing:
  assumes "asleep p" and "killer p = K_Join"
  shows "\<not> ptz_step K p q"
  using assms by (auto simp: asleep_def Ptz_run_def Ptz_close_def elim!: ptz_step.cases)

lemma stuck_steps: "ptz_steps K p q \<Longrightarrow> (\<And>r. \<not> ptz_step K p r) \<Longrightarrow> q = p"
  by (induction rule: ptz_steps.induct) auto

lemma asleep_close: "asleep p \<Longrightarrow> killer p = K_Idle \<Longrightarrow> Ptz_close p = Inr (p\<lparr>ptz_quit := True, killer := K_Join\<rparr>)"
  by (simp add: Ptz_close_def)

text \<open>the destructor of \<open>Ptz\<close> sets \<open>quit_\<close> and joins without posting the semaphore: destroying an
  object whose worker sleeps, the normal state once all tasks are done, never returns, because from
  there no thread can move any more and the destructor is still in \<open>join ()\<close>.\<close>

theorem ptz_destructor_hangs:
  assumes "asleep p" and "killer p = K_Idle"
  shows "\<exists>q. Ptz_close p = Inr q \<and> (\<forall>r. ptz_steps K q r \<longrightarrow> r = q) \<and> killer q \<noteq> K_Done"
proof -
  let ?q = "p\<lparr>ptz_quit := True, killer := K_Join\<rparr>"
  have "asleep ?q" "killer ?q = K_Join" using assms(1) by (simp_all add: asleep_def)
  from asleep_closing[OF this] have stuck: "\<not> ptz_step K ?q r" for r .
  have "r = ?q" if "ptz_steps K ?q r" for r
    using stuck_steps[OF that] stuck by blast
  with asleep_close[OF assms] show ?thesis by auto
qed

text \<open>The run in which the worker of an object without a camera goes to sleep.\<close>

definition idle_ptz :: Ptz where
  "idle_ptz = (ptz_start False)\<lparr>worker_pc := P_Wait\<rparr>"

lemma idle_ptz_reachable: "ptz_reachable assoc_config False idle_ptz"
proof -
  let ?p = "(ptz_start False)\<lparr>worker_pc := P_Test\<rparr>"
  have "ptz_step assoc_config (ptz_start False) ?p"
    by (rule step_run[of _ "[]" 0]) (simp add: Ptz_run_def ptz_start_def Ptz_reset_ptz_def)
  with ptz_reachable.start have "ptz_reachable assoc_config False ?p" by (rule ptz_reachable.step)
  moreover have "ptz_step assoc_config ?p idle_ptz"
    by (rule step_run[of _ "[]" 0]) (simp add: Ptz_run_def ptz_start_def idle_ptz_def)
  ultimately show ?thesis by (rule ptz_reachable.step)
qed

theorem ptz_destructor_hangs_witness:
  "ptz_reachable assoc_config False idle_ptz \<and>
   (\<exists>q. Ptz_close idle_ptz = Inr q \<and> (\<forall>r. ptz_steps assoc_config q r = (r = q)) \<and> killer q \<noteq> K_Done)"
proof -
  have "asleep idle_ptz" "killer idle_ptz = K_Idle" by (simp_all add: idle_ptz_def ptz_start_def asleep_def)
  from ptz_destructor_hangs[OF this, of assoc_config] idle_ptz_reachable show ?thesis
    using ptz_steps.stay by blast
qed

section \<open>The direction from one point to another\<close>

lemma atan2_range: "- pi \<le> c_atan2 y x \<and> c_atan2 y x \<le> pi"
proof -
  have b: "- (pi / 2) < arctan (y / x)" "arctan (y / x) < pi / 2" by (rule arctan_lbound, rule arctan_ubound)
  have s: "x < 0 \<Longrightarrow> y \<ge> 0 \<Longrightarrow> arctan (y / x) \<le> 0" "x < 0 \<Longrightarrow> y < 0 \<Longrightarrow> 0 \<le> arctan (y / x)"
    by (simp_all add: divide_le_0_iff zero_le_divide_iff)
  show ?thesis using b s pi_gt_zero by (auto simp: c_atan2_def)
qed

lemma sector_range:
  assumes "0 \<le> a" and "a < 2 * pi"
  shows "\<exists>i. c_trunc (a * 180 / pi / 45) = Inr i \<and> 0 \<le> i \<and> i < 8"
proof -
  let ?s = "a * 180 / pi / 45"
  have "?s = a * 4 / pi" by simp
  then have "0 \<le> ?s" "?s < 8" using assms by (simp_all add: divide_less_eq)
  then have "0 \<le> \<lfloor>?s\<rfloor>" "\<lfloor>?s\<rfloor> < 8" by (simp_all add: floor_less_iff)
  with \<open>0 \<le> ?s\<close> show ?thesis by (simp add: c_trunc_def)
qed

lemma ptz_dir_index_range: "\<exists>i. ptz_dir_index x y = Inr i \<and> 0 \<le> i \<and> i < 8"
proof -
  let ?a = "c_atan2 y x + pi / 8"
  let ?b = "if ?a < 0 then ?a + 2 * pi else ?a"
  have "0 \<le> ?b" "?b < 2 * pi"
    using atan2_range[of y x] pi_gt_zero by (cases "?a < 0"; simp only: if_True if_False; linarith)+
  from sector_range[OF this] show ?thesis unfolding ptz_dir_index_def Let_def .
qed

text \<open>\<open>ptz_get_dir\<close> never executes its breakpoint: for any two points whose coordinate differences
  are ints, the sector index is in the table, and the answer is \<open>MIDDLE\<close> exactly when the points are
  less than 5 pixels apart.\<close>

theorem ptz_get_dir_total:
  assumes "int_ok (fst b - fst a)" and "int_ok (snd b - snd a)"
  shows "\<exists>d. ptz_get_dir a b = Inr d \<and>
    (d = MIDDLE \<longleftrightarrow> (fst b - fst a) ^ 2 + (snd b - snd a) ^ 2 < 25)"
proof -
  let ?x = "real_of_int (fst b - fst a)" and ?y = "real_of_int (snd b - snd a)"
  have near: "sqrt (?x ^ 2 + ?y ^ 2) < 5 \<longleftrightarrow> (fst b - fst a) ^ 2 + (snd b - snd a) ^ 2 < 25"
  proof -
    have "sqrt (?x ^ 2 + ?y ^ 2) < sqrt 25 \<longleftrightarrow> ?x ^ 2 + ?y ^ 2 < 25" by (rule real_sqrt_less_iff)
    moreover have "sqrt 25 = (5::real)" by simp
    moreover have "?x ^ 2 + ?y ^ 2 < 25 \<longleftrightarrow> (fst b - fst a) ^ 2 + (snd b - snd a) ^ 2 < 25"
      by (metis of_int_add of_int_less_numeral_iff of_int_power)
    ultimately show ?thesis by simp
  qed
  obtain i where i: "ptz_dir_index ?x ?y = Inr i" "0 \<le> i" "i < 8" using ptz_dir_index_range by auto
  have "ptz_dirs ! nat i \<in> set ptz_dirs" using i by (intro nth_mem) (simp add: ptz_dirs_def)
  then have "ptz_dirs ! nat i \<noteq> MIDDLE" by (auto simp: ptz_dirs_def)
  with near i assms show ?thesis
    by (cases "sqrt (?x ^ 2 + ?y ^ 2) < 5") (simp_all add: ptz_get_dir_def c_int_def Let_def)
qed

theorem ptz_get_dir_total_witness:
  "\<exists>d. ptz_get_dir (0, 0) (100, -40) = Inr d \<and> d \<noteq> MIDDLE"
  using ptz_get_dir_total[of "(100, -40)" "(0, 0)"] by (simp add: int_ok_def)

end
