(* ===== verification/Teacher_Ptz.thy ===== *)
theory Teacher_Ptz
  imports Teacher_Debounce Ptz_Worker
begin

text \<open>
  \<open>TeacherPtz\<close> (\<open>TeacherPtz.h\<close>, \<open>TeacherPtz.cpp\<close>): where the camera looks and whether the picture is
  stable. The calibrated strip in front of the blackboard is cut into \<open>areas_\<close> pieces; the camera
  turns only when the teacher changes to another piece.

  What the camera library answers (position, zoom) is an argument of the operation that asks. Commands
  that \<open>TeacherPtz\<close> sends itself, not through a task, go to the log \<open>direct\<close>. \<open>set_detected_data2\<close>
  and \<open>handle_valid_data\<close> are in \<open>Teacher_Tracing\<close>.
\<close>

section \<open>State\<close>

record DetectedData =
  dd_valid :: bool
  dd_stamp :: real
  poss :: "(real \<times> real) list"

record 'c TeacherPtz =
  tp_base :: Ptz
  tp_policy :: "'c TracePolicy"
  reseted :: bool
  stable :: bool
  smooth :: bool
  tp_running_state :: int
  ptz_left :: int
  ptz_right :: int
  ptz_v :: int
  ptz_z :: int
  areas :: int
  area_length :: int
  area_overlap_length :: int
  area_hori :: "int list"
  video_width :: int
  calibration_left_edge :: int
  calibration_right_edge :: int
  ca :: Cal_Angle
  last_area_index :: int
  segments :: "(int \<times> int) list"
  timeout_chker :: AreaDuration
  chk_valid_data :: ChkValidData
  tp_valid_duration :: StateDuration
  min_angle_hori :: real
  view_angle_hori :: real
  direct :: "ptz_cmd list"

section \<open>Construction\<close>

definition widen_edge :: "point \<Rightarrow> int \<times> int \<Rightarrow> int \<times> int" where
  "widen_edge p e =
     (let e = (if fst p < fst e then (fst p, snd e) else e)
      in if fst p > snd e then (fst e, fst p) else e)"

definition load_calibration_edge :: "'c kvconfig \<Rightarrow> 'c \<Rightarrow> int \<times> int \<Rightarrow> (int \<times> int) result" where
  "load_calibration_edge K c e =
     bind_r (load_points K c ''calibration_data2'') (\<lambda>ps.
     let e = fold widen_edge ps e in
     bind_r (load_points K c ''calibration_data3'') (\<lambda>ps.
     Inr (fold widen_edge ps e)))"

text \<open>The loop body of \<open>calc_calibration_area\<close>: the camera position and the segment of area \<open>i\<close>.\<close>

definition area_pos :: "real \<Rightarrow> 'c TeacherPtz \<Rightarrow> int \<Rightarrow> int result" where
  "area_pos min_angle t i =
     bind_r (c_int (i * area_length t)) (\<lambda>il.
     bind_r (c_div (area_length t) 2) (\<lambda>half.
     bind_r (get_angle (ca t) (p_left (ca t) + il + half)) (\<lambda>dh.
     bind_r (check_r (min_angle \<noteq> 0) Div_Zero) (\<lambda>_.
     bind_r (c_trunc (dh * 180 / pi / min_angle)) (\<lambda>dhv. c_int (ptz_left t + dhv))))))"

definition area_segment :: "'c TeacherPtz \<Rightarrow> int \<Rightarrow> (int \<times> int) result" where
  "area_segment t i =
     bind_r (c_int (i * area_length t)) (\<lambda>il.
     bind_r (c_int (il - area_overlap_length t)) (\<lambda>l.
     bind_r (c_int ((i + 1) * area_length t)) (\<lambda>ir.
     bind_r (c_int (ir + area_overlap_length t)) (\<lambda>r.
     let l = (if l < 0 then 0 else l) in
     bind_r (if real_of_int r > p_right (ca t) then c_trunc (p_right (ca t)) else Inr r) (\<lambda>r.
     Inr (l, r))))))"

fun areas_loop :: "real \<Rightarrow> nat \<Rightarrow> int \<Rightarrow> 'c TeacherPtz \<Rightarrow> 'c TeacherPtz result" where
  "areas_loop min_angle 0 i t = Inr t"
| "areas_loop min_angle (Suc n) i t =
     bind_r (area_pos min_angle t i) (\<lambda>h.
     bind_r (area_segment t i) (\<lambda>s.
     areas_loop min_angle n (i + 1) (t\<lparr>area_hori := area_hori t @ [h], segments := segments t @ [s]\<rparr>)))"

definition calc_calibration_area :: "'c kvconfig \<Rightarrow> 'c \<Rightarrow> 'c TeacherPtz \<Rightarrow> 'c TeacherPtz result" where
  "calc_calibration_area K c t =
     bind_r (cfg_real K c ''cam_trace_min_hangle'' ''0.075'') (\<lambda>min_angle.
     let t = t\<lparr>ca := \<lparr>angle_left = (0 - ptz_left t) * min_angle * pi / 180,
                      angle_right = ptz_right t * min_angle * pi / 180,
                      p_left = calibration_left_edge t, p_right = calibration_right_edge t\<rparr>\<rparr>
     in areas_loop min_angle (nat (areas t)) 0 t)"

text \<open>\<open>TeacherPtz::TeacherPtz\<close> with the parameters that \<open>Ptz::load_ptz_params\<close> read before it.\<close>

definition TeacherPtz_open :: "'c kvconfig \<Rightarrow> 'c \<Rightarrow> (string \<Rightarrow> int \<Rightarrow> bool) \<Rightarrow> real \<Rightarrow> int \<Rightarrow> 'c TeacherPtz result" where
  "TeacherPtz_open K c port now garbage =
     bind_r (Ptz_open K c port) (\<lambda>(base, prm).
     bind_r (cfg_int K c ''smooth_trace'' ''0'') (\<lambda>sm.
     bind_r (load_policy_data K c) (\<lambda>pol.
     bind_r (cfg_int K c ''ptz_left'' ''0'') (\<lambda>pl.
     bind_r (cfg_int K c ''ptz_right'' ''0'') (\<lambda>pr.
     bind_r (cfg_int K c ''ptz_init_y'' ''0'') (\<lambda>v.
     bind_r (cfg_int K c ''ptz_init_z'' ''5000'') (\<lambda>z.
     bind_r (cfg_int K c ''video_width'' ''960'') (\<lambda>vw.
     bind_r (cfg_int K c ''teacher_area'' ''3'') (\<lambda>n.
     let n = (if n = 0 then 3 else n);
         pl = (if pl = 0 then -400 else pl);
         pr = (if pr = 0 then 400 else pr) in
     bind_r (c_div vw 2) (\<lambda>half.
     bind_r (load_calibration_edge K c (half, half)) (\<lambda>e.
     bind_r (c_int (snd e - fst e)) (\<lambda>w.
     bind_r (c_div w n) (\<lambda>len.
     bind_r (c_div len 4) (\<lambda>ov.
     bind_r (calc_calibration_area K c
       \<lparr>tp_base = base, tp_policy = pol, reseted = False, stable = False, smooth = (sm \<noteq> 0),
        tp_running_state = 0, ptz_left = pl, ptz_right = pr, ptz_v = v, ptz_z = z, areas = n,
        area_length = len, area_overlap_length = ov, area_hori = [], video_width = vw,
        calibration_left_edge = fst e, calibration_right_edge = snd e,
        ca = \<lparr>angle_left = 0, angle_right = 0, p_left = 0, p_right = 0\<rparr>,
        last_area_index = -1, segments = [], timeout_chker = AreaDuration_init,
        chk_valid_data = ChkValidData_init now, tp_valid_duration = StateDuration_init garbage,
        min_angle_hori = pp_min_angle_hori prm, view_angle_hori = pp_view_angle_hori prm, direct = []\<rparr>) (\<lambda>t.
     if int (length (area_hori t)) = areas t then Inr t else Inl Assert_Fail)))))))))))))))"

section \<open>Operations\<close>

definition send_cmd :: "ptz_cmd \<Rightarrow> 'c TeacherPtz \<Rightarrow> 'c TeacherPtz" where
  "send_cmd x t = (if has_ptz (tp_base t) then t\<lparr>direct := direct t @ [x]\<rparr> else t)"

definition set_running_state :: "int \<Rightarrow> 'c TeacherPtz \<Rightarrow> 'c TeacherPtz" where
  "set_running_state s t =
     (let t = t\<lparr>tp_running_state := s\<rparr> in if s \<noteq> 0 then t\<lparr>reseted := False\<rparr> else t)"

definition turn_left_edge :: "'c TeacherPtz \<Rightarrow> 'c TeacherPtz" where
  "turn_left_edge t = send_cmd (Cmd_set_absolute_position (ptz_left t) (ptz_v t) 30) t"

definition turn_right_edge :: "'c TeacherPtz \<Rightarrow> 'c TeacherPtz" where
  "turn_right_edge t = send_cmd (Cmd_set_absolute_position (ptz_right t) (ptz_v t) 30) t"

fun find_area :: "int list \<Rightarrow> int \<Rightarrow> int \<Rightarrow> int" where
  "find_area [] h i = -1"
| "find_area (a # as) h i = (if \<bar>h - a\<bar> < 5 then i else find_area as h (i + 1))"

definition get_ptz_current_area :: "int \<Rightarrow> 'c TeacherPtz \<Rightarrow> int" where
  "get_ptz_current_area h t =
     (if has_ptz (tp_base t) then find_area (take (nat (areas t)) (area_hori t)) h 0 else -1)"

definition area_changed :: "int \<Rightarrow> 'c TeacherPtz \<Rightarrow> (int \<times> bool \<times> 'c TeacherPtz) result" where
  "area_changed offset t =
     (if last_area_index t = -1 then
        bind_r (c_div offset (area_length t)) (\<lambda>index.
        bind_r (check_r (index < areas t) Assert_Fail) (\<lambda>_.
        Inr (index, True, t\<lparr>last_area_index := index\<rparr>)))
      else if last_area_index t < 0 \<or> last_area_index t \<ge> int (length (segments t)) then Inl Mem_Bounds
      else
        let s = segments t ! nat (last_area_index t) in
        if offset < fst s then Inr (last_area_index t - 1, True, t\<lparr>last_area_index := last_area_index t - 1\<rparr>)
        else if offset > snd s then Inr (last_area_index t + 1, True, t\<lparr>last_area_index := last_area_index t + 1\<rparr>)
        else Inr (last_area_index t, False, t))"

definition get_area_from_data :: "DetectedData \<Rightarrow> 'c TeacherPtz \<Rightarrow> (int \<times> bool \<times> 'c TeacherPtz) result" where
  "get_area_from_data d t =
     (case poss d of
        [] \<Rightarrow> Inl Assert_Fail
      | (l, r) # _ \<Rightarrow>
          bind_r (check_r (dd_valid d \<and> l \<ge> calibration_left_edge t \<and> r \<le> calibration_right_edge t \<and> l < r)
            Assert_Fail) (\<lambda>_.
          bind_r (c_trunc ((l + r) / 2)) (\<lambda>m.
          bind_r (c_int (m - calibration_left_edge t)) (\<lambda>offset.
          area_changed offset t))))"

text \<open>The three angles of smooth tracking, in radians from the left edge; \<open>h\<close> is the camera's position and
  \<open>scale\<close> what the zoom table (\<open>ZoomValueConvert\<close>, not in the repository) says of its zoom.\<close>

definition get_current_deflection :: "int \<Rightarrow> 'c TeacherPtz \<Rightarrow> real result" where
  "get_current_deflection h t =
     (if \<not> has_ptz (tp_base t) then Inr 0
      else bind_r (check_r (h \<ge> ptz_left t) Assert_Fail) (\<lambda>_.
           bind_r (c_int (h - ptz_left t)) (\<lambda>d.
           Inr (d * min_angle_hori t * pi / 180))))"

definition get_current_half_view_angle :: "real \<Rightarrow> 'c TeacherPtz \<Rightarrow> real" where
  "get_current_half_view_angle scale t =
     view_angle_hori t / 2 / (if has_ptz (tp_base t) then scale else 1) * pi / 180"

definition get_target_deflection :: "DetectedData \<Rightarrow> 'c TeacherPtz \<Rightarrow> real result" where
  "get_target_deflection d t =
     (case poss d of [] \<Rightarrow> Inl Mem_Bounds | (l, r) # _ \<Rightarrow> get_angle (ca t) ((l + r) / 2))"

definition smooth_tracing :: "int \<Rightarrow> real \<Rightarrow> DetectedData \<Rightarrow> 'c TeacherPtz \<Rightarrow> 'c TeacherPtz result" where
  "smooth_tracing h scale d t =
     (if \<not> has_ptz (tp_base t) then Inr t
      else if dd_valid d then
        bind_r (get_target_deflection d t) (\<lambda>td.
        bind_r (get_current_deflection h t) (\<lambda>cd.
        let fva = get_current_half_view_angle scale t in
        if cd - fva / 5 > td then Inr (send_cmd (Cmd_left 1) t)
        else if cd + fva / 5 < td then Inr (send_cmd (Cmd_right 1) t)
        else Inr (send_cmd Cmd_stop t)))
      else Inr (send_cmd Cmd_stop t))"

definition tp_add :: "Task option \<Rightarrow> 'c TeacherPtz \<Rightarrow> 'c TeacherPtz" where
  "tp_add x t = t\<lparr>tp_base := Ptz_add x (tp_base t)\<rparr>"

definition tp_reset_ptz :: "'c kvconfig \<Rightarrow> 'c \<Rightarrow> 'c TeacherPtz \<Rightarrow> 'c TeacherPtz result" where
  "tp_reset_ptz K c t = bind_r (Ptz_reset_ptz K c (tp_base t)) (\<lambda>b. Inr (t\<lparr>tp_base := b\<rparr>))"

text \<open>\<open>set_detected_data\<close>, its three branches first.\<close>

definition target_seen :: "'c kvconfig \<Rightarrow> DetectedData \<Rightarrow> 'c TeacherPtz \<Rightarrow> 'c TeacherPtz result" where
  "target_seen K d t =
     bind_r (get_area_from_data d t) (\<lambda>(index, changed, t).
     let t = t\<lparr>timeout_chker := set_area index (timeout_chker t)\<rparr> in
     bind_r (if changed \<and> has_ptz (tp_base t)
             then if index < 0 \<or> index \<ge> int (length (area_hori t)) then Inl Mem_Bounds
                  else Inr (tp_add (task_ptz_set_position (has_ptz (tp_base t)) (area_hori t ! nat index) (ptz_v t) (ptz_z t)) t)
             else Inr t) (\<lambda>t.
     bind_r (time_to_closeview K (tp_policy t)) (\<lambda>ttc.
     Inr (t\<lparr>stable := valid_duration_area (timeout_chker t) > ttc\<rparr>))))"

definition target_lost :: "'c kvconfig \<Rightarrow> 'c \<Rightarrow> 'c TeacherPtz \<Rightarrow> 'c TeacherPtz result" where
  "target_lost K c t =
     bind_r (time_to_fullview_after_no_target K (tp_policy t)) (\<lambda>ttf.
     let t = (if invalid_duration (timeout_chker t) > ttf then t\<lparr>stable := False\<rparr> else t) in
     bind_r (time_to_reset_ptz K (tp_policy t)) (\<lambda>ttr.
     if invalid_duration (timeout_chker t) > ttr then
       let t = t\<lparr>stable := False\<rparr>
       in if tp_running_state t = 0 \<and> \<not> reseted t
          then bind_r (tp_reset_ptz K c (t\<lparr>reseted := True\<rparr>)) (\<lambda>t. Inr (t\<lparr>last_area_index := -1\<rparr>))
          else Inr t
     else Inr t))"

definition set_detected_data ::
    "'c kvconfig \<Rightarrow> 'c \<Rightarrow> int \<Rightarrow> real \<Rightarrow> DetectedData \<Rightarrow> 'c TeacherPtz \<Rightarrow> 'c TeacherPtz result" where
  "set_detected_data K c h scale d t =
     (if smooth t then smooth_tracing h scale d t
      else
        let t = t\<lparr>timeout_chker := ad_frame (dd_valid d, dd_stamp d) (timeout_chker t)\<rparr>
        in if ad_valid (timeout_chker t) then
             let t = t\<lparr>reseted := False\<rparr> in if dd_valid d then target_seen K d t else Inr t
           else target_lost K c t)"

definition handle_invalid_data :: "'c kvconfig \<Rightarrow> 'c \<Rightarrow> real \<Rightarrow> 'c TeacherPtz \<Rightarrow> 'c TeacherPtz result" where
  "handle_invalid_data K c now t =
     (let t = t\<lparr>tp_valid_duration := StateDuration_set_state 2 now (tp_valid_duration t)\<rparr> in
      bind_r (time_to_fullview_after_no_target K (tp_policy t)) (\<lambda>ttf.
      let t = (if StateDuration_duration now (tp_valid_duration t) > ttf then t\<lparr>stable := False\<rparr> else t);
          t = send_cmd Cmd_stop t in
      bind_r (time_to_reset_ptz K (tp_policy t)) (\<lambda>ttr.
      if StateDuration_duration now (tp_valid_duration t) > ttr \<and> \<not> reseted t
      then bind_r (tp_reset_ptz K c t) (\<lambda>t. Inr (t\<lparr>reseted := True\<rparr>))
      else Inr t)))"

section \<open>The table of areas\<close>

lemma areas_loop_result:
  assumes "areas_loop ma n i t = Inr t'"
  shows "\<exists>hs ss. t' = t\<lparr>area_hori := area_hori t @ hs, segments := segments t @ ss\<rparr> \<and> length hs = n \<and> length ss = n \<and>
    (\<forall>j<n. area_pos ma t (i + int j) = Inr (hs ! j) \<and> area_segment t (i + int j) = Inr (ss ! j))"
  using assms
proof (induction n arbitrary: i t)
  case 0
  then show ?case by (intro exI[of _ "[]"]) simp
next
  case (Suc n)
  then obtain h s where hs: "area_pos ma t i = Inr h" "area_segment t i = Inr s"
      "areas_loop ma n (i + 1) (t\<lparr>area_hori := area_hori t @ [h], segments := segments t @ [s]\<rparr>) = Inr t'"
    by auto
  let ?t = "t\<lparr>area_hori := area_hori t @ [h], segments := segments t @ [s]\<rparr>"
  have same: "area_pos ma ?t k = area_pos ma t k" "area_segment ?t k = area_segment t k" for k
    by (simp_all add: area_pos_def area_segment_def cong: if_cong)
  from Suc.IH[OF hs(3)] obtain hs' ss' where r: "t' = ?t\<lparr>area_hori := area_hori ?t @ hs', segments := segments ?t @ ss'\<rparr>"
      "length hs' = n" "length ss' = n"
      "\<forall>j<n. area_pos ma t (i + 1 + int j) = Inr (hs' ! j) \<and> area_segment t (i + 1 + int j) = Inr (ss' ! j)"
    using same by auto
  have "area_pos ma t (i + int j) = Inr ((h # hs') ! j) \<and> area_segment t (i + int j) = Inr ((s # ss') ! j)"
    if "j < Suc n" for j
    using that hs(1,2) r(4) by (cases j) (auto simp: algebra_simps)
  then show ?case using r(1-3) by (intro exI[of _ "h # hs'"] exI[of _ "s # ss'"]) auto
qed

text \<open>Everything the constructor decides about the strip.\<close>

definition strip :: "'c kvconfig \<Rightarrow> 'c \<Rightarrow> 'c TeacherPtz \<Rightarrow> bool" where
  "strip K c t \<longleftrightarrow>
     (\<exists>ma :: real. cfg_real K c ''cam_trace_min_hangle'' ''0.075'' = Inr ma \<and>
       ca t = \<lparr>angle_left = - ptz_left t * ma * pi / 180, angle_right = ptz_right t * ma * pi / 180,
               p_left = calibration_left_edge t, p_right = calibration_right_edge t\<rparr> \<and>
       (\<forall>j<nat (areas t). area_pos ma t (int j) = Inr (area_hori t ! j))) \<and>
     (\<forall>j<nat (areas t). area_segment t (int j) = Inr (segments t ! j)) \<and>
     c_div (calibration_right_edge t - calibration_left_edge t) (areas t) = Inr (area_length t) \<and>
     c_div (area_length t) 4 = Inr (area_overlap_length t) \<and>
     int (length (area_hori t)) = areas t \<and> int (length (segments t)) = areas t \<and> last_area_index t = -1"

lemma open_strip:
  assumes "TeacherPtz_open K c port now g = Inr t"
  shows "strip K c t"
proof -
  from assms obtain t0 where t0: "calc_calibration_area K c t0 = Inr t" "area_hori t0 = []" "segments t0 = []"
      "last_area_index t0 = -1" "int (length (area_hori t)) = areas t"
      "c_div (calibration_right_edge t0 - calibration_left_edge t0) (areas t0) = Inr (area_length t0)"
      "c_div (area_length t0) 4 = Inr (area_overlap_length t0)"
    unfolding TeacherPtz_open_def Let_def
    by (auto split: if_splits simp: c_int_def)
  then obtain ma :: real where ma: "cfg_real K c ''cam_trace_min_hangle'' ''0.075'' = Inr ma"
      "areas_loop ma (nat (areas t0)) 0 (t0\<lparr>ca := \<lparr>angle_left = (0 - ptz_left t0) * ma * pi / 180,
         angle_right = ptz_right t0 * ma * pi / 180, p_left = calibration_left_edge t0,
         p_right = calibration_right_edge t0\<rparr>\<rparr>) = Inr t"
    unfolding calc_calibration_area_def Let_def by auto
  from areas_loop_result[OF ma(2)] t0 show ?thesis
    unfolding strip_def using ma(1) by (auto simp: area_pos_def area_segment_def cong: if_cong)
qed

lemma c_div_nonneg: "c_div a b = Inr c \<Longrightarrow> 0 \<le> a \<Longrightarrow> 0 < b \<Longrightarrow> c = a div b"
  by (auto simp: c_div_def sdiv_nonneg c_int_def split: if_splits)

lemma c_int_value: "c_int x = Inr y \<Longrightarrow> y = x"
  by (auto simp: c_int_def split: if_splits)

lemma c_trunc_nonneg: "c_trunc x = Inr y \<Longrightarrow> 0 \<le> x \<Longrightarrow> y = \<lfloor>x\<rfloor>"
  by (auto simp: c_trunc_def dest: c_int_value)

lemma strip_lengths:
  assumes "strip K c t" and "0 < areas t" and "calibration_left_edge t \<le> calibration_right_edge t"
  shows "area_length t = (calibration_right_edge t - calibration_left_edge t) div areas t"
    and "0 \<le> area_length t" and "area_overlap_length t = area_length t div 4"
    and "areas t * area_length t \<le> calibration_right_edge t - calibration_left_edge t"
proof -
  show l: "area_length t = (calibration_right_edge t - calibration_left_edge t) div areas t"
    using assms by (auto simp: strip_def intro: c_div_nonneg)
  then show p: "0 \<le> area_length t" using assms by (simp add: pos_imp_zdiv_nonneg_iff)
  then show "area_overlap_length t = area_length t div 4"
    using assms by (auto simp: strip_def intro: c_div_nonneg)
  show "areas t * area_length t \<le> calibration_right_edge t - calibration_left_edge t"
    unfolding l using assms by (metis diff_ge_0_iff_ge mult_div_mod_eq[of "areas t"] pos_mod_sign le_add_same_cancel1)
qed

text \<open>Where the middle of area \<open>j\<close> lies.\<close>

definition area_mid :: "'c TeacherPtz \<Rightarrow> int \<Rightarrow> int" where
  "area_mid t j = calibration_left_edge t + j * area_length t + area_length t div 2"

lemma area_mid_inside:
  assumes "strip K c t" and "0 \<le> j" and "j < areas t" and "calibration_left_edge t \<le> calibration_right_edge t"
  shows "calibration_left_edge t \<le> area_mid t j" "area_mid t j \<le> calibration_right_edge t"
proof -
  note l = strip_lengths[OF assms(1) order.strict_trans1[OF assms(2,3)] assms(4)]
  have "0 \<le> j * area_length t" using assms(2) l(2) by simp
  then show "calibration_left_edge t \<le> area_mid t j" using l(2) by (simp add: area_mid_def)
  have "(j + 1) * area_length t \<le> areas t * area_length t" using assms(3) l(2) by (intro mult_right_mono) auto
  moreover have "area_length t div 2 \<le> area_length t" using l(2) by linarith
  ultimately show "area_mid t j \<le> calibration_right_edge t" using l(4) by (simp add: area_mid_def algebra_simps)
qed

lemma area_hori_value:
  assumes s: "strip K c t" and ma: "cfg_real K c ''cam_trace_min_hangle'' ''0.075'' = Inr ma" "0 < ma"
    and ok: "cal_ok (ca t)" and j: "0 \<le> j" "j < areas t"
  shows "area_hori t ! nat j = ptz_left t + \<lfloor>angle_at (ca t) (area_mid t j) * 180 / pi / ma\<rfloor>"
    and "0 \<le> angle_at (ca t) (area_mid t j) * 180 / pi / ma"
    and "angle_at (ca t) (area_mid t j) * 180 / pi / ma \<le> ptz_right t - ptz_left t"
proof -
  have cat: "ca t = \<lparr>angle_left = - ptz_left t * ma * pi / 180, angle_right = ptz_right t * ma * pi / 180,
      p_left = calibration_left_edge t, p_right = calibration_right_edge t\<rparr>"
    and pos: "area_pos ma t j = Inr (area_hori t ! nat j)"
    using s ma j unfolding strip_def by auto (metis int_nat_eq nat_less_eq_zless nat_int)+
  have edges: "calibration_left_edge t \<le> calibration_right_edge t" using ok by (simp add: cal_ok_def cat)
  have in_strip: "p_left (ca t) \<le> area_mid t j" "real_of_int (area_mid t j) \<le> p_right (ca t)"
    using area_mid_inside[OF s j edges] by (simp_all add: cat)
  note g = get_angle_between[OF ok in_strip]
  let ?x = "angle_at (ca t) (area_mid t j) * 180 / pi / ma"
  show nn: "0 \<le> ?x" using g(2) ma(2) pi_gt_zero by simp
  have "angle_left (ca t) + angle_right (ca t) = (ptz_right t - ptz_left t) * ma * pi / 180"
    by (simp add: cat field_simps)
  with g(3) have "?x \<le> (ptz_right t - ptz_left t) * ma * pi / 180 * 180 / pi / ma"
    using ma(2) pi_gt_zero by (intro divide_right_mono mult_right_mono) auto
  then show "?x \<le> ptz_right t - ptz_left t" using ma(2) pi_gt_zero by simp
  have mid: "p_left (ca t) + real_of_int (j * area_length t) + real_of_int (area_length t div 2) = real_of_int (area_mid t j)"
    by (simp add: area_mid_def cat)
  have half: "c_div (area_length t) 2 = Inr x \<Longrightarrow> x = area_length t div 2" for x
    using c_div_nonneg[of "area_length t" 2 x] strip_lengths(2)[OF s order.strict_trans1[OF j] edges] by simp
  from pos obtain il hf dh d where e: "c_int (j * area_length t) = Inr il" "c_div (area_length t) 2 = Inr hf"
      "get_angle (ca t) (p_left (ca t) + il + hf) = Inr dh" "c_trunc (dh * 180 / pi / ma) = Inr d"
      "c_int (ptz_left t + d) = Inr (area_hori t ! nat j)"
    unfolding area_pos_def by (auto simp del: times_divide_eq_right divide_divide_eq_left)
  have "dh = angle_at (ca t) (area_mid t j)"
    using e(3) g(1) unfolding c_int_value[OF e(1)] half[OF e(2)] mid by simp
  with e(4,5) have "c_trunc ?x = Inr d" "c_int (ptz_left t + d) = Inr (area_hori t ! nat j)" by simp_all
  with c_trunc_nonneg[OF _ nn] show "area_hori t ! nat j = ptz_left t + \<lfloor>?x\<rfloor>"
    using c_int_value by metis
qed

text \<open>C28: when the two calibrated edges lie on both sides of the camera's zero, each less than 90 degrees from
  it, the strip is not empty and the angle of one motor step is positive (nothing in the code checks
  any of these), the camera positions of the areas run from left to right and lie between the two
  positions that were calibrated as the edges, so a turn to an area never leaves the calibrated arc.\<close>

theorem area_positions_inside:
  assumes "TeacherPtz_open K c port now g = Inr t"
    and "cfg_real K c ''cam_trace_min_hangle'' ''0.075'' = Inr ma" and "0 < ma" and "cal_ok (ca t)"
  shows "sorted (area_hori t) \<and> int (length (area_hori t)) = areas t \<and>
    (\<forall>h\<in>set (area_hori t). ptz_left t \<le> h \<and> h \<le> ptz_right t)"
proof -
  have s: "strip K c t" by (rule open_strip[OF assms(1)])
  note v = area_hori_value[OF s assms(2-4)]
  have len: "int (length (area_hori t)) = areas t" using s by (simp add: strip_def)
  have edges: "calibration_left_edge t \<le> calibration_right_edge t"
    using assms(4) s by (auto simp: cal_ok_def strip_def)
  have range: "ptz_left t \<le> area_hori t ! n \<and> area_hori t ! n \<le> ptz_right t" if "n < length (area_hori t)" for n
  proof -
    have n: "0 \<le> int n" "int n < areas t" using that len by simp_all
    have "\<lfloor>angle_at (ca t) (area_mid t (int n)) * 180 / pi / ma\<rfloor> \<le> ptz_right t - ptz_left t"
      using v(3)[OF n] by (simp add: floor_le_iff)
    then show ?thesis using v(1,2)[OF n] by simp
  qed
  have "area_hori t ! m \<le> area_hori t ! n" if "m \<le> n" "n < length (area_hori t)" for m n
  proof (cases "m = n")
    case False
    have i: "0 \<le> int m" "int m < areas t" "0 \<le> int n" "int n < areas t" using that len by simp_all
    have "0 \<le> area_length t" using strip_lengths(2)[OF s _ edges] i by linarith
    then have "area_mid t (int m) \<le> area_mid t (int n)"
      using that by (simp add: area_mid_def mult_right_mono)
    then have "angle_at (ca t) (area_mid t (int m)) \<le> angle_at (ca t) (area_mid t (int n))"
      using angle_at_mono[OF assms(4), of "area_mid t (int m)" "area_mid t (int n)"] by (cases "area_mid t (int m) = area_mid t (int n)") auto
    then have "angle_at (ca t) (area_mid t (int m)) * 180 / pi / ma \<le> angle_at (ca t) (area_mid t (int n)) * 180 / pi / ma"
      using assms(3) pi_gt_zero by (intro divide_right_mono mult_right_mono) auto
    then show ?thesis using v(1)[OF i(1,2)] v(1)[OF i(3,4)] by (simp add: floor_mono)
  qed simp
  then have "sorted (area_hori t)" by (simp add: sorted_iff_nth_mono)
  moreover have "\<forall>h\<in>set (area_hori t). ptz_left t \<le> h \<and> h \<le> ptz_right t"
    using range by (auto simp: in_set_conv_nth)
  ultimately show ?thesis using len by simp
qed

section \<open>A calibrated configuration\<close>

lemma sample_values:
  "cfg_int assoc_config sample_cfg ''ptz_addr'' ''1'' = Inr 1"
  "cfg_int assoc_config sample_cfg ''smooth_trace'' ''0'' = Inr 0"
  "cfg_int assoc_config sample_cfg ''ptz_left'' ''0'' = Inr 0"
  "cfg_int assoc_config sample_cfg ''ptz_right'' ''0'' = Inr 0"
  "cfg_int assoc_config sample_cfg ''ptz_init_x'' ''0'' = Inr 0"
  "cfg_int assoc_config sample_cfg ''ptz_init_y'' ''0'' = Inr 0"
  "cfg_int assoc_config sample_cfg ''ptz_init_z'' ''5000'' = Inr 5000"
  "cfg_int assoc_config sample_cfg ''video_width'' ''960'' = Inr 960"
  "cfg_int assoc_config sample_cfg ''teacher_area'' ''3'' = Inr 1"
  "cfg_str assoc_config sample_cfg ''ptz_serial_name'' ''COMX'' = Inr ''COM1''"
  "cfg_str assoc_config sample_cfg ''trace_policy'' ''simple.trace.policy.config'' = Inr ''simple.trace.policy.config''"
  by (simp_all add: cfg_int_def cfg_str_def assoc_config_def sample_cfg_def text_number)

lemma sample_reals:
  "cfg_real assoc_config sample_cfg ''cam_trace_min_hangle'' ''0.075'' = Inr (3 / 40)"
  "\<exists>prm. load_ptz_params assoc_config sample_cfg = Inr prm \<and> pp_min_angle_hori prm = 3 / 40 \<and> pp_view_angle_hori prm = 145 / 2"
  by (simp_all add: load_ptz_params_def cfg_real_def cfg_str_def assoc_config_def sample_cfg_def text_number)

lemma sample_points:
  "load_points assoc_config sample_cfg ''calibration_data2'' = Inr sample_edges"
  "load_points assoc_config sample_cfg ''calibration_data3'' = Inr []"
  using points_loop_text[of sample_edges "[]"]
  by (simp_all add: load_points_def assoc_config_def sample_cfg_def point_ok_def int_ok_def sample_edges_def)

definition sample_arc :: Cal_Angle where
  "sample_arc = \<lparr>angle_left = pi / 6, angle_right = pi / 6, p_left = 100, p_right = 860\<rparr>"

lemma sample_arc_ok: "cal_ok sample_arc"
  using pi_gt_zero by (simp add: cal_ok_def sample_arc_def)

lemma sample_arc_mid: "get_angle sample_arc 480 = Inr (pi / 6)"
proof -
  have "mid_len sample_arc = 380 / tan (pi / 6)" by (simp add: mid_len_def sample_arc_def)
  then have "angle_at sample_arc 480 = pi / 6 - arctan (tan (pi / 6) - 380 / (380 / tan (pi / 6)))"
    using angle_at_eq(2)[OF sample_arc_ok, of 480] by (simp add: sample_arc_def)
  also have "\<dots> = pi / 6" by simp
  finally show ?thesis using get_angle_between(1)[OF sample_arc_ok, of 480] by (simp add: sample_arc_def)
qed

lemma sample_open:
  "\<exists>t. TeacherPtz_open assoc_config sample_cfg (\<lambda>_ _. True) 0 0 = Inr t \<and> ca t = sample_arc \<and>
     area_hori t = [0] \<and> ptz_left t = -400 \<and> ptz_right t = 400 \<and> areas t = 1"
proof -
  have div: "c_div 960 2 = Inr 480" "c_div 760 1 = Inr 760" "c_div 760 4 = Inr 190" "c_div 760 2 = Inr 380"
    by (simp_all add: c_div_pos int_ok_def)
  obtain prm where prm: "load_ptz_params assoc_config sample_cfg = Inr prm" using sample_reals(2) by blast
  show ?thesis
    using sample_arc_mid
    by (simp add: TeacherPtz_open_def Ptz_open_def sample_values prm sample_reals(1) sample_points load_policy_data_def
      load_calibration_edge_def sample_edges_def widen_edge_def div calc_calibration_area_def Let_def
      area_pos_def area_segment_def c_trunc_def c_str_def sample_arc_def cong: bind_r_weak)
qed

theorem area_positions_inside_witness:
  "\<exists>t. TeacherPtz_open assoc_config sample_cfg (\<lambda>_ _. True) 0 0 = Inr t \<and> length (area_hori t) = 1 \<and>
     -400 \<le> area_hori t ! 0 \<and> area_hori t ! 0 \<le> 400"
proof -
  obtain t where t: "TeacherPtz_open assoc_config sample_cfg (\<lambda>_ _. True) 0 0 = Inr t" "ca t = sample_arc"
      "area_hori t = [0]" "ptz_left t = -400" "ptz_right t = 400" "areas t = 1"
    using sample_open by auto
  have "cal_ok (ca t)" unfolding t(2) by (rule sample_arc_ok)
  moreover have "0 < (3 / 40 :: real)" by simp
  ultimately have in_arc: "\<forall>h\<in>set (area_hori t). ptz_left t \<le> h \<and> h \<le> ptz_right t"
    using area_positions_inside[OF t(1) sample_reals(1)] by blast
  have "area_hori t ! 0 \<in> set (area_hori t)" "length (area_hori t) = 1" unfolding t(3) by simp_all
  with in_arc t(1,4,5) show ?thesis by metis
qed

lemma areas_loop_fault: "0 < n \<Longrightarrow> area_pos ma t i = Inl e \<Longrightarrow> areas_loop ma n i t = Inl e"
  by (cases n) auto

text \<open>without any calibration the constructor is undefined: the strip is empty, \<open>get_angle\<close> divides zero
  by zero, and what is no number is converted to int. The warning it logs does not stop it.\<close>

theorem uncalibrated_is_undefined:
  assumes "\<And>k d. kv_get K c k d = d"
  shows "TeacherPtz_open K c port now g = Inl Div_Zero"
proof -
  have s: "cfg_str K c k d = Inr d" for k d using assms by (simp add: cfg_str_def)
  have div: "c_div 960 2 = Inr 480" "c_div 0 3 = Inr 0" "c_div 0 4 = Inr 0" "c_div 0 2 = Inr 0" "c_int 0 = Inr 0"
    by (simp_all add: c_div_pos int_ok_def c_int_def)
  show ?thesis
    by (simp add: TeacherPtz_open_def Ptz_open_def load_ptz_params_def cfg_int_def cfg_real_def s text_number load_policy_data_def
      load_calibration_edge_def load_points_def assms div calc_calibration_area_def Let_def areas_loop_fault area_pos_def
      get_angle_def cong: bind_r_weak)
qed

theorem uncalibrated_is_undefined_witness:
  "TeacherPtz_open assoc_config [] (\<lambda>_ _. True) 0 0 = Inl Div_Zero"
  by (rule uncalibrated_is_undefined) (simp add: assoc_config_def)

section \<open>Which area the target is in\<close>

text \<open>A strip whose width is a multiple of the number of areas, the camera pointing at one of them.\<close>

definition strip_ok :: "'c TeacherPtz \<Rightarrow> bool" where
  "strip_ok t \<longleftrightarrow> 0 < areas t \<and> 0 < area_length t \<and> 0 \<le> calibration_left_edge t \<and>
     calibration_right_edge t - calibration_left_edge t = areas t * area_length t \<and> int_ok (areas t * area_length t) \<and>
     int (length (segments t)) = areas t \<and> int (length (area_hori t)) = areas t \<and>
     (\<forall>i<nat (areas t). fst (segments t ! i) = max 0 (int i * area_length t - area_overlap_length t) \<and>
        snd (segments t ! i) = min ((int i + 1) * area_length t + area_overlap_length t) (calibration_right_edge t)) \<and>
     0 \<le> area_overlap_length t \<and> -1 \<le> last_area_index t \<and> last_area_index t < areas t"

lemma area_segment_value:
  assumes "area_segment t i = Inr s" and "p_right (ca t) = real_of_int e" and "0 \<le> e"
  shows "fst s = max 0 (i * area_length t - area_overlap_length t)"
    and "snd s = min ((i + 1) * area_length t + area_overlap_length t) e"
proof -
  obtain il l ir r r' where lr: "c_int (i * area_length t) = Inr il" "c_int (il - area_overlap_length t) = Inr l"
      "c_int ((i + 1) * area_length t) = Inr ir" "c_int (ir + area_overlap_length t) = Inr r"
      "(if real_of_int r > real_of_int e then c_trunc (real_of_int e) else Inr r) = Inr r'"
      "s = (if l < 0 then 0 else l, r')"
    using assms(1)[unfolded area_segment_def Let_def assms(2)] by auto
  have "r' = min r e" using lr(5) assms(3) by (auto dest: c_trunc_nonneg split: if_splits)
  with lr(6) show "fst s = max 0 (i * area_length t - area_overlap_length t)"
    "snd s = min ((i + 1) * area_length t + area_overlap_length t) e"
    using c_int_value[OF lr(1)] c_int_value[OF lr(2)] c_int_value[OF lr(3)] c_int_value[OF lr(4)] by auto
qed

lemma open_strip_ok:
  assumes s: "strip K c t" and "0 < areas t" and "0 \<le> calibration_left_edge t"
    and "calibration_left_edge t < calibration_right_edge t" and "int_ok (calibration_right_edge t - calibration_left_edge t)"
    and dvd: "areas t dvd calibration_right_edge t - calibration_left_edge t"
  shows "strip_ok t"
proof -
  have le: "calibration_left_edge t \<le> calibration_right_edge t" using assms(4) by simp
  note l = strip_lengths[OF s assms(2) le]
  have w: "calibration_right_edge t - calibration_left_edge t = areas t * area_length t"
    using dvd l(1) by simp
  then have "0 < areas t * area_length t" using assms(4) by simp
  then have pos: "0 < area_length t" using assms(2) by (simp add: zero_less_mult_iff)
  have seg: "area_segment t (int i) = Inr (segments t ! i)" if "i < nat (areas t)" for i
    using s that by (auto simp: strip_def)
  have right: "p_right (ca t) = real_of_int (calibration_right_edge t)" using s by (auto simp: strip_def)
  have "0 \<le> calibration_right_edge t" using assms(3,4) by simp
  note v = area_segment_value[OF seg right this]
  have len: "int (length (segments t)) = areas t" "int (length (area_hori t)) = areas t" "last_area_index t = -1"
    using s by (auto simp: strip_def)
  have "0 \<le> area_overlap_length t" using l(2,3) by simp
  moreover have "int_ok (areas t * area_length t)" using assms(5) w by metis
  ultimately show ?thesis
    unfolding strip_ok_def
    by (intro conjI allI impI w pos v len assms(2,3)) (use len assms(2) in simp_all)
qed

lemma div_less_mult: 
  assumes "0 < b" and "a < c * b"
  shows "a div b < (c :: int)"
proof (rule ccontr)
  assume "\<not> a div b < c"
  then have "c * b \<le> (a div b) * b" using assms(1) by (intro mult_right_mono) auto
  also have "\<dots> \<le> a" using div_mult_mod_eq[of a b] pos_mod_sign[OF assms(1), of a] by linarith
  finally show False using assms(2) by simp
qed

lemma area_changed_range:
  assumes ok: "strip_ok t" and off: "0 \<le> off" "off < areas t * area_length t"
  shows "\<exists>i b. area_changed off t = Inr (i, b, t\<lparr>last_area_index := i\<rparr>) \<and> 0 \<le> i \<and> i < areas t"
proof (cases "last_area_index t = -1")
  case True
  have "int_ok off" using ok off by (simp add: strip_ok_def int_ok_def)
  then have "c_div off (area_length t) = Inr (off div area_length t)"
    using ok off by (intro c_div_pos) (auto simp: strip_ok_def)
  moreover have "off div area_length t < areas t"
    using ok off by (intro div_less_mult) (auto simp: strip_ok_def)
  moreover have "0 \<le> off div area_length t" using ok off by (simp add: strip_ok_def pos_imp_zdiv_nonneg_iff)
  ultimately show ?thesis
    using True by (intro exI[of _ "off div area_length t"] exI[of _ True]) (simp add: area_changed_def)
next
  case False
  let ?k = "last_area_index t"
  have k: "0 \<le> ?k" "?k < areas t" using ok False by (auto simp: strip_ok_def)
  then have seg: "fst (segments t ! nat ?k) = max 0 (?k * area_length t - area_overlap_length t)"
      "snd (segments t ! nat ?k) = min ((?k + 1) * area_length t + area_overlap_length t) (calibration_right_edge t)"
    using ok by (auto simp: strip_ok_def)
  have low: "?k \<noteq> 0" if "off < fst (segments t ! nat ?k)"
    using that off(1) ok unfolding seg by (auto simp: strip_ok_def)
  have high: "?k + 1 < areas t" if "snd (segments t ! nat ?k) < off"
  proof (rule ccontr)
    assume "\<not> ?k + 1 < areas t"
    then have "?k + 1 = areas t" using k by simp
    then have "areas t * area_length t \<le> snd (segments t ! nat ?k)"
      using ok unfolding seg by (auto simp: strip_ok_def)
    with that off show False by simp
  qed
  have "?k < int (length (segments t))" using k ok by (simp add: strip_ok_def)
  then show ?thesis
    using k low high False by (auto simp: area_changed_def Let_def)
qed

lemma target_offset:
  fixes l r :: real
  assumes "poss d = (l, r) # ps" and "dd_valid d" and "calibration_left_edge t \<le> l" and "r \<le> calibration_right_edge t" and "l < r"
    and "0 \<le> calibration_left_edge t" and "int_ok (calibration_right_edge t)"
  shows "get_area_from_data d t = area_changed (\<lfloor>(l + r) / 2\<rfloor> - calibration_left_edge t) t"
    and "0 \<le> \<lfloor>(l + r) / 2\<rfloor> - calibration_left_edge t"
    and "\<lfloor>(l + r) / 2\<rfloor> - calibration_left_edge t < calibration_right_edge t - calibration_left_edge t"
proof -
  have x: "calibration_left_edge t \<le> (l + r) / 2" "(l + r) / 2 < calibration_right_edge t" using assms(3-5) by auto
  then have f: "calibration_left_edge t \<le> \<lfloor>(l + r) / 2\<rfloor>" "\<lfloor>(l + r) / 2\<rfloor> < calibration_right_edge t"
    by (simp_all add: le_floor_iff floor_less_iff)
  then show "0 \<le> \<lfloor>(l + r) / 2\<rfloor> - calibration_left_edge t"
    "\<lfloor>(l + r) / 2\<rfloor> - calibration_left_edge t < calibration_right_edge t - calibration_left_edge t" by simp_all
  have "c_trunc ((l + r) / 2) = Inr \<lfloor>(l + r) / 2\<rfloor>"
    using x f assms(6,7) by (simp add: c_trunc_def c_int_def int_ok_def)
  moreover have "c_int (\<lfloor>(l + r) / 2\<rfloor> - calibration_left_edge t) = Inr (\<lfloor>(l + r) / 2\<rfloor> - calibration_left_edge t)"
    using f assms(6,7) by (simp add: c_int_def int_ok_def)
  ultimately show "get_area_from_data d t = area_changed (\<lfloor>(l + r) / 2\<rfloor> - calibration_left_edge t) t"
    using assms(1-5) by (simp add: get_area_from_data_def)
qed

text \<open>while the target stays on the calibrated strip and the strip's width is a multiple of the number of
  areas, the area index is always in the table: the first detection finds the area by division, later
  ones move by at most one area per frame, and neither leaves the range nor fails an assertion.\<close>

theorem area_index_in_range:
  fixes l r :: real
  assumes "strip_ok t" and "int_ok (calibration_right_edge t)"
    and "dd_valid d" and "poss d = (l, r) # ps"
    and "calibration_left_edge t \<le> l" and "l < r" and "r \<le> calibration_right_edge t"
  shows "\<exists>i b. get_area_from_data d t = Inr (i, b, t\<lparr>last_area_index := i\<rparr>) \<and> 0 \<le> i \<and> i < areas t \<and>
    strip_ok (t\<lparr>last_area_index := i\<rparr>) \<and> (last_area_index t \<noteq> -1 \<longrightarrow> \<bar>i - last_area_index t\<bar> \<le> 1)"
proof -
  have "0 \<le> calibration_left_edge t" using assms(1) by (simp add: strip_ok_def)
  note off = target_offset[OF assms(4,3,5,7,6) this assms(2)]
  let ?off = "\<lfloor>(l + r) / 2\<rfloor> - calibration_left_edge t"
  have "?off < areas t * area_length t" using off(3) assms(1) by (simp add: strip_ok_def)
  from area_changed_range[OF assms(1) off(2) this] obtain i b where
    i: "area_changed ?off t = Inr (i, b, t\<lparr>last_area_index := i\<rparr>)" "0 \<le> i" "i < areas t" by auto
  then have "strip_ok (t\<lparr>last_area_index := i\<rparr>)" using assms(1) by (simp add: strip_ok_def)
  moreover have "\<bar>i - last_area_index t\<bar> \<le> 1" if "last_area_index t \<noteq> -1"
    using i(1) that by (auto simp: area_changed_def Let_def split: if_splits)
  ultimately show ?thesis using i off(1) by auto
qed


section \<open>One reset per loss\<close>

fun lost_frames :: "'c kvconfig \<Rightarrow> 'c \<Rightarrow> int \<Rightarrow> real \<Rightarrow> real list \<Rightarrow> 'c TeacherPtz \<Rightarrow> 'c TeacherPtz result" where
  "lost_frames K c h z [] t = Inr t"
| "lost_frames K c h z (s # ss) t =
     bind_r (set_detected_data K c h z \<lparr>dd_valid = False, dd_stamp = s, poss = []\<rparr> t) (lost_frames K c h z ss)"

definition tasks_added :: "'c TeacherPtz \<Rightarrow> nat" where
  "tasks_added t = length (all_added (tp_base t))"

lemma ad_frame_lost: "\<not> ad_valid a \<Longrightarrow> \<not> ad_valid (ad_frame (False, s) a)"
  by (simp add: ad_frame_def set_invalid_stamp_def Let_def)

lemma reset_adds:
  assumes "tp_reset_ptz K c t = Inr t'"
  shows "tasks_added t' \<le> tasks_added t + 1 \<and> smooth t' = smooth t \<and> reseted t' = reseted t \<and>
    timeout_chker t' = timeout_chker t \<and> tp_running_state t' = tp_running_state t"
  using assms
  by (auto simp: tp_reset_ptz_def Ptz_reset_ptz_def Ptz_add_def Ptz_push_def Ptz_post_def tasks_added_def opt_list_def
      split: if_splits option.splits)

lemma target_lost_adds:
  assumes "target_lost K c t = Inr t'"
  shows "smooth t' = smooth t \<and> timeout_chker t' = timeout_chker t \<and> tp_running_state t' = tp_running_state t \<and>
    (reseted t \<longrightarrow> reseted t' \<and> tasks_added t' = tasks_added t) \<and>
    (tasks_added t' = tasks_added t \<or> reseted t' \<and> tp_running_state t = 0 \<and> tasks_added t' \<le> tasks_added t + 1)"
proof -
  have same: "tasks_added (t\<lparr>stable := b\<rparr>) = tasks_added t" "tasks_added (t\<lparr>stable := b, reseted := e\<rparr>) = tasks_added t"
    "tasks_added (u\<lparr>last_area_index := i\<rparr>) = tasks_added u" for b e i and u :: "'a TeacherPtz"
    by (simp_all add: tasks_added_def)
  show ?thesis
    using assms
    by (auto simp: target_lost_def Let_def same split: if_splits dest!: reset_adds)
qed

lemma lost_frames_adds:
  assumes "lost_frames K c h z ss t = Inr t'" and "\<not> smooth t" and "\<not> ad_valid (timeout_chker t)"
  shows "(reseted t \<longrightarrow> tasks_added t' = tasks_added t) \<and> tasks_added t' \<le> tasks_added t + 1 \<and>
    (tp_running_state t \<noteq> 0 \<longrightarrow> tasks_added t' = tasks_added t)"
  using assms
proof (induction ss arbitrary: t)
  case (Cons s ss)
  let ?t = "t\<lparr>timeout_chker := ad_frame (False, s) (timeout_chker t)\<rparr>"
  have inv: "\<not> ad_valid (timeout_chker ?t)" using ad_frame_lost[OF Cons.prems(3)] by simp
  obtain u where u: "target_lost K c ?t = Inr u" "lost_frames K c h z ss u = Inr t'"
    using Cons.prems inv by (auto simp: set_detected_data_def Let_def)
  note l = target_lost_adds[OF u(1)]
  have same: "tasks_added ?t = tasks_added t" "reseted ?t = reseted t" by (simp_all add: tasks_added_def)
  have "\<not> smooth u" "\<not> ad_valid (timeout_chker u)" using l inv Cons.prems(2) by simp_all
  note ih = Cons.IH[OF u(2) this]
  show ?case
    using ih l unfolding same by auto
qed simp

text \<open>C26: a lost target resets the camera at most once: over any number of frames without a target, from a
  state in which the loss is already noticed, at most one task is given to the camera thread, and none
  while the operator is setting positions (\<open>running_state_\<close> not 0) or after an earlier reset.\<close>

theorem one_reset_per_loss:
  assumes "\<not> smooth t" and "\<not> ad_valid (timeout_chker t)" and "lost_frames K c h z ss t = Inr t'"
  shows "tasks_added t' \<le> tasks_added t + 1 \<and>
    (reseted t \<or> tp_running_state t \<noteq> 0 \<longrightarrow> tasks_added t' = tasks_added t)"
  using lost_frames_adds[OF assms(3,1,2)] by auto

section \<open>Witnesses\<close>









definition sample_strip :: "(string \<times> string) list TeacherPtz" where
  "sample_strip =
     \<lparr>tp_base = ptz_start True, tp_policy = \<lparr>cfg_policy = []\<rparr>, reseted = False, stable = False, smooth = False,
      tp_running_state = 0, ptz_left = -400, ptz_right = 400, ptz_v = 0, ptz_z = 5000, areas = 2,
      area_length = 380, area_overlap_length = 95, area_hori = [-200, 200], video_width = 960,
      calibration_left_edge = 100, calibration_right_edge = 860, ca = sample_arc, last_area_index = 0,
      segments = [(0, 475), (285, 855)], timeout_chker = AreaDuration_init, chk_valid_data = ChkValidData_init 0,
      tp_valid_duration = StateDuration_init 0, min_angle_hori = 3 / 40, view_angle_hori = 145 / 2, direct = []\<rparr>"

lemma sample_strip_ok: "strip_ok sample_strip"
proof -
  have two: "i < 2 \<Longrightarrow> i = 0 \<or> i = 1" for i :: nat by linarith
  show ?thesis by (auto simp: strip_ok_def sample_strip_def int_ok_def dest!: two)
qed

theorem area_index_in_range_witness:
  "\<exists>i b. get_area_from_data \<lparr>dd_valid = True, dd_stamp = 1, poss = [(700, 800)]\<rparr> sample_strip =
      Inr (i, b, sample_strip\<lparr>last_area_index := i\<rparr>) \<and> 0 \<le> i \<and> i < 2"
proof -
  have "dd_valid \<lparr>dd_valid = True, dd_stamp = 1, poss = [(700, 800)]\<rparr>" by simp
  from area_index_in_range[OF sample_strip_ok _ this, of 700 800 "[]"]
  show ?thesis by (auto simp: sample_strip_def int_ok_def)
qed

theorem one_reset_per_loss_witness:
  "\<exists>t'. lost_frames assoc_config [] 0 1 [1, 3, 7, 9, 20] sample_strip = Inr t' \<and> tasks_added t' \<le> tasks_added sample_strip + 1"
proof -
  have p: "cfg_real assoc_config [] ''time_to_fullview_after_no_target'' ''1.0'' = Inr 1"
    "cfg_real assoc_config [] ''time_to_reset_ptz'' ''5.0'' = Inr 5"
    "cfg_int assoc_config [] ''ptz_init_x'' ''0'' = Inr 0" "cfg_int assoc_config [] ''ptz_init_y'' ''0'' = Inr 0"
    "cfg_int assoc_config [] ''ptz_init_z'' ''5000'' = Inr 5000"
    by (simp_all add: cfg_real_def cfg_int_def cfg_str_def assoc_config_def text_number)
  have "\<exists>t'. lost_frames assoc_config [] 0 1 [1, 3, 7, 9, 20] sample_strip = Inr t'"
    by (simp add: set_detected_data_def sample_strip_def ad_frame_def set_invalid_stamp_def AreaDuration_init_def
        CONTINIOUS_COUNT_def Let_def target_lost_def time_to_fullview_after_no_target_def time_to_reset_ptz_def p
        invalid_duration_def tp_reset_ptz_def Ptz_reset_ptz_def ptz_start_def Ptz_add_def Ptz_push_def Ptz_post_def
        cong: bind_r_weak)
  then obtain t' where t': "lost_frames assoc_config [] 0 1 [1, 3, 7, 9, 20] sample_strip = Inr t'" by blast
  have "\<not> smooth sample_strip" "\<not> ad_valid (timeout_chker sample_strip)"
    by (simp_all add: sample_strip_def AreaDuration_init_def)
  from one_reset_per_loss[OF this t'] t' show ?thesis by blast
qed

end
