(* ===== verification/Teacher_Running.thy ===== *)
theory Teacher_Running
  imports Running_Base Teacher_Ptz
begin

text \<open>
  \<open>TeacherRunning.h\<close> and \<open>TeacherRunning.cpp\<close>: the modes of the teacher's side (running, calibrating a
  polygon, setting camera positions), its keys and mouse clicks, and what it does with each picture;
  with the part of \<open>TeacherDetecting.cpp\<close> that turns the contours OpenCV finds into positions.

  The shift key, the camera's answers and the contours are arguments of the operations that ask for them.
\<close>

section \<open>The detector\<close>

type_synonym rect = "int \<times> int \<times> int \<times> int"

definition rect_area :: "rect \<Rightarrow> int" where
  "rect_area r = (case r of (x, y, w, h) \<Rightarrow> w * h)"

text \<open>\<open>refineSegments\<close> behind the image operations: drop small boxes, largest first, left and right edge.
  \<open>std::sort\<close> may order boxes of equal area in any way; the model keeps their order.\<close>

definition refineSegments :: "int \<Rightarrow> rect list \<Rightarrow> (real \<times> real) list" where
  "refineSegments cols boxes =
     map (\<lambda>(x, y, w, h). (real_of_int x, real_of_int (x + w)))
       (sort_key (\<lambda>r. - rect_area r) (filter (\<lambda>r. rect_area r > cols * 230 div 960) boxes))"

definition det_one_frame :: "int \<Rightarrow> rect list \<Rightarrow> (real \<times> real) list option" where
  "det_one_frame cols boxes = (let t = refineSegments cols boxes in if length t > 0 then Some t else None)"

text \<open>The box it draws around the largest one.\<close>

definition det_drawing :: "int \<Rightarrow> rect list \<Rightarrow> draw list" where
  "det_drawing cols boxes =
     (case sort_key (\<lambda>r. - rect_area r) (filter (\<lambda>r. rect_area r > cols * 230 div 960) boxes) of
        [] \<Rightarrow> []
      | (x, y, w, h) # _ \<Rightarrow> [Draw_Rect (x, y) (x + w, y + h) Red])"

section \<open>State\<close>

datatype State = RUNNING | CALIBRATING | PTZINITING | CALIBRATING2 | CALIBRATING3 | PTZINIT_LEFT | PTZINIT_RIGHT
datatype SwitchTo = FULLVIEW | CLOSEVIEW

record 'c TeacherRunning =
  run :: "'c Running"
  t_state :: State
  switcher :: SwitchTo
  show_state :: string
  calibrations :: "point list"
  roi :: "point list"
  t_ptz :: "'c TeacherPtz"
  movie :: "image list"

definition load_roi :: "'c kvconfig \<Rightarrow> 'c \<Rightarrow> point list result" where
  "load_roi K c =
     bind_r (load_points K c ''calibration_data2'') (\<lambda>ps.
     bind_r (load_points K c ''calibration_data3'') (\<lambda>ps2. Inr (ps @ ps2)))"

definition TeacherRunning_open ::
    "'c kvconfig \<Rightarrow> 'c \<Rightarrow> (string \<Rightarrow> int \<Rightarrow> bool) \<Rightarrow> real \<Rightarrow> int \<Rightarrow> 'c TeacherRunning result" where
  "TeacherRunning_open K c port now garbage =
     bind_r (Running_open K c) (\<lambda>r.
     bind_r (load_roi K c) (\<lambda>ps.
     bind_r (TeacherPtz_open K c port now garbage) (\<lambda>p.
     Inr \<lparr>run = r, t_state = RUNNING, switcher = FULLVIEW, show_state = [], calibrations = [], roi = ps,
          t_ptz = p, movie = []\<rparr>)))"

definition set_cfg :: "'c \<Rightarrow> 'c TeacherRunning \<Rightarrow> 'c TeacherRunning" where
  "set_cfg c t = t\<lparr>run := (run t)\<lparr>cfg := c\<rparr>\<rparr>"

definition mask_on :: "bool \<Rightarrow> 'c TeacherRunning \<Rightarrow> 'c TeacherRunning" where
  "mask_on b t = t\<lparr>run := enable_mask b (run t)\<rparr>"

definition on_ptz :: "('c TeacherPtz \<Rightarrow> 'c TeacherPtz) \<Rightarrow> 'c TeacherRunning \<Rightarrow> 'c TeacherRunning" where
  "on_ptz f t = t\<lparr>t_ptz := f (t_ptz t)\<rparr>"

definition t_has_ptz :: "'c TeacherRunning \<Rightarrow> bool" where
  "t_has_ptz t = has_ptz (tp_base (t_ptz t))"

text \<open>\<open>if (ptz_->ptz()) ptz_->add (...)\<close>.\<close>

definition add_if_ptz :: "(bool \<Rightarrow> Task option) \<Rightarrow> 'c TeacherRunning \<Rightarrow> 'c TeacherRunning" where
  "add_if_ptz f t = (if t_has_ptz t then on_ptz (tp_add (f True)) t else t)"

section \<open>Keys\<close>

abbreviation ESC :: int where "ESC \<equiv> 27"
abbreviation ENTER :: int where "ENTER \<equiv> 13"

definition key_running_handle :: "'c kvconfig \<Rightarrow> int \<Rightarrow> 'c TeacherRunning \<Rightarrow> 'c TeacherRunning result" where
  "key_running_handle K key t =
     (if key = 99 \<or> key = 98 \<or> key = 100 then \<comment> \<open>c, b, d\<close>
        let t = t\<lparr>t_state := if key = 99 then CALIBRATING else if key = 98 then CALIBRATING2 else CALIBRATING3\<rparr>;
            t = t\<lparr>calibrations := []\<rparr>
        in Inr (mask_on False t)
      else if key = 112 then \<comment> \<open>p\<close>
        let t = on_ptz (send_cmd Cmd_stop) t;
            t = on_ptz (send_cmd Cmd_zoom_stop) t;
            t = on_ptz (set_running_state 1) t;
            t = t\<lparr>t_state := PTZINITING\<rparr>
        in bind_r (tp_reset_ptz K (cfg (run t)) (t_ptz t)) (\<lambda>p. Inr (t\<lparr>t_ptz := p\<rparr>))
      else if key = 108 \<or> key = 114 then \<comment> \<open>l, r\<close>
        let t = on_ptz (set_running_state 1) t;
            t = on_ptz (send_cmd Cmd_stop) t;
            t = on_ptz (send_cmd Cmd_zoom_stop) t;
            t = on_ptz (set_running_state 1) t
        in if key = 108 then Inr (on_ptz turn_left_edge (t\<lparr>t_state := PTZINIT_LEFT\<rparr>))
           else Inr (on_ptz turn_right_edge (t\<lparr>t_state := PTZINIT_RIGHT\<rparr>))
      else Inr t)"

text \<open>\<open>pos\<close> is the camera's position (horizontal, vertical), \<open>zoom\<close> its zoom, \<open>shift\<close> the state of the
  shift key.\<close>

definition key_ptzinit_left_right_handle ::
    "'c kvconfig \<Rightarrow> bool \<Rightarrow> int \<times> int \<Rightarrow> int \<Rightarrow> 'c TeacherRunning \<Rightarrow> 'c TeacherRunning" where
  "key_ptzinit_left_right_handle K shift pos key t =
     (let move_timeout = (if shift then 100 else 200) in
      if key = ESC then on_ptz (set_running_state 0) (t\<lparr>t_state := RUNNING\<rparr>)
      else if key = ENTER then
        let t = (if t_has_ptz t then
                   let c = (if t_state t = PTZINIT_LEFT then kv_set_int K (cfg (run t)) ''ptz_left'' (fst pos)
                            else kv_set_int K (cfg (run t)) ''ptz_right'' (fst pos))
                   in set_cfg (kv_save K c) t
                 else t)
        in (on_ptz (set_running_state 0) t)\<lparr>t_state := RUNNING\<rparr>
      else if key = 0x250000 then add_if_ptz (\<lambda>p. task_ptz_move p 1 1 move_timeout) t
      else if key = 0x270000 then add_if_ptz (\<lambda>p. task_ptz_move p 2 1 move_timeout) t
      else t)"

definition key_ptziniting_handle ::
    "'c kvconfig \<Rightarrow> bool \<Rightarrow> int \<times> int \<Rightarrow> int \<Rightarrow> int \<Rightarrow> 'c TeacherRunning \<Rightarrow> 'c TeacherRunning" where
  "key_ptziniting_handle K shift pos zoom key t =
     (let move_timeout = (if shift then 50 else 250) in
      if key = ESC then (on_ptz (set_running_state 0) t)\<lparr>t_state := RUNNING\<rparr>
      else if key = ENTER then
        let t = (if t_has_ptz t then
                   let c = kv_set_int K (cfg (run t)) ''ptz_init_x'' (fst pos);
                       c = kv_set_int K c ''ptz_init_y'' (snd pos);
                       c = kv_set_int K c ''ptz_init_z'' zoom
                   in set_cfg (kv_save K c) t
                 else t)
        in (on_ptz (set_running_state 0) t)\<lparr>t_state := RUNNING\<rparr>
      else if key = 0x3d then add_if_ptz (\<lambda>p. task_ptz_zoom p True 7 100) t
      else if key = 0x2b then add_if_ptz (\<lambda>p. task_ptz_zoom p True 7 200) t
      else if key = 0x5f then add_if_ptz (\<lambda>p. task_ptz_zoom p False 7 100) t
      else if key = 0x2d then add_if_ptz (\<lambda>p. task_ptz_zoom p False 7 200) t
      else if key = 0x250000 then add_if_ptz (\<lambda>p. task_ptz_move p 1 1 move_timeout) t
      else if key = 0x270000 then add_if_ptz (\<lambda>p. task_ptz_move p 2 1 move_timeout) t
      else if key = 0x260000 then add_if_ptz (\<lambda>p. task_ptz_move p 3 1 move_timeout) t
      else if key = 0x280000 then add_if_ptz (\<lambda>p. task_ptz_move p 4 1 move_timeout) t
      else t)"

text \<open>The two halves of ENTER while calibrating: store the polygon, rebuild the mask. \<open>stack\<close> is what lies
  in the 4096 bytes that \<open>alloca\<close> returns.\<close>

definition store_polygon :: "'c kvconfig \<Rightarrow> (nat \<Rightarrow> char) \<Rightarrow> 'c TeacherRunning \<Rightarrow> 'c TeacherRunning result" where
  "store_polygon K stack t =
     (if length (calibrations t) < 4 then
        Inr (set_cfg (kv_save K (kv_set K (cfg (run t)) ''calibration_data'' [])) t)
      else
        bind_r (points_to_text stack (calibrations t)) (\<lambda>pts.
        let c = cfg (run t);
            c = (if t_state t = CALIBRATING then kv_set K c ''calibration_data'' pts
                 else if t_state t = CALIBRATING2 then kv_set K c ''calibration_data2'' pts
                 else if t_state t = CALIBRATING3 then kv_set K c ''calibration_data3'' pts else c)
        in Inr (set_cfg (kv_save K c) t)))"

definition rebuild_mask :: "'c kvconfig \<Rightarrow> 'c TeacherRunning \<Rightarrow> 'c TeacherRunning result" where
  "rebuild_mask K t =
     bind_r (if t_state t = CALIBRATING then build_mask K (Some ''calibration_data'') None (run t)
             else build_mask K (Some ''calibration_data2'') (Some ''calibration_data3'') (run t)) (\<lambda>(m, r).
     Inr (t\<lparr>run := r\<lparr>img_mask := Some m\<rparr>\<rparr>))"

definition key_calibrating_handle ::
    "'c kvconfig \<Rightarrow> (nat \<Rightarrow> char) \<Rightarrow> int \<Rightarrow> 'c TeacherRunning \<Rightarrow> 'c TeacherRunning result" where
  "key_calibrating_handle K stack key t =
     (if key = ESC then Inr (mask_on True (t\<lparr>t_state := RUNNING\<rparr>))
      else if key = ENTER then
        bind_r (store_polygon K stack t) (\<lambda>t.
        bind_r (rebuild_mask K t) (\<lambda>t.
        Inr ((mask_on True t)\<lparr>t_state := RUNNING\<rparr>)))
      else Inr t)"

record key_input =
  stack_bytes :: "nat \<Rightarrow> char"
  shift_down :: bool
  cam_pos :: "int \<times> int"
  cam_zoom :: int

definition key_handle :: "'c kvconfig \<Rightarrow> key_input \<Rightarrow> int \<Rightarrow> 'c TeacherRunning \<Rightarrow> 'c TeacherRunning result" where
  "key_handle K i key t =
     (case t_state t of
        RUNNING \<Rightarrow> key_running_handle K key t
      | CALIBRATING \<Rightarrow> key_calibrating_handle K (stack_bytes i) key t
      | CALIBRATING2 \<Rightarrow> key_calibrating_handle K (stack_bytes i) key t
      | CALIBRATING3 \<Rightarrow> key_calibrating_handle K (stack_bytes i) key t
      | PTZINIT_LEFT \<Rightarrow> Inr (key_ptzinit_left_right_handle K (shift_down i) (cam_pos i) key t)
      | PTZINIT_RIGHT \<Rightarrow> Inr (key_ptzinit_left_right_handle K (shift_down i) (cam_pos i) key t)
      | PTZINITING \<Rightarrow> Inr (key_ptziniting_handle K (shift_down i) (cam_pos i) (cam_zoom i) key t))"

section \<open>Mouse\<close>

definition calibrating :: "State \<Rightarrow> bool" where
  "calibrating s \<longleftrightarrow> s = CALIBRATING \<or> s = CALIBRATING2 \<or> s = CALIBRATING3"

text \<open>\<open>up\<close>: the event is \<open>CV_EVENT_LBUTTONUP\<close>.\<close>

definition mouse_detected :: "bool \<Rightarrow> int \<Rightarrow> int \<Rightarrow> 'c TeacherRunning \<Rightarrow> 'c TeacherRunning" where
  "mouse_detected up x y t =
     (if calibrating (t_state t) \<and> up then t\<lparr>calibrations := calibrations t @ [(x, y)]\<rparr> else t)"

definition mouse_traced :: "'c kvconfig \<Rightarrow> bool \<Rightarrow> int \<Rightarrow> int \<Rightarrow> 'c TeacherRunning \<Rightarrow> 'c TeacherRunning result" where
  "mouse_traced K up x y t =
     (if t_state t = PTZINITING \<and> up then
        bind_r (cfg_int K (cfg (run t)) ''video_window'' ''960'') (\<lambda>width.
        bind_r (cfg_int K (cfg (run t)) ''video_height'' ''540'') (\<lambda>height.
        bind_r (c_div width 2) (\<lambda>hw.
        bind_r (c_div height 2) (\<lambda>hh.
        bind_r (c_int (x - hw)) (\<lambda>dx.
        bind_r (c_int (hh - y)) (\<lambda>dy.
        bind_r (check_r (hw \<noteq> 0 \<and> hh \<noteq> 0) Div_Zero) (\<lambda>_.
        let hr = real_of_int dx / hw; vr = real_of_int dy / hh
        in Inr (add_if_ptz (\<lambda>p. task_ptz_center p hr vr 30) t))))))))
      else Inr t)"

section \<open>Pictures\<close>

text \<open>The help text, one line every 15 pixels from (10, 100), and the state line.\<close>

fun text_lines :: "string list \<Rightarrow> int \<Rightarrow> draw list" where
  "text_lines [] y = []"
| "text_lines (s # ss) y = Draw_Text s (10, y) Yellow # text_lines ss (y + 15)"

definition key_line :: "char \<Rightarrow> string \<Rightarrow> string" where
  "key_line c s = [CHR 0x27, c, CHR 0x27] @ s"

definition esc_line :: string where "esc_line = ''ESC to cancel and back.''"
definition enter_line :: string where "enter_line = ''ENTER to save and back.''"

definition centre_box :: "int \<Rightarrow> int \<Rightarrow> draw" where
  "centre_box w h = Draw_Rect (w div 2 - 1, h div 2 - 1) (w div 2 + 1, h div 2 + 1) Red"

definition show_info :: "'c TeacherRunning \<Rightarrow> 'c TeacherRunning \<times> draw list" where
  "show_info t =
     (let (help, s, extra) = (case t_state t of
          RUNNING \<Rightarrow>
            ([key_line (CHR ''b'') '' to Calibrate detecting 1st line....'',
              key_line (CHR ''d'') '' to Calibrate detecting 2nd line....'',
              key_line (CHR ''p'') '' to set ptz init position....'',
              key_line (CHR ''l'') '' to set teacher LEFT threshold ...'',
              key_line (CHR ''r'') '' to set teacher RIGHT threshold ...''], ''... running ...'', [])
        | CALIBRATING \<Rightarrow> ([esc_line, enter_line], ''using mouse to set teacher calibration area...'', [])
        | PTZINITING \<Rightarrow>
            ([esc_line, enter_line], ''mouse click for the init point in '' @ [CHR 0x27] @ ''Tracing Window'' @ [CHR 0x27] @ '' ... '',
             [centre_box (width (run t)) (height (run t))])
        | PTZINIT_LEFT \<Rightarrow> ([''ESC to calcel and back.'', enter_line], ''using LEFT/RIGHT key to adjust ptz...'', [])
        | PTZINIT_RIGHT \<Rightarrow> ([''ESC to calcel and back.'', enter_line], ''using LEFT/RIGHT key to adjust ptz...'', [])
        | CALIBRATING2 \<Rightarrow> ([esc_line, enter_line], ''using mouse to set teacher calibration area...'', [])
        | CALIBRATING3 \<Rightarrow> ([esc_line, enter_line], ''using mouse to set teacher calibration area...'', []))
      in (t\<lparr>show_state := s\<rparr>,
          text_lines help 100 @ extra @ [Draw_Text s (10, height (run t) - 10 - 15) Red]))"

text \<open>The polygon entered so far: a box and a number at every point, a line from each to the next, and the
  closing line, red while there are fewer than four points.\<close>

fun draw_points :: "int \<Rightarrow> point option \<Rightarrow> point list \<Rightarrow> draw list" where
  "draw_points n q0 [] = []"
| "draw_points n q0 (p # ps) =
     [Draw_Rect (fst p - 2, snd p - 2) (fst p + 2, snd p + 2) Green,
      Draw_Text (int_str n) (fst p + 2 + 3, snd p - 2) Green] @
     (case q0 of None \<Rightarrow> [] | Some q \<Rightarrow> [Draw_Line q p Green]) @ draw_points (n + 1) (Some p) ps"

definition show_calibrating :: "point list \<Rightarrow> draw list" where
  "show_calibrating ps =
     draw_points 1 None ps @
     (if ps = [] then [] else [Draw_Line (last ps) (hd ps) (if length ps < 4 then Red else Green)])"

text \<open>\<open>one_image\<close> behind the detection: help text, the picture for the movie, the picture for the detecting
  window, the switch of the camera. Without a mask \<open>img\<close> is \<open>rawimg\<close> (\<open>alias\<close>), so what is drawn is drawn
  on both.\<close>

definition switch_view :: "bool \<Rightarrow> SwitchTo \<Rightarrow> SwitchTo" where
  "switch_view is_stable s =
     (case s of
        FULLVIEW \<Rightarrow> if is_stable then CLOSEVIEW else s
      | CLOSEVIEW \<Rightarrow> if \<not> is_stable then FULLVIEW else s)"

definition show_result :: "bool \<Rightarrow> image \<Rightarrow> image \<Rightarrow> 'c TeacherRunning \<Rightarrow> 'c TeacherRunning \<times> image" where
  "show_result alias rawimg img t =
     (let (t, info) = show_info t;
          img = Drawn img info;
          full = (switcher t = FULLVIEW);
          img = (if full then Drawn img [Draw_Circle (30, 30) 10 Red] else img);
          t = (if full then t\<lparr>movie := movie t @ [if alias then img else rawimg]\<rparr> else t)
      in (t\<lparr>switcher := switch_view (stable (t_ptz t)) (switcher t)\<rparr>, img))"

definition detected_data :: "real \<Rightarrow> (real \<times> real) list option \<Rightarrow> DetectedData" where
  "detected_data now r =
     (case r of Some ps \<Rightarrow> \<lparr>dd_valid = True, dd_stamp = now, poss = ps\<rparr>
              | None \<Rightarrow> \<lparr>dd_valid = False, dd_stamp = now, poss = []\<rparr>)"

text \<open>\<open>boxes\<close> are the contours' boxes OpenCV finds in the picture, \<open>now\<close> the time, \<open>h\<close> and \<open>scale\<close> the
  camera's position and zoom.\<close>

definition one_image ::
    "'c kvconfig \<Rightarrow> (image \<Rightarrow> rect list) \<Rightarrow> real \<Rightarrow> int \<Rightarrow> real \<Rightarrow> image \<Rightarrow> image option \<Rightarrow> 'c TeacherRunning \<Rightarrow>
     ('c TeacherRunning \<times> image) result" where
  "one_image K boxes now h scale rawimg masked_img t =
     (let img = (case masked_img of None \<Rightarrow> rawimg | Some m \<Rightarrow> m);
          img = (if calibrating (t_state t) then Drawn img (show_calibrating (calibrations t)) else img);
          found = boxes img;
          data = detected_data now (det_one_frame (width (run t)) found);
          img = Drawn img (det_drawing (width (run t)) found) in
      bind_r (set_detected_data K (cfg (run t)) h scale data (t_ptz t)) (\<lambda>p.
      Inr (show_result (masked_img = None) rawimg img (t\<lparr>t_ptz := p\<rparr>))))"

definition before_show_tracing_image :: "image \<Rightarrow> 'c TeacherRunning \<Rightarrow> 'c TeacherRunning \<times> image" where
  "before_show_tracing_image img t =
     (let (img, t) = (if switcher t = CLOSEVIEW
                      then let img = Drawn img [Draw_Circle (30, 30) 10 Red] in (img, t\<lparr>movie := movie t @ [img]\<rparr>)
                      else (img, t));
          w = width_tracing (run t); h = height_tracing (run t)
      in (t, case t_state t of
               PTZINITING \<Rightarrow> Drawn img [centre_box w h]
             | PTZINIT_LEFT \<Rightarrow> Drawn img [Draw_Line (w div 2, 0) (w div 2, h) Red]
             | PTZINIT_RIGHT \<Rightarrow> Drawn img [Draw_Line (w div 2, 0) (w div 2, h) Red]
             | _ \<Rightarrow> img))"

section \<open>Events\<close>

datatype event =
    Ev_key key_input int
  | Ev_detect bool int int
  | Ev_trace bool int int
  | Ev_picture "image \<Rightarrow> rect list" real int real image "image option"
  | Ev_tracing_picture image

fun teacher_event :: "'c kvconfig \<Rightarrow> event \<Rightarrow> 'c TeacherRunning \<Rightarrow> 'c TeacherRunning result" where
  "teacher_event K (Ev_key i key) t = key_handle K i key t"
| "teacher_event K (Ev_detect up x y) t = Inr (mouse_detected up x y t)"
| "teacher_event K (Ev_trace up x y) t = mouse_traced K up x y t"
| "teacher_event K (Ev_picture boxes now h scale raw m) t =
     bind_r (one_image K boxes now h scale raw m t) (\<lambda>(t, img). Inr t)"
| "teacher_event K (Ev_tracing_picture img) t = Inr (fst (before_show_tracing_image img t))"

abbreviation teacher_events :: "'c kvconfig \<Rightarrow> event list \<Rightarrow> 'c TeacherRunning \<Rightarrow> 'c TeacherRunning result" where
  "teacher_events K \<equiv> run_all (teacher_event K)"

definition teacher_opened :: "'c kvconfig \<Rightarrow> 'c TeacherRunning \<Rightarrow> bool" where
  "teacher_opened K t \<longleftrightarrow> (\<exists>c port now g. TeacherRunning_open K c port now g = Inr t)"

abbreviation teacher_reachable :: "'c kvconfig \<Rightarrow> 'c TeacherRunning \<Rightarrow> bool" where
  "teacher_reachable K \<equiv> reach (teacher_opened K) (teacher_event K)"

section \<open>The modes\<close>

definition setting_positions :: "State \<Rightarrow> bool" where
  "setting_positions s \<longleftrightarrow> s = PTZINITING \<or> s = PTZINIT_LEFT \<or> s = PTZINIT_RIGHT"

definition mode_inv :: "'c TeacherRunning \<Rightarrow> bool" where
  "mode_inv t \<longleftrightarrow> (enabled_mask (run t) \<longleftrightarrow> \<not> calibrating (t_state t)) \<and>
     (tp_running_state (t_ptz t) \<noteq> 0 \<longleftrightarrow> setting_positions (t_state t))"

named_theorems mode_simps \<open>what the operations do to the two flags of the mode invariant\<close>

lemma mode_flags [mode_simps]:
  "enabled_mask (run (mask_on b t)) = b" "t_ptz (mask_on b t) = t_ptz t" "t_state (mask_on b t) = t_state t"
  "run (on_ptz f t) = run t" "t_ptz (on_ptz f t) = f (t_ptz t)" "t_state (on_ptz f t) = t_state t"
  "enabled_mask (run (set_cfg c t)) = enabled_mask (run t)" "t_ptz (set_cfg c t) = t_ptz t"
  "t_state (set_cfg c t) = t_state t" "tp_running_state (send_cmd x p) = tp_running_state p"
  "tp_running_state (set_running_state s p) = s" "tp_running_state (turn_left_edge p) = tp_running_state p"
  "tp_running_state (turn_right_edge p) = tp_running_state p" "tp_running_state (tp_add task p) = tp_running_state p"
  "tp_running_state (t_ptz (add_if_ptz k t)) = tp_running_state (t_ptz t)" "run (add_if_ptz k t) = run t"
  "t_state (add_if_ptz k t) = t_state t"
  by (simp_all add: mask_on_def enable_mask_def on_ptz_def set_cfg_def send_cmd_def set_running_state_def Let_def
      turn_left_edge_def turn_right_edge_def tp_add_def add_if_ptz_def)

lemma set_detected_running: "set_detected_data K c h z d p = Inr q \<Longrightarrow> tp_running_state q = tp_running_state p"
proof -
  assume a: "set_detected_data K c h z d p = Inr q"
  have lost: "target_lost K c u = Inr v \<Longrightarrow> tp_running_state v = tp_running_state u" for u v
    using target_lost_adds[of K c u v] by simp
  have area: "area_changed off u = Inr (i, b, v) \<Longrightarrow> tp_running_state v = tp_running_state u" for off u i b v
    by (auto simp: area_changed_def Let_def split: if_splits)
  have seen: "target_seen K d u = Inr v \<Longrightarrow> tp_running_state v = tp_running_state u" for u v
    by (auto simp: target_seen_def get_area_from_data_def Let_def tp_add_def split: if_splits list.splits dest!: area)
  have smooth: "smooth_tracing h z d u = Inr v \<Longrightarrow> tp_running_state v = tp_running_state u" for u v
    by (auto simp: smooth_tracing_def Let_def mode_simps split: if_splits)
  show ?thesis
    using a by (auto simp: set_detected_data_def Let_def split: if_splits dest!: lost seen smooth)
qed

lemma open_flags: "TeacherPtz_open K c port now g = Inr p \<Longrightarrow> tp_running_state p = 0 \<and> \<not> stable p"
proof -
  assume "TeacherPtz_open K c port now g = Inr p"
  then obtain q where q: "calc_calibration_area K c q = Inr p" "tp_running_state q = 0" "\<not> stable q"
    unfolding TeacherPtz_open_def Let_def by (auto split: if_splits)
  then show ?thesis
    by (auto simp: calc_calibration_area_def Let_def dest!: areas_loop_result)
qed

lemma build_mask_flag: "build_mask K k k2 r = Inr (m, r') \<Longrightarrow> enabled_mask r' = enabled_mask r \<and> cfg r' = cfg r"
  by (auto simp: build_mask_def Let_def split: option.splits)

lemma key_running_mode: "mode_inv t \<Longrightarrow> t_state t = RUNNING \<Longrightarrow> key_running_handle K key t = Inr t' \<Longrightarrow> mode_inv t'"
  by (auto simp: key_running_handle_def Let_def mode_inv_def calibrating_def setting_positions_def mode_simps
      split: if_splits dest!: reset_adds)

lemma key_left_right_mode:
  "mode_inv t \<Longrightarrow> setting_positions (t_state t) \<Longrightarrow> mode_inv (key_ptzinit_left_right_handle K s pos key t)"
  by (auto simp: key_ptzinit_left_right_handle_def Let_def mode_inv_def calibrating_def setting_positions_def mode_simps)

lemma key_ptziniting_mode:
  "mode_inv t \<Longrightarrow> setting_positions (t_state t) \<Longrightarrow> mode_inv (key_ptziniting_handle K s pos z key t)"
  by (auto simp: key_ptziniting_handle_def Let_def mode_inv_def calibrating_def setting_positions_def mode_simps)

lemma store_polygon_mode: "store_polygon K stack t = Inr u \<Longrightarrow> t_state u = t_state t \<and> t_ptz u = t_ptz t"
  by (auto simp: store_polygon_def Let_def mode_simps split: if_splits)

lemma rebuild_mask_mode: "rebuild_mask K t = Inr u \<Longrightarrow> t_state u = t_state t \<and> t_ptz u = t_ptz t"
  by (auto simp: rebuild_mask_def split: if_splits)

lemma key_calibrating_mode:
  assumes "mode_inv t" and "calibrating (t_state t)" and "key_calibrating_handle K stack key t = Inr t'"
  shows "mode_inv t'"
proof (cases "key = ENTER")
  case True
  then obtain u v where u: "store_polygon K stack t = Inr u" "rebuild_mask K u = Inr v"
      "t' = (mask_on True v)\<lparr>t_state := RUNNING\<rparr>"
    using assms(3) by (auto simp: key_calibrating_handle_def)
  have "t_ptz v = t_ptz t" using store_polygon_mode[OF u(1)] rebuild_mask_mode[OF u(2)] by simp
  then show ?thesis
    using assms(1,2) u(3) by (auto simp: mode_inv_def calibrating_def setting_positions_def mode_simps)
next
  case False
  then have "t' = t \<or> t' = mask_on True (t\<lparr>t_state := RUNNING\<rparr>)"
    using assms(3) by (simp add: key_calibrating_handle_def split: if_splits)
  moreover have "\<not> setting_positions (t_state t)" using assms(2) by (auto simp: calibrating_def setting_positions_def)
  ultimately show ?thesis
    using assms(1) by (elim disjE) (simp_all add: mode_inv_def calibrating_def setting_positions_def mode_simps)
qed

lemma key_handle_mode:
  assumes inv: "mode_inv t" and key: "key_handle K i key t = Inr t'"
  shows "mode_inv t'"
proof -
  consider "t_state t = RUNNING" | "calibrating (t_state t)" | "t_state t = PTZINITING"
    | "t_state t = PTZINIT_LEFT \<or> t_state t = PTZINIT_RIGHT"
    by (cases "t_state t") (simp_all add: calibrating_def)
  then show ?thesis
  proof cases
    case 1
    with key have "key_running_handle K key t = Inr t'" by (simp add: key_handle_def)
    with inv 1 show ?thesis by (rule key_running_mode)
  next
    case 2
    with key have "key_calibrating_handle K (stack_bytes i) key t = Inr t'"
      by (auto simp: key_handle_def calibrating_def)
    with inv 2 show ?thesis by (rule key_calibrating_mode)
  next
    case 3
    with key have "t' = key_ptziniting_handle K (shift_down i) (cam_pos i) (cam_zoom i) key t"
      by (simp add: key_handle_def)
    with inv 3 show ?thesis by (simp add: key_ptziniting_mode setting_positions_def)
  next
    case 4
    with key have "t' = key_ptzinit_left_right_handle K (shift_down i) (cam_pos i) key t"
      by (auto simp: key_handle_def)
    with inv 4 show ?thesis by (simp add: key_left_right_mode setting_positions_def)
  qed
qed

lemma show_info_keeps:
  "run (fst (show_info t)) = run t \<and> t_state (fst (show_info t)) = t_state t \<and> calibrations (fst (show_info t)) = calibrations t \<and>
   t_ptz (fst (show_info t)) = t_ptz t \<and> switcher (fst (show_info t)) = switcher t \<and> movie (fst (show_info t)) = movie t"
  by (cases "t_state t") (simp_all add: show_info_def)

lemma show_result_keeps:
  assumes "show_result alias rawimg img t = (t', img')"
  shows "run t' = run t \<and> t_state t' = t_state t \<and> calibrations t' = calibrations t \<and> t_ptz t' = t_ptz t \<and>
    switcher t' = switch_view (stable (t_ptz t)) (switcher t) \<and>
    length (movie t') = length (movie t) + (if switcher t = FULLVIEW then 1 else 0)"
  using assms show_info_keeps[of t]
  by (cases "show_info t"; cases "switcher t") (auto simp: show_result_def Let_def)

lemma one_image_mode:
  assumes "one_image K boxes now h scale raw m t = Inr (t', img)"
  shows "run t' = run t \<and> t_state t' = t_state t \<and> calibrations t' = calibrations t \<and>
    tp_running_state (t_ptz t') = tp_running_state (t_ptz t) \<and>
    switcher t' = switch_view (stable (t_ptz t')) (switcher t) \<and>
    length (movie t') = length (movie t) + (if switcher t = FULLVIEW then 1 else 0)"
proof -
  obtain d p img0 where p: "set_detected_data K (cfg (run t)) h scale d (t_ptz t) = Inr p"
      "show_result (m = None) raw img0 (t\<lparr>t_ptz := p\<rparr>) = (t', img)"
    using assms unfolding one_image_def Let_def bind_r_Inr_conv sum.inject by blast
  from show_result_keeps[OF p(2)] set_detected_running[OF p(1)] show ?thesis by simp
qed

lemma teacher_event_mode: "mode_inv t \<Longrightarrow> teacher_event K e t = Inr t' \<Longrightarrow> mode_inv t'"
proof (cases e)
  case (Ev_key i key)
  assume "mode_inv t" "teacher_event K e t = Inr t'"
  with Ev_key key_handle_mode show ?thesis by simp
next
  case (Ev_detect up x y)
  assume "mode_inv t" "teacher_event K e t = Inr t'"
  with Ev_detect show ?thesis by (cases up) (auto simp: mouse_detected_def mode_inv_def)
next
  case (Ev_trace up x y)
  assume "mode_inv t" "teacher_event K e t = Inr t'"
  with Ev_trace show ?thesis by (auto simp: mouse_traced_def mode_inv_def mode_simps Let_def split: if_splits)
next
  case (Ev_picture boxes now h scale raw m)
  assume "mode_inv t" "teacher_event K e t = Inr t'"
  with Ev_picture show ?thesis by (auto simp: mode_inv_def dest!: one_image_mode)
next
  case (Ev_tracing_picture img)
  assume "mode_inv t" "teacher_event K e t = Inr t'"
  with Ev_tracing_picture show ?thesis
    by (auto simp: before_show_tracing_image_def mode_inv_def Let_def split: if_splits)
qed

lemma teacher_open_mode: "TeacherRunning_open K c port now g = Inr t \<Longrightarrow> mode_inv t"
  by (auto simp: TeacherRunning_open_def Running_open_def Let_def mode_inv_def calibrating_def setting_positions_def
      split: if_splits dest!: open_flags build_mask_flag)

interpretation teacher: tracking_side "teacher_opened K" "teacher_event K" mode_inv for K
  by unfold_locales (auto simp: teacher_opened_def intro: teacher_open_mode teacher_event_mode)

text \<open>in every reachable state of the teacher's side the mask is switched off exactly while a polygon is
  being calibrated, and the camera's automatic reset exactly while positions are being set: no path of
  keys, clicks and pictures leaves a mode without undoing what entering it did.\<close>

theorem teacher_modes_consistent:
  assumes "teacher_reachable K t"
  shows "(enabled_mask (run t) \<longleftrightarrow> \<not> calibrating (t_state t)) \<and>
    (tp_running_state (t_ptz t) \<noteq> 0 \<longleftrightarrow> setting_positions (t_state t))"
  using teacher.reach_consistent[OF assms] by (simp add: mode_inv_def)

section \<open>Calibrating a polygon\<close>

definition clicks :: "point list \<Rightarrow> event list" where
  "clicks ps = map (\<lambda>p. Ev_detect True (fst p) (snd p)) ps"

lemma clicks_events:
  "calibrating (t_state t) \<Longrightarrow> teacher_events K (clicks ps) t = Inr (t\<lparr>calibrations := calibrations t @ ps\<rparr>)"
proof (induction ps arbitrary: t)
  case (Cons p ps)
  then show ?case by (simp add: clicks_def mouse_detected_def)
qed (simp add: clicks_def)

abbreviation key_b :: int where "key_b \<equiv> 98"

text \<open>\<open>b\<close>, the clicks, and a last key: ENTER to confirm, ESC to cancel.\<close>

definition t_polygon_events :: "key_input \<Rightarrow> point list \<Rightarrow> int \<Rightarrow> event list" where
  "t_polygon_events i ps key = [Ev_key i key_b] @ clicks ps @ [Ev_key i key]"

definition polygon_events :: "key_input \<Rightarrow> point list \<Rightarrow> event list" where
  "polygon_events i ps = t_polygon_events i ps ENTER"

text \<open>The state in which the last key finds the teacher's side after \<open>b\<close> and the clicks.\<close>

definition polygon_entered :: "point list \<Rightarrow> 'c TeacherRunning \<Rightarrow> 'c TeacherRunning" where
  "polygon_entered ps t = (mask_on False (t\<lparr>t_state := CALIBRATING2, calibrations := []\<rparr>))\<lparr>calibrations := ps\<rparr>"

lemma polygon_entered_eq:
  "t_state (polygon_entered ps t) = CALIBRATING2" "calibrations (polygon_entered ps t) = ps"
  "cfg (run (polygon_entered ps t)) = cfg (run t)" "masked (run (polygon_entered ps t)) = masked (run t)"
  by (simp_all add: polygon_entered_def mask_on_def enable_mask_def)

lemma t_polygon_events_eq:
  assumes "t_state t = RUNNING"
  shows "teacher_events K (t_polygon_events i ps key) t =
    key_calibrating_handle K (stack_bytes i) key (polygon_entered ps t)"
proof -
  have "teacher_events K [Ev_key i key_b] t = Inr (mask_on False (t\<lparr>t_state := CALIBRATING2, calibrations := []\<rparr>))"
    using assms by (simp add: key_handle_def key_running_handle_def Let_def)
  moreover have "teacher_events K (clicks ps) (mask_on False (t\<lparr>t_state := CALIBRATING2, calibrations := []\<rparr>)) =
      Inr (polygon_entered ps t)"
    by (subst clicks_events) (simp_all add: mode_simps calibrating_def polygon_entered_def mask_on_def)
  moreover have "key_handle K i key (polygon_entered ps t) = key_calibrating_handle K (stack_bytes i) key (polygon_entered ps t)"
    by (simp add: key_handle_def polygon_entered_eq)
  ultimately show ?thesis
    unfolding t_polygon_events_def run_all_append
    by (cases "key_calibrating_handle K (stack_bytes i) key (polygon_entered ps t)") simp_all
qed

lemma polygon_events_eq:
  "t_state t = RUNNING \<Longrightarrow>
   teacher_events K (polygon_events i ps) t = key_calibrating_handle K (stack_bytes i) ENTER (polygon_entered ps t)"
  by (simp add: polygon_events_def t_polygon_events_eq)

lemma load_points_set:
  assumes "kv_laws K" and "list_all point_ok ps"
  shows "load_points K (kv_save K (kv_set K c k (polygon_text ps))) k = Inr ps"
    and "k' \<noteq> k \<Longrightarrow> load_points K (kv_save K (kv_set K c k v)) k' = load_points K c k'"
    and "load_points K (kv_file K (kv_save K (kv_set K c k (polygon_text ps)))) k = Inr ps"
    and "k' \<noteq> k \<Longrightarrow> load_points K (kv_file K (kv_save K (kv_set K c k v))) k' = load_points K c k'"
  using points_loop_text[OF assms(2), of "[]"] kv_lawsD[OF assms(1)] by (simp_all add: load_points_def)

text \<open>C16: calibrating works end to end: after \<open>b\<close>, at least four clicks and ENTER the polygon clicked is the
  one the configuration gives back to \<open>load_roi\<close>, and the one the file it was opened from gives to the
  \<open>load_roi\<close> of the next start, because it has been saved (that a saved file gives back the values is
  what is assumed of \<open>KVConfig\<close>); the mask is black outside it and the second line's polygon, masking is on
  again and the program runs; provided the text of the polygon fits the 4096 bytes of its buffer.\<close>

theorem calibration_roundtrip:
  assumes "kv_laws K" and "t_state t = RUNNING" and "list_all point_ok ps" and "4 \<le> length ps"
    and "length (polygon_text ps) < 4096" and "load_points K (cfg (run t)) ''calibration_data3'' = Inr ps3"
  shows "\<exists>t'. teacher_events K (polygon_events i ps) t = Inr t' \<and> t_state t' = RUNNING \<and>
    load_roi K (cfg (run t')) = Inr (ps @ ps3) \<and> load_roi K (kv_file K (cfg (run t'))) = Inr (ps @ ps3) \<and>
    enabled_mask (run t') \<and>
    img_mask (run t') = Some \<lparr>white_ground = False, polygons = ps # big_polygons [ps3]\<rparr>"
proof -
  let ?t = "polygon_entered ps t" and ?c = "kv_save K (kv_set K (cfg (run t)) ''calibration_data2'' (polygon_text ps))"
  have st: "store_polygon K (stack_bytes i) ?t = Inr (set_cfg ?c ?t)"
    using assms(4,5) by (simp add: store_polygon_def polygon_entered_eq points_to_text_eq)
  let ?u = "set_cfg ?c ?t"
  have l: "load_points K ?c ''calibration_data2'' = Inr ps" "load_points K ?c ''calibration_data3'' = Inr ps3"
      "load_points K (kv_file K ?c) ''calibration_data2'' = Inr ps" "load_points K (kv_file K ?c) ''calibration_data3'' = Inr ps3"
    using load_points_set[OF assms(1,3)] assms(6) by auto
  have c: "cfg (run ?u) = ?c" "t_state ?u = CALIBRATING2" by (simp_all add: set_cfg_def polygon_entered_eq)
  have m: "build_mask K (Some ''calibration_data2'') (Some ''calibration_data3'') (run ?u) =
      Inr (\<lparr>white_ground = False, polygons = ps # big_polygons [ps3]\<rparr>, (run ?u)\<lparr>masked := True\<rparr>)"
    using build_mask_two[of K "run ?u", unfolded c(1), OF l(1,2)] assms(4) by (simp add: big_polygons_def)
  then have r: "rebuild_mask K ?u = Inr (?u\<lparr>run := (run ?u)\<lparr>masked := True,
      img_mask := Some \<lparr>white_ground = False, polygons = ps # big_polygons [ps3]\<rparr>\<rparr>\<rparr>)"
    by (simp add: rebuild_mask_def c(2))
  have "teacher_events K (polygon_events i ps) t =
      Inr ((mask_on True (?u\<lparr>run := (run ?u)\<lparr>masked := True,
        img_mask := Some \<lparr>white_ground = False, polygons = ps # big_polygons [ps3]\<rparr>\<rparr>\<rparr>))\<lparr>t_state := RUNNING\<rparr>)"
    by (simp add: polygon_events_eq[OF assms(2)] key_calibrating_handle_def st r)
  then show ?thesis
    by (simp add: mask_on_def enable_mask_def c(1) load_roi_def l)
qed

text \<open>the buffer is the limit: 170 points always fit, and as soon as the text has 4096 characters the
  confirmation writes past the end of the block; nothing limits the number of clicks.\<close>

theorem calibration_buffer:
  assumes "t_state t = RUNNING" and "list_all point_ok ps" and "4 \<le> length ps"
  shows "(4096 \<le> length (polygon_text ps) \<longrightarrow> teacher_events K (polygon_events i ps) t = Inl Mem_Bounds) \<and>
    (length ps \<le> 170 \<longrightarrow> length (polygon_text ps) < 4096)"
  using polygon_text_length[OF assms(2)] assms(3)
  by (auto simp: polygon_events_eq[OF assms(1)] key_calibrating_handle_def store_polygon_def polygon_entered_eq points_to_text_eq)

text \<open>confirming fewer than four points is meant to remove the area, but it always removes the one of
  \<open>CALIBRATING\<close>: from \<open>b\<close> the text of \<open>calibration_data2\<close> stays, and an unrelated key is emptied.\<close>

theorem removing_area_hits_wrong_key:
  assumes "kv_laws K" and "t_state t = RUNNING" and "length ps < 4"
    and "load_points K (cfg (run t)) ''calibration_data2'' = Inr ps2" and "load_points K (cfg (run t)) ''calibration_data3'' = Inr ps3"
  shows "\<exists>t'. teacher_events K (polygon_events i ps) t = Inr t' \<and> t_state t' = RUNNING \<and>
    load_points K (cfg (run t')) ''calibration_data2'' = Inr ps2 \<and>
    kv_get K (cfg (run t')) ''calibration_data'' d = Some []"
proof -
  let ?t = "polygon_entered ps t" and ?c = "kv_save K (kv_set K (cfg (run t)) ''calibration_data'' [])"
  let ?u = "set_cfg ?c ?t"
  have st: "store_polygon K (stack_bytes i) ?t = Inr ?u"
    using assms(3) by (simp add: store_polygon_def polygon_entered_eq)
  have l: "load_points K ?c ''calibration_data2'' = Inr ps2" "load_points K ?c ''calibration_data3'' = Inr ps3"
    using load_points_set(2)[OF assms(1), of "[]"] assms(4,5) by auto
  have c: "cfg (run ?u) = ?c" "t_state ?u = CALIBRATING2" by (simp_all add: set_cfg_def polygon_entered_eq)
  obtain m r where m: "build_mask K (Some ''calibration_data2'') (Some ''calibration_data3'') (run ?u) = Inr (m, r)"
    using build_mask_two[of K "run ?u", unfolded c(1), OF l] by auto
  have "cfg r = ?c" using build_mask_flag[OF m] c(1) by simp
  then show ?thesis
    using m kv_lawsD(1,3)[OF assms(1)] l(1)
    by (simp add: polygon_events_eq[OF assms(2)] key_calibrating_handle_def st rebuild_mask_def c(2) mask_on_def
        enable_mask_def)
qed

text \<open>the click that should point the camera at a spot measures from the wrong centre: it reads the width
  from \<open>video_window\<close>, a key nothing else uses, so with another \<open>video_width\<close> than 960 a click on the
  centre of the picture turns the camera by the difference.\<close>

theorem click_misses_centre:
  assumes "t_state t = PTZINITING" and "t_has_ptz t"
    and "kv_get K (cfg (run t)) ''video_window'' (Some ''960'') = Some ''960''"
    and "cfg_int K (cfg (run t)) ''video_height'' ''540'' = Inr 540"
    and "0 \<le> w" and "w < 100000"
  shows "\<exists>t'. mouse_traced K True (w div 2) 270 t = Inr t' \<and>
    ptz_tasks (tp_base (t_ptz t')) = ptz_tasks (tp_base (t_ptz t)) @ opt_list (task_ptz_center True (real_of_int (w div 2 - 480) / 480) 0 30)"
proof -
  have w: "cfg_int K (cfg (run t)) ''video_window'' ''960'' = Inr 960"
    using assms(3) by (simp add: cfg_int_def cfg_str_def text_number)
  have div: "c_div 960 2 = Inr 480" "c_div 540 2 = Inr 270" by (simp_all add: c_div_pos int_ok_def)
  have "c_int (w div 2 - 480) = Inr (w div 2 - 480)" using assms(5,6) by simp
  then show ?thesis
    using assms(1,2) by (simp add: mouse_traced_def w assms(4) div add_if_ptz_def on_ptz_def tp_add_def Ptz_add_def
        Ptz_push_def Ptz_post_def Let_def)
qed

section \<open>Instances\<close>

definition sample_teacher :: "(string \<times> string) list TeacherRunning" where
  "sample_teacher =
     \<lparr>run = sample_running, t_state = RUNNING, switcher = FULLVIEW, show_state = [], calibrations = [], roi = [],
      t_ptz = sample_strip, movie = []\<rparr>"

definition sample_keys :: key_input where
  "sample_keys = \<lparr>stack_bytes = (\<lambda>_. CHR 0x00), shift_down = False, cam_pos = (0, 0), cam_zoom = 0\<rparr>"

lemma sample_teacher_points: "load_points assoc_config (cfg (run sample_teacher)) k = Inr []"
  by (simp add: sample_teacher_def sample_running_def load_points_def assoc_config_def)

lemma sample_edges_ok: "list_all point_ok sample_edges" "length sample_edges = 4"
  by (simp_all add: sample_edges_def point_ok_def int_ok_def)

lemma sample_running_open: "\<exists>r. Running_open assoc_config sample_cfg = Inr r"
proof -
  have v: "cfg_int assoc_config sample_cfg ''distortion_correction'' ''0'' = Inr 0"
    "cfg_int assoc_config sample_cfg ''video_height'' ''540'' = Inr 540"
    "cfg_int assoc_config sample_cfg ''debug'' ''0'' = Inr 0" "cfg_int assoc_config sample_cfg ''mask'' ''1'' = Inr 1"
    "cfg_int assoc_config sample_cfg ''hog_enabled'' ''0'' = Inr 0"
    by (simp_all add: cfg_int_def cfg_str_def assoc_config_def sample_cfg_def text_number)
  have m: "build_mask assoc_config (Some ''calibration_data2'') (Some ''calibration_data3'') r =
      Inr (\<lparr>white_ground = (big_polygons [sample_edges, []] = [] \<and> \<not> masked r), polygons = big_polygons [sample_edges, []]\<rparr>,
           r\<lparr>masked := length sample_edges > 3\<rparr>)"
    if "cfg r = sample_cfg" for r
    by (rule build_mask_two) (simp_all add: that sample_points)
  show ?thesis
    unfolding Running_open_def v sample_values(8) by (simp add: Let_def m)
qed

theorem teacher_modes_consistent_witness:
  "\<exists>t. TeacherRunning_open assoc_config sample_cfg (\<lambda>_ _. True) 0 0 = Inr t \<and> enabled_mask (run t) \<and>
     tp_running_state (t_ptz t) = 0"
proof -
  obtain r where r: "Running_open assoc_config sample_cfg = Inr r" using sample_running_open by blast
  obtain p where p: "TeacherPtz_open assoc_config sample_cfg (\<lambda>_ _. True) 0 0 = Inr p" using sample_open by blast
  obtain t where t: "TeacherRunning_open assoc_config sample_cfg (\<lambda>_ _. True) 0 0 = Inr t" "t_state t = RUNNING"
    by (simp add: TeacherRunning_open_def r p load_roi_def sample_points)
  from teacher_modes_consistent[OF reach.opened, of assoc_config t] t show ?thesis
    by (auto simp: teacher_opened_def calibrating_def setting_positions_def)
qed

theorem calibration_roundtrip_witness:
  "\<exists>t'. teacher_events assoc_config (polygon_events sample_keys sample_edges) sample_teacher = Inr t' \<and>
     load_roi assoc_config (kv_file assoc_config (cfg (run t'))) = Inr (sample_edges @ [])"
proof -
  have "length (polygon_text sample_edges) < 4096"
    using polygon_text_length[OF sample_edges_ok(1)] sample_edges_ok(2) by simp
  from calibration_roundtrip[OF assoc_config_laws _ sample_edges_ok(1) _ this sample_teacher_points, of sample_keys]
  show ?thesis using sample_edges_ok(2) by (auto simp: sample_teacher_def)
qed

theorem calibration_buffer_witness: "length (polygon_text sample_edges) < 4096"
  using calibration_buffer[of sample_teacher sample_edges assoc_config sample_keys] sample_edges_ok
  by (simp add: sample_teacher_def)

theorem removing_area_hits_wrong_key_witness:
  "\<exists>t'. teacher_events assoc_config (polygon_events sample_keys []) sample_teacher = Inr t' \<and>
     kv_get assoc_config (cfg (run t')) ''calibration_data'' None = Some []"
  using removing_area_hits_wrong_key[OF assoc_config_laws _ _ sample_teacher_points sample_teacher_points,
      of "[]" sample_keys None]
  by (auto simp: sample_teacher_def)

theorem click_misses_centre_witness:
  "\<exists>t'. mouse_traced assoc_config True (1280 div 2) 270 (sample_teacher\<lparr>t_state := PTZINITING\<rparr>) = Inr t' \<and>
     ptz_tasks (tp_base (t_ptz t')) = opt_list (task_ptz_center True (real_of_int 160 / 480) 0 30)"
proof -
  have "cfg_int assoc_config [] ''video_height'' ''540'' = Inr 540"
    by (simp add: cfg_int_def cfg_str_def assoc_config_def text_number)
  then show ?thesis
    using click_misses_centre[of "sample_teacher\<lparr>t_state := PTZINITING\<rparr>" assoc_config 1280]
    by (simp add: sample_teacher_def sample_running_def sample_strip_def t_has_ptz_def ptz_start_def assoc_config_def)
qed

end
