(* ===== verification/Teacher_Analyze.thy ===== *)
theory Teacher_Analyze
  imports Trace_Config
begin

text \<open>
  \<open>TeacherAnalyze.h\<close> and \<open>TeacherAnalyze.cpp\<close>: what the analyzer reads out of the positions of the last
  seconds: how long they span, how many are valid, the net movement and the box they stay in. A
  position whose x is -1 says that nothing was found.
\<close>

section \<open>Data\<close>

record TeacherDetected =
  td_stamp :: real
  td_pt :: point
  td_stamp_size :: real
  td_hog_size :: point

record TeacherAnalyze =
  an_width :: int
  an_height :: int
  an_stable_width :: int
  an_stable_height :: int
  an_stable_top :: int
  an_duration :: real
  an_data :: "TeacherDetected list"

definition TeacherAnalyze_open :: "'c kvconfig \<Rightarrow> 'c \<Rightarrow> 'c TracePolicy \<Rightarrow> TeacherAnalyze result" where
  "TeacherAnalyze_open K c policy =
     bind_r (cfg_int K c ''video_width'' ''960'') (\<lambda>w.
     bind_r (cfg_int K c ''video_height'' ''540'') (\<lambda>h.
     bind_r (cfg_int K c ''stable_width'' ''500'') (\<lambda>sw.
     bind_r (cfg_int K c ''stable_height'' ''300'') (\<lambda>sh.
     bind_r (cfg_int K c ''stable_top'' ''100'') (\<lambda>st.
     bind_r (analyze_interval K policy) (\<lambda>d.
     Inr \<lparr>an_width = w, an_height = h, an_stable_width = sw, an_stable_height = sh, an_stable_top = st,
          an_duration = d, an_data = []\<rparr>))))))"

section \<open>Queries\<close>

definition td_valid :: "TeacherDetected \<Rightarrow> bool" where
  "td_valid d \<longleftrightarrow> fst (td_pt d) \<noteq> -1"

text \<open>The position and the stamp, or \<open>None\<close> where the code returns \<open>false\<close> and writes neither.\<close>

fun data_first_valid :: "TeacherDetected list \<Rightarrow> (point \<times> real) option" where
  "data_first_valid [] = None"
| "data_first_valid (d # ds) = (if td_valid d then Some (td_pt d, td_stamp d) else data_first_valid ds)"

definition data_last_valid :: "TeacherDetected list \<Rightarrow> (point \<times> real) option" where
  "data_last_valid ds = data_first_valid (rev ds)"

text \<open>First the argument \<open>valid\<close>, then the value returned.\<close>

definition data_duration :: "TeacherDetected list \<Rightarrow> real \<times> real" where
  "data_duration ds =
     (if length ds \<ge> 2 then
        (case (data_first_valid ds, data_last_valid ds) of
           (Some (_, s1), Some (_, s2)) \<Rightarrow> s2 - s1
         | _ \<Rightarrow> 0,
         td_stamp (last ds) - td_stamp (hd ds))
      else (0, 0))"

definition update_data :: "TeacherDetected list \<Rightarrow> TeacherAnalyze \<Rightarrow> (bool \<times> TeacherAnalyze) result" where
  "update_data ds a =
     bind_r (check_r (length ds \<ge> 2) Assert_Fail) (\<lambda>_.
     let first = td_stamp (last ds) - an_duration a - 1;
         a = a\<lparr>an_data := filter (\<lambda>d. td_stamp d \<ge> first) ds\<rparr>
     in Inr (snd (data_duration (an_data a)) \<ge> an_duration a, a))"

fun data_valided :: "TeacherDetected list \<Rightarrow> int \<Rightarrow> int \<Rightarrow> int \<times> int" where
  "data_valided [] valid invalid = (valid, invalid)"
| "data_valided (d # ds) valid invalid =
     (if td_valid d then data_valided ds (valid + 1) invalid else data_valided ds valid (invalid + 1))"

text \<open>\<open>x\<close> and \<open>y\<close> of the code are unset until \<open>started\<close>: \<open>prev\<close> is \<open>None\<close>.\<close>

fun vec_loop :: "TeacherDetected list \<Rightarrow> point option \<Rightarrow> int \<Rightarrow> int \<Rightarrow> (int \<times> int) result" where
  "vec_loop [] prev h v = Inr (h, v)"
| "vec_loop (d # ds) prev h v =
     (if td_valid d then
        (case prev of
           None \<Rightarrow> vec_loop ds (Some (td_pt d)) h v
         | Some p \<Rightarrow>
             bind_r (c_int (fst (td_pt d) - fst p)) (\<lambda>dx.
             bind_r (c_int (h + dx)) (\<lambda>h.
             bind_r (c_int (snd (td_pt d) - snd p)) (\<lambda>dy.
             bind_r (c_int (v + dy)) (\<lambda>v.
             vec_loop ds (Some (td_pt d)) h v)))))
      else vec_loop ds prev h v)"

definition data_vec :: "TeacherDetected list \<Rightarrow> (int \<times> int) result" where
  "data_vec ds = vec_loop ds None 0 0"

text \<open>The box (left, right, top, bottom) is \<open>None\<close> while \<open>l\<close> of the code is -1; a valid x never is. The
  rectangle is (x, y, width, height).\<close>

type_synonym rectangle = "int \<times> int \<times> int \<times> int"

fun range_loop :: "TeacherDetected list \<Rightarrow> rectangle option \<Rightarrow> rectangle \<Rightarrow> rectangle result" where
  "range_loop [] box rg = Inr rg"
| "range_loop (d # ds) box rg =
     (if td_valid d then
        (case box of
           None \<Rightarrow> range_loop ds (Some (fst (td_pt d), fst (td_pt d), snd (td_pt d), snd (td_pt d))) rg
         | Some (l, r, t, b) \<Rightarrow>
             let l = min (fst (td_pt d)) l; r = max (fst (td_pt d)) r;
                 t = min (snd (td_pt d)) t; b = max (snd (td_pt d)) b in
             bind_r (c_int (r - l)) (\<lambda>w.
             bind_r (c_int (b - t)) (\<lambda>h.
             range_loop ds (Some (l, r, t, b)) (l, t, w, h))))
      else range_loop ds box rg)"

definition data_range :: "TeacherDetected list \<Rightarrow> (rectangle \<times> bool) result" where
  "data_range ds =
     bind_r (range_loop ds None (-1, -1, 0, 0)) (\<lambda>rg. Inr (rg, fst (snd (snd rg)) \<noteq> 0))"

section \<open>What the queries say\<close>

text \<open>The valid positions.\<close>

definition tracks :: "TeacherDetected list \<Rightarrow> point list" where
  "tracks ds = map td_pt (filter td_valid ds)"

lemma tracks_simps [simp]:
  "tracks [] = []" "tracks (d # ds) = (if td_valid d then td_pt d # tracks ds else tracks ds)"
  "tracks (ds @ es) = tracks ds @ tracks es"
  by (simp_all add: tracks_def)

lemma data_valided_eq: "data_valided ds v i = (v + length (tracks ds), i + (length ds - length (tracks ds)))"
proof (induction ds arbitrary: v i)
  case (Cons d ds)
  have "length (tracks ds) \<le> length ds" by (simp add: tracks_def)
  with Cons show ?case by (simp add: Suc_diff_le)
qed simp

lemma data_first_valid_eq:
  "data_first_valid ds = None \<longleftrightarrow> tracks ds = []"
  "data_first_valid ds = Some (p, s) \<Longrightarrow> p = hd (tracks ds) \<and> (\<exists>d\<in>set ds. td_valid d \<and> td_stamp d = s)"
  by (induction ds) (auto split: if_splits)

lemma tracks_rev: "tracks (rev ds) = rev (tracks ds)"
  by (simp add: tracks_def rev_map rev_filter)

lemma data_last_valid_eq:
  "data_last_valid ds = None \<longleftrightarrow> tracks ds = []"
  "data_last_valid ds = Some (p, s) \<Longrightarrow> p = last (tracks ds) \<and> (\<exists>d\<in>set ds. td_valid d \<and> td_stamp d = s)"
  using data_first_valid_eq[of "rev ds"]
  by (auto simp: data_last_valid_def tracks_rev hd_rev)

text \<open>Positions inside a picture of less than a million pixels either way.\<close>

definition in_picture :: "point \<Rightarrow> bool" where
  "in_picture p \<longleftrightarrow> \<bar>fst p\<bar> \<le> 1000000 \<and> \<bar>snd p\<bar> \<le> 1000000"

lemma vec_loop_eq:
  assumes "\<forall>p\<in>set (tracks ds). in_picture p" and "in_picture o'" and "in_picture q"
    and "h = fst q - fst o'" and "v = snd q - snd o'"
  shows "vec_loop ds (Some q) h v =
    Inr (fst (last (q # tracks ds)) - fst o', snd (last (q # tracks ds)) - snd o')"
  using assms
proof (induction ds arbitrary: q h v)
  case (Cons d ds)
  show ?case
  proof (cases "td_valid d")
    case True
    then have "in_picture (td_pt d)" using Cons.prems(1) by simp
    then have sum: "vec_loop (d # ds) (Some q) h v = vec_loop ds (Some (td_pt d)) (fst (td_pt d) - fst o') (snd (td_pt d) - snd o')"
      using True Cons.prems(2-5) by (simp add: in_picture_def abs_le_iff)
    show ?thesis
      using Cons.IH[OF _ Cons.prems(2) \<open>in_picture (td_pt d)\<close> refl refl] Cons.prems(1) True
      unfolding sum by simp
  next
    case False
    then show ?thesis using Cons by simp
  qed
qed simp

text \<open>the movement vector is the net movement: whatever way the target took between its first and its last
  valid position, the sums of the differences are the difference of those two; with fewer than two valid
  positions they are zero.\<close>

theorem data_vec_net_movement:
  assumes "\<forall>p\<in>set (tracks ds). in_picture p"
  shows "data_vec ds =
    (if tracks ds = [] then Inr (0, 0)
     else Inr (fst (last (tracks ds)) - fst (hd (tracks ds)), snd (last (tracks ds)) - snd (hd (tracks ds))))"
  using assms unfolding data_vec_def
proof (induction ds)
  case (Cons d ds)
  show ?case
  proof (cases "td_valid d")
    case True
    with Cons.prems have "in_picture (td_pt d)" "\<forall>p\<in>set (tracks ds). in_picture p" by simp_all
    with True show ?thesis using vec_loop_eq[of ds "td_pt d" "td_pt d" 0 0] by simp
  next
    case False
    with Cons show ?thesis by simp
  qed
qed simp

text \<open>The box of a list of positions.\<close>

definition box_of :: "point list \<Rightarrow> rectangle" where
  "box_of ps = (Min (fst ` set ps), Max (fst ` set ps), Min (snd ` set ps), Max (snd ` set ps))"

definition box_rect :: "point list \<Rightarrow> rectangle" where
  "box_rect ps = (case box_of ps of (l, r, t, b) \<Rightarrow> (l, t, r - l, b - t))"

lemma box_of_one: "box_of [p] = (fst p, fst p, snd p, snd p)"
  by (simp add: box_of_def)

lemma box_of_snoc:
  assumes "ps \<noteq> []"
  shows "box_of (ps @ [p]) =
    (case box_of ps of (l, r, t, b) \<Rightarrow> (min (fst p) l, max (fst p) r, min (snd p) t, max (snd p) b))"
  using assms by (simp add: box_of_def)

lemma box_of_picture:
  assumes "ps \<noteq> []" and "\<forall>p\<in>set ps. in_picture p" and "box_of ps = (l, r, t, b)"
  shows "int_ok (r - l)" and "int_ok (b - t)"
proof -
  have "l \<in> fst ` set ps" "r \<in> fst ` set ps" "t \<in> snd ` set ps" "b \<in> snd ` set ps"
    using assms(1,3) Min_in[of "fst ` set ps"] Max_in[of "fst ` set ps"] Min_in[of "snd ` set ps"] Max_in[of "snd ` set ps"]
    by (auto simp: box_of_def simp del: Min_in Max_in)
  then have "\<bar>l\<bar> \<le> 1000000" "\<bar>r\<bar> \<le> 1000000" "\<bar>t\<bar> \<le> 1000000" "\<bar>b\<bar> \<le> 1000000"
    using assms(2) by (auto simp: in_picture_def)
  then show "int_ok (r - l)" and "int_ok (b - t)" by (simp_all add: int_ok_def abs_le_iff)
qed

lemma range_loop_eq:
  assumes "ps \<noteq> []" and "\<forall>p\<in>set (ps @ tracks ds). in_picture p"
  shows "range_loop ds (Some (box_of ps)) rg = Inr (if tracks ds = [] then rg else box_rect (ps @ tracks ds))"
  using assms
proof (induction ds arbitrary: ps rg)
  case (Cons d ds)
  show ?case
  proof (cases "td_valid d")
    case True
    obtain l r t b where box: "box_of (ps @ [td_pt d]) = (l, r, t, b)" by (metis prod_cases4)
    have pic: "\<forall>p\<in>set ((ps @ [td_pt d]) @ tracks ds). in_picture p" using Cons.prems(2) True by simp
    have ok: "int_ok (r - l)" "int_ok (b - t)"
      using box_of_picture[OF _ _ box] pic by simp_all
    have "range_loop (d # ds) (Some (box_of ps)) rg = range_loop ds (Some (box_of (ps @ [td_pt d]))) (box_rect (ps @ [td_pt d]))"
      using True box_of_snoc[OF Cons.prems(1), of "td_pt d"] box ok
      by (auto simp: c_int_def box_rect_def Let_def split: prod.splits)
    also have "\<dots> = Inr (if tracks ds = [] then box_rect (ps @ [td_pt d]) else box_rect ((ps @ [td_pt d]) @ tracks ds))"
      by (rule Cons.IH) (use pic in simp_all)
    finally show ?thesis using True by simp
  next
    case False
    with Cons show ?thesis by simp
  qed
qed simp

text \<open>with two or more valid positions the rectangle is exactly the box around them; it counts as found
  only when it has a width, so a target seen at one x all the time is reported as not found; with one
  valid position the rectangle is (-1, -1, 0, 0).\<close>

theorem data_range_box:
  assumes "\<forall>p\<in>set (tracks ds). in_picture p"
  shows "data_range ds =
    (if length (tracks ds) \<ge> 2
     then Inr (box_rect (tracks ds), Min (fst ` set (tracks ds)) \<noteq> Max (fst ` set (tracks ds)))
     else Inr ((-1, -1, 0, 0), False))"
  using assms
proof (induction ds)
  case Nil
  then show ?case by (simp add: data_range_def)
next
  case (Cons d ds)
  show ?case
  proof (cases "td_valid d")
    case True
    have "range_loop (d # ds) None (-1, -1, 0, 0) = range_loop ds (Some (box_of [td_pt d])) (-1, -1, 0, 0)"
      using True by (simp add: box_of_one)
    also have "\<dots> = Inr (if tracks ds = [] then (-1, -1, 0, 0) else box_rect (td_pt d # tracks ds))"
      using range_loop_eq[of "[td_pt d]" ds] Cons.prems True by simp
    finally show ?thesis
      using True by (cases "tracks ds") (auto simp: data_range_def box_rect_def box_of_def)
  next
    case False
    with Cons show ?thesis by (simp add: data_range_def)
  qed
qed

lemma filter_sorted_stamps:
  "sorted (map td_stamp ds) \<Longrightarrow> filter (\<lambda>d. td_stamp d \<ge> x) ds = dropWhile (\<lambda>d. td_stamp d < x) ds"
proof (induction ds)
  case (Cons d ds)
  show ?case
  proof (cases "td_stamp d < x")
    case True
    with Cons show ?thesis by simp
  next
    case False
    with Cons.prems have "\<forall>e\<in>set ds. x \<le> td_stamp e" by force
    then have "filter (\<lambda>d. td_stamp d \<ge> x) ds = ds" by (simp add: filter_id_conv)
    with False show ?thesis by simp
  qed
qed simp

lemma duration_span: "ds \<noteq> [] \<Longrightarrow> snd (data_duration ds) = td_stamp (last ds) - td_stamp (hd ds)"
  by (cases ds; cases "tl ds") (simp_all add: data_duration_def)

text \<open>the analyzer works on a window: of positions in the order of their stamps it keeps the latest and
  everything not older than \<open>analyze_interval\<close> and a second, nothing else, and says that there is
  enough exactly when what it kept spans the interval.\<close>

theorem update_data_window:
  assumes "update_data ds a = Inr (enough, a')" and "sorted (map td_stamp ds)" and "0 \<le> an_duration a"
  shows "an_data a' \<noteq> [] \<and> last (an_data a') = last ds \<and>
    (\<exists>old. ds = old @ an_data a' \<and> (\<forall>d\<in>set old. td_stamp d < td_stamp (last ds) - an_duration a - 1)) \<and>
    td_stamp (last (an_data a')) - td_stamp (hd (an_data a')) \<le> an_duration a + 1 \<and>
    (enough \<longrightarrow> td_stamp (last (an_data a')) - td_stamp (hd (an_data a')) \<ge> an_duration a)"
proof -
  let ?first = "td_stamp (last ds) - an_duration a - 1"
  let ?old = "takeWhile (\<lambda>d. td_stamp d < ?first) ds" and ?new = "dropWhile (\<lambda>d. td_stamp d < ?first) ds"
  have len: "length ds \<ge> 2" and a': "an_data a' = filter (\<lambda>d. td_stamp d \<ge> ?first) ds"
    and en: "enough \<longleftrightarrow> snd (data_duration (an_data a')) \<ge> an_duration a"
    using assms(1) by (auto simp: update_data_def Let_def)
  have new: "an_data a' = ?new" using assms(2) a' by (simp add: filter_sorted_stamps)
  have "ds \<noteq> []" using len by auto
  then have mem: "last ds \<in> set (an_data a')" using assms(3) a' by simp
  then have ne: "an_data a' \<noteq> []" by auto
  have last: "last (an_data a') = last ds" using ne new by (metis last_appendR takeWhile_dropWhile_id)
  have hd: "td_stamp (hd (an_data a')) \<ge> ?first" using ne a' hd_in_set[OF ne] by auto
  have old: "\<forall>d\<in>set ?old. td_stamp d < ?first" by (auto dest: set_takeWhileD)
  have "enough \<longrightarrow> td_stamp (last (an_data a')) - td_stamp (hd (an_data a')) \<ge> an_duration a"
    using en duration_span[OF ne] by simp
  then show ?thesis
    using ne last hd old new by (intro conjI exI[of _ ?old]) auto
qed

section \<open>Instances\<close>

abbreviation at_time :: "real \<Rightarrow> point \<Rightarrow> TeacherDetected" where
  "at_time t p \<equiv> \<lparr>td_stamp = t, td_pt = p, td_stamp_size = 0, td_hog_size = (-1, -1)\<rparr>"

abbreviation sample_walk :: "TeacherDetected list" where
  "sample_walk \<equiv> [at_time 1 (300, 90), at_time 2 (500, 80), at_time 3 (-1, -1), at_time 4 (100, 110)]"

theorem data_vec_net_movement_witness: "data_vec sample_walk = Inr (-200, 20)"
  by (subst data_vec_net_movement) (simp_all add: td_valid_def in_picture_def)

theorem data_range_box_witness: "data_range sample_walk = Inr ((100, 80, 400, 30), True)"
  by (subst data_range_box) (simp_all add: td_valid_def in_picture_def box_rect_def box_of_def)

theorem update_data_window_witness:
  "\<exists>a'. update_data sample_walk \<lparr>an_width = 960, an_height = 540, an_stable_width = 500, an_stable_height = 300,
       an_stable_top = 100, an_duration = 1, an_data = []\<rparr> = Inr (True, a') \<and> last (an_data a') = at_time 4 (100, 110)"
proof -
  let ?a = "\<lparr>an_width = 960, an_height = 540, an_stable_width = 500, an_stable_height = 300, an_stable_top = 100,
    an_duration = 1, an_data = []\<rparr>"
  obtain a' where a': "update_data sample_walk ?a = Inr (True, a')"
    by (simp add: update_data_def data_duration_def Let_def)
  from update_data_window[OF this] a' show ?thesis by simp
qed

end
