(* ===== verification/Camera_Params.thy ===== *)
theory Camera_Params
  imports Trace_Config
begin

text \<open>
  The camera parameters the tracking program fills in, and the conversions it calls with them.

  \<open>Coordinate_Conversion\<close> and \<open>ZoomValueConvert\<close> are not part of the repository: \<open>geometry\<close> holds the
  three functions used, and nothing is assumed about them.
\<close>

record Camera_parameter =
  cp_f :: real
  cp_w :: real
  cp_h :: real
  cp_image :: "int \<times> int"
  cp_ag_x :: real
  cp_ag_y :: real
  cp_scale :: real

text \<open>The angle (in radians) at which the second camera sees a point of the first one's picture; where that
  point appears in its picture when it points at a given angle; the scale of a zoom position.\<close>

record geometry =
  point_cov :: "point \<Rightarrow> Camera_parameter \<Rightarrow> Camera_parameter \<Rightarrow> real \<times> real"
  cam_rotation :: "real \<times> real \<Rightarrow> point \<Rightarrow> Camera_parameter \<Rightarrow> Camera_parameter \<Rightarrow> real \<times> real"
  mp_zoom :: "int \<Rightarrow> real"

text \<open>The three settings of a lens, and the size of its picture.\<close>

definition camera_lens :: "'c kvconfig \<Rightarrow> 'c \<Rightarrow> string \<Rightarrow> string \<Rightarrow> string \<Rightarrow> (real \<times> real \<times> real) result" where
  "camera_lens K c kf kw kh =
     bind_r (cfg_real K c kf ''4.0'') (\<lambda>f.
     bind_r (cfg_real K c kw ''4.8'') (\<lambda>w.
     bind_r (cfg_real K c kh ''2.7'') (\<lambda>h. Inr (f, w, h))))"

definition camera_image :: "'c kvconfig \<Rightarrow> 'c \<Rightarrow> (int \<times> int) result" where
  "camera_image K c =
     bind_r (cfg_int K c ''video_width'' ''960'') (\<lambda>w.
     bind_r (cfg_int K c ''video_height'' ''540'') (\<lambda>h. Inr (w, h)))"

text \<open>The detecting camera and the tracing camera, whose scale is set before every use.\<close>

definition detecting_camera :: "'c kvconfig \<Rightarrow> 'c \<Rightarrow> Camera_parameter result" where
  "detecting_camera K c =
     bind_r (camera_lens K c ''cam_detect_f'' ''cam_detect_ccd_w'' ''cam_detect_ccd_h'') (\<lambda>(f, w, h).
     bind_r (camera_image K c) (\<lambda>im.
     Inr \<lparr>cp_f = f, cp_w = w, cp_h = h, cp_image = im, cp_ag_x = 0, cp_ag_y = 0, cp_scale = 1\<rparr>))"

definition tracing_camera :: "'c kvconfig \<Rightarrow> 'c \<Rightarrow> Camera_parameter result" where
  "tracing_camera K c =
     bind_r (cfg_int K c ''ptz_init_x'' ''0'') (\<lambda>initx.
     bind_r (cfg_int K c ''ptz_init_y'' ''0'') (\<lambda>inity.
     bind_r (cfg_real K c ''cam_trace_min_hangle'' ''0.075'') (\<lambda>ax.
     bind_r (cfg_real K c ''cam_trace_min_vangle'' ''0.075'') (\<lambda>ay.
     bind_r (camera_lens K c ''cam_trace_f'' ''cam_trace_ccd_w'' ''cam_trace_ccd_h'') (\<lambda>(f, w, h).
     bind_r (camera_image K c) (\<lambda>im.
     Inr \<lparr>cp_f = f, cp_w = w, cp_h = h, cp_image = im, cp_ag_x = initx * ax * pi / 180,
          cp_ag_y = inity * ay * pi / 180, cp_scale = - 1\<rparr>))))))"

end
