(* ===== verification/Teacher_Impl.thy ===== *)
theory Teacher_Impl
  imports Teacher_Analyze Camera_Params Ptz_Worker
begin

text \<open>
  \<open>TeacherRunningImpl.h\<close> and \<open>TeacherRunningImpl.cpp\<close>: the working thread that decides between the full
  and the close view. It is woken by every position found and by every task, looks at the positions of
  the last seconds, and moves along FULLVIEW, TO_CLOSE, CLOSEVIEW.

  The time, the camera's answers and the value of a variable the code does not initialise are inputs of
  a turn (\<open>turn_input\<close>). The branches under \<open>TEST\<close>, which is not defined, are left
  out here; \<open>Teacher_Testing\<close> models the state they add.
\<close>

section \<open>State\<close>

datatype TeacherImplRunningState = FULLVIEW | TO_CLOSE | CLOSEVIEW

datatype TeacherTracingResult = TTR_OK | TTR_NO_ENONGH_PTS | TTR_NO_ENOUGH_VALID_PTS | TTR_TOO_OLD_VALID_PT

text \<open>\<open>ToClose\<close> is \<open>None\<close> until it is written.\<close>

record TeacherTracingInfo =
  ti_result :: TeacherTracingResult
  ti_ptz :: bool
  ti_rc_detect :: rectangle
  ti_rc_trace :: rectangle
  ti_curr :: real
  ti_last_stamp :: real
  ti_pt_detect_last :: point
  ti_pt_trace_last :: point
  ti_valid_duration :: real
  ti_ang_trace_to_last :: "real \<times> real"
  ti_zoom_scale :: real
  ti_trace_curr_ang :: "real \<times> real"
  ti_hvec :: int
  ti_vvec :: int
  ti_curr_state :: TeacherImplRunningState
  ti_next_state :: TeacherImplRunningState
  ti_ToClose :: "point option"

record TracingData =
  max_speed :: int
  min_speed :: int
  speed :: int
  tracing_dir :: Dir
  distance :: int

datatype wpc = W_Test | W_Wait | W_Work | W_Done

text \<open>\<open>wk_camera\<close> is the log of the commands the camera was given.\<close>

record 'c working_thread =
  wk_cfg :: 'c
  wk_ptz :: bool
  wk_quit :: bool
  wk_sem :: nat
  wk_tasks :: "Task option list"
  wk_pc :: wpc
  wk_running_state :: int
  wk_state :: TeacherImplRunningState
  wk_info :: TeacherTracingInfo
  wk_detected :: "TeacherDetected list"
  wk_hog_size :: point
  wk_hog_stamp :: real
  wk_policy :: "'c TracePolicy"
  wk_analyzer :: TeacherAnalyze
  wk_tracing :: TracingData
  cp_trace :: Camera_parameter
  cp_detect :: Camera_parameter
  wk_ax :: real
  wk_ay :: real
  stable_size :: "int \<times> int"
  trace_last_pos :: point
  last_detected_pt :: point
  stamp_last_trace :: real
  wk_camera :: "ptz_cmd list"

record turn_input =
  in_now :: real
  in_time :: int
  in_pos :: point
  in_zoom :: int
  in_pos2 :: point
  in_garbage :: real

section \<open>Tasks and positions\<close>

definition wk_add :: "Task option \<Rightarrow> 'c working_thread \<Rightarrow> 'c working_thread" where
  "wk_add t w = w\<lparr>wk_tasks := wk_tasks w @ [t], wk_sem := wk_sem w + 1\<rparr>"

definition wk_count :: "'c working_thread \<Rightarrow> nat" where
  "wk_count w = length (wk_tasks w)"

definition stop_ptz :: "bool \<Rightarrow> 'c working_thread \<Rightarrow> 'c working_thread" where
  "stop_ptz ptz w = (if ptz then w\<lparr>wk_camera := wk_camera w @ [Cmd_stop, Cmd_zoom_stop]\<rparr> else w)"

definition wk_reset_ptz :: "'c kvconfig \<Rightarrow> bool \<Rightarrow> 'c working_thread \<Rightarrow> 'c working_thread result" where
  "wk_reset_ptz K ptz w =
     (if ptz then
        bind_r (cfg_int K (wk_cfg w) ''ptz_init_x'' ''0'') (\<lambda>h.
        bind_r (cfg_int K (wk_cfg w) ''ptz_init_y'' ''0'') (\<lambda>v.
        bind_r (cfg_int K (wk_cfg w) ''ptz_init_z'' ''5000'') (\<lambda>z.
        Inr (wk_add (task_ptz_reset ptz h v z) w))))
      else Inr w)"

text \<open>\<open>set_camshift_pt\<close> keeps the positions of the last \<open>analyze_duration\<close> seconds.\<close>

definition set_camshift_pt :: "'c kvconfig \<Rightarrow> real \<Rightarrow> point \<Rightarrow> 'c working_thread \<Rightarrow> 'c working_thread result" where
  "set_camshift_pt K now pt w =
     (let td = \<lparr>td_stamp = now, td_pt = pt, td_stamp_size = wk_hog_stamp w, td_hog_size = wk_hog_size w\<rparr>;
          ds = wk_detected w @ [td] in
      bind_r (cfg_real K (wk_cfg w) ''analyze_duration'' ''10.0'') (\<lambda>keep.
      Inr (w\<lparr>wk_detected := filter (\<lambda>d. \<not> td_stamp d < now - keep) ds, wk_sem := wk_sem w + 1\<rparr>)))"

definition set_hog_size :: "real \<Rightarrow> int \<Rightarrow> int \<Rightarrow> 'c working_thread \<Rightarrow> 'c working_thread" where
  "set_hog_size now width height w = w\<lparr>wk_hog_size := (width, height), wk_hog_stamp := now\<rparr>"

definition set_ptz :: "bool \<Rightarrow> 'c working_thread \<Rightarrow> 'c working_thread" where
  "set_ptz ptz w = w\<lparr>wk_ptz := ptz\<rparr>"

definition wk_set_running_state :: "int \<Rightarrow> 'c working_thread \<Rightarrow> 'c working_thread" where
  "wk_set_running_state s w = w\<lparr>wk_running_state := s\<rparr>"

text \<open>\<open>next\<close>, and what \<open>run\<close> does with the task: every task is freed, rejected or not.\<close>

definition wk_next :: "'c working_thread \<Rightarrow> Task option \<times> 'c working_thread" where
  "wk_next w = (case wk_tasks w of [] \<Rightarrow> (None, w) | t # ts \<Rightarrow> (t, w\<lparr>wk_tasks := ts\<rparr>))"

definition wk_exec :: "int \<Rightarrow> Task option \<Rightarrow> 'c working_thread \<Rightarrow> 'c working_thread result" where
  "wk_exec now task w =
     (case task of
        None \<Rightarrow> Inr w
      | Some t \<Rightarrow>
          if (case should_do t of None \<Rightarrow> False | Some f \<Rightarrow> \<not> f now) then Inr w
          else bind_r (case handle_fn t of None \<Rightarrow> Inr [] | Some f \<Rightarrow> call_handle f t) (\<lambda>cmds.
               Inr (w\<lparr>wk_camera := wk_camera w @ cmds\<rparr>)))"

section \<open>The camera's angle and the conversions\<close>

definition get_trace_ptz_abs_pos :: "'c kvconfig \<Rightarrow> point \<Rightarrow> 'c working_thread \<Rightarrow> (real \<times> real) result" where
  "get_trace_ptz_abs_pos K pos w =
     (if wk_ptz w then
        bind_r (cfg_real K (wk_cfg w) ''cam_trace_min_hangle'' ''0.075'') (\<lambda>mh.
        bind_r (cfg_real K (wk_cfg w) ''cam_trace_min_vangle'' ''0.075'') (\<lambda>mv.
        Inr (real_of_int (fst pos) * mh * pi / 180, real_of_int (snd pos) * mv * pi / 180)))
      else Inr (0, 0))"

definition get_trace_zoom_scale :: "geometry \<Rightarrow> int \<Rightarrow> 'c working_thread \<Rightarrow> real" where
  "get_trace_zoom_scale G zoom w = (if wk_ptz w then mp_zoom G zoom else 1)"

text \<open>A rectangle and a point of the detecting picture in the tracing picture.\<close>

definition trunc_point :: "real \<times> real \<Rightarrow> point result" where
  "trunc_point p = bind_r (c_trunc (fst p)) (\<lambda>x. bind_r (c_trunc (snd p)) (\<lambda>y. Inr (x, y)))"

definition det2tra ::
    "geometry \<Rightarrow> rectangle \<Rightarrow> point \<Rightarrow> real \<times> real \<Rightarrow> 'c working_thread \<Rightarrow> (rectangle \<times> point) result" where
  "det2tra G rc lastpt ang w =
     (case rc of (x, y, wd, ht) \<Rightarrow>
        bind_r (c_int (x + wd)) (\<lambda>x2.
        bind_r (c_int (y + ht)) (\<lambda>y2.
        let ul = cam_rotation G ang (x, y) (cp_detect w) (cp_trace w);
            dr = cam_rotation G ang (x2, y2) (cp_detect w) (cp_trace w);
            lpt = cam_rotation G ang lastpt (cp_detect w) (cp_trace w) in
        bind_r (trunc_point ul) (\<lambda>p.
        bind_r (trunc_point (fst dr - fst ul, snd dr - snd ul)) (\<lambda>q.
        bind_r (trunc_point lpt) (\<lambda>l.
        Inr ((fst p, snd p, fst q, snd q), l)))))))"

text \<open>The camera is turned to where it sees the point; the position commanded is remembered in \<open>ToClose\<close>.\<close>

definition set_ptz_abs_pos ::
    "geometry \<Rightarrow> bool \<Rightarrow> point \<Rightarrow> int \<Rightarrow> 'c working_thread \<Rightarrow> (point option \<times> 'c working_thread) result" where
  "set_ptz_abs_pos G ptz pt spd w =
     (if ptz then
        let ang = point_cov G pt (cp_detect w) (cp_trace w) in
        bind_r (check_r (wk_ax w \<noteq> 0 \<and> wk_ay w \<noteq> 0) Div_Zero) (\<lambda>_.
        bind_r (trunc_point (fst ang * 180 / pi / wk_ax w, snd ang * 180 / pi / wk_ay w)) (\<lambda>p.
        Inr (Some p, w\<lparr>wk_camera := wk_camera w @ [Cmd_set_absolute_position (fst p) (snd p) spd]\<rparr>)))
      else Inr (None, w))"

definition get_ptz_abs_pos :: "bool \<Rightarrow> point \<Rightarrow> point option" where
  "get_ptz_abs_pos ptz pos = (if ptz then Some pos else None)"

section \<open>The three states\<close>

text \<open>The range is small, and the target moved to and fro rather than along.\<close>

definition target_still :: "real \<Rightarrow> TeacherTracingInfo \<Rightarrow> 'c working_thread \<Rightarrow> bool result" where
  "target_still interval info w =
     (case (ti_rc_trace info, ti_rc_detect info) of
        ((_, _, tw, th), (_, _, dw, dh)) \<Rightarrow>
          if ti_valid_duration info \<ge> interval \<and> tw < fst (stable_size w) \<and> th < snd (stable_size w) then
            bind_r (c_int (dw * 2)) (\<lambda>d2.
            bind_r (c_div d2 3) (\<lambda>d23.
            Inr (ti_hvec info < d23 \<and> ti_vvec info \<le> dh)))
          else Inr False)"

definition state_fullview ::
    "'c kvconfig \<Rightarrow> geometry \<Rightarrow> TeacherTracingInfo \<Rightarrow> 'c working_thread \<Rightarrow> (TeacherTracingInfo \<times> 'c working_thread) result" where
  "state_fullview K G info w =
     (if ti_result info = TTR_OK then
        bind_r (analyze_interval K (wk_policy w)) (\<lambda>interval.
        bind_r (target_still interval info w) (\<lambda>still.
        if still then
          bind_r (set_ptz_abs_pos G (ti_ptz info) (ti_pt_detect_last info) 30 w) (\<lambda>(p, w).
          let info = (case p of None \<Rightarrow> info | Some p \<Rightarrow> info\<lparr>ti_ToClose := Some p\<rparr>)
          in Inr (info\<lparr>ti_next_state := TO_CLOSE\<rparr>, w))
        else Inr (info, w)))
      else if ti_result info = TTR_TOO_OLD_VALID_PT then
        bind_r (wk_reset_ptz K (ti_ptz info) w) (\<lambda>w. Inr (info, w))
      else Inr (info, w))"

definition state_toclose :: "point \<Rightarrow> TeacherTracingInfo \<Rightarrow> TeacherTracingInfo result" where
  "state_toclose pos info =
     (case get_ptz_abs_pos (ti_ptz info) pos of
        None \<Rightarrow> Inr (info\<lparr>ti_next_state := FULLVIEW\<rparr>)
      | Some (h, v) \<Rightarrow>
          (case ti_ToClose info of
             None \<Rightarrow> Inl Uninit_Read
           | Some (ch, cv) \<Rightarrow>
               bind_r (c_int (h - ch)) (\<lambda>dh.
               bind_r (c_int (v - cv)) (\<lambda>dv.
               Inr (if \<bar>dh\<bar> < 3 \<and> \<bar>dv\<bar> < 3 then info\<lparr>ti_next_state := CLOSEVIEW\<rparr> else info)))))"

definition state_closeview :: "TeacherTracingInfo \<Rightarrow> 'c working_thread \<Rightarrow> TeacherTracingInfo result" where
  "state_closeview info w =
     bind_r (c_div (fst (stable_size w)) 2) (\<lambda>half.
     Inr (if \<bar>fst (ti_pt_trace_last info)\<bar> > half then info\<lparr>ti_next_state := FULLVIEW\<rparr> else info))"

definition tracing_init :: "'c kvconfig \<Rightarrow> 'c \<Rightarrow> TracingData result" where
  "tracing_init K c =
     bind_r (cfg_int K c ''ptz_max_speed'' ''10'') (\<lambda>a.
     bind_r (cfg_int K c ''ptz_min_speed'' ''1'') (\<lambda>b.
     bind_r (cfg_int K c ''ptz_init_speed'' ''2'') (\<lambda>s.
     Inr \<lparr>max_speed = a, min_speed = b, speed = s, tracing_dir = MIDDLE, distance = -1\<rparr>)))"

definition change_state :: "'c kvconfig \<Rightarrow> TeacherImplRunningState \<Rightarrow> 'c working_thread \<Rightarrow> 'c working_thread result" where
  "change_state K s2 w =
     (let w = w\<lparr>wk_state := s2\<rparr> in
      if s2 = FULLVIEW then bind_r (tracing_init K (wk_cfg w)) (\<lambda>d. Inr (w\<lparr>wk_tracing := d\<rparr>)) else Inr w)"

text \<open>\<open>(this->*state_funcs_[state_]) (trace_info_)\<close> and the change of state behind it.\<close>

definition call_state ::
    "'c kvconfig \<Rightarrow> geometry \<Rightarrow> point \<Rightarrow> TeacherTracingInfo \<Rightarrow> 'c working_thread \<Rightarrow> (TeacherTracingInfo \<times> 'c working_thread) result" where
  "call_state K G pos info w =
     (case wk_state w of
        FULLVIEW \<Rightarrow> state_fullview K G info w
      | TO_CLOSE \<Rightarrow> bind_r (state_toclose pos info) (\<lambda>info. Inr (info, w))
      | CLOSEVIEW \<Rightarrow> bind_r (state_closeview info w) (\<lambda>info. Inr (info, w)))"

definition state_step ::
    "'c kvconfig \<Rightarrow> geometry \<Rightarrow> point \<Rightarrow> TeacherTracingInfo \<Rightarrow> 'c working_thread \<Rightarrow> 'c working_thread result" where
  "state_step K G pos info w =
     bind_r (call_state K G pos info w) (\<lambda>(info, w).
     let w = w\<lparr>wk_info := info\<rparr> in
     if ti_next_state info \<noteq> wk_state w then change_state K (ti_next_state info) w else Inr w)"

section \<open>One look at the positions\<close>

text \<open>The first half of \<open>trytrace\<close>: is there enough to go by? The result, the duration of the valid positions,
  the last valid position and its stamp, and the analyzer. \<open>garbage\<close> is the stamp's value when no
  position is valid; \<open>cv::Point\<close> starts as (0, 0).\<close>

definition trace_verdict ::
    "'c kvconfig \<Rightarrow> TeacherDetected list \<Rightarrow> real \<Rightarrow> real \<Rightarrow> 'c working_thread \<Rightarrow>
     (TeacherTracingResult \<times> real \<times> point \<times> real \<times> TeacherAnalyze) result" where
  "trace_verdict K ds ct garbage w =
     bind_r (update_data ds (wk_analyzer w)) (\<lambda>(enough, a).
     let r = (if enough then TTR_OK else TTR_NO_ENONGH_PTS);
         valid_delta = fst (data_duration (an_data a));
         (pt, stamp) = (case data_last_valid (an_data a) of None \<Rightarrow> ((0, 0), garbage) | Some x \<Rightarrow> x) in
     bind_r (time_to_stop_tracing K (wk_policy w)) (\<lambda>limit.
     let r = (if ct - stamp > limit then TTR_TOO_OLD_VALID_PT else r);
         r = (if r = TTR_OK \<and> fst (data_valided (an_data a) 0 0) < 2 then TTR_NO_ENOUGH_VALID_PTS else r)
     in Inr (r, valid_delta, pt, stamp, a)))"

text \<open>What the state functions are told when there is.\<close>

definition trace_fill ::
    "geometry \<Rightarrow> real \<Rightarrow> point \<Rightarrow> real \<Rightarrow> real \<times> real \<Rightarrow> real \<Rightarrow> TeacherTracingInfo \<Rightarrow> 'c working_thread \<Rightarrow> TeacherTracingInfo result" where
  "trace_fill G valid_delta pt stamp ang scale info w =
     bind_r (data_range (an_data (wk_analyzer w))) (\<lambda>(rc, _).
     bind_r (data_vec (an_data (wk_analyzer w))) (\<lambda>(hvec, vvec).
     bind_r (det2tra G rc pt ang w) (\<lambda>(rct, ptt).
     Inr (info\<lparr>ti_valid_duration := valid_delta, ti_pt_detect_last := pt, ti_last_stamp := stamp,
               ti_trace_curr_ang := ang, ti_rc_trace := rct, ti_pt_trace_last := ptt, ti_rc_detect := rc,
               ti_ang_trace_to_last := point_cov G pt (cp_detect w) (cp_trace w),
               ti_zoom_scale := scale, ti_hvec := hvec, ti_vvec := vvec,
               ti_curr_state := wk_state w, ti_next_state := wk_state w\<rparr>))))"

text \<open>The last position, kept to print a change of it.\<close>

definition note_detected :: "'c working_thread \<Rightarrow> 'c working_thread" where
  "note_detected w =
     (let p = ti_pt_detect_last (wk_info w); q = last_detected_pt w in
      if fst q \<noteq> fst p \<and> snd q \<noteq> snd p then w\<lparr>last_detected_pt := p\<rparr> else w)"

text \<open>The second half: \<open>u\<close> is the worker with the scale of the moment.\<close>

definition trace_act ::
    "'c kvconfig \<Rightarrow> geometry \<Rightarrow> turn_input \<Rightarrow> TeacherTracingResult \<Rightarrow> real \<Rightarrow> point \<Rightarrow> real \<Rightarrow> real \<times> real \<Rightarrow>
     'c working_thread \<Rightarrow> 'c working_thread result" where
  "trace_act K G i r valid_delta pt stamp ang w =
     (let scale = get_trace_zoom_scale G (in_zoom i) w;
          w = w\<lparr>cp_trace := (cp_trace w)\<lparr>cp_scale := scale\<rparr>\<rparr>;
          info = (wk_info w)\<lparr>ti_result := r, ti_ptz := wk_ptz w, ti_curr := in_now i\<rparr> in
      if r = TTR_OK then
        bind_r (trace_fill G valid_delta pt stamp ang scale info w) (\<lambda>info.
        bind_r (state_step K G (in_pos2 i) info (w\<lparr>trace_last_pos := ti_pt_trace_last info\<rparr>)) (\<lambda>w.
        Inr (note_detected w)))
      else
        state_step K G (in_pos2 i) (info\<lparr>ti_curr_state := wk_state w, ti_next_state := wk_state w\<rparr>) w)"

definition trytrace ::
    "'c kvconfig \<Rightarrow> geometry \<Rightarrow> turn_input \<Rightarrow> TeacherDetected list \<Rightarrow> 'c working_thread \<Rightarrow> 'c working_thread result" where
  "trytrace K G i ds w =
     (let w = w\<lparr>trace_last_pos := (-1000, -1000)\<rparr> in
      bind_r (trace_verdict K ds (in_now i) (in_garbage i) w) (\<lambda>(r, valid_delta, pt, stamp, a).
      let w = w\<lparr>wk_analyzer := a\<rparr> in
      bind_r (get_trace_ptz_abs_pos K (in_pos i) w) (\<lambda>ang.
      bind_r (trace_act K G i r valid_delta pt stamp ang w) (\<lambda>w.
      Inr (w\<lparr>stamp_last_trace := in_now i\<rparr>)))))"

section \<open>The thread\<close>

text \<open>One step of \<open>run\<close>: the test of the loop; the wait, and the test behind it; the work of a turn. Nothing
  another thread does in the middle of a turn's work touches what it still reads.\<close>

definition worker_work :: "'c kvconfig \<Rightarrow> geometry \<Rightarrow> turn_input \<Rightarrow> 'c working_thread \<Rightarrow> 'c working_thread result" where
  "worker_work K G i w =
     bind_r (if wk_running_state w = 0 \<and> length (wk_detected w) \<ge> 2
             then trytrace K G i (wk_detected w) w else Inr w) (\<lambda>w.
     let (t, w) = wk_next w in
     bind_r (wk_exec (in_time i) t w) (\<lambda>w. Inr (w\<lparr>wk_pc := W_Test\<rparr>)))"

definition worker_run :: "'c kvconfig \<Rightarrow> geometry \<Rightarrow> turn_input \<Rightarrow> 'c working_thread \<Rightarrow> 'c working_thread result" where
  "worker_run K G i w =
     (case wk_pc w of
        W_Test \<Rightarrow> Inr (w\<lparr>wk_pc := if wk_quit w then W_Done else W_Wait\<rparr>)
      | W_Wait \<Rightarrow> if wk_sem w = 0 then Inl Would_Block
                  else Inr (w\<lparr>wk_sem := wk_sem w - 1, wk_pc := if wk_quit w then W_Done else W_Work\<rparr>)
      | W_Work \<Rightarrow> worker_work K G i w
      | W_Done \<Rightarrow> Inl Stuck)"

text \<open>The destructor up to its join.\<close>

definition worker_quit :: "'c working_thread \<Rightarrow> 'c working_thread" where
  "worker_quit w = w\<lparr>wk_quit := True, wk_sem := wk_sem w + 1\<rparr>"

text \<open>The constructor; \<open>info0\<close> is what lies in \<open>trace_info_\<close> before anything is written.\<close>

definition TeacherWorkingThread_open ::
    "'c kvconfig \<Rightarrow> 'c \<Rightarrow> bool \<Rightarrow> real \<Rightarrow> TeacherTracingInfo \<Rightarrow> real \<Rightarrow> 'c working_thread result" where
  "TeacherWorkingThread_open K c ptz now info0 garbage =
     bind_r (tracing_init K c) (\<lambda>d.
     bind_r (cfg_real K c ''cam_trace_min_hangle'' ''0.075'') (\<lambda>ax.
     bind_r (cfg_real K c ''cam_trace_min_vangle'' ''0.075'') (\<lambda>ay.
     bind_r (tracing_camera K c) (\<lambda>cpt.
     bind_r (detecting_camera K c) (\<lambda>cd.
     bind_r (cfg_int K c ''stable_width'' ''660'') (\<lambda>sw.
     bind_r (cfg_int K c ''stable_height'' ''340'') (\<lambda>sh.
     bind_r (load_policy_data K c) (\<lambda>policy.
     bind_r (TeacherAnalyze_open K c policy) (\<lambda>a.
     wk_reset_ptz K ptz
       \<lparr>wk_cfg = c, wk_ptz = ptz, wk_quit = False, wk_sem = 0, wk_tasks = [], wk_pc = W_Test,
        wk_running_state = 0, wk_state = FULLVIEW,
        wk_info = info0\<lparr>ti_rc_detect := (0, 0, 0, 0), ti_rc_trace := (0, 0, 0, 0), ti_pt_detect_last := (0, 0),
                        ti_pt_trace_last := (0, 0), ti_ToClose := None\<rparr>,
        wk_detected = [], wk_hog_size = (-1, -1), wk_hog_stamp = garbage, wk_policy = policy,
        wk_analyzer = a, wk_tracing = d, cp_trace = cpt, cp_detect = cd, wk_ax = ax, wk_ay = ay,
        stable_size = (sw, sh), trace_last_pos = (0, 0), last_detected_pt = (0, 0), stamp_last_trace = now,
        wk_camera = []\<rparr>)))))))))"

text \<open>Any interleaving of the thread with those that feed it; the camera is set when the thread is made and
  \<open>set_ptz\<close>, which nothing calls, is left out.\<close>

inductive worker_step :: "'c kvconfig \<Rightarrow> geometry \<Rightarrow> 'c working_thread \<Rightarrow> 'c working_thread \<Rightarrow> bool" for K G where
  step_run: "worker_run K G i w = Inr w' \<Longrightarrow> worker_step K G w w'"
| step_found: "set_camshift_pt K now pt w = Inr w' \<Longrightarrow> worker_step K G w w'"
| step_hog: "worker_step K G w (set_hog_size now wd ht w)"
| step_add: "worker_step K G w (wk_add t w)"
| step_running: "worker_step K G w (wk_set_running_state s w)"
| step_quit: "worker_step K G w (worker_quit w)"

inductive worker_reachable :: "'c kvconfig \<Rightarrow> geometry \<Rightarrow> bool \<Rightarrow> 'c working_thread \<Rightarrow> bool" for K G ptz where
  opened: "TeacherWorkingThread_open K c ptz now info0 garbage = Inr w \<Longrightarrow> worker_reachable K G ptz w"
| step: "worker_reachable K G ptz w \<Longrightarrow> worker_step K G w w' \<Longrightarrow> worker_reachable K G ptz w'"

section \<open>What a step changes\<close>

text \<open>The part of the state that tasks, commands and wake-ups leave alone.\<close>

definition same_feed :: "'c working_thread \<Rightarrow> 'c working_thread \<Rightarrow> bool" where
  "same_feed w w' \<longleftrightarrow>
     wk_cfg w' = wk_cfg w \<and> wk_ptz w' = wk_ptz w \<and> wk_detected w' = wk_detected w \<and> wk_policy w' = wk_policy w \<and>
     stable_size w' = stable_size w \<and> wk_running_state w' = wk_running_state w"

definition same_view :: "'c working_thread \<Rightarrow> 'c working_thread \<Rightarrow> bool" where
  "same_view w w' \<longleftrightarrow> same_feed w w' \<and> wk_state w' = wk_state w \<and> wk_info w' = wk_info w"

lemma same_refl [simp]: "same_feed w w" "same_view w w"
  by (simp_all add: same_view_def same_feed_def)

lemma same_feed_trans: "same_feed w w' \<Longrightarrow> same_feed w' w'' \<Longrightarrow> same_feed w w''"
  by (simp add: same_feed_def)

lemma reset_ptz_view: "wk_reset_ptz K ptz w = Inr w' \<Longrightarrow> same_view w w'"
  by (auto simp: wk_reset_ptz_def wk_add_def same_view_def same_feed_def split: if_splits)

lemma set_ptz_abs_pos_view:
  "set_ptz_abs_pos G ptz pt spd w = Inr (p, w') \<Longrightarrow> same_view w w' \<and> (ptz \<longrightarrow> p \<noteq> None)"
  by (auto simp: set_ptz_abs_pos_def same_view_def same_feed_def Let_def split: if_splits)

lemma next_exec_view: "wk_exec now (fst (wk_next w)) (snd (wk_next w)) = Inr w' \<Longrightarrow> same_view w w'"
  by (auto simp: wk_exec_def wk_next_def same_view_def same_feed_def split: if_splits list.splits option.splits)

lemma trace_verdict_facts:
  assumes "trace_verdict K ds ct garbage w = Inr (r, delta, pt, stamp, a)"
  shows "an_data a = filter (\<lambda>d. td_stamp d \<ge> td_stamp (last ds) - an_duration (wk_analyzer w) - 1) ds"
    and "an_duration a = an_duration (wk_analyzer w)"
    and "r = TTR_OK \<Longrightarrow> length (tracks (an_data a)) \<ge> 2"
  using assms by (auto simp: trace_verdict_def update_data_def data_valided_eq Let_def split: option.splits if_splits)

text \<open>The arrows of the state machine, and when each is taken.\<close>

definition view_change :: "bool \<Rightarrow> point \<Rightarrow> TeacherTracingInfo \<Rightarrow> int \<Rightarrow> TeacherImplRunningState \<Rightarrow> TeacherImplRunningState \<Rightarrow> bool" where
  "view_change ptz pos info half s s' \<longleftrightarrow>
     s' = s \<or>
     s = FULLVIEW \<and> s' = TO_CLOSE \<and> ti_result info = TTR_OK \<and> (ptz \<longrightarrow> ti_ToClose info \<noteq> None) \<or>
     s = TO_CLOSE \<and> s' = FULLVIEW \<and> \<not> ptz \<or>
     s = TO_CLOSE \<and> s' = CLOSEVIEW \<and> ptz \<and>
       (\<exists>h v. ti_ToClose info = Some (h, v) \<and> \<bar>fst pos - h\<bar> < 3 \<and> \<bar>snd pos - v\<bar> < 3) \<or>
     s = CLOSEVIEW \<and> s' = FULLVIEW \<and> half < \<bar>fst (ti_pt_trace_last info)\<bar>"

lemma c_int_Inr: "c_int x = Inr y \<Longrightarrow> y = x"
  by (auto simp: c_int_def split: if_splits)

lemma state_fullview_view:
  assumes "state_fullview K G info w = Inr (info', w')" and "ti_next_state info = FULLVIEW"
  shows "same_view w w' \<and> ti_result info' = ti_result info \<and> ti_pt_trace_last info' = ti_pt_trace_last info \<and>
    (ti_ToClose info \<noteq> None \<longrightarrow> ti_ToClose info' \<noteq> None) \<and>
    (ti_next_state info' = FULLVIEW \<or>
     ti_next_state info' = TO_CLOSE \<and> ti_result info = TTR_OK \<and> (ti_ptz info \<longrightarrow> ti_ToClose info' \<noteq> None))"
  using assms set_ptz_abs_pos_view[of G "ti_ptz info" "ti_pt_detect_last info" 30 w] reset_ptz_view[of K "ti_ptz info" w]
  by (auto simp: state_fullview_def Let_def split: if_splits option.splits)

lemma state_toclose_view:
  assumes "state_toclose pos info = Inr info'"
  shows "ti_result info' = ti_result info \<and> ti_pt_trace_last info' = ti_pt_trace_last info \<and> ti_ToClose info' = ti_ToClose info \<and>
    (ti_next_state info' = ti_next_state info \<or>
     ti_next_state info' = FULLVIEW \<and> \<not> ti_ptz info \<or>
     ti_next_state info' = CLOSEVIEW \<and> ti_ptz info \<and>
       (\<exists>h v. ti_ToClose info = Some (h, v) \<and> \<bar>fst pos - h\<bar> < 3 \<and> \<bar>snd pos - v\<bar> < 3))"
  using assms
  by (auto simp: state_toclose_def get_ptz_abs_pos_def split: if_splits option.splits prod.splits dest!: c_int_Inr)

lemma state_closeview_view:
  assumes "state_closeview info w = Inr info'"
  shows "ti_result info' = ti_result info \<and> ti_pt_trace_last info' = ti_pt_trace_last info \<and> ti_ToClose info' = ti_ToClose info \<and>
    (ti_next_state info' = ti_next_state info \<or> ti_next_state info' = FULLVIEW \<and>
      fst (stable_size w) sdiv 2 < \<bar>fst (ti_pt_trace_last info)\<bar>)"
  using assms by (auto simp: state_closeview_def c_div_def split: if_splits dest!: c_int_Inr)

lemma change_state_feed:
  "change_state K s w = Inr w' \<Longrightarrow> same_feed w w' \<and> wk_state w' = s \<and> wk_info w' = wk_info w"
  by (auto simp: change_state_def same_feed_def Let_def split: if_splits)

lemma call_state_view:
  assumes "call_state K G pos info w = Inr (info', w')" and "ti_next_state info = wk_state w"
  shows "same_view w w' \<and> ti_result info' = ti_result info \<and> ti_pt_trace_last info' = ti_pt_trace_last info \<and>
    (ti_ToClose info \<noteq> None \<longrightarrow> ti_ToClose info' \<noteq> None) \<and>
    view_change (ti_ptz info) pos info' (fst (stable_size w) sdiv 2) (wk_state w) (ti_next_state info')"
proof (cases "wk_state w")
  case FULLVIEW
  with assms state_fullview_view[of K G info w info' w'] show ?thesis
    by (auto simp: call_state_def view_change_def)
next
  case TO_CLOSE
  with assms have "state_toclose pos info = Inr info'" "w' = w" by (auto simp: call_state_def)
  with TO_CLOSE assms(2) state_toclose_view[of pos info info'] show ?thesis
    by (auto simp: view_change_def same_view_def same_feed_def)
next
  case CLOSEVIEW
  with assms have "state_closeview info w = Inr info'" "w' = w" by (auto simp: call_state_def)
  with CLOSEVIEW assms(2) state_closeview_view[of info w info'] show ?thesis
    by (auto simp: view_change_def same_view_def same_feed_def)
qed

lemma state_step_view:
  assumes "state_step K G pos info w = Inr w'" and "ti_next_state info = wk_state w"
  shows "same_feed w w' \<and> ti_result (wk_info w') = ti_result info \<and>
    ti_pt_trace_last (wk_info w') = ti_pt_trace_last info \<and>
    (ti_ToClose info \<noteq> None \<longrightarrow> ti_ToClose (wk_info w') \<noteq> None) \<and>
    view_change (ti_ptz info) pos (wk_info w') (fst (stable_size w) sdiv 2) (wk_state w) (wk_state w')"
proof -
  obtain info' w1 where c: "call_state K G pos info w = Inr (info', w1)"
    and ch: "(if ti_next_state info' \<noteq> wk_state w1 then change_state K (ti_next_state info') (w1\<lparr>wk_info := info'\<rparr>)
      else Inr (w1\<lparr>wk_info := info'\<rparr>)) = Inr w'"
    using assms(1) by (auto simp: state_step_def Let_def)
  note view = call_state_view[OF c assms(2)]
  have st: "wk_state w1 = wk_state w" "same_feed w w1" using view by (simp_all add: same_view_def)
  show ?thesis
  proof (cases "ti_next_state info' = wk_state w1")
    case True
    then show ?thesis using ch view st by (auto simp: same_feed_def)
  next
    case False
    then have "same_feed (w1\<lparr>wk_info := info'\<rparr>) w'" "wk_state w' = ti_next_state info'" "wk_info w' = info'"
      using ch change_state_feed[of K "ti_next_state info'" "w1\<lparr>wk_info := info'\<rparr>" w'] by simp_all
    then show ?thesis using view st by (simp add: same_feed_def)
  qed
qed

lemma trace_fill_facts:
  "trace_fill G delta pt stamp ang scale info w = Inr info' \<Longrightarrow>
   ti_next_state info' = wk_state w \<and> ti_result info' = ti_result info \<and> ti_ptz info' = ti_ptz info \<and>
   ti_ToClose info' = ti_ToClose info"
  by (auto simp: trace_fill_def)

lemma note_detected_view: "same_feed w (note_detected w) \<and> wk_state (note_detected w) = wk_state w \<and> wk_info (note_detected w) = wk_info w"
  by (simp add: note_detected_def same_feed_def Let_def)

lemma tracks_filter: "length (tracks (filter P ds)) \<le> length (tracks ds)"
  by (induction ds) auto

text \<open>A look at the positions as a whole.\<close>

definition acted :: "point \<Rightarrow> TeacherTracingResult \<Rightarrow> 'c working_thread \<Rightarrow> 'c working_thread \<Rightarrow> bool" where
  "acted pos r w w' \<longleftrightarrow> same_feed w w' \<and> ti_result (wk_info w') = r \<and>
     (ti_ToClose (wk_info w) \<noteq> None \<longrightarrow> ti_ToClose (wk_info w') \<noteq> None) \<and>
     view_change (wk_ptz w) pos (wk_info w') (fst (stable_size w) sdiv 2) (wk_state w) (wk_state w') \<and>
     (r \<noteq> TTR_OK \<longrightarrow> ti_pt_trace_last (wk_info w') = ti_pt_trace_last (wk_info w))"

lemma trace_act_acted:
  assumes "trace_act K G i r delta pt stamp ang w = Inr w'"
  shows "acted (in_pos2 i) r w w'"
proof -
  let ?scale = "get_trace_zoom_scale G (in_zoom i) w"
  let ?u = "w\<lparr>cp_trace := (cp_trace w)\<lparr>cp_scale := ?scale\<rparr>\<rparr>"
  let ?info = "(wk_info w)\<lparr>ti_result := r, ti_ptz := wk_ptz w, ti_curr := in_now i\<rparr>"
  show ?thesis
  proof (cases "r = TTR_OK")
    case True
    then obtain info v where f: "trace_fill G delta pt stamp ang ?scale ?info ?u = Inr info"
        "state_step K G (in_pos2 i) info (?u\<lparr>trace_last_pos := ti_pt_trace_last info\<rparr>) = Inr v" "w' = note_detected v"
      using assms by (auto simp: trace_act_def Let_def)
    from trace_fill_facts[OF f(1)] state_step_view[OF f(2)] note_detected_view[of v] True f(3) show ?thesis
      by (auto simp: acted_def same_feed_def)
  next
    case False
    then have "state_step K G (in_pos2 i) (?info\<lparr>ti_curr_state := wk_state w, ti_next_state := wk_state w\<rparr>) ?u = Inr w'"
      using assms by (simp add: trace_act_def Let_def)
    from state_step_view[OF this] show ?thesis by (auto simp: acted_def same_feed_def)
  qed
qed

lemma trytrace_acted:
  assumes "trytrace K G i ds w = Inr w'"
  obtains r where "acted (in_pos2 i) r w w'" and "length (tracks ds) < 2 \<Longrightarrow> r \<noteq> TTR_OK"
proof -
  obtain r delta pt stamp a ang w1 where
      v: "trace_verdict K ds (in_now i) (in_garbage i) (w\<lparr>trace_last_pos := (-1000, -1000)\<rparr>) = Inr (r, delta, pt, stamp, a)"
    and act: "trace_act K G i r delta pt stamp ang (w\<lparr>trace_last_pos := (-1000, -1000), wk_analyzer := a\<rparr>) = Inr w1"
    and w': "w' = w1\<lparr>stamp_last_trace := in_now i\<rparr>"
    using assms by (auto simp: trytrace_def Let_def)
  have "acted (in_pos2 i) r w w'"
    using trace_act_acted[OF act] w' by (simp add: acted_def same_feed_def)
  moreover have "length (tracks ds) < 2 \<Longrightarrow> r \<noteq> TTR_OK"
    using trace_verdict_facts(1,3)[OF v] tracks_filter[of "\<lambda>d. td_stamp d \<ge> td_stamp (last ds) - an_duration (wk_analyzer w) - 1" ds]
    by auto
  ultimately show thesis by (rule that)
qed

section \<open>The view follows the camera\<close>

lemma worker_work_acted:
  assumes "worker_work K G i w = Inr w'"
  shows "(same_feed w w' \<and> wk_state w' = wk_state w \<and> wk_info w' = wk_info w) \<or>
    (\<exists>r. acted (in_pos2 i) r w w' \<and> (length (tracks (wk_detected w)) < 2 \<longrightarrow> r \<noteq> TTR_OK))"
proof -
  obtain w1 w2 where t: "(if wk_running_state w = 0 \<and> length (wk_detected w) \<ge> 2
      then trytrace K G i (wk_detected w) w else Inr w) = Inr w1"
    and e: "wk_exec (in_time i) (fst (wk_next w1)) (snd (wk_next w1)) = Inr w2" "w' = w2\<lparr>wk_pc := W_Test\<rparr>"
    using assms by (auto simp: worker_work_def Let_def split: prod.splits)
  have view: "same_feed w1 w'" "wk_state w' = wk_state w1" "wk_info w' = wk_info w1"
    using next_exec_view[OF e(1)] e(2) by (simp_all add: same_view_def same_feed_def)
  show ?thesis
  proof (cases "wk_running_state w = 0 \<and> length (wk_detected w) \<ge> 2")
    case True
    then obtain r where "acted (in_pos2 i) r w w1" "length (tracks (wk_detected w)) < 2 \<Longrightarrow> r \<noteq> TTR_OK"
      using t by (auto elim: trytrace_acted)
    then show ?thesis using view same_feed_trans[of w w1 w'] by (auto simp: acted_def)
  next
    case False
    then show ?thesis using t view by auto
  qed
qed

lemma worker_run_acted:
  assumes "worker_run K G i w = Inr w'"
  shows "(same_feed w w' \<and> wk_state w' = wk_state w \<and> wk_info w' = wk_info w) \<or>
    (\<exists>r. acted (in_pos2 i) r w w' \<and> (length (tracks (wk_detected w)) < 2 \<longrightarrow> r \<noteq> TTR_OK))"
proof (cases "wk_pc w")
  case W_Work
  then show ?thesis using assms worker_work_acted by (simp add: worker_run_def)
qed (use assms in \<open>auto simp: worker_run_def same_feed_def split: if_splits\<close>)

definition view_inv :: "bool \<Rightarrow> 'c working_thread \<Rightarrow> bool" where
  "view_inv ptz w \<longleftrightarrow> wk_ptz w = ptz \<and> (wk_state w = CLOSEVIEW \<longrightarrow> ptz) \<and>
     (wk_state w \<noteq> FULLVIEW \<and> ptz \<longrightarrow> ti_ToClose (wk_info w) \<noteq> None)"

lemma view_inv_step:
  assumes "view_inv ptz w" and "worker_step K G w w'"
  shows "view_inv ptz w'"
  using assms(2)
proof (cases rule: worker_step.cases)
  case (step_run i)
  from worker_run_acted[OF this] assms(1) show ?thesis
    by (auto simp: view_inv_def same_feed_def acted_def view_change_def)
next
  case (step_found now pt)
  with assms(1) show ?thesis by (auto simp: set_camshift_pt_def view_inv_def Let_def)
qed (use assms(1) in \<open>auto simp: view_inv_def set_hog_size_def wk_add_def wk_set_running_state_def worker_quit_def\<close>)

lemma view_inv_open:
  assumes "TeacherWorkingThread_open K c ptz now info0 garbage = Inr w"
  shows "view_inv ptz w"
  using assms by (auto simp: TeacherWorkingThread_open_def view_inv_def wk_reset_ptz_def wk_add_def split: if_splits)

lemma reachable_view_inv: "worker_reachable K G ptz w \<Longrightarrow> view_inv ptz w"
  by (induction rule: worker_reachable.induct) (auto intro: view_inv_open view_inv_step)

text \<open>C12: the close view is shown only where the camera looks: in every reachable state a worker in the close
  view has a camera, and outside the full view the position it was sent to is known; the close view is
  entered only when the camera stands within two units of that position, the full view is left only when
  there were enough positions, and the close view is left only when the target left the stable frame.\<close>

theorem close_view_follows_camera:
  assumes "worker_reachable K G ptz w" and "worker_run K G i w = Inr w'"
  shows "(wk_state w' = CLOSEVIEW \<longrightarrow> ptz) \<and> (wk_state w' \<noteq> FULLVIEW \<and> ptz \<longrightarrow> ti_ToClose (wk_info w') \<noteq> None) \<and>
    view_change ptz (in_pos2 i) (wk_info w') (fst (stable_size w) sdiv 2) (wk_state w) (wk_state w')"
proof -
  have "view_inv ptz w'" "wk_ptz w = ptz"
    using reachable_view_inv[OF assms(1)] view_inv_step[OF _ worker_step.step_run[OF assms(2)]]
    by (auto simp: view_inv_def)
  moreover have "view_change (wk_ptz w) (in_pos2 i) (wk_info w') (fst (stable_size w) sdiv 2) (wk_state w) (wk_state w')"
    using worker_run_acted[OF assms(2)] by (auto simp: acted_def view_change_def)
  ultimately show ?thesis by (simp add: view_inv_def)
qed

section \<open>The target is lost in the close view\<close>

datatype lost_event = Turn turn_input | No_target real

fun lost_run :: "'c kvconfig \<Rightarrow> geometry \<Rightarrow> lost_event list \<Rightarrow> 'c working_thread \<Rightarrow> 'c working_thread result" where
  "lost_run K G [] w = Inr w"
| "lost_run K G (Turn i # es) w = bind_r (worker_run K G i w) (lost_run K G es)"
| "lost_run K G (No_target now # es) w = bind_r (set_camshift_pt K now (-1, -1) w) (lost_run K G es)"

text \<open>the close view is never left when the target is lost in it: the last position seen lies within the
  stable frame, no new one is found, and whatever time passes and however often the thread looks, it stays;
  \<open>time_to_fullview_after_no_target\<close> of the policy is not consulted.\<close>

theorem lost_target_keeps_close_view:
  assumes "lost_run K G es w = Inr w'" and "wk_state w = CLOSEVIEW" and "length (tracks (wk_detected w)) < 2"
    and "\<bar>fst (ti_pt_trace_last (wk_info w))\<bar> \<le> fst (stable_size w) sdiv 2"
  shows "wk_state w' = CLOSEVIEW"
  using assms
proof (induction K G es w rule: lost_run.induct)
  case (2 K G i es w)
  obtain w1 where w1: "worker_run K G i w = Inr w1" "lost_run K G es w1 = Inr w'" using 2(2) by auto
  have "wk_state w1 = CLOSEVIEW \<and> length (tracks (wk_detected w1)) < 2 \<and>
      \<bar>fst (ti_pt_trace_last (wk_info w1))\<bar> \<le> fst (stable_size w1) sdiv 2"
    using worker_run_acted[OF w1(1)] 2(3-5) by (auto simp: acted_def same_feed_def view_change_def)
  then show ?case using 2(1)[OF w1(2)] by blast
next
  case (3 K G now es w)
  obtain w1 where w1: "set_camshift_pt K now (-1, -1) w = Inr w1" "lost_run K G es w1 = Inr w'" using 3(2) by auto
  let ?td = "\<lparr>td_stamp = now, td_pt = (-1, -1), td_stamp_size = wk_hog_stamp w, td_hog_size = wk_hog_size w\<rparr>"
  obtain keep where "wk_detected w1 = filter (\<lambda>d. \<not> td_stamp d < now - keep) (wk_detected w @ [?td])"
      "wk_state w1 = wk_state w" "wk_info w1 = wk_info w" "stable_size w1 = stable_size w"
    using w1(1) by (auto simp: set_camshift_pt_def Let_def simp del: filter.simps filter_append)
  moreover have "length (tracks (filter (\<lambda>d. \<not> td_stamp d < now - keep) (wk_detected w @ [?td]))) \<le>
      length (tracks (wk_detected w))"
    using tracks_filter[of "\<lambda>d. \<not> td_stamp d < now - keep" "wk_detected w @ [?td]"] by (simp add: td_valid_def)
  ultimately show ?case using 3(1)[OF w1(2)] 3(3-5) by auto
qed simp

section \<open>The target is lost in the full view\<close>

text \<open>One turn: the test, the wait and the work.\<close>

definition worker_turn :: "'c kvconfig \<Rightarrow> geometry \<Rightarrow> turn_input \<Rightarrow> 'c working_thread \<Rightarrow> 'c working_thread result" where
  "worker_turn K G i w =
     bind_r (worker_run K G i w) (\<lambda>w. bind_r (worker_run K G i w) (worker_run K G i))"

fun worker_turns :: "'c kvconfig \<Rightarrow> geometry \<Rightarrow> turn_input list \<Rightarrow> 'c working_thread \<Rightarrow> 'c working_thread result" where
  "worker_turns K G [] w = Inr w"
| "worker_turns K G (i # is) w = bind_r (worker_turn K G i w) (worker_turns K G is)"

text \<open>The positions the analyzer looks at.\<close>

definition window :: "'c working_thread \<Rightarrow> TeacherDetected list" where
  "window w = filter (\<lambda>d. td_stamp d \<ge> td_stamp (last (wk_detected w)) - an_duration (wk_analyzer w) - 1) (wk_detected w)"

text \<open>A worker in the full view, awake once, whose last valid position is of time \<open>s\<close>.\<close>

definition awake_once :: "'c kvconfig \<Rightarrow> real \<Rightarrow> 'c working_thread \<Rightarrow> bool" where
  "awake_once K s w \<longleftrightarrow>
     wk_pc w = W_Test \<and> \<not> wk_quit w \<and> 0 < wk_sem w \<and> wk_tasks w = [] \<and> wk_running_state w = 0 \<and>
     wk_state w = FULLVIEW \<and> wk_ptz w \<and> 2 \<le> length (wk_detected w) \<and> (\<exists>pt. data_last_valid (window w) = Some (pt, s))"

definition camera_cfg :: "'c kvconfig \<Rightarrow> 'c working_thread \<Rightarrow> real \<Rightarrow> int \<Rightarrow> int \<Rightarrow> int \<Rightarrow> bool" where
  "camera_cfg K w limit h v z \<longleftrightarrow>
     time_to_stop_tracing K (wk_policy w) = Inr limit \<and>
     cfg_int K (wk_cfg w) ''ptz_init_x'' ''0'' = Inr h \<and> cfg_int K (wk_cfg w) ''ptz_init_y'' ''0'' = Inr v \<and>
     cfg_int K (wk_cfg w) ''ptz_init_z'' ''5000'' = Inr z \<and>
     (\<exists>mh mv. cfg_real K (wk_cfg w) ''cam_trace_min_hangle'' ''0.075'' = Inr mh \<and>
        cfg_real K (wk_cfg w) ''cam_trace_min_vangle'' ''0.075'' = Inr mv)"

abbreviation go_home :: "int \<Rightarrow> int \<Rightarrow> int \<Rightarrow> ptz_cmd list" where
  "go_home h v z \<equiv> [Cmd_zoom_set z, Cmd_set_absolute_position h v 30]"

lemma verdict_too_old:
  assumes "2 \<le> length ds" and "time_to_stop_tracing K (wk_policy w) = Inr limit"
    and "data_last_valid (filter (\<lambda>d. td_stamp d \<ge> td_stamp (last ds) - an_duration (wk_analyzer w) - 1) ds) = Some (pt, s)"
    and "ct - s > limit"
  shows "\<exists>a delta. trace_verdict K ds ct g w = Inr (TTR_TOO_OLD_VALID_PT, delta, pt, s, a) \<and>
    an_duration a = an_duration (wk_analyzer w)"
  using assms by (simp add: trace_verdict_def update_data_def Let_def)

lemma act_too_old:
  assumes "wk_state w = FULLVIEW" and "wk_ptz w" and "camera_cfg K w limit h v z"
  shows "\<exists>w'. trace_act K G i TTR_TOO_OLD_VALID_PT delta pt s ang w = Inr w' \<and> same_feed w w' \<and> wk_state w' = FULLVIEW \<and>
    wk_tasks w' = wk_tasks w @ [task_ptz_reset True h v z] \<and> wk_sem w' = wk_sem w + 1 \<and> wk_camera w' = wk_camera w \<and>
    wk_quit w' = wk_quit w \<and> an_duration (wk_analyzer w') = an_duration (wk_analyzer w)"
  using assms
  by (simp add: trace_act_def state_step_def call_state_def state_fullview_def wk_reset_ptz_def camera_cfg_def wk_add_def
      same_feed_def Let_def)

lemma turn_too_old:
  assumes "awake_once K s w" and "camera_cfg K w limit h v z" and "in_now i - s > limit"
  shows "\<exists>w'. worker_turn K G i w = Inr w' \<and> awake_once K s w' \<and> camera_cfg K w' limit h v z \<and>
    wk_camera w' = wk_camera w @ go_home h v z \<and> wk_sem w' = wk_sem w"
proof -
  let ?w = "w\<lparr>wk_sem := wk_sem w - 1, wk_pc := W_Work\<rparr>"
  let ?v = "?w\<lparr>trace_last_pos := (-1000, -1000)\<rparr>"
  have t: "worker_turn K G i w = worker_work K G i ?w"
    using assms(1) by (simp add: worker_turn_def worker_run_def awake_once_def)
  obtain pt where "data_last_valid (window w) = Some (pt, s)" using assms(1) by (auto simp: awake_once_def)
  then obtain a delta where v: "trace_verdict K (wk_detected w) (in_now i) (in_garbage i) ?v =
      Inr (TTR_TOO_OLD_VALID_PT, delta, pt, s, a)" "an_duration a = an_duration (wk_analyzer w)"
    using verdict_too_old[of "wk_detected w" K ?v limit pt s "in_now i" "in_garbage i"] assms
    by (auto simp: awake_once_def camera_cfg_def window_def)
  obtain mh mv where "cfg_real K (wk_cfg w) ''cam_trace_min_hangle'' ''0.075'' = Inr mh"
      "cfg_real K (wk_cfg w) ''cam_trace_min_vangle'' ''0.075'' = Inr mv"
    using assms(2) by (auto simp: camera_cfg_def)
  then have "get_trace_ptz_abs_pos K (in_pos i) (?v\<lparr>wk_analyzer := a\<rparr>) =
      Inr (real_of_int (fst (in_pos i)) * mh * pi / 180, real_of_int (snd (in_pos i)) * mv * pi / 180)"
    using assms(1) by (simp add: get_trace_ptz_abs_pos_def awake_once_def)
  then obtain ang where ang: "get_trace_ptz_abs_pos K (in_pos i) (?v\<lparr>wk_analyzer := a\<rparr>) = Inr ang" by blast
  have "camera_cfg K (?v\<lparr>wk_analyzer := a\<rparr>) limit h v z" using assms(2) by (simp add: camera_cfg_def)
  from act_too_old[OF _ _ this, of G i delta pt s ang] obtain u where
    u: "trace_act K G i TTR_TOO_OLD_VALID_PT delta pt s ang (?v\<lparr>wk_analyzer := a\<rparr>) = Inr u"
      "same_feed (?v\<lparr>wk_analyzer := a\<rparr>) u" "wk_state u = FULLVIEW" "wk_tasks u = [task_ptz_reset True h v z]"
      "wk_sem u = wk_sem w" "wk_camera u = wk_camera w" "\<not> wk_quit u" "an_duration (wk_analyzer u) = an_duration a"
    using assms(1) by (auto simp: awake_once_def)
  have "trytrace K G i (wk_detected w) ?w = Inr (u\<lparr>stamp_last_trace := in_now i\<rparr>)"
    using v ang u(1) by (simp add: trytrace_def Let_def)
  then have "worker_work K G i ?w =
      Inr (u\<lparr>stamp_last_trace := in_now i, wk_tasks := [], wk_camera := wk_camera w @ go_home h v z, wk_pc := W_Test\<rparr>)"
    using assms(1) u(4,6)
    by (simp add: worker_work_def awake_once_def wk_next_def wk_exec_def task_ptz_reset_def task_ptz_reset_handle_def)
  then show ?thesis
    using assms(1,2) u v(2) unfolding t
    by (auto simp: awake_once_def camera_cfg_def same_feed_def window_def)
qed

text \<open>a target lost in the full view keeps the thread and the camera busy for ever: every look queues another
  reset and the post that comes with it is the wake-up for the next look. With nothing new coming in, one
  wake-up is enough for any number of turns, each of which sends the camera home again.\<close>

theorem lost_target_resets_forever:
  assumes "awake_once K s w" and "camera_cfg K w limit h v z" and "\<forall>i\<in>set is. in_now i - s > limit"
  shows "\<exists>w'. worker_turns K G is w = Inr w' \<and> wk_sem w' = wk_sem w \<and>
    wk_camera w' = wk_camera w @ concat (replicate (length is) (go_home h v z))"
  using assms
proof (induction "is" arbitrary: w)
  case (Cons i "is")
  obtain w1 where w1: "worker_turn K G i w = Inr w1" "awake_once K s w1" "camera_cfg K w1 limit h v z"
      "wk_camera w1 = wk_camera w @ go_home h v z" "wk_sem w1 = wk_sem w"
    using turn_too_old[OF Cons.prems(1,2)] Cons.prems(3) by fastforce
  with Cons.IH[OF w1(2,3)] Cons.prems(3) show ?case by simp
qed simp

section \<open>Walking to the left counts as standing still\<close>

lemma sdiv_two_thirds: "0 \<le> n \<Longrightarrow> n \<le> 2000000 \<Longrightarrow> c_div (n * 2) 3 = Inr (n * 2 div 3)" for n :: int
  by (simp add: c_div_pos int_ok_def)

text \<open>the test for a target that moves to and fro compares the signed net movement with the width of the
  range, so the two directions are not treated alike: of two walks straight across a range, the one to
  the right is never taken for standing still, the one to the left always is,
  as long as its range stays within the stable frame.\<close>

theorem leftward_walk_counts_as_still:
  assumes "\<forall>p\<in>set (tracks ds). in_picture p" and "2 \<le> length (tracks ds)"
    and "data_range ds = Inr ((l, t, wd, ht), True)" and "data_vec ds = Inr (h, v)"
    and "ti_rc_detect info = (l, t, wd, ht)" and "ti_hvec info = h" and "ti_vvec info = v"
    and "ti_valid_duration info \<ge> interval"
    and "ti_rc_trace info = (xt, yt, tw, th)" and "tw < fst (stable_size w)" and "th < snd (stable_size w)"
  shows "(h = wd \<longrightarrow> target_still interval info w = Inr False) \<and> (h = - wd \<longrightarrow> target_still interval info w = Inr True)"
proof -
  let ?X = "fst ` set (tracks ds)" and ?Y = "snd ` set (tracks ds)"
  have ne: "tracks ds \<noteq> []" using assms(2) by auto
  have box: "wd = Max ?X - Min ?X" "ht = Max ?Y - Min ?Y" "wd \<noteq> 0"
    using data_range_box[OF assms(1)] assms(2,3) by (auto simp: box_rect_def box_of_def)
  have mem: "Min ?X \<in> ?X" "Max ?X \<in> ?X" using ne by simp_all
  then have "\<bar>Min ?X\<bar> \<le> 1000000" "\<bar>Max ?X\<bar> \<le> 1000000" using assms(1) by (auto simp: in_picture_def)
  moreover have "Min ?X \<le> Max ?X" using ne by simp
  ultimately have wd: "0 < wd" "wd \<le> 2000000" using box(1,3) by linarith+
  have v: "v = snd (last (tracks ds)) - snd (hd (tracks ds))"
    using data_vec_net_movement[OF assms(1)] assms(4) ne by simp
  have "snd (last (tracks ds)) \<le> Max ?Y" "Min ?Y \<le> snd (hd (tracks ds))" using ne by simp_all
  then have "v \<le> ht" using v box(2) by linarith
  then have still: "target_still interval info w = Inr (h < wd * 2 div 3)"
    using assms(5-11) wd by (simp add: target_still_def sdiv_two_thirds)
  have "wd * 2 div 3 \<le> wd" "- wd < wd * 2 div 3" using wd by linarith+
  then show ?thesis using still by auto
qed

section \<open>Instances\<close>

definition sample_geometry :: geometry where
  "sample_geometry = \<lparr>point_cov = (\<lambda>_ _ _. (0, 0)), cam_rotation = (\<lambda>_ _ _ _. (0, 0)), mp_zoom = (\<lambda>_. 1)\<rparr>"

definition sample_info :: TeacherTracingInfo where
  "sample_info =
     \<lparr>ti_result = TTR_OK, ti_ptz = True, ti_rc_detect = (0, 0, 0, 0), ti_rc_trace = (0, 0, 0, 0), ti_curr = 0,
      ti_last_stamp = 0, ti_pt_detect_last = (0, 0), ti_pt_trace_last = (0, 0), ti_valid_duration = 0,
      ti_ang_trace_to_last = (0, 0), ti_zoom_scale = 1, ti_trace_curr_ang = (0, 0), ti_hvec = 0, ti_vvec = 0,
      ti_curr_state = FULLVIEW, ti_next_state = FULLVIEW, ti_ToClose = Some (0, 0)\<rparr>"

definition sample_input :: "real \<Rightarrow> turn_input" where
  "sample_input now = \<lparr>in_now = now, in_time = 0, in_pos = (0, 0), in_zoom = 0, in_pos2 = (0, 0), in_garbage = 0\<rparr>"

lemma default_ints:
  "cfg_int assoc_config [] ''ptz_max_speed'' ''10'' = Inr 10" "cfg_int assoc_config [] ''ptz_min_speed'' ''1'' = Inr 1"
  "cfg_int assoc_config [] ''ptz_init_speed'' ''2'' = Inr 2" "cfg_int assoc_config [] ''ptz_init_x'' ''0'' = Inr 0"
  "cfg_int assoc_config [] ''ptz_init_y'' ''0'' = Inr 0" "cfg_int assoc_config [] ''ptz_init_z'' ''5000'' = Inr 5000"
  "cfg_int assoc_config [] ''video_width'' ''960'' = Inr 960" "cfg_int assoc_config [] ''video_height'' ''540'' = Inr 540"
  "cfg_int assoc_config [] ''stable_width'' ''660'' = Inr 660" "cfg_int assoc_config [] ''stable_height'' ''340'' = Inr 340"
  "cfg_int assoc_config [] ''stable_width'' ''500'' = Inr 500" "cfg_int assoc_config [] ''stable_height'' ''300'' = Inr 300"
  "cfg_int assoc_config [] ''stable_top'' ''100'' = Inr 100"
  by (simp_all add: cfg_int_def cfg_str_def assoc_config_def text_number)

lemma default_reals:
  "cfg_real assoc_config [] ''cam_trace_min_hangle'' ''0.075'' = Inr (3 / 40)"
  "cfg_real assoc_config [] ''cam_trace_min_vangle'' ''0.075'' = Inr (3 / 40)"
  "cfg_real assoc_config [] ''analyze_duration'' ''10.0'' = Inr 10"
  "cfg_real assoc_config [] ''analyze_interval'' ''3.0'' = Inr 3"
  "cfg_real assoc_config [] ''time_to_stop_tracing'' ''0.8'' = Inr (4 / 5)"
  "cfg_real assoc_config [] ''cam_trace_f'' ''4.0'' = Inr 4" "cfg_real assoc_config [] ''cam_detect_f'' ''4.0'' = Inr 4"
  "cfg_real assoc_config [] ''cam_trace_ccd_w'' ''4.8'' = Inr (24 / 5)"
  "cfg_real assoc_config [] ''cam_trace_ccd_h'' ''2.7'' = Inr (27 / 10)"
  "cfg_real assoc_config [] ''cam_detect_ccd_w'' ''4.8'' = Inr (24 / 5)"
  "cfg_real assoc_config [] ''cam_detect_ccd_h'' ''2.7'' = Inr (27 / 10)"
  by (simp_all add: cfg_real_def cfg_str_def assoc_config_def text_number)

lemma default_policy: "load_policy_data assoc_config [] = Inr \<lparr>cfg_policy = []\<rparr>"
  by (simp add: load_policy_data_def cfg_str_def assoc_config_def)

lemma sample_worker_open:
  "\<exists>w. TeacherWorkingThread_open assoc_config [] True 0 sample_info 0 = Inr w \<and> wk_pc w = W_Test \<and> wk_state w = FULLVIEW"
  unfolding TeacherWorkingThread_open_def tracing_init_def tracing_camera_def detecting_camera_def camera_lens_def camera_image_def
    TeacherAnalyze_open_def default_policy wk_reset_ptz_def analyze_interval_def default_ints default_reals bind_r_simps
  by (simp add: default_ints default_reals wk_add_def)

theorem close_view_follows_camera_witness:
  "\<exists>w w'. TeacherWorkingThread_open assoc_config [] True 0 sample_info 0 = Inr w \<and>
     worker_run assoc_config sample_geometry (sample_input 1) w = Inr w' \<and>
     view_change True (0, 0) (wk_info w') (fst (stable_size w) sdiv 2) FULLVIEW (wk_state w')"
proof -
  obtain w where w: "TeacherWorkingThread_open assoc_config [] True 0 sample_info 0 = Inr w" "wk_pc w = W_Test"
      "wk_state w = FULLVIEW"
    using sample_worker_open by blast
  then obtain w' where w': "worker_run assoc_config sample_geometry (sample_input 1) w = Inr w'"
    by (simp add: worker_run_def)
  from close_view_follows_camera[OF worker_reachable.opened[OF w(1)] w'] w w' show ?thesis
    by (auto simp: sample_input_def)
qed

definition sample_lens :: Camera_parameter where
  "sample_lens = \<lparr>cp_f = 4, cp_w = 24 / 5, cp_h = 27 / 10, cp_image = (960, 540), cp_ag_x = 0, cp_ag_y = 0, cp_scale = 1\<rparr>"

definition seen :: "real \<Rightarrow> point \<Rightarrow> TeacherDetected" where
  "seen t p = \<lparr>td_stamp = t, td_pt = p, td_stamp_size = 0, td_hog_size = (-1, -1)\<rparr>"

definition sample_worker :: "TeacherImplRunningState \<Rightarrow> TeacherDetected list \<Rightarrow> (string \<times> string) list working_thread" where
  "sample_worker s ds =
     \<lparr>wk_cfg = [], wk_ptz = True, wk_quit = False, wk_sem = 1, wk_tasks = [], wk_pc = W_Test, wk_running_state = 0,
      wk_state = s, wk_info = sample_info, wk_detected = ds, wk_hog_size = (-1, -1), wk_hog_stamp = 0,
      wk_policy = \<lparr>cfg_policy = []\<rparr>,
      wk_analyzer = \<lparr>an_width = 960, an_height = 540, an_stable_width = 500, an_stable_height = 300,
        an_stable_top = 100, an_duration = 3, an_data = []\<rparr>,
      wk_tracing = \<lparr>max_speed = 10, min_speed = 1, speed = 2, tracing_dir = MIDDLE, distance = -1\<rparr>,
      cp_trace = sample_lens, cp_detect = sample_lens, wk_ax = 3 / 40, wk_ay = 3 / 40, stable_size = (660, 340),
      trace_last_pos = (0, 0), last_detected_pt = (0, 0), stamp_last_trace = 0, wk_camera = []\<rparr>"

abbreviation lost_events :: "lost_event list" where
  "lost_events \<equiv> [No_target 6, Turn (sample_input 7), Turn (sample_input 7), Turn (sample_input 3600)]"

theorem lost_target_keeps_close_view_witness:
  "\<exists>w'. lost_run assoc_config sample_geometry lost_events (sample_worker CLOSEVIEW [seen 5 (10, 10)]) = Inr w' \<and>
     wk_state w' = CLOSEVIEW"
proof -
  have half: "660 sdiv 2 = (330 :: int)" "c_div 660 2 = Inr 330" by (simp_all add: c_div_def int_ok_def)
  have "\<exists>w'. lost_run assoc_config sample_geometry lost_events (sample_worker CLOSEVIEW [seen 5 (10, 10)]) = Inr w'"
    by (simp add: sample_worker_def sample_info_def sample_input_def seen_def set_camshift_pt_def default_reals worker_run_def
      worker_work_def trytrace_def trace_verdict_def update_data_def data_duration_def data_last_valid_def td_valid_def
      time_to_stop_tracing_def get_trace_ptz_abs_pos_def get_trace_zoom_scale_def trace_act_def state_step_def call_state_def
      state_closeview_def half wk_next_def wk_exec_def Let_def cong: bind_r_weak)
  then obtain w' where w': "lost_run assoc_config sample_geometry lost_events (sample_worker CLOSEVIEW [seen 5 (10, 10)]) = Inr w'"
    by blast
  from lost_target_keeps_close_view[OF this] w' half(1) show ?thesis
    by (simp add: sample_worker_def seen_def td_valid_def sample_info_def)
qed

theorem lost_target_resets_forever_witness:
  "\<exists>w'. worker_turns assoc_config sample_geometry (replicate 1000 (sample_input 7))
       (sample_worker FULLVIEW [seen 5 (10, 10), seen 6 (-1, -1)]) = Inr w' \<and>
     wk_camera w' = concat (replicate 1000 (go_home 0 0 5000))"
proof -
  let ?w = "sample_worker FULLVIEW [seen 5 (10, 10), seen 6 (-1, -1)]"
  have a: "awake_once assoc_config 5 ?w"
    by (simp add: awake_once_def sample_worker_def window_def seen_def data_last_valid_def td_valid_def)
  have c: "camera_cfg assoc_config ?w (4 / 5) 0 0 5000"
    unfolding camera_cfg_def
    by (intro conjI exI[of _ "3 / 40"]) (simp_all add: sample_worker_def time_to_stop_tracing_def default_ints default_reals)
  have "\<forall>i\<in>set (replicate 1000 (sample_input 7)). in_now i - 5 > 4 / 5" by (simp add: sample_input_def)
  from lost_target_resets_forever[OF a c this, of sample_geometry] show ?thesis
    by (auto simp: sample_worker_def)
qed

abbreviation leftward_info :: TeacherTracingInfo where
  "leftward_info \<equiv>
     sample_info\<lparr>ti_rc_detect := (100, 90, 200, 20), ti_hvec := -200, ti_vvec := 20, ti_valid_duration := 3\<rparr>"

theorem leftward_walk_counts_as_still_witness:
  "target_still 3 leftward_info (sample_worker FULLVIEW []) = Inr True"
proof -
  let ?ds = "[seen 1 (300, 90), seen 3 (200, 100), seen 4 (100, 110)]"
  have "data_range ?ds = Inr ((100, 90, 200, 20), True)" "data_vec ?ds = Inr (-200, 20)"
    by (simp_all add: data_range_def data_vec_def seen_def td_valid_def)
  from leftward_walk_counts_as_still[OF _ _ this, of leftward_info 3 0 0 0 0 "sample_worker FULLVIEW []"] show ?thesis
    by (simp add: seen_def td_valid_def in_picture_def sample_info_def sample_worker_def)
qed

end
