(* ===== verification/Student_Running.thy ===== *)
theory Student_Running
  imports Teacher_Running Camera_Params
begin

text \<open>
  \<open>StudentRunning.h\<close>, \<open>StudentRunning.cpp\<close> and \<open>StudentPtz\<close>: the student's side, which has its own
  configuration, camera and polygon. Its modes and keys are a copy of the teacher's; the theory shows how
  far the copy agrees. Its detector is in \<open>Student_Detecting\<close>; here it is what it found.
\<close>

section \<open>State\<close>

datatype RunningState = RUNNING | PTZINITING | CALIBRATING | CALIBRATING2 | CALIBRATING3

text \<open>\<open>direct\<close> commands go past the task thread; \<open>state_\<close> is not initialised and nothing reads it.\<close>

record StudentPtz =
  sp_base :: Ptz
  sp_state :: int
  sp_direct :: "ptz_cmd list"

definition StudentPtz_open :: "'c kvconfig \<Rightarrow> 'c \<Rightarrow> (string \<Rightarrow> int \<Rightarrow> bool) \<Rightarrow> int \<Rightarrow> StudentPtz result" where
  "StudentPtz_open K c port garbage =
     bind_r (Ptz_open K c port) (\<lambda>(p, prm). Inr \<lparr>sp_base = p, sp_state = garbage, sp_direct = []\<rparr>)"

definition sp_set_running_state :: "int \<Rightarrow> StudentPtz \<Rightarrow> StudentPtz" where
  "sp_set_running_state s p = p\<lparr>sp_state := s\<rparr>"

record 'c StudentRunning =
  s_run :: "'c Running"
  s_state :: RunningState
  s_calibrations :: "point list"
  s_ptz :: StudentPtz
  s_cp_detecting :: Camera_parameter
  s_cp_tracing :: Camera_parameter

definition load_camera_params :: "'c kvconfig \<Rightarrow> 'c \<Rightarrow> (Camera_parameter \<times> Camera_parameter) result" where
  "load_camera_params K c =
     bind_r (detecting_camera K c) (\<lambda>d. bind_r (tracing_camera K c) (\<lambda>t. Inr (d, t)))"

definition StudentRunning_open ::
    "'c kvconfig \<Rightarrow> 'c \<Rightarrow> (string \<Rightarrow> int \<Rightarrow> bool) \<Rightarrow> int \<Rightarrow> 'c StudentRunning result" where
  "StudentRunning_open K c port garbage =
     bind_r (Running_open K c) (\<lambda>r.
     bind_r (load_camera_params K c) (\<lambda>(d, t).
     bind_r (StudentPtz_open K c port garbage) (\<lambda>p.
     Inr \<lparr>s_run = r, s_state = RUNNING, s_calibrations = [], s_ptz = p, s_cp_detecting = d, s_cp_tracing = t\<rparr>)))"

definition s_mask_on :: "bool \<Rightarrow> 'c StudentRunning \<Rightarrow> 'c StudentRunning" where
  "s_mask_on b s = s\<lparr>s_run := enable_mask b (s_run s)\<rparr>"

definition s_set_cfg :: "'c \<Rightarrow> 'c StudentRunning \<Rightarrow> 'c StudentRunning" where
  "s_set_cfg c s = s\<lparr>s_run := (s_run s)\<lparr>cfg := c\<rparr>\<rparr>"

definition s_has_ptz :: "'c StudentRunning \<Rightarrow> bool" where
  "s_has_ptz s = has_ptz (sp_base (s_ptz s))"

definition s_on_ptz :: "(StudentPtz \<Rightarrow> StudentPtz) \<Rightarrow> 'c StudentRunning \<Rightarrow> 'c StudentRunning" where
  "s_on_ptz f s = s\<lparr>s_ptz := f (s_ptz s)\<rparr>"

text \<open>\<open>if (ptz_->ptz ()) ...\<close>: a command, a task.\<close>

definition s_send_cmd :: "ptz_cmd \<Rightarrow> 'c StudentRunning \<Rightarrow> 'c StudentRunning" where
  "s_send_cmd cmd s =
     (if s_has_ptz s then s_on_ptz (\<lambda>p. p\<lparr>sp_direct := sp_direct p @ [cmd]\<rparr>) s else s)"

definition s_add_if_ptz :: "(bool \<Rightarrow> Task option) \<Rightarrow> 'c StudentRunning \<Rightarrow> 'c StudentRunning" where
  "s_add_if_ptz f s = (if s_has_ptz s then s_on_ptz (\<lambda>p. p\<lparr>sp_base := Ptz_add (f True) (sp_base p)\<rparr>) s else s)"

section \<open>Keys\<close>

definition key_handle_running :: "'c kvconfig \<Rightarrow> int \<Rightarrow> 'c StudentRunning \<Rightarrow> 'c StudentRunning result" where
  "key_handle_running K key s =
     (if key = 66 then \<comment> \<open>B\<close>
        let s = s\<lparr>s_state := CALIBRATING2\<rparr>;
            s = s\<lparr>s_calibrations := []\<rparr>
        in Inr (s_mask_on False s)
      else if key = 80 then \<comment> \<open>P\<close>
        let s = s_send_cmd Cmd_stop s;
            s = s_send_cmd Cmd_zoom_stop s;
            s = s_on_ptz (sp_set_running_state 1) s;
            s = s\<lparr>s_state := PTZINITING\<rparr>
        in bind_r (Ptz_reset_ptz K (cfg (s_run s)) (sp_base (s_ptz s))) (\<lambda>p.
           Inr (s_on_ptz (\<lambda>q. q\<lparr>sp_base := p\<rparr>) s))
      else Inr s)"

definition key_handle_ptziniting ::
    "'c kvconfig \<Rightarrow> bool \<Rightarrow> int \<times> int \<Rightarrow> int \<Rightarrow> int \<Rightarrow> 'c StudentRunning \<Rightarrow> 'c StudentRunning" where
  "key_handle_ptziniting K shift pos zoom key s =
     (let move_timeout = (if shift then 50 else 250) in
      if key = ESC then (s_on_ptz (sp_set_running_state 0) s)\<lparr>s_state := RUNNING\<rparr>
      else if key = ENTER then
        let s = (if s_has_ptz s then
                   let c = kv_set_int K (cfg (s_run s)) ''ptz_init_x'' (fst pos);
                       c = kv_set_int K c ''ptz_init_y'' (snd pos);
                       c = kv_set_int K c ''ptz_init_z'' zoom
                   in s_set_cfg (kv_save K c) s
                 else s)
        in (s_on_ptz (sp_set_running_state 0) s)\<lparr>s_state := RUNNING\<rparr>
      else if key = 0x3d then s_add_if_ptz (\<lambda>p. task_ptz_zoom p True 7 100) s
      else if key = 0x2b then s_add_if_ptz (\<lambda>p. task_ptz_zoom p True 7 200) s
      else if key = 0x5f then s_add_if_ptz (\<lambda>p. task_ptz_zoom p False 7 100) s
      else if key = 0x2d then s_add_if_ptz (\<lambda>p. task_ptz_zoom p False 7 200) s
      else if key = 0x250000 then s_add_if_ptz (\<lambda>p. task_ptz_move p 1 1 move_timeout) s
      else if key = 0x270000 then s_add_if_ptz (\<lambda>p. task_ptz_move p 2 1 move_timeout) s
      else if key = 0x260000 then s_add_if_ptz (\<lambda>p. task_ptz_move p 3 1 move_timeout) s
      else if key = 0x280000 then s_add_if_ptz (\<lambda>p. task_ptz_move p 4 1 move_timeout) s
      else s)"

definition s_store_polygon :: "'c kvconfig \<Rightarrow> (nat \<Rightarrow> char) \<Rightarrow> 'c StudentRunning \<Rightarrow> 'c StudentRunning result" where
  "s_store_polygon K stack s =
     (if length (s_calibrations s) < 4 then
        Inr (s_set_cfg (kv_save K (kv_set K (cfg (s_run s)) ''calibration_data'' [])) s)
      else
        bind_r (points_to_text stack (s_calibrations s)) (\<lambda>pts.
        let c = cfg (s_run s);
            c = (if s_state s = CALIBRATING then kv_set K c ''calibration_data'' pts
                 else if s_state s = CALIBRATING2 then kv_set K c ''calibration_data2'' pts
                 else if s_state s = CALIBRATING3 then kv_set K c ''calibration_data3'' pts else c)
        in Inr (s_set_cfg (kv_save K c) s)))"

definition s_rebuild_mask :: "'c kvconfig \<Rightarrow> 'c StudentRunning \<Rightarrow> 'c StudentRunning result" where
  "s_rebuild_mask K s =
     bind_r (if s_state s = CALIBRATING then build_mask K (Some ''calibration_data'') None (s_run s)
             else build_mask K (Some ''calibration_data2'') (Some ''calibration_data3'') (s_run s)) (\<lambda>(m, r).
     Inr (s\<lparr>s_run := r\<lparr>img_mask := Some m\<rparr>\<rparr>))"

definition key_handle_calibrating ::
    "'c kvconfig \<Rightarrow> (nat \<Rightarrow> char) \<Rightarrow> int \<Rightarrow> 'c StudentRunning \<Rightarrow> 'c StudentRunning result" where
  "key_handle_calibrating K stack key s =
     (if key = ESC then Inr (s_mask_on True (s\<lparr>s_state := RUNNING\<rparr>))
      else if key = ENTER then
        bind_r (s_store_polygon K stack s) (\<lambda>s.
        bind_r (s_rebuild_mask K s) (\<lambda>s.
        Inr ((s_mask_on True s)\<lparr>s_state := RUNNING\<rparr>)))
      else Inr s)"

definition s_key_handle :: "'c kvconfig \<Rightarrow> key_input \<Rightarrow> int \<Rightarrow> 'c StudentRunning \<Rightarrow> 'c StudentRunning result" where
  "s_key_handle K i key s =
     (case s_state s of
        RUNNING \<Rightarrow> key_handle_running K key s
      | PTZINITING \<Rightarrow> Inr (key_handle_ptziniting K (shift_down i) (cam_pos i) (cam_zoom i) key s)
      | CALIBRATING2 \<Rightarrow> key_handle_calibrating K (stack_bytes i) key s
      | _ \<Rightarrow> Inr s)"

section \<open>Mouse and pictures\<close>

definition s_mouse_detected :: "bool \<Rightarrow> int \<Rightarrow> int \<Rightarrow> 'c StudentRunning \<Rightarrow> 'c StudentRunning" where
  "s_mouse_detected up x y s =
     (if s_state s = CALIBRATING2 \<and> up then s\<lparr>s_calibrations := s_calibrations s @ [(x, y)]\<rparr> else s)"

definition s_mouse_traced :: "'c kvconfig \<Rightarrow> bool \<Rightarrow> int \<Rightarrow> int \<Rightarrow> 'c StudentRunning \<Rightarrow> 'c StudentRunning result" where
  "s_mouse_traced K up x y s =
     (if s_state s = PTZINITING \<and> up then
        bind_r (cfg_int K (cfg (s_run s)) ''video_window'' ''960'') (\<lambda>width.
        bind_r (cfg_int K (cfg (s_run s)) ''video_height'' ''540'') (\<lambda>height.
        bind_r (c_div width 2) (\<lambda>hw.
        bind_r (c_div height 2) (\<lambda>hh.
        bind_r (c_int (x - hw)) (\<lambda>dx.
        bind_r (c_int (hh - y)) (\<lambda>dy.
        bind_r (check_r (hw \<noteq> 0 \<and> hh \<noteq> 0) Div_Zero) (\<lambda>_.
        let hr = real_of_int dx / real_of_int hw; vr = real_of_int dy / real_of_int hh
        in Inr (s_add_if_ptz (\<lambda>p. task_ptz_center p hr vr 30) s))))))))
      else Inr s)"

definition s_show_info :: "'c StudentRunning \<Rightarrow> draw list" where
  "s_show_info s =
     (let (help, info, extra) = (case s_state s of
          RUNNING \<Rightarrow>
            ([key_line (CHR ''B'') '' to Calibrate detecting 1st line....'',
              key_line (CHR ''P'') '' to set ptz init position....''], ''... running ...'', [])
        | CALIBRATING2 \<Rightarrow> ([esc_line, enter_line], ''using mouse to set teacher calibration area...'', [])
        | PTZINITING \<Rightarrow>
            ([esc_line, enter_line], ''mouse click for the init point in '' @ [CHR 0x27] @ ''Tracing Window'' @ [CHR 0x27] @ '' ... '',
             [centre_box (width (s_run s)) (height (s_run s))])
        | _ \<Rightarrow> ([], [], []))
      in text_lines help 100 @ extra @ [Draw_Text info (10, height (s_run s) - 10 - 15) Red])"

text \<open>What the detector reports: 1 for standing up, and the box.\<close>

type_synonym action = "int \<times> rect"

definition draw_action :: "action \<Rightarrow> draw" where
  "draw_action a =
     (case a of (act, x, y, w, h) \<Rightarrow> Draw_Rect (x, y) (x + w, y + h) (if act = 1 then Cyan else Red))"

text \<open>\<open>show_calibrating\<close>: the marks of one point of the polygon, the line from the point before it included,
  and those of the whole polygon with the line that closes it.\<close>

definition s_point_mark :: "point list \<Rightarrow> nat \<Rightarrow> draw list" where
  "s_point_mark ps i =
     (let p1 = (fst (ps ! i) - 2, snd (ps ! i) - 2); p2 = (fst (ps ! i) + 2, snd (ps ! i) + 2)
      in [Draw_Rect p1 p2 Green, Draw_Text (int_str (int i + 1)) (fst p2 + 3, snd p1) Green] @
         (if i \<noteq> 0 then [Draw_Line (ps ! (i - 1)) (ps ! i) Green] else []))"

definition s_show_calibrating :: "point list \<Rightarrow> draw list" where
  "s_show_calibrating ps =
     concat (map (s_point_mark ps) [0..<length ps]) @
     (if ps \<noteq> [] then [Draw_Line (last ps) (hd ps) (if length ps < 4 then Red else Green)] else [])"

lemma draw_points_marks:
  "k \<le> length ps \<Longrightarrow>
    draw_points (int k + 1) (if k = 0 then None else Some (ps ! (k - 1))) (drop k ps) =
    concat (map (s_point_mark ps) [k..<length ps])"
proof (induction "length ps - k" arbitrary: k)
  case (Suc n)
  then have "k < length ps" and IH: "draw_points (int (Suc k) + 1) (Some (ps ! k)) (drop (Suc k) ps) =
      concat (map (s_point_mark ps) [Suc k..<length ps])"
    using Suc.hyps(1)[of "Suc k"] by auto
  then show ?case
    by (auto simp: Cons_nth_drop_Suc[symmetric] upt_conv_Cons s_point_mark_def Let_def add.commute)
qed simp

text \<open>The student's copy draws what the teacher's does.\<close>

lemma s_show_calibrating_eq: "s_show_calibrating ps = show_calibrating ps"
  using draw_points_marks[of 0 ps] by (simp add: s_show_calibrating_def show_calibrating_def)

definition s_one_image :: "(image \<Rightarrow> action list) \<Rightarrow> image \<Rightarrow> image option \<Rightarrow> 'c StudentRunning \<Rightarrow> image" where
  "s_one_image found rawimg masked_img s =
     (let img = (case masked_img of None \<Rightarrow> rawimg | Some m \<Rightarrow> m);
          actions = found img;
          img = (if s_state s = CALIBRATING2 then Drawn img (s_show_calibrating (s_calibrations s)) else img);
          img = Drawn img (map draw_action actions)
      in Drawn img (s_show_info s))"

section \<open>Events\<close>

text \<open>Pictures change nothing on this side.\<close>

datatype s_event = Ev_s_key key_input int | Ev_s_detect bool int int | Ev_s_trace bool int int

fun student_event :: "'c kvconfig \<Rightarrow> s_event \<Rightarrow> 'c StudentRunning \<Rightarrow> 'c StudentRunning result" where
  "student_event K (Ev_s_key i key) s = s_key_handle K i key s"
| "student_event K (Ev_s_detect up x y) s = Inr (s_mouse_detected up x y s)"
| "student_event K (Ev_s_trace up x y) s = s_mouse_traced K up x y s"

abbreviation student_events :: "'c kvconfig \<Rightarrow> s_event list \<Rightarrow> 'c StudentRunning \<Rightarrow> 'c StudentRunning result" where
  "student_events K \<equiv> run_all (student_event K)"

definition student_opened :: "'c kvconfig \<Rightarrow> 'c StudentRunning \<Rightarrow> bool" where
  "student_opened K s \<longleftrightarrow> (\<exists>c port g. StudentRunning_open K c port g = Inr s)"

abbreviation student_reachable :: "'c kvconfig \<Rightarrow> 'c StudentRunning \<Rightarrow> bool" where
  "student_reachable K \<equiv> reach (student_opened K) (student_event K)"

section \<open>The modes\<close>

definition s_mode_inv :: "'c StudentRunning \<Rightarrow> bool" where
  "s_mode_inv s \<longleftrightarrow> s_state s \<in> {RUNNING, PTZINITING, CALIBRATING2} \<and>
     (enabled_mask (s_run s) \<longleftrightarrow> s_state s \<noteq> CALIBRATING2) \<and> (s_state s = PTZINITING \<longrightarrow> sp_state (s_ptz s) = 1)"

lemmas s_mode_simps = s_mode_inv_def s_mask_on_def enable_mask_def s_set_cfg_def s_on_ptz_def s_send_cmd_def
  s_add_if_ptz_def sp_set_running_state_def

lemma s_running_mode:
  "s_state s = RUNNING \<Longrightarrow> s_mode_inv s \<Longrightarrow> key_handle_running K key s = Inr s' \<Longrightarrow> s_mode_inv s'"
  by (auto simp: key_handle_running_def s_mode_simps Let_def split: if_splits)

lemma s_ptziniting_mode: "s_state s = PTZINITING \<Longrightarrow> s_mode_inv s \<Longrightarrow> s_mode_inv (key_handle_ptziniting K shift pos zoom key s)"
  by (simp add: key_handle_ptziniting_def s_mode_simps Let_def)

lemma s_calibrating_mode:
  assumes "s_state s = CALIBRATING2" and "s_mode_inv s" and "key_handle_calibrating K stack key s = Inr s'"
  shows "s_mode_inv s'"
proof -
  have "sp_state (s_ptz s') = sp_state (s_ptz s) \<and>
      (s' = s \<or> s_state s' = RUNNING \<and> enabled_mask (s_run s'))"
    using assms(3)
    by (auto simp: key_handle_calibrating_def s_store_polygon_def s_rebuild_mask_def s_mode_simps Let_def split: if_splits)
  with assms(2) show ?thesis by (auto simp: s_mode_inv_def)
qed

lemma student_event_mode: "s_mode_inv s \<Longrightarrow> student_event K e s = Inr s' \<Longrightarrow> s_mode_inv s'"
proof (cases e)
  case (Ev_s_key i key)
  assume a: "s_mode_inv s" "student_event K e s = Inr s'"
  show ?thesis
  proof (cases "s_state s")
    case RUNNING
    with a Ev_s_key show ?thesis by (auto simp: s_key_handle_def intro: s_running_mode)
  next
    case PTZINITING
    with a Ev_s_key show ?thesis by (auto simp: s_key_handle_def intro: s_ptziniting_mode)
  next
    case CALIBRATING2
    with a Ev_s_key show ?thesis by (auto simp: s_key_handle_def intro: s_calibrating_mode)
  qed (use a in \<open>auto simp: s_mode_inv_def\<close>)
next
  case (Ev_s_detect up x y)
  assume "s_mode_inv s" "student_event K e s = Inr s'"
  with Ev_s_detect show ?thesis by (cases up) (auto simp: s_mouse_detected_def s_mode_inv_def)
next
  case (Ev_s_trace up x y)
  assume "s_mode_inv s" "student_event K e s = Inr s'"
  with Ev_s_trace show ?thesis by (auto simp: s_mouse_traced_def s_mode_simps Let_def split: if_splits)
qed

lemma student_open_mode: "StudentRunning_open K c port g = Inr s \<Longrightarrow> s_mode_inv s"
  by (auto simp: StudentRunning_open_def Running_open_def s_mode_inv_def Let_def split: if_splits dest!: build_mask_flag)

interpretation student: tracking_side "student_opened K" "student_event K" s_mode_inv for K
  by unfold_locales (auto simp: student_opened_def intro: student_open_mode student_event_mode)

text \<open>the student's side is only ever running, setting the camera's position or calibrating its polygon; the
  other two modes of its enumeration, for which it has no keys, are never entered; the mask is switched
  off exactly while calibrating and the camera's thread is told about the mode it is in.\<close>

theorem student_modes_consistent:
  assumes "student_reachable K s"
  shows "s_state s \<in> {RUNNING, PTZINITING, CALIBRATING2} \<and>
    (enabled_mask (s_run s) \<longleftrightarrow> s_state s \<noteq> CALIBRATING2) \<and> (s_state s = PTZINITING \<longrightarrow> sp_state (s_ptz s) = 1)"
  using student.reach_consistent[OF assms] by (simp add: s_mode_inv_def)

section \<open>The copied editor\<close>

definition s_clicks :: "point list \<Rightarrow> s_event list" where
  "s_clicks ps = map (\<lambda>p. Ev_s_detect True (fst p) (snd p)) ps"

lemma s_clicks_events:
  "s_state s = CALIBRATING2 \<Longrightarrow> student_events K (s_clicks ps) s = Inr (s\<lparr>s_calibrations := s_calibrations s @ ps\<rparr>)"
proof (induction ps arbitrary: s)
  case (Cons p ps)
  then show ?case by (simp add: s_clicks_def s_mouse_detected_def)
qed (simp add: s_clicks_def)

text \<open>\<open>B\<close>, the clicks, and then \<open>key\<close>: ENTER or ESC.\<close>

definition s_polygon_events :: "key_input \<Rightarrow> point list \<Rightarrow> int \<Rightarrow> s_event list" where
  "s_polygon_events i ps key = [Ev_s_key i 66] @ s_clicks ps @ [Ev_s_key i key]"

text \<open>The state in which the last key finds the student's side.\<close>

definition s_polygon_entered :: "point list \<Rightarrow> 'c StudentRunning \<Rightarrow> 'c StudentRunning" where
  "s_polygon_entered ps s = (s_mask_on False (s\<lparr>s_state := CALIBRATING2, s_calibrations := []\<rparr>))\<lparr>s_calibrations := ps\<rparr>"

lemma s_polygon_events_eq:
  assumes "s_state s = RUNNING"
  shows "student_events K (s_polygon_events i ps key) s =
    key_handle_calibrating K (stack_bytes i) key (s_polygon_entered ps s)"
proof -
  have "student_events K [Ev_s_key i 66] s = Inr (s_mask_on False (s\<lparr>s_state := CALIBRATING2, s_calibrations := []\<rparr>))"
    using assms by (simp add: s_key_handle_def key_handle_running_def Let_def)
  moreover have "student_events K (s_clicks ps) (s_mask_on False (s\<lparr>s_state := CALIBRATING2, s_calibrations := []\<rparr>)) =
      Inr (s_polygon_entered ps s)"
    by (subst s_clicks_events) (simp_all add: s_polygon_entered_def s_mask_on_def)
  moreover have "s_key_handle K i key (s_polygon_entered ps s) = key_handle_calibrating K (stack_bytes i) key (s_polygon_entered ps s)"
    by (simp add: s_key_handle_def s_polygon_entered_def s_mask_on_def)
  ultimately show ?thesis
    unfolding s_polygon_events_def run_all_append
    by (cases "key_handle_calibrating K (stack_bytes i) key (s_polygon_entered ps s)") simp_all
qed

text \<open>C31: the student's polygon editor is a faithful copy of the teacher's: from the same configuration, masks and
  clicks, confirming or cancelling ends the same way on both sides, faults included, with the same
  configuration and the same mask.\<close>

theorem student_edits_like_teacher:
  assumes "s_run s = run t" and "s_state s = RUNNING" and "t_state t = Teacher_Running.RUNNING"
  shows "map_sum id s_run (student_events K (s_polygon_events i ps key) s) =
    map_sum id run (teacher_events K (t_polygon_events i ps key) t)"
proof -
  have c: "s_run (s_polygon_entered ps s) = run (polygon_entered ps t)"
    using assms(1) by (simp add: s_polygon_entered_def polygon_entered_def s_mask_on_def mask_on_def)
  have p: "s_calibrations (s_polygon_entered ps s) = ps" "s_state (s_polygon_entered ps s) = CALIBRATING2"
    by (simp_all add: s_polygon_entered_def s_mask_on_def)
  define X where "X = (if length ps < 4 then Inr (kv_save K (kv_set K (cfg (run t)) ''calibration_data'' []))
    else bind_r (points_to_text (stack_bytes i) ps) (\<lambda>pts. Inr (kv_save K (kv_set K (cfg (run t)) ''calibration_data2'' pts))))"
  have cf: "cfg (s_run (s_polygon_entered ps s)) = cfg (run t)" unfolding c by (rule polygon_entered_eq)
  have store: "s_store_polygon K (stack_bytes i) (s_polygon_entered ps s) = bind_r X (\<lambda>c. Inr (s_set_cfg c (s_polygon_entered ps s)))"
    "store_polygon K (stack_bytes i) (polygon_entered ps t) = bind_r X (\<lambda>c. Inr (set_cfg c (polygon_entered ps t)))"
    by (cases "points_to_text (stack_bytes i) ps"; simp add: s_store_polygon_def store_polygon_def p polygon_entered_eq cf X_def)+
  show ?thesis
  proof (cases "key = ENTER")
    case True
    then have "key \<noteq> ESC" by simp
    show ?thesis
    proof (cases X)
      case (Inr co)
      let ?r = "(run (polygon_entered ps t))\<lparr>cfg := co\<rparr>"
      have st: "s_state (s_set_cfg co (s_polygon_entered ps s)) = CALIBRATING2" "s_run (s_set_cfg co (s_polygon_entered ps s)) = ?r"
        "t_state (set_cfg co (polygon_entered ps t)) = Teacher_Running.CALIBRATING2" "run (set_cfg co (polygon_entered ps t)) = ?r"
        by (simp_all add: s_set_cfg_def set_cfg_def p c polygon_entered_eq)
      show ?thesis
        using True Inr \<open>key \<noteq> ESC\<close>
        by (cases "build_mask K (Some ''calibration_data2'') (Some ''calibration_data3'') ?r")
          (auto simp: s_polygon_events_eq[OF assms(2)] t_polygon_events_eq[OF assms(3)] key_handle_calibrating_def
            key_calibrating_handle_def store s_rebuild_mask_def rebuild_mask_def st s_mask_on_def mask_on_def)
    qed (use True in \<open>simp add: s_polygon_events_eq[OF assms(2)] t_polygon_events_eq[OF assms(3)] key_handle_calibrating_def
        key_calibrating_handle_def store\<close>)
  next
    case False
    then show ?thesis
      using c by (simp add: s_polygon_events_eq[OF assms(2)] t_polygon_events_eq[OF assms(3)] key_handle_calibrating_def
          key_calibrating_handle_def s_mask_on_def mask_on_def)
  qed
qed

section \<open>Instances\<close>

lemma sample_student_open: "\<exists>s. StudentRunning_open assoc_config sample_cfg (\<lambda>_ _. True) 7 = Inr s \<and> s_state s = RUNNING"
proof -
  obtain r where r: "Running_open assoc_config sample_cfg = Inr r" using sample_running_open by blast
  have "\<exists>d t. load_camera_params assoc_config sample_cfg = Inr (d, t)"
    by (simp add: load_camera_params_def detecting_camera_def tracing_camera_def camera_lens_def camera_image_def
        cfg_real_def cfg_int_def cfg_str_def assoc_config_def sample_cfg_def text_number cong: bind_r_weak)
  moreover have "\<exists>p. StudentPtz_open assoc_config sample_cfg (\<lambda>_ _. True) 7 = Inr p"
    using sample_reals(2) by (auto simp: StudentPtz_open_def Ptz_open_def sample_values c_str_def)
  ultimately show ?thesis by (auto simp: StudentRunning_open_def r)
qed

theorem student_modes_consistent_witness:
  "\<exists>s. StudentRunning_open assoc_config sample_cfg (\<lambda>_ _. True) 7 = Inr s \<and> enabled_mask (s_run s)"
proof -
  obtain s where s: "StudentRunning_open assoc_config sample_cfg (\<lambda>_ _. True) 7 = Inr s" "s_state s = RUNNING"
    using sample_student_open by blast
  from student_modes_consistent[OF reach.opened, of assoc_config s] s show ?thesis by (auto simp: student_opened_def)
qed

definition sample_student :: "(string \<times> string) list StudentRunning" where
  "sample_student =
     \<lparr>s_run = sample_running, s_state = RUNNING, s_calibrations = [],
      s_ptz = \<lparr>sp_base = ptz_start True, sp_state = 0, sp_direct = []\<rparr>,
      s_cp_detecting = \<lparr>cp_f = 4, cp_w = 4, cp_h = 3, cp_image = (960, 540), cp_ag_x = 0, cp_ag_y = 0, cp_scale = 1\<rparr>,
      s_cp_tracing = \<lparr>cp_f = 4, cp_w = 4, cp_h = 3, cp_image = (960, 540), cp_ag_x = 0, cp_ag_y = 0, cp_scale = - 1\<rparr>\<rparr>"

theorem student_edits_like_teacher_witness:
  "map_sum id s_run (student_events assoc_config (s_polygon_events sample_keys sample_edges ENTER) sample_student) =
     map_sum id run (teacher_events assoc_config (t_polygon_events sample_keys sample_edges ENTER) sample_teacher)"
  by (rule student_edits_like_teacher) (simp_all add: sample_student_def sample_teacher_def)

end
