(* ===== verification/Student_Detecting.thy ===== *)
theory Student_Detecting
  imports Trace_Config
begin

text \<open>
  \<open>StudentDetecting.h\<close> and \<open>StudentDetecting.cpp\<close>: from the vertical movement between two pictures to
  students standing up and sitting down. The camera's geometry turns a place in the picture into a
  distance, the distance into the speed and the size a movement must have.

  The image operations are OpenCV's: \<open>vision\<close> holds the sizes of pictures and movement fields, the movement
  field of two pictures and the contours found in it (the filters before the contour search are part of the
  functions). Where OpenCV checks its arguments and throws, the code's call is guarded: the movement of two
  pictures needs pictures of one size, and a part of a picture must lie inside it. A rectangle is
  (x, y, width, height); contours of a part of a picture are relative to that part.
\<close>

section \<open>Geometry\<close>

definition get_room_position :: "real \<Rightarrow> real \<Rightarrow> real \<Rightarrow> real \<Rightarrow> real \<Rightarrow> (real \<times> real) result" where
  "get_room_position h s f x y =
     bind_r (check_r (h \<noteq> 0 \<and> f \<noteq> 0) Div_Zero) (\<lambda>_.
     let angle_a = arctan (s / h) - arctan (y / f);
         ry = h * tan angle_a;
         rx = (x / sqrt (f * f + y * y)) * sqrt (h * h + ry * ry)
     in Inr (rx, ry))"

definition get_real_up_speed :: "real \<Rightarrow> real" where
  "get_real_up_speed dis = 460 * - 2 / dis"

definition get_real_up_area :: "real \<Rightarrow> real" where
  "get_real_up_area dis = 200000 / dis / dis * 700"

definition get_real_down_speed :: "real \<Rightarrow> real" where
  "get_real_down_speed dis = 460 * - 1.8 / dis"

definition get_real_down_area :: "real \<Rightarrow> real" where
  "get_real_down_area dis = 200000 / dis / dis * 500"

section \<open>State\<close>

type_synonym box = "int \<times> int \<times> int \<times> int"

record ('g, 'f) vision =
  gray_size :: "'g \<Rightarrow> int \<times> int"
  flow_size :: "'f \<Rightarrow> int \<times> int"
  farneback :: "'g \<Rightarrow> 'g \<Rightarrow> 'f"
  up_contours :: "'f \<Rightarrow> box list"
  down_contours :: "'f \<Rightarrow> box list"
  below :: "'f \<Rightarrow> box \<Rightarrow> real \<Rightarrow> (real \<times> box) list"
  above :: "'f \<Rightarrow> box \<Rightarrow> real \<Rightarrow> (real \<times> box) list"
  below_sum :: "'f \<Rightarrow> 'f \<Rightarrow> box \<Rightarrow> real \<Rightarrow> (real \<times> box) list"

text \<open>An empty matrix is \<open>None\<close>.\<close>

record ('g, 'f) StudentDetecting =
  det_h :: real
  det_s :: real
  det_f :: real
  pre_gray :: "'g option"
  pre_yflow :: "'f option"
  pre_up_rects :: "box list"

text \<open>\<open>get_value (key, NULL)\<close> read as a number when it is there. A division by zero of doubles only spoils
  the value that is overwritten next.\<close>

definition opt_real :: "'c kvconfig \<Rightarrow> 'c \<Rightarrow> string \<Rightarrow> real option" where
  "opt_real K c k = map_option c_atof (kv_get K c k None)"

definition StudentDetecting_open :: "'c kvconfig \<Rightarrow> 'c \<Rightarrow> ('g, 'f) StudentDetecting" where
  "StudentDetecting_open K c =
     (let h = (case opt_real K c ''camera_height'' of None \<Rightarrow> 130 | Some x \<Rightarrow> x);
          s = (case opt_real K c ''image_center_to_camera'' of None \<Rightarrow> 440 | Some x \<Rightarrow> x);
          f = (case (opt_real K c ''cam_trace_f'', opt_real K c ''cam_trace_ccd_w'', opt_real K c ''video_width'') of
                 (Some focal, Some ccd, Some vw) \<Rightarrow> focal / ccd * vw
               | _ \<Rightarrow> 470);
          f = 470
      in \<lparr>det_h = h, det_s = s, det_f = f, pre_gray = None, pre_yflow = None, pre_up_rects = []\<rparr>)"

section \<open>One picture\<close>

type_synonym student_action = "int \<times> box"

abbreviation STANDUP :: int where "STANDUP \<equiv> 1"
abbreviation SITDOWN :: int where "SITDOWN \<equiv> 2"

definition shift_box :: "box \<Rightarrow> box \<Rightarrow> box" where
  "shift_box r0 r = (case r0 of (x0, y0, _, _) \<Rightarrow> case r of (x, y, w, h) \<Rightarrow> (x + x0, y + y0, w, h))"

text \<open>\<open>operator&\<close> of \<open>cv::Rect\<close>.\<close>

definition intersect_box :: "box \<Rightarrow> box \<Rightarrow> box" where
  "intersect_box a b =
     (case a of (ax, ay, aw, ah) \<Rightarrow> case b of (bx, by', bw, bh) \<Rightarrow>
        let x = max ax bx; y = max ay by';
            w = min (ax + aw) (bx + bw) - x; h = min (ay + ah) (by' + bh) - y
        in if w \<le> 0 \<or> h \<le> 0 then (0, 0, 0, 0) else (x, y, w, h))"

definition box_area :: "box \<Rightarrow> int" where
  "box_area r = (case r of (x, y, w, h) \<Rightarrow> w * h)"

text \<open>\<open>yflow (r)\<close>, a part of a matrix, and \<open>calcOpticalFlowFarneback\<close>, with the checks of their arguments.\<close>

definition fits :: "box \<Rightarrow> int \<Rightarrow> int \<Rightarrow> bool" where
  "fits r W H \<longleftrightarrow> (case r of (x, y, w, h) \<Rightarrow> 0 \<le> x \<and> 0 \<le> y \<and> 0 \<le> w \<and> 0 \<le> h \<and> x + w \<le> W \<and> y + h \<le> H)"

definition part_of :: "('g, 'f) vision \<Rightarrow> 'f \<Rightarrow> box \<Rightarrow> unit result" where
  "part_of V flow r = check_r (fits r (fst (flow_size V flow)) (snd (flow_size V flow))) Cv_Error"

definition optical_flow :: "('g, 'f) vision \<Rightarrow> 'g \<Rightarrow> 'g \<Rightarrow> 'f result" where
  "optical_flow V g0 gray = bind_r (check_r (gray_size V g0 = gray_size V gray) Cv_Error) (\<lambda>_. Inr (farneback V g0 gray))"

text \<open>The distance of what is in a box, from the middle of its lower edge.\<close>

definition box_distance :: "('g, 'f) StudentDetecting \<Rightarrow> int \<Rightarrow> int \<Rightarrow> box \<Rightarrow> real result" where
  "box_distance d cols rows r0 =
     (case r0 of (rx, ry, rw, rh) \<Rightarrow>
        let x = real_of_int (rx + rw div 2 - cols div 2); y = real_of_int (ry + rh - rows div 2) in
        bind_r (get_room_position (det_h d) (det_s d) (det_f d) x y) (\<lambda>(px, py).
        let dis = sqrt (px * px + py * py) in
        bind_r (check_r (dis \<noteq> 0) Div_Zero) (\<lambda>_. Inr dis)))"

text \<open>A box that moved up is checked against every box of the picture before; where they meet, both
  movements together must be twice as fast. \<open>pre_yflow (r_intersect)\<close> of an empty matrix fails an
  assertion of OpenCV.\<close>

fun stand_ups ::
    "('g, 'f) vision \<Rightarrow> 'f option \<Rightarrow> 'f \<Rightarrow> real \<Rightarrow> real \<Rightarrow> box \<Rightarrow> box list \<Rightarrow> student_action list result" where
  "stand_ups V pre flow speed area bound [] = Inr []"
| "stand_ups V pre flow speed area bound (p # ps) =
     (let r = intersect_box bound p in
      if real_of_int (box_area r) > area * 0.3 then
        (case pre of
           None \<Rightarrow> Inl Assert_Fail
         | Some f0 \<Rightarrow>
             bind_r (part_of V f0 r) (\<lambda>_.
             bind_r (part_of V flow r) (\<lambda>_.
             bind_r (stand_ups V pre flow speed area bound ps) (\<lambda>as.
             Inr (map (\<lambda>c. (STANDUP, snd c)) (filter (\<lambda>c. fst c > area * 0.2) (below_sum V f0 flow r (speed * 2))) @ as)))))
      else stand_ups V pre flow speed area bound ps)"

text \<open>The contours in one box: the boxes that moved up, and the actions.\<close>

fun up_loop ::
    "('g, 'f) vision \<Rightarrow> 'f option \<Rightarrow> 'f \<Rightarrow> box list \<Rightarrow> real \<Rightarrow> real \<Rightarrow> box \<Rightarrow> (real \<times> box) list \<Rightarrow>
     (box list \<times> student_action list) result" where
  "up_loop V pre flow prev speed area r0 [] = Inr ([], [])"
| "up_loop V pre flow prev speed area r0 (c # cs) =
     (if fst c < area then up_loop V pre flow prev speed area r0 cs
      else
        let bound = shift_box r0 (snd c) in
        bind_r (stand_ups V pre flow speed area bound prev) (\<lambda>as.
        bind_r (up_loop V pre flow prev speed area r0 cs) (\<lambda>(ups, as').
        Inr (bound # ups, as @ as'))))"

fun up_boxes ::
    "('g, 'f) vision \<Rightarrow> ('g, 'f) StudentDetecting \<Rightarrow> 'f \<Rightarrow> int \<Rightarrow> int \<Rightarrow> box list \<Rightarrow> (box list \<times> student_action list) result" where
  "up_boxes V d flow cols rows [] = Inr ([], [])"
| "up_boxes V d flow cols rows (r0 # rs) =
     bind_r (box_distance d cols rows r0) (\<lambda>dis.
     let speed = get_real_up_speed dis in
     bind_r (part_of V flow r0) (\<lambda>_.
     bind_r (up_loop V (pre_yflow d) flow (pre_up_rects d) speed (get_real_up_area dis) r0 (below V flow r0 speed)) (\<lambda>(ups, as).
     bind_r (up_boxes V d flow cols rows rs) (\<lambda>(ups', as'). Inr (ups @ ups', as @ as')))))"

definition sit_downs :: "('g, 'f) vision \<Rightarrow> 'f \<Rightarrow> real \<Rightarrow> box \<Rightarrow> student_action list" where
  "sit_downs V flow dis r0 =
     map (\<lambda>c. (SITDOWN, shift_box r0 (snd c)))
       (filter (\<lambda>c. \<not> fst c < get_real_up_area dis) (above V flow r0 (get_real_down_speed dis)))"

fun down_boxes :: "('g, 'f) vision \<Rightarrow> ('g, 'f) StudentDetecting \<Rightarrow> 'f \<Rightarrow> int \<Rightarrow> int \<Rightarrow> box list \<Rightarrow> student_action list result" where
  "down_boxes V d flow cols rows [] = Inr []"
| "down_boxes V d flow cols rows (r0 # rs) =
     bind_r (box_distance d cols rows r0) (\<lambda>dis.
     bind_r (part_of V flow r0) (\<lambda>_.
     bind_r (down_boxes V d flow cols rows rs) (\<lambda>as. Inr (sit_downs V flow dis r0 @ as))))"

definition one_frame ::
    "('g, 'f) vision \<Rightarrow> 'g \<Rightarrow> ('g, 'f) StudentDetecting \<Rightarrow> (student_action list \<times> ('g, 'f) StudentDetecting) result" where
  "one_frame V gray d =
     (case pre_gray d of
        None \<Rightarrow> Inr ([], d\<lparr>pre_gray := Some gray, pre_yflow := None, pre_up_rects := []\<rparr>)
      | Some g0 \<Rightarrow>
          let (cols, rows) = gray_size V gray in
          bind_r (optical_flow V g0 gray) (\<lambda>flow.
          bind_r (up_boxes V d flow cols rows (up_contours V flow)) (\<lambda>(ups, as).
          bind_r (down_boxes V d flow cols rows (down_contours V flow)) (\<lambda>as'.
          Inr (as @ as', d\<lparr>pre_gray := Some gray, pre_yflow := Some flow, pre_up_rects := ups\<rparr>)))))"

fun detect_frames :: "('g, 'f) vision \<Rightarrow> 'g list \<Rightarrow> ('g, 'f) StudentDetecting \<Rightarrow> ('g, 'f) StudentDetecting result" where
  "detect_frames V [] d = Inr d"
| "detect_frames V (g # gs) d = bind_r (one_frame V g d) (\<lambda>(as, d). detect_frames V gs d)"

section \<open>What OpenCV promises\<close>

text \<open>The movement field has the size of its pictures, contours lie inside the picture, and contours of a part
  within the size of that part.\<close>

definition box_width :: "box \<Rightarrow> int" where
  "box_width r = fst (snd (snd r))"

definition box_height :: "box \<Rightarrow> int" where
  "box_height r = snd (snd (snd r))"

definition contours_inside :: "('g, 'f) vision \<Rightarrow> bool" where
  "contours_inside V \<longleftrightarrow>
     (\<forall>f r t. \<forall>c\<in>set (above V f r t). fits (snd c) (box_width r) (box_height r)) \<and>
     (\<forall>f g r t. \<forall>c\<in>set (below_sum V f g r t). fits (snd c) (box_width r) (box_height r))"

definition in_flow :: "('g, 'f) vision \<Rightarrow> 'f \<Rightarrow> box \<Rightarrow> bool" where
  "in_flow V flow r \<longleftrightarrow> fits r (fst (flow_size V flow)) (snd (flow_size V flow))"

definition vision_laws :: "('g, 'f) vision \<Rightarrow> bool" where
  "vision_laws V \<longleftrightarrow> contours_inside V \<and>
     (\<forall>g g'. gray_size V g = gray_size V g' \<longrightarrow> flow_size V (farneback V g g') = gray_size V g') \<and>
     (\<forall>f. \<forall>r\<in>set (up_contours V f) \<union> set (down_contours V f). in_flow V f r) \<and>
     (\<forall>f r t. \<forall>c\<in>set (below V f r t). fits (snd c) (box_width r) (box_height r))"

definition one_size :: "('g, 'f) vision \<Rightarrow> 'g list \<Rightarrow> bool" where
  "one_size V gs \<longleftrightarrow> (\<forall>g\<in>set gs. \<forall>g'\<in>set gs. gray_size V g = gray_size V g')"

lemma fits_intersect: "fits a W H \<Longrightarrow> fits (intersect_box a b) W H" "fits b W H \<Longrightarrow> fits (intersect_box a b) W H"
  by (auto simp: fits_def intersect_box_def Let_def split: prod.splits if_splits)

lemma fits_shift:
  "fits r0 W H \<Longrightarrow> fits r (box_width r0) (box_height r0) \<Longrightarrow> fits (shift_box r0 r) W H"
  by (auto simp: fits_def shift_box_def box_width_def box_height_def split: prod.splits)

lemma vision_laws_below:
  "vision_laws V \<Longrightarrow> c \<in> set (below V f r t) \<Longrightarrow> in_flow V g r \<Longrightarrow> in_flow V g (shift_box r (snd c))"
  unfolding vision_laws_def in_flow_def using fits_shift by blast

section \<open>The detector's state\<close>

text \<open>Boxes of the picture before are there only with its movement field.\<close>

definition flow_inv :: "('g, 'f) StudentDetecting \<Rightarrow> bool" where
  "flow_inv d \<longleftrightarrow> (pre_up_rects d \<noteq> [] \<longrightarrow> pre_yflow d \<noteq> None)"

lemma flow_inv_open: "flow_inv (StudentDetecting_open K c)"
  by (simp add: flow_inv_def StudentDetecting_open_def Let_def)

lemma flow_inv_frame: "one_frame V gray d = Inr (as, d') \<Longrightarrow> flow_inv d'"
  by (auto simp: one_frame_def flow_inv_def Let_def split: option.splits prod.splits)

text \<open>With what OpenCV promises, those boxes lie in that field.\<close>

definition boxes_inv :: "('g, 'f) vision \<Rightarrow> 'f option \<Rightarrow> box list \<Rightarrow> bool" where
  "boxes_inv V pre ps \<longleftrightarrow> (\<forall>f0. pre = Some f0 \<longrightarrow> (\<forall>p\<in>set ps. in_flow V f0 p))"

lemma up_loop_inside:
  "up_loop V pre flow prev speed area r0 cs = Inr (ups, as) \<Longrightarrow>
   set ups \<subseteq> (\<lambda>c. shift_box r0 (snd c)) ` set cs"
proof (induction cs arbitrary: ups as)
  case (Cons c cs)
  then show ?case by (fastforce simp: Let_def split: if_splits)
qed simp

lemma up_boxes_inside:
  assumes "vision_laws V"
  shows "up_boxes V d flow cols rows rs = Inr (ups, as) \<Longrightarrow> \<forall>r\<in>set rs. in_flow V flow r \<Longrightarrow> \<forall>u\<in>set ups. in_flow V flow u"
proof (induction rs arbitrary: ups as)
  case (Cons r0 rs)
  from Cons.prems(1) obtain dis ups1 as1 ups2 as2 where r: "up_loop V (pre_yflow d) flow (pre_up_rects d) (get_real_up_speed dis)
        (get_real_up_area dis) r0 (below V flow r0 (get_real_up_speed dis)) = Inr (ups1, as1)"
      "up_boxes V d flow cols rows rs = Inr (ups2, as2)" "ups = ups1 @ ups2"
    by (auto simp: Let_def)
  have "\<forall>u\<in>set ups1. in_flow V flow u"
  proof
    fix u assume "u \<in> set ups1"
    with up_loop_inside[OF r(1)] obtain c where "c \<in> set (below V flow r0 (get_real_up_speed dis))"
        "u = shift_box r0 (snd c)" by blast
    with vision_laws_below[OF assms] Cons.prems(2) show "in_flow V flow u" by simp
  qed
  moreover have "\<forall>u\<in>set ups2. in_flow V flow u" by (rule Cons.IH[OF r(2)]) (simp add: Cons.prems(2))
  ultimately show ?case unfolding r(3) set_append by blast
qed simp

lemma boxes_inv_frame:
  assumes "vision_laws V" and "one_frame V gray d = Inr (as, d')"
  shows "boxes_inv V (pre_yflow d') (pre_up_rects d') \<and> pre_gray d' = Some gray"
proof (cases "pre_gray d")
  case (Some g0)
  obtain cols rows where sz: "gray_size V gray = (cols, rows)" by (cases "gray_size V gray")
  from assms(2) Some sz obtain flow ups as1 where u: "up_boxes V d flow cols rows (up_contours V flow) = Inr (ups, as1)"
      "pre_yflow d' = Some flow" "pre_up_rects d' = ups" "pre_gray d' = Some gray"
    by (auto simp: one_frame_def)
  have "\<forall>r\<in>set (up_contours V flow). in_flow V flow r" using assms(1) unfolding vision_laws_def by blast
  from up_boxes_inside[OF assms(1) u(1) this] u show ?thesis by (simp add: boxes_inv_def)
qed (use assms in \<open>auto simp: one_frame_def boxes_inv_def\<close>)

section \<open>What can go wrong\<close>

text \<open>\<open>E\<close> is a set of faults with the division by zero: with OpenCV's exception in it nothing has to be known of
  the boxes; without it, they must lie inside the pictures.\<close>

definition only_faults :: "fault set \<Rightarrow> 'a result \<Rightarrow> bool" where
  "only_faults E r \<longleftrightarrow> (\<forall>e. r = Inl e \<longrightarrow> e \<in> E)"

lemma only_faults_simps [simp]: "only_faults E (Inr x)" "only_faults E (Inl e) \<longleftrightarrow> e \<in> E"
  by (simp_all add: only_faults_def)

lemma only_faults_check [simp]: "only_faults E (check_r b e) \<longleftrightarrow> b \<or> e \<in> E"
  by (simp add: only_faults_def check_r_def)

lemma only_faults_bind [intro]:
  "only_faults E m \<Longrightarrow> (\<And>x. m = Inr x \<Longrightarrow> only_faults E (f x)) \<Longrightarrow> only_faults E (bind_r m f)"
  by (cases m) (simp_all add: only_faults_def)

lemma part_of_faults: "Cv_Error \<in> E \<or> in_flow V flow r \<Longrightarrow> only_faults E (part_of V flow r)"
  by (auto simp: part_of_def in_flow_def)

lemma stand_ups_faults:
  assumes "prev \<noteq> [] \<longrightarrow> pre \<noteq> None" and "Cv_Error \<in> E \<or> in_flow V flow bound \<and> boxes_inv V pre prev"
  shows "only_faults E (stand_ups V pre flow speed area bound prev)"
  using assms
proof (induction prev)
  case (Cons p ps)
  let ?r = "intersect_box bound p"
  from Cons.prems(1) obtain f0 where f0: "pre = Some f0" by auto
  have a: "only_faults E (part_of V f0 ?r)" "only_faults E (part_of V flow ?r)"
    by (rule part_of_faults, use Cons.prems(2) f0 in \<open>auto simp: in_flow_def boxes_inv_def intro: fits_intersect\<close>)+
  have rest: "only_faults E (stand_ups V pre flow speed area bound ps)"
    by (rule Cons.IH) (use Cons.prems(2) f0 in \<open>auto simp: boxes_inv_def\<close>)
  show ?case
    unfolding stand_ups.simps Let_def f0 option.case
    using a rest unfolding f0 by (auto intro!: only_faults_bind)
qed simp

lemma up_loop_faults:
  assumes "prev \<noteq> [] \<longrightarrow> pre \<noteq> None"
    and "Cv_Error \<in> E \<or> (\<forall>c\<in>set cs. in_flow V flow (shift_box r0 (snd c))) \<and> boxes_inv V pre prev"
  shows "only_faults E (up_loop V pre flow prev speed area r0 cs)"
  using assms(2)
proof (induction cs)
  case (Cons c cs)
  have "only_faults E (stand_ups V pre flow speed area (shift_box r0 (snd c)) prev)"
    by (rule stand_ups_faults[OF assms(1)]) (use Cons.prems in auto)
  moreover have "only_faults E (up_loop V pre flow prev speed area r0 cs)"
    by (rule Cons.IH) (use Cons.prems in auto)
  ultimately show ?case by (auto simp: Let_def intro!: only_faults_bind)
qed simp

lemma box_distance_faults: "Div_Zero \<in> E \<Longrightarrow> only_faults E (box_distance d cols rows r0)"
  by (auto simp: box_distance_def get_room_position_def Let_def case_prod_beta intro!: only_faults_bind)

lemma up_boxes_faults:
  assumes "Div_Zero \<in> E" and "flow_inv d"
    and "Cv_Error \<in> E \<or> vision_laws V \<and> (\<forall>r\<in>set rs. in_flow V flow r) \<and> boxes_inv V (pre_yflow d) (pre_up_rects d)"
  shows "only_faults E (up_boxes V d flow cols rows rs)"
  using assms(3)
proof (induction rs)
  case (Cons r0 rs)
  from assms(2) have prev: "pre_up_rects d \<noteq> [] \<longrightarrow> pre_yflow d \<noteq> None" by (simp add: flow_inv_def)
  have up: "only_faults E (up_loop V (pre_yflow d) flow (pre_up_rects d) sp ar r0 (below V flow r0 sp))" for sp ar
    by (rule up_loop_faults[OF prev]) (use Cons.prems vision_laws_below in fastforce)
  have "only_faults E (part_of V flow r0)" by (rule part_of_faults) (use Cons.prems in auto)
  moreover have "only_faults E (up_boxes V d flow cols rows rs)" by (rule Cons.IH) (use Cons.prems in auto)
  ultimately show ?case
    using up box_distance_faults[OF assms(1), of d cols rows r0] by (auto simp: Let_def case_prod_beta intro!: only_faults_bind)
qed simp

lemma down_boxes_faults:
  assumes "Div_Zero \<in> E" and "Cv_Error \<in> E \<or> (\<forall>r\<in>set rs. in_flow V flow r)"
  shows "only_faults E (down_boxes V d flow cols rows rs)"
  using assms(2)
proof (induction rs)
  case (Cons r0 rs)
  have "only_faults E (part_of V flow r0)" by (rule part_of_faults) (use Cons.prems in auto)
  moreover have "only_faults E (down_boxes V d flow cols rows rs)" by (rule Cons.IH) (use Cons.prems in auto)
  ultimately show ?case
    using box_distance_faults[OF assms(1), of d cols rows r0] by (auto intro!: only_faults_bind)
qed simp

lemma one_frame_faults:
  assumes "Div_Zero \<in> E" and "flow_inv d"
    and "Cv_Error \<in> E \<or> vision_laws V \<and> boxes_inv V (pre_yflow d) (pre_up_rects d) \<and>
      (\<forall>g0. pre_gray d = Some g0 \<longrightarrow> gray_size V g0 = gray_size V gray)"
  shows "only_faults E (one_frame V gray d)"
proof (cases "pre_gray d")
  case (Some g0)
  obtain cols rows where sz: "gray_size V gray = (cols, rows)" by (cases "gray_size V gray")
  have boxes: "Cv_Error \<in> E \<or> vision_laws V \<and> (\<forall>r\<in>set (up_contours V f). in_flow V f r) \<and>
      boxes_inv V (pre_yflow d) (pre_up_rects d)" "Cv_Error \<in> E \<or> (\<forall>r\<in>set (down_contours V f). in_flow V f r)" for f
    using assms(3) unfolding vision_laws_def by blast+
  have "only_faults E (optical_flow V g0 gray)"
    using assms(3) Some by (auto simp: optical_flow_def intro!: only_faults_bind)
  then show ?thesis
    using up_boxes_faults[OF assms(1,2) boxes(1)] down_boxes_faults[OF assms(1) boxes(2)]
    by (simp add: one_frame_def Some sz case_prod_beta only_faults_bind)
qed (simp add: one_frame_def)

lemma detect_frames_faults:
  assumes "Div_Zero \<in> E"
  shows "flow_inv d \<Longrightarrow> Cv_Error \<in> E \<or> vision_laws V \<and> boxes_inv V (pre_yflow d) (pre_up_rects d) \<and>
      one_size V gs \<and> (\<forall>g0. \<forall>g\<in>set gs. pre_gray d = Some g0 \<longrightarrow> gray_size V g0 = gray_size V g) \<Longrightarrow>
    only_faults E (detect_frames V gs d)"
proof (induction gs arbitrary: d)
  case (Cons g gs)
  have one: "only_faults E (one_frame V g d)"
    by (rule one_frame_faults[OF assms Cons.prems(1)]) (use Cons.prems(2) in auto)
  have rest: "only_faults E (detect_frames V gs d1)" if d1: "one_frame V g d = Inr (as, d1)" for as d1
  proof (rule Cons.IH[OF flow_inv_frame[OF d1]], cases "Cv_Error \<in> E")
    case False
    with Cons.prems(2) have V: "vision_laws V" and sz: "one_size V (g # gs)" by simp_all
    from sz have "one_size V gs" "\<forall>g'\<in>set gs. gray_size V g = gray_size V g'"
      unfolding one_size_def by (meson list.set_intros)+
    with V boxes_inv_frame[OF V d1] show "Cv_Error \<in> E \<or> vision_laws V \<and> boxes_inv V (pre_yflow d1) (pre_up_rects d1) \<and>
        one_size V gs \<and> (\<forall>g0. \<forall>g\<in>set gs. pre_gray d1 = Some g0 \<longrightarrow> gray_size V g0 = gray_size V g)" by simp
  qed simp
  show ?case unfolding detect_frames.simps
  proof (rule only_faults_bind[OF one])
    fix x assume x: "one_frame V g d = Inr x"
    show "only_faults E (case x of (as, d) \<Rightarrow> detect_frames V gs d)"
      using rest[of "fst x" "snd x"] x by (simp only: prod.collapse case_prod_beta)
  qed
qed simp

text \<open>C32: whatever the pictures show, the detector never adds the movement of a picture it does not have: from the
  constructor on, a sequence of pictures can fail only by a division by a zero distance or height, or because
  OpenCV refuses the arguments of a call. The second never happens when the pictures have one size and OpenCV
  keeps what it promises of sizes and contours: then every region the code cuts out of the movement of this picture
  or of the one before lies inside it, and the division is all that is left.\<close>

theorem detector_never_misses_flow:
  assumes "detect_frames V gs (StudentDetecting_open K c) = Inl e"
  shows "(e = Div_Zero \<or> e = Cv_Error) \<and> (vision_laws V \<and> one_size V gs \<longrightarrow> e = Div_Zero)"
proof -
  let ?d = "StudentDetecting_open K c :: ('a, 'b) StudentDetecting"
  have d: "boxes_inv V (pre_yflow ?d) (pre_up_rects ?d)" "pre_gray ?d = None"
    by (simp_all add: StudentDetecting_open_def boxes_inv_def Let_def)
  show ?thesis
    using detect_frames_faults[of "{Div_Zero, Cv_Error}" ?d V gs] detect_frames_faults[of "{Div_Zero}" ?d V gs]
      flow_inv_open[of K c] d assms by (auto simp: only_faults_def)
qed

section \<open>Where the actions are said to be\<close>

definition box_in :: "box \<Rightarrow> box \<Rightarrow> bool" where
  "box_in r s \<longleftrightarrow> (case r of (x, y, w, h) \<Rightarrow> case s of (X, Y, W, H) \<Rightarrow> X \<le> x \<and> Y \<le> y \<and> x + w \<le> X + W \<and> y + h \<le> Y + H)"

text \<open>A stand-up at a place relative to the part in which it was found, a sit-down where it is.\<close>

definition stand_found :: "box list \<Rightarrow> student_action \<Rightarrow> bool" where
  "stand_found prev a \<longleftrightarrow> fst a = STANDUP \<and>
     (\<exists>b. \<exists>p\<in>set prev. fits (snd a) (box_width (intersect_box b p)) (box_height (intersect_box b p)))"

definition sit_found :: "box list \<Rightarrow> student_action \<Rightarrow> bool" where
  "sit_found rs a \<longleftrightarrow> fst a = SITDOWN \<and> (\<exists>r0\<in>set rs. box_in (snd a) r0)"

lemma found_more:
  "\<forall>a\<in>A. stand_found ps a \<Longrightarrow> \<forall>a\<in>A. stand_found (p # ps) a"
  "\<forall>a\<in>A. sit_found ps a \<Longrightarrow> \<forall>a\<in>A. sit_found (p # ps) a"
  unfolding stand_found_def sit_found_def by (metis list.set_intros(2))+

lemma sit_found_here: "sit_found [r0] a \<Longrightarrow> sit_found (r0 # rs) a"
  unfolding sit_found_def by (metis list.set_intros(1) empty_iff list.set(1) set_ConsD)

lemma stand_ups_found:
  assumes "contours_inside V" and "stand_ups V pre flow speed area bound ps = Inr as"
  shows "\<forall>a\<in>set as. stand_found ps a"
  using assms(2)
proof (induction ps arbitrary: as)
  case (Cons p ps)
  let ?r = "intersect_box bound p"
  show ?case
  proof (cases "real_of_int (box_area ?r) > area * 0.3")
    case True
    with Cons.prems obtain f0 as1 where f0: "stand_ups V pre flow speed area bound ps = Inr as1"
        "as = map (\<lambda>c. (STANDUP, snd c)) (filter (\<lambda>c. fst c > area * 0.2) (below_sum V f0 flow ?r (speed * 2))) @ as1"
      by (auto simp: Let_def split: option.splits)
    have "\<forall>a\<in>set (map (\<lambda>c. (STANDUP, snd c)) (filter (\<lambda>c. fst c > area * 0.2) (below_sum V f0 flow ?r (speed * 2)))).
        stand_found (p # ps) a"
    proof
      fix a assume "a \<in> set (map (\<lambda>c. (STANDUP, snd c)) (filter (\<lambda>c. fst c > area * 0.2) (below_sum V f0 flow ?r (speed * 2))))"
      then obtain c where "c \<in> set (below_sum V f0 flow ?r (speed * 2))" "a = (STANDUP, snd c)" by auto
      moreover from this(1) assms(1) have "fits (snd c) (box_width ?r) (box_height ?r)" unfolding contours_inside_def by blast
      ultimately show "stand_found (p # ps) a"
        unfolding stand_found_def by (intro conjI exI[of _ bound] bexI[of _ p]) simp_all
    qed
    moreover have "\<forall>a\<in>set as1. stand_found (p # ps) a"
      by (rule found_more(1)[OF Cons.IH[OF f0(1)]])
    ultimately show ?thesis unfolding f0(2) set_append ball_Un by (rule conjI)
  next
    case False
    with Cons.prems have "stand_ups V pre flow speed area bound ps = Inr as" by (simp add: Let_def)
    from found_more(1)[OF Cons.IH[OF this]] show ?thesis .
  qed
qed simp

lemma up_loop_found:
  assumes "contours_inside V"
  shows "up_loop V pre flow prev speed area r0 cs = Inr (ups, as) \<Longrightarrow> \<forall>a\<in>set as. stand_found prev a"
proof (induction cs arbitrary: ups as)
  case (Cons c cs)
  show ?case
  proof (cases "fst c < area")
    case False
    with Cons.prems obtain as1 ups2 as2 where r: "stand_ups V pre flow speed area (shift_box r0 (snd c)) prev = Inr as1"
        "up_loop V pre flow prev speed area r0 cs = Inr (ups2, as2)" "as = as1 @ as2"
      by (auto simp: Let_def)
    show ?thesis
      using stand_ups_found[OF assms r(1)] Cons.IH[OF r(2)] unfolding r(3) set_append ball_Un by (rule conjI)
  qed (use Cons in simp)
qed simp

lemma up_boxes_found:
  assumes "contours_inside V"
  shows "up_boxes V d flow cols rows rs = Inr (ups, as) \<Longrightarrow> \<forall>a\<in>set as. stand_found (pre_up_rects d) a"
proof (induction rs arbitrary: ups as)
  case (Cons r0 rs)
  then obtain dis ups1 as1 ups2 as2 where r: "up_loop V (pre_yflow d) flow (pre_up_rects d) (get_real_up_speed dis)
        (get_real_up_area dis) r0 (below V flow r0 (get_real_up_speed dis)) = Inr (ups1, as1)"
      "up_boxes V d flow cols rows rs = Inr (ups2, as2)" "as = as1 @ as2"
    by (auto simp: Let_def)
  show ?case
    using up_loop_found[OF assms r(1)] Cons.IH[OF r(2)] unfolding r(3) set_append ball_Un by (rule conjI)
qed simp

lemma sit_downs_found:
  assumes "contours_inside V"
  shows "\<forall>a\<in>set (sit_downs V flow dis r0). sit_found [r0] a"
proof
  fix a assume "a \<in> set (sit_downs V flow dis r0)"
  then obtain c where c: "c \<in> set (above V flow r0 (get_real_down_speed dis))" "a = (SITDOWN, shift_box r0 (snd c))"
    by (auto simp: sit_downs_def)
  then have "fits (snd c) (box_width r0) (box_height r0)" using assms unfolding contours_inside_def by blast
  then show "sit_found [r0] a"
    unfolding c(2) by (cases "snd c"; cases r0)
      (simp add: sit_found_def shift_box_def box_in_def fits_def box_width_def box_height_def)
qed

lemma down_boxes_found:
  assumes "contours_inside V"
  shows "down_boxes V d flow cols rows rs = Inr as \<Longrightarrow> \<forall>a\<in>set as. sit_found rs a"
proof (induction rs arbitrary: as)
  case (Cons r0 rs)
  then obtain dis as1 where d: "down_boxes V d flow cols rows rs = Inr as1" "as = sit_downs V flow dis r0 @ as1"
    by auto
  have "\<forall>a\<in>set (sit_downs V flow dis r0). sit_found (r0 # rs) a"
    using sit_downs_found[OF assms] sit_found_here by (intro ballI) blast
  moreover have "\<forall>a\<in>set as1. sit_found (r0 # rs) a"
    by (rule found_more(2)[OF Cons.IH[OF d(1)]])
  ultimately show ?case unfolding d(2) set_append ball_Un by (rule conjI)
qed simp

text \<open>a sit-down is reported inside the box in which it was found; a stand-up is not: its box is relative to
  the overlap of the two pictures' boxes and nothing moves it there, so it is reported within the overlap's
  width and height of the upper left corner of the picture, wherever the student stands.\<close>

theorem stand_ups_lose_their_place:
  assumes "contours_inside V" and "pre_gray d = Some g0" and "one_frame V gray d = Inr (as, d')"
    and "a \<in> set as"
  shows "(fst a = SITDOWN \<longrightarrow> (\<exists>r0\<in>set (down_contours V (farneback V g0 gray)). box_in (snd a) r0)) \<and>
    (fst a = STANDUP \<longrightarrow>
      (\<exists>b. \<exists>p\<in>set (pre_up_rects d). fits (snd a) (box_width (intersect_box b p)) (box_height (intersect_box b p)))) \<and>
    (fst a = SITDOWN \<or> fst a = STANDUP)"
proof -
  let ?flow = "farneback V g0 gray"
  obtain cols rows where sz: "gray_size V gray = (cols, rows)" by (cases "gray_size V gray")
  obtain ups as1 as2 where r: "up_boxes V d ?flow cols rows (up_contours V ?flow) = Inr (ups, as1)"
      "down_boxes V d ?flow cols rows (down_contours V ?flow) = Inr as2" "as = as1 @ as2"
    using assms(2,3) sz by (auto simp: one_frame_def optical_flow_def)
  from assms(4) consider "a \<in> set as1" | "a \<in> set as2" unfolding r(3) set_append by blast
  then show ?thesis
  proof cases
    case 1
    with up_boxes_found[OF assms(1) r(1)] have "stand_found (pre_up_rects d) a" by blast
    then show ?thesis unfolding stand_found_def by simp
  next
    case 2
    with down_boxes_found[OF assms(1) r(2)] have "sit_found (down_contours V ?flow) a" by blast
    then show ?thesis unfolding sit_found_def by simp
  qed
qed

section \<open>Thresholds\<close>

text \<open>Both speeds are negative, so a place that does not move at all passes the test for sitting down.\<close>

lemma stillness_is_sitting: "0 < dis \<Longrightarrow> get_real_down_speed dis < 0 \<and> get_real_up_speed dis < 0"
  by (simp add: get_real_down_speed_def get_real_up_speed_def divide_less_0_iff)

text \<open>What the configuration says of the lens is computed and thrown away.\<close>

lemma configured_focus_ignored: "det_f (StudentDetecting_open K c) = 470"
  by (simp add: StudentDetecting_open_def Let_def)

section \<open>Instances\<close>

text \<open>A student standing up at the right of the picture, seen in three pictures.\<close>

definition sample_vision :: "(nat, nat) vision" where
  "sample_vision =
     \<lparr>gray_size = (\<lambda>_. (960, 540)), flow_size = (\<lambda>_. (960, 540)), farneback = (\<lambda>g0 g. g0),
      up_contours = (\<lambda>_. [(800, 200, 60, 80)]), down_contours = (\<lambda>_. []),
      below = (\<lambda>_ r _. if 60 \<le> box_width r \<and> 80 \<le> box_height r then [(4000000, (0, 0, 60, 80))] else []), above = (\<lambda>_ _ _. []),
      below_sum = (\<lambda>_ _ _ _. [])\<rparr>"

lemma sample_vision_laws: "vision_laws sample_vision" "one_size sample_vision gs"
  by (simp_all add: vision_laws_def contours_inside_def in_flow_def sample_vision_def one_size_def fits_def)

theorem detector_never_misses_flow_witness:
  "\<exists>e. detect_frames sample_vision [0, 1]
     (StudentDetecting_open assoc_config [(''camera_height'', ''0'')]) = Inl e \<and> e = Div_Zero"
proof -
  have "\<exists>e. detect_frames sample_vision [0, 1]
      (StudentDetecting_open assoc_config [(''camera_height'', ''0'')]) = Inl e"
    by (simp add: StudentDetecting_open_def opt_real_def assoc_config_def text_number one_frame_def sample_vision_def
        optical_flow_def box_distance_def get_room_position_def Let_def)
  then obtain e where e: "detect_frames sample_vision [0, 1]
      (StudentDetecting_open assoc_config [(''camera_height'', ''0'')]) = Inl e" by blast
  from detector_never_misses_flow[OF this] e sample_vision_laws show ?thesis by blast
qed

text \<open>A student in the middle of the picture, in the box (450, 190, 60, 80) of both pictures: what moved is 20 by
  20 pixels at (460, 200), and is reported at (10, 10).\<close>

definition middle_vision :: "(nat, nat) vision" where
  "middle_vision =
     \<lparr>gray_size = (\<lambda>_. (960, 540)), flow_size = (\<lambda>_. (960, 540)), farneback = (\<lambda>g0 g. g0),
      up_contours = (\<lambda>_. [(450, 190, 60, 80)]), down_contours = (\<lambda>_. []),
      below = (\<lambda>_ _ _. [(4000000, (0, 0, 60, 80))]), above = (\<lambda>_ _ _. []),
      below_sum = (\<lambda>_ _ r _. if 60 \<le> box_width r \<and> 80 \<le> box_height r then [(1000, (10, 10, 20, 20))] else [])\<rparr>"

definition middle_frame :: "(nat, nat) StudentDetecting" where
  "middle_frame =
     \<lparr>det_h = 130, det_s = 440, det_f = 470, pre_gray = Some 0, pre_yflow = Some 0, pre_up_rects = [(450, 190, 60, 80)]\<rparr>"

lemma middle_frame_fields:
  "pre_gray middle_frame = Some 0" "pre_yflow middle_frame = Some 0" "pre_up_rects middle_frame = [(450, 190, 60, 80)]"
  by (simp_all add: middle_frame_def)

lemma middle_distance: "box_distance middle_frame 960 540 (450, 190, 60, 80) = Inr 440"
  by (simp add: box_distance_def get_room_position_def middle_frame_def tan_arctan Let_def)

theorem stand_ups_lose_their_place_witness:
  "\<exists>d'. one_frame middle_vision 1 middle_frame = Inr ([(STANDUP, (10, 10, 20, 20))], d') \<and>
     (\<exists>b. \<exists>p\<in>set (pre_up_rects middle_frame).
        fits (10, 10, 20, 20) (box_width (intersect_box b p)) (box_height (intersect_box b p)))"
proof -
  have v: "contours_inside middle_vision" by (simp add: contours_inside_def middle_vision_def fits_def)
  have g: "pre_gray middle_frame = Some 0" by (simp add: middle_frame_def)
  have "\<exists>d'. one_frame middle_vision 1 middle_frame = Inr ([(STANDUP, (10, 10, 20, 20))], d')"
    by (simp add: one_frame_def optical_flow_def part_of_def fits_def middle_vision_def middle_frame_fields middle_distance Let_def get_real_up_area_def
        get_real_up_speed_def shift_box_def intersect_box_def box_area_def box_width_def box_height_def)
  then obtain d' where d': "one_frame middle_vision 1 middle_frame = Inr ([(STANDUP, (10, 10, 20, 20))], d')"
    by blast
  from stand_ups_lose_their_place[OF v g d', of "(STANDUP, (10, 10, 20, 20))"] d' show ?thesis by simp
qed

end
