(* ===== verification/Student_Impl.thy ===== *)
theory Student_Impl
  imports Ptz_Worker
begin

text \<open>
  \<open>StudentRunningImpl.h\<close> and \<open>StudentRunningImpl.cpp\<close>: the student's working thread. It waits for tasks
  and runs them, but the class has no operation that adds one; the destructor, unlike that of \<open>Ptz\<close>,
  posts the semaphore before it joins.
\<close>

section \<open>The thread and its destructor\<close>

datatype spc = S_Test | S_Wait | S_Work | S_Done
datatype dpc = D_Idle | D_Post | D_Join | D_Done

record StudentImpl =
  si_ptz :: bool
  si_quit :: bool
  si_sem :: nat
  si_tasks :: "Task list"
  si_init :: "real \<times> real \<times> real"
  si_pc :: spc
  si_destructor :: dpc
  si_camera :: "ptz_cmd list"

definition StudentRunningImpl_open :: "'c kvconfig \<Rightarrow> 'c \<Rightarrow> bool \<Rightarrow> StudentImpl result" where
  "StudentRunningImpl_open K c ptz =
     bind_r (cfg_int K c ''ptz_init_x'' ''0'') (\<lambda>h.
     bind_r (cfg_int K c ''ptz_init_y'' ''0'') (\<lambda>v.
     bind_r (cfg_int K c ''ptz_init_z'' ''0'') (\<lambda>z.
     Inr \<lparr>si_ptz = ptz, si_quit = False, si_sem = 0, si_tasks = [],
          si_init = (real_of_int h, real_of_int v, real_of_int z), si_pc = S_Test, si_destructor = D_Idle,
          si_camera = []\<rparr>)))"

definition si_next_task :: "StudentImpl \<Rightarrow> Task option \<times> StudentImpl" where
  "si_next_task s = (case si_tasks s of [] \<Rightarrow> (None, s) | t # ts \<Rightarrow> (Some t, s\<lparr>si_tasks := ts\<rparr>))"

text \<open>\<open>should_do\<close> and \<open>handle\<close> are called without a test for the null pointer.\<close>

definition si_exec :: "int \<Rightarrow> Task \<Rightarrow> StudentImpl \<Rightarrow> StudentImpl result" where
  "si_exec now t s =
     (case should_do t of
        None \<Rightarrow> Inl Null_Ptr
      | Some f \<Rightarrow>
          if f now then
            (case handle_fn t of
               None \<Rightarrow> Inl Null_Ptr
             | Some h \<Rightarrow> bind_r (call_handle h t) (\<lambda>cmds. Inr (s\<lparr>si_camera := si_camera s @ cmds\<rparr>)))
          else Inr s)"

definition si_run :: "int \<Rightarrow> StudentImpl \<Rightarrow> StudentImpl result" where
  "si_run now s =
     (case si_pc s of
        S_Test \<Rightarrow> Inr (s\<lparr>si_pc := if si_quit s then S_Done else S_Wait\<rparr>)
      | S_Wait \<Rightarrow> if si_sem s = 0 then Inl Would_Block
                  else Inr (s\<lparr>si_sem := si_sem s - 1, si_pc := if si_quit s then S_Done else S_Work\<rparr>)
      | S_Work \<Rightarrow>
          (case si_next_task s of
             (None, s) \<Rightarrow> Inr (s\<lparr>si_pc := S_Test\<rparr>)
           | (Some t, s) \<Rightarrow> bind_r (si_exec now t s) (\<lambda>s. Inr (s\<lparr>si_pc := S_Test\<rparr>)))
      | S_Done \<Rightarrow> Inl Stuck)"

definition si_close :: "StudentImpl \<Rightarrow> StudentImpl result" where
  "si_close s =
     (case si_destructor s of
        D_Idle \<Rightarrow> Inr (s\<lparr>si_quit := True, si_destructor := D_Post\<rparr>)
      | D_Post \<Rightarrow> Inr (s\<lparr>si_sem := si_sem s + 1, si_destructor := D_Join\<rparr>)
      | D_Join \<Rightarrow> if si_pc s = S_Done then Inr (s\<lparr>si_destructor := D_Done\<rparr>) else Inl Would_Block
      | D_Done \<Rightarrow> Inl Stuck)"

inductive si_step :: "StudentImpl \<Rightarrow> StudentImpl \<Rightarrow> bool" where
  run: "si_run now s = Inr s' \<Longrightarrow> si_step s s'"
| close: "si_close s = Inr s' \<Longrightarrow> si_step s s'"

inductive si_reachable :: "'c kvconfig \<Rightarrow> StudentImpl \<Rightarrow> bool" for K where
  opened: "StudentRunningImpl_open K c ptz = Inr s \<Longrightarrow> si_reachable K s"
| step: "si_reachable K s \<Longrightarrow> si_step s s' \<Longrightarrow> si_reachable K s'"

section \<open>It only waits, and it ends\<close>

definition si_inv :: "StudentImpl \<Rightarrow> bool" where
  "si_inv s \<longleftrightarrow> si_tasks s = [] \<and> si_camera s = [] \<and> si_pc s \<noteq> S_Work \<and>
     (si_destructor s = D_Idle \<longrightarrow> \<not> si_quit s \<and> si_pc s \<noteq> S_Done) \<and> (si_destructor s \<noteq> D_Idle \<longrightarrow> si_quit s) \<and>
     (si_destructor s \<in> {D_Idle, D_Post} \<longrightarrow> si_sem s = 0) \<and>
     (si_destructor s = D_Join \<longrightarrow> si_pc s \<noteq> S_Done \<longrightarrow> 0 < si_sem s) \<and>
     (si_destructor s = D_Done \<longrightarrow> si_pc s = S_Done)"

lemma si_run_inv: "si_inv s \<Longrightarrow> si_run now s = Inr s' \<Longrightarrow> si_inv s'"
  by (cases "si_pc s"; cases "si_destructor s") (auto simp: si_run_def si_inv_def split: if_splits)

lemma si_close_inv: "si_inv s \<Longrightarrow> si_close s = Inr s' \<Longrightarrow> si_inv s'"
  by (cases "si_destructor s") (auto simp: si_close_def si_inv_def split: if_splits)

lemma si_reachable_inv: "si_reachable K s \<Longrightarrow> si_inv s"
proof (induction rule: si_reachable.induct)
  case (opened c ptz s)
  then show ?case by (auto simp: StudentRunningImpl_open_def si_inv_def)
next
  case (step s s')
  from step.hyps(2) step.IH show ?case by cases (auto intro: si_run_inv si_close_inv)
qed

text \<open>What is left to do until the destructor returns.\<close>

fun spc_rank :: "spc \<Rightarrow> nat" where
  "spc_rank S_Test = 2" | "spc_rank S_Wait = 1" | "spc_rank S_Work = 3" | "spc_rank S_Done = 0"

fun dpc_rank :: "dpc \<Rightarrow> nat" where
  "dpc_rank D_Idle = 3" | "dpc_rank D_Post = 2" | "dpc_rank D_Join = 1" | "dpc_rank D_Done = 0"

definition si_rank :: "StudentImpl \<Rightarrow> nat" where
  "si_rank s = spc_rank (si_pc s) + dpc_rank (si_destructor s)"

text \<open>the destructor of the student's thread always returns, whatever the schedule: as long as it has not, one
  of the two threads can move, and from then on every move of either brings the end nearer; and in its
  whole life the thread gives the camera no command, because nothing can add a task.\<close>

theorem student_impl_closes:
  assumes "si_reachable K s"
  shows "(si_destructor s \<noteq> D_Done \<longrightarrow> (\<exists>s'. si_step s s')) \<and>
    (si_quit s \<longrightarrow> (\<forall>s'. si_step s s' \<longrightarrow> si_rank s' < si_rank s)) \<and> si_camera s = []"
proof -
  have inv: "si_inv s" by (rule si_reachable_inv[OF assms])
  have "\<exists>s'. si_step s s'" if d: "si_destructor s \<noteq> D_Done"
  proof (cases "si_destructor s = D_Join \<and> si_pc s \<noteq> S_Done")
    case True
    with inv have "\<exists>s'. si_run 0 s = Inr s'" by (cases "si_pc s") (auto simp: si_run_def si_inv_def)
    then show ?thesis by (blast intro: si_step.run)
  next
    case False
    with d have "\<exists>s'. si_close s = Inr s'" by (cases "si_destructor s") (auto simp: si_close_def)
    then show ?thesis by (blast intro: si_step.close)
  qed
  moreover have "si_rank s' < si_rank s" if "si_quit s" "si_step s s'" for s'
    using that(2)
  proof cases
    case (run now)
    with that(1) inv show ?thesis
      by (cases "si_pc s") (auto simp: si_run_def si_inv_def si_rank_def split: if_splits)
  next
    case close
    then show ?thesis by (cases "si_destructor s") (auto simp: si_close_def si_rank_def split: if_splits)
  qed
  ultimately show ?thesis using inv by (auto simp: si_inv_def)
qed

theorem student_impl_closes_witness:
  "\<exists>s. StudentRunningImpl_open assoc_config [] True = Inr s \<and> si_camera s = [] \<and> (\<exists>s'. si_step s s')"
proof -
  have "\<exists>s. StudentRunningImpl_open assoc_config [] True = Inr s \<and> si_destructor s = D_Idle"
    by (simp add: StudentRunningImpl_open_def cfg_int_def cfg_str_def assoc_config_def text_number)
  then obtain s where s: "StudentRunningImpl_open assoc_config [] True = Inr s" "si_destructor s = D_Idle" by blast
  from student_impl_closes[OF si_reachable.opened[OF s(1)]] s show ?thesis by auto
qed

end
