(* ===== verification/Tdt.thy ===== *)
theory Tdt
  imports Student_Running
begin

text \<open>
  \<open>tdt.h\<close> and \<open>tdt.cpp\<close>: the object that owns the teacher's side, the student's side and the window thread,
  hands out the pictures and the window's keys and clicks, and takes everything down again. \<open>tdt_open\<close>
  is three steps here, because the window thread runs from the end of the first one.
\<close>

section \<open>State\<close>

text \<open>The configurations are shared with the sides by reference: while a side exists its copy is the
  current one.\<close>

record 'c tdt =
  td_enabled :: int
  td_cfg_t :: 'c
  td_cfg_s :: 'c
  running_t :: "'c TeacherRunning option"
  running_s :: "'c StudentRunning option"
  key_thread :: "window_thread option"

text \<open>\<open>tdt_open\<close> up to the window thread, and its two last steps.\<close>

definition tdt_alloc :: "'c kvconfig \<Rightarrow> string \<Rightarrow> 'c tdt result" where
  "tdt_alloc K cfgname =
     (let ct = kv_open K cfgname in
      bind_r (cfg_str K ct ''student_detect_cfg_filename'' ''student_detect_trace.config'') (\<lambda>sname.
      let cs = kv_open K sname in
      bind_r (cfg_int K ct ''debug'' ''0'') (\<lambda>dbg.
      bind_r (if dbg = 1 then
                bind_r (cfg_int K ct ''enable_teacher'' ''1'') (\<lambda>te.
                bind_r (cfg_int K ct ''enable_student'' ''1'') (\<lambda>se.
                Inr (Some (WindowThread_open (te \<noteq> 0) (se \<noteq> 0)))))
              else Inr None) (\<lambda>w.
      Inr \<lparr>td_enabled = 0, td_cfg_t = ct, td_cfg_s = cs, running_t = None, running_s = None, key_thread = w\<rparr>))))"

definition tdt_make_t :: "'c kvconfig \<Rightarrow> (string \<Rightarrow> int \<Rightarrow> bool) \<Rightarrow> real \<Rightarrow> int \<Rightarrow> 'c tdt \<Rightarrow> 'c tdt result" where
  "tdt_make_t K port now g d =
     bind_r (TeacherRunning_open K (td_cfg_t d) port now g) (\<lambda>t. Inr (d\<lparr>running_t := Some t\<rparr>))"

definition tdt_make_s :: "'c kvconfig \<Rightarrow> (string \<Rightarrow> int \<Rightarrow> bool) \<Rightarrow> int \<Rightarrow> 'c tdt \<Rightarrow> 'c tdt result" where
  "tdt_make_s K port g d =
     bind_r (StudentRunning_open K (td_cfg_s d) port g) (\<lambda>s. Inr (d\<lparr>running_s := Some s\<rparr>))"

definition tdt_open :: "'c kvconfig \<Rightarrow> string \<Rightarrow> (string \<Rightarrow> int \<Rightarrow> bool) \<Rightarrow> real \<Rightarrow> int \<Rightarrow> 'c tdt result" where
  "tdt_open K cfgname port now g =
     bind_r (tdt_alloc K cfgname) (\<lambda>d.
     bind_r (tdt_make_t K port now g d) (tdt_make_s K port g))"

definition tdt_is_enable :: "'c tdt \<Rightarrow> int" where
  "tdt_is_enable d = td_enabled d"

definition tdt_enable :: "int \<Rightarrow> 'c tdt \<Rightarrow> 'c tdt" where
  "tdt_enable en d = d\<lparr>td_enabled := en\<rparr>"

section \<open>Pictures\<close>

text \<open>\<open>Running::show_image\<close>; one picture through the base class and the side's own part.\<close>

definition show_image :: "bool \<Rightarrow> bool \<Rightarrow> image \<Rightarrow> 'c tdt \<Rightarrow> 'c tdt" where
  "show_image teacher detect img d =
     (case key_thread d of None \<Rightarrow> d | Some w \<Rightarrow> d\<lparr>key_thread := Some (showImage teacher detect img w)\<rparr>)"

record picture =
  pic_w :: int
  pic_h :: int
  pic_fmt :: int
  pic_frame :: nat

record seen =
  seen_boxes :: "image \<Rightarrow> rect list"
  seen_now :: real
  seen_h :: int
  seen_scale :: real

definition write_teacher ::
    "'c kvconfig \<Rightarrow> (int \<Rightarrow> int \<Rightarrow> int \<Rightarrow> bool) \<Rightarrow> picture \<Rightarrow> seen \<Rightarrow> 'c TeacherRunning \<Rightarrow> ('c TeacherRunning \<times> image) result" where
  "write_teacher K sws p v t =
     bind_r (write_img sws (pic_w p) (pic_h p) (pic_fmt p) (pic_frame p) (run t)) (\<lambda>(r, raw, m).
     one_image K (seen_boxes v) (seen_now v) (seen_h v) (seen_scale v) raw m (t\<lparr>run := r\<rparr>))"

definition write_teacher_tracing ::
    "(int \<Rightarrow> int \<Rightarrow> int \<Rightarrow> bool) \<Rightarrow> picture \<Rightarrow> 'c TeacherRunning \<Rightarrow> ('c TeacherRunning \<times> image) result" where
  "write_teacher_tracing sws p t =
     bind_r (write_img_tracing sws (pic_w p) (pic_h p) (pic_fmt p) (pic_frame p) (run t)) (\<lambda>(r, img).
     Inr (before_show_tracing_image img (t\<lparr>run := r\<rparr>)))"

definition write_student ::
    "(int \<Rightarrow> int \<Rightarrow> int \<Rightarrow> bool) \<Rightarrow> picture \<Rightarrow> (image \<Rightarrow> action list) \<Rightarrow> 'c StudentRunning \<Rightarrow> ('c StudentRunning \<times> image) result" where
  "write_student sws p found s =
     bind_r (write_img sws (pic_w p) (pic_h p) (pic_fmt p) (pic_frame p) (s_run s)) (\<lambda>(r, raw, m).
     let s = s\<lparr>s_run := r\<rparr> in Inr (s, s_one_image found raw m s))"

definition write_student_tracing ::
    "(int \<Rightarrow> int \<Rightarrow> int \<Rightarrow> bool) \<Rightarrow> picture \<Rightarrow> 'c StudentRunning \<Rightarrow> ('c StudentRunning \<times> image) result" where
  "write_student_tracing sws p s =
     bind_r (write_img_tracing sws (pic_w p) (pic_h p) (pic_fmt p) (pic_frame p) (s_run s)) (\<lambda>(r, img).
     Inr (s\<lparr>s_run := r\<rparr>, img))"

text \<open>Apply a picture to the teacher's or the student's side and queue what it shows.\<close>

definition on_teacher :: "bool \<Rightarrow> ('c TeacherRunning \<Rightarrow> ('c TeacherRunning \<times> image) result) \<Rightarrow> 'c tdt \<Rightarrow> 'c tdt result" where
  "on_teacher detect f d =
     (case running_t d of None \<Rightarrow> Inl Null_Ptr
      | Some t \<Rightarrow> bind_r (f t) (\<lambda>(t, img). Inr (show_image True detect img (d\<lparr>running_t := Some t\<rparr>))))"

definition on_student :: "bool \<Rightarrow> ('c StudentRunning \<Rightarrow> ('c StudentRunning \<times> image) result) \<Rightarrow> 'c tdt \<Rightarrow> 'c tdt result" where
  "on_student detect f d =
     (case running_s d of None \<Rightarrow> Inl Null_Ptr
      | Some s \<Rightarrow> bind_r (f s) (\<lambda>(s, img). Inr (show_image False detect img (d\<lparr>running_s := Some s\<rparr>))))"

definition tdt_write_teacher_pic ::
    "'c kvconfig \<Rightarrow> (int \<Rightarrow> int \<Rightarrow> int \<Rightarrow> bool) \<Rightarrow> picture \<Rightarrow> seen \<Rightarrow> 'c tdt \<Rightarrow> (int \<times> 'c tdt) result" where
  "tdt_write_teacher_pic K sws p v d =
     (if td_enabled d \<noteq> 0 then bind_r (on_teacher True (write_teacher K sws p v) d) (\<lambda>d. Inr (0, d)) else Inr (1, d))"

definition tdt_write_teacher_pic_tracing ::
    "(int \<Rightarrow> int \<Rightarrow> int \<Rightarrow> bool) \<Rightarrow> picture \<Rightarrow> 'c tdt \<Rightarrow> (int \<times> 'c tdt) result" where
  "tdt_write_teacher_pic_tracing sws p d =
     (if td_enabled d \<noteq> 0 then bind_r (on_teacher False (write_teacher_tracing sws p) d) (\<lambda>d. Inr (0, d)) else Inr (1, d))"

definition tdt_write_student_pic ::
    "(int \<Rightarrow> int \<Rightarrow> int \<Rightarrow> bool) \<Rightarrow> picture \<Rightarrow> (image \<Rightarrow> action list) \<Rightarrow> 'c tdt \<Rightarrow> (int \<times> 'c tdt) result" where
  "tdt_write_student_pic sws p found d =
     (if td_enabled d \<noteq> 0 then bind_r (on_student True (write_student sws p found) d) (\<lambda>d. Inr (0, d)) else Inr (1, d))"

definition tdt_write_student_pic_tracing ::
    "(int \<Rightarrow> int \<Rightarrow> int \<Rightarrow> bool) \<Rightarrow> picture \<Rightarrow> 'c tdt \<Rightarrow> (int \<times> 'c tdt) result" where
  "tdt_write_student_pic_tracing sws p d =
     (if td_enabled d \<noteq> 0 then bind_r (on_student False (write_student_tracing sws p) d) (\<lambda>d. Inr (0, d)) else Inr (1, d))"

section \<open>Keys and clicks\<close>

text \<open>Every key goes to both sides, and unlike the clicks to sides that do not exist yet.\<close>

definition td_handle_key :: "'c kvconfig \<Rightarrow> key_input \<Rightarrow> int \<Rightarrow> 'c tdt \<Rightarrow> 'c tdt result" where
  "td_handle_key K i key d =
     (case running_t d of None \<Rightarrow> Inl Null_Ptr
      | Some t \<Rightarrow>
          bind_r (key_handle K i key t) (\<lambda>t.
          let d = d\<lparr>running_t := Some t\<rparr> in
          case running_s d of None \<Rightarrow> Inl Null_Ptr
          | Some s \<Rightarrow> bind_r (s_key_handle K i key s) (\<lambda>s. Inr (d\<lparr>running_s := Some s\<rparr>))))"

definition mouse_cb_teacher_detect :: "bool \<Rightarrow> int \<Rightarrow> int \<Rightarrow> 'c tdt \<Rightarrow> 'c tdt" where
  "mouse_cb_teacher_detect up x y d =
     (case running_t d of None \<Rightarrow> d | Some t \<Rightarrow> d\<lparr>running_t := Some (mouse_detected up x y t)\<rparr>)"

definition mouse_cb_teacher_trace :: "'c kvconfig \<Rightarrow> bool \<Rightarrow> int \<Rightarrow> int \<Rightarrow> 'c tdt \<Rightarrow> 'c tdt result" where
  "mouse_cb_teacher_trace K up x y d =
     (case running_t d of None \<Rightarrow> Inr d
      | Some t \<Rightarrow> bind_r (mouse_traced K up x y t) (\<lambda>t. Inr (d\<lparr>running_t := Some t\<rparr>)))"

definition mouse_cb_student_detect :: "bool \<Rightarrow> int \<Rightarrow> int \<Rightarrow> 'c tdt \<Rightarrow> 'c tdt" where
  "mouse_cb_student_detect up x y d =
     (case running_s d of None \<Rightarrow> d | Some s \<Rightarrow> d\<lparr>running_s := Some (s_mouse_detected up x y s)\<rparr>)"

definition mouse_cb_student_trace :: "'c kvconfig \<Rightarrow> bool \<Rightarrow> int \<Rightarrow> int \<Rightarrow> 'c tdt \<Rightarrow> 'c tdt result" where
  "mouse_cb_student_trace K up x y d =
     (case running_s d of None \<Rightarrow> Inr d
      | Some s \<Rightarrow> bind_r (s_mouse_traced K up x y s) (\<lambda>s. Inr (d\<lparr>running_s := Some s\<rparr>)))"

text \<open>One turn of the window thread's loop; \<open>key\<close> is what \<open>cvWaitKey\<close> returns.\<close>

definition window_turn :: "'c kvconfig \<Rightarrow> key_input \<Rightarrow> int \<Rightarrow> 'c tdt \<Rightarrow> 'c tdt result" where
  "window_turn K i key d =
     (case key_thread d of None \<Rightarrow> Inl Stuck
      | Some w \<Rightarrow>
          bind_r (if key \<noteq> -1 then td_handle_key K i key d else Inr d) (\<lambda>d.
          Inr (d\<lparr>key_thread := Some (show_turn w)\<rparr>)))"

section \<open>Events\<close>

datatype td_input =
    Td_enable int
  | Td_teacher_pic "int \<Rightarrow> int \<Rightarrow> int \<Rightarrow> bool" picture seen
  | Td_teacher_tracing "int \<Rightarrow> int \<Rightarrow> int \<Rightarrow> bool" picture
  | Td_student_pic "int \<Rightarrow> int \<Rightarrow> int \<Rightarrow> bool" picture "image \<Rightarrow> action list"
  | Td_student_tracing "int \<Rightarrow> int \<Rightarrow> int \<Rightarrow> bool" picture
  | Td_turn key_input int
  | Td_teacher_click bool int int
  | Td_teacher_trace_click bool int int
  | Td_student_click bool int int
  | Td_student_trace_click bool int int

fun td_event :: "'c kvconfig \<Rightarrow> td_input \<Rightarrow> 'c tdt \<Rightarrow> 'c tdt result" where
  "td_event K (Td_enable en) d = Inr (tdt_enable en d)"
| "td_event K (Td_teacher_pic sws p v) d = bind_r (tdt_write_teacher_pic K sws p v d) (\<lambda>(n, d). Inr d)"
| "td_event K (Td_teacher_tracing sws p) d = bind_r (tdt_write_teacher_pic_tracing sws p d) (\<lambda>(n, d). Inr d)"
| "td_event K (Td_student_pic sws p found) d = bind_r (tdt_write_student_pic sws p found d) (\<lambda>(n, d). Inr d)"
| "td_event K (Td_student_tracing sws p) d = bind_r (tdt_write_student_pic_tracing sws p d) (\<lambda>(n, d). Inr d)"
| "td_event K (Td_turn i key) d = window_turn K i key d"
| "td_event K (Td_teacher_click up x y) d = Inr (mouse_cb_teacher_detect up x y d)"
| "td_event K (Td_teacher_trace_click up x y) d = mouse_cb_teacher_trace K up x y d"
| "td_event K (Td_student_click up x y) d = Inr (mouse_cb_student_detect up x y d)"
| "td_event K (Td_student_trace_click up x y) d = mouse_cb_student_trace K up x y d"

abbreviation td_events :: "'c kvconfig \<Rightarrow> td_input list \<Rightarrow> 'c tdt \<Rightarrow> 'c tdt result" where
  "td_events K \<equiv> run_all (td_event K)"

text \<open>The steps of \<open>tdt_open\<close> may be interleaved with turns of the window thread.\<close>

inductive td_reachable :: "'c kvconfig \<Rightarrow> 'c tdt \<Rightarrow> bool" for K where
  alloc: "tdt_alloc K cfgname = Inr d \<Longrightarrow> td_reachable K d"
| make_t: "td_reachable K d \<Longrightarrow> running_t d = None \<Longrightarrow> tdt_make_t K port now g d = Inr d' \<Longrightarrow> td_reachable K d'"
| make_s: "td_reachable K d \<Longrightarrow> running_s d = None \<Longrightarrow> tdt_make_s K port g d = Inr d' \<Longrightarrow> td_reachable K d'"
| event: "td_reachable K d \<Longrightarrow> td_event K e d = Inr d' \<Longrightarrow> td_reachable K d'"

section \<open>The modes of both sides\<close>

definition td_mode_inv :: "'c tdt \<Rightarrow> bool" where
  "td_mode_inv d \<longleftrightarrow> pred_option mode_inv (running_t d) \<and> pred_option s_mode_inv (running_s d)"

lemma write_img_keeps:
  assumes "write_img sws w h fmt n r = Inr (r', raw, m)"
  shows "enabled_mask r' = enabled_mask r \<and> cfg r' = cfg r"
  using assms by (auto simp: write_img_def chk_scale_def Let_def split: if_splits)

lemma write_img_tracing_keeps:
  assumes "write_img_tracing sws w h fmt n r = Inr (r', img)"
  shows "enabled_mask r' = enabled_mask r \<and> cfg r' = cfg r"
  using assms by (auto simp: write_img_tracing_def chk_scale_def Let_def split: if_splits)

lemma mode_inv_run: "mode_inv t \<Longrightarrow> enabled_mask r = enabled_mask (run t) \<Longrightarrow> mode_inv (t\<lparr>run := r\<rparr>)"
  by (simp add: mode_inv_def)

lemma s_mode_inv_run: "s_mode_inv s \<Longrightarrow> enabled_mask r = enabled_mask (s_run s) \<Longrightarrow> s_mode_inv (s\<lparr>s_run := r\<rparr>)"
  by (simp add: s_mode_inv_def)

lemma write_teacher_mode:
  assumes "mode_inv t" and "write_teacher K sws p v t = Inr (t', img)"
  shows "mode_inv t'"
proof -
  obtain r raw m where w: "write_img sws (pic_w p) (pic_h p) (pic_fmt p) (pic_frame p) (run t) = Inr (r, raw, m)"
      "one_image K (seen_boxes v) (seen_now v) (seen_h v) (seen_scale v) raw m (t\<lparr>run := r\<rparr>) = Inr (t', img)"
    using assms(2) by (auto simp: write_teacher_def)
  have "mode_inv (t\<lparr>run := r\<rparr>)" using mode_inv_run[OF assms(1)] write_img_keeps[OF w(1)] by simp
  with one_image_mode[OF w(2)] show ?thesis by (simp add: mode_inv_def)
qed

lemma write_teacher_tracing_mode:
  assumes "mode_inv t" and "write_teacher_tracing sws p t = Inr (t', img)"
  shows "mode_inv t'"
proof -
  obtain r raw where w: "write_img_tracing sws (pic_w p) (pic_h p) (pic_fmt p) (pic_frame p) (run t) = Inr (r, raw)"
      "before_show_tracing_image raw (t\<lparr>run := r\<rparr>) = (t', img)"
    using assms(2) by (auto simp: write_teacher_tracing_def)
  have "mode_inv (t\<lparr>run := r\<rparr>)" using mode_inv_run[OF assms(1)] write_img_tracing_keeps[OF w(1)] by simp
  then have "mode_inv (fst (before_show_tracing_image raw (t\<lparr>run := r\<rparr>)))"
    by (rule teacher_event_mode[where e = "Ev_tracing_picture raw"]) simp
  with w(2) show ?thesis by simp
qed

lemma write_student_mode:
  assumes "s_mode_inv s" and "write_student sws p found s = Inr (s', img)"
  shows "s_mode_inv s'"
  using assms s_mode_inv_run[OF assms(1)] by (auto simp: write_student_def Let_def dest!: write_img_keeps)

lemma write_student_tracing_mode:
  assumes "s_mode_inv s" and "write_student_tracing sws p s = Inr (s', img)"
  shows "s_mode_inv s'"
  using assms s_mode_inv_run[OF assms(1)] by (auto simp: write_student_tracing_def dest!: write_img_tracing_keeps)

lemma show_image_sides [simp]:
  "running_t (show_image b c img d) = running_t d" "running_s (show_image b c img d) = running_s d"
  "td_enabled (show_image b c img d) = td_enabled d"
  by (simp_all add: show_image_def split: option.splits)

lemma on_teacher_result:
  "on_teacher b f d = Inr d' \<Longrightarrow>
     \<exists>t t' img. running_t d = Some t \<and> f t = Inr (t', img) \<and> running_t d' = Some t' \<and> running_s d' = running_s d \<and>
       td_enabled d' = td_enabled d"
  by (auto simp: on_teacher_def split: option.splits)

lemma on_student_result:
  "on_student b f d = Inr d' \<Longrightarrow>
     \<exists>s s' img. running_s d = Some s \<and> f s = Inr (s', img) \<and> running_s d' = Some s' \<and> running_t d' = running_t d \<and>
       td_enabled d' = td_enabled d"
  by (auto simp: on_student_def split: option.splits)

lemma handle_key_result:
  assumes "td_handle_key K i key d = Inr d'"
  obtains t t' s s' where "running_t d = Some t" "running_s d = Some s" "key_handle K i key t = Inr t'"
    "s_key_handle K i key s = Inr s'" "d' = d\<lparr>running_t := Some t', running_s := Some s'\<rparr>"
  using assms by (auto simp: td_handle_key_def Let_def split: option.splits)

lemma window_turn_result:
  assumes "window_turn K i key d = Inr d'"
  obtains e where "(if key = -1 then Inr d else td_handle_key K i key d) = Inr e" "running_t d' = running_t e"
    "running_s d' = running_s e" "td_enabled d' = td_enabled e"
  using assms by (fastforce simp: window_turn_def split: option.splits if_splits)

lemma handle_key_mode: "td_mode_inv d \<Longrightarrow> td_handle_key K i key d = Inr d' \<Longrightarrow> td_mode_inv d'"
  by (erule handle_key_result)
    (auto simp: td_mode_inv_def intro: key_handle_mode student_event_mode[where e = "Ev_s_key i key"])

lemma click_modes:
  "mode_inv t \<Longrightarrow> mode_inv (mouse_detected up x y t)" "s_mode_inv s \<Longrightarrow> s_mode_inv (s_mouse_detected up x y s)"
  "mode_inv t \<Longrightarrow> mouse_traced K up x y t = Inr t' \<Longrightarrow> mode_inv t'"
  "s_mode_inv s \<Longrightarrow> s_mouse_traced K up x y s = Inr s' \<Longrightarrow> s_mode_inv s'"
  subgoal by (simp add: mouse_detected_def mode_inv_def)
  subgoal by (simp add: s_mouse_detected_def s_mode_inv_def)
  subgoal by (rule teacher_event_mode[where e = "Ev_trace up x y" and K = K]) simp_all
  subgoal by (rule student_event_mode[where e = "Ev_s_trace up x y" and K = K]) simp_all
  done

lemma td_event_mode: "td_mode_inv d \<Longrightarrow> td_event K e d = Inr d' \<Longrightarrow> td_mode_inv d'"
proof (cases e)
  case (Td_teacher_pic sws p v)
  assume "td_mode_inv d" "td_event K e d = Inr d'"
  with Td_teacher_pic show ?thesis
    by (auto simp: td_mode_inv_def tdt_write_teacher_pic_def split: if_splits dest!: on_teacher_result dest: write_teacher_mode)
next
  case (Td_teacher_tracing sws p)
  assume "td_mode_inv d" "td_event K e d = Inr d'"
  with Td_teacher_tracing show ?thesis
    by (auto simp: td_mode_inv_def tdt_write_teacher_pic_tracing_def split: if_splits dest!: on_teacher_result
        dest: write_teacher_tracing_mode)
next
  case (Td_student_pic sws p found)
  assume "td_mode_inv d" "td_event K e d = Inr d'"
  with Td_student_pic show ?thesis
    by (auto simp: td_mode_inv_def tdt_write_student_pic_def split: if_splits dest!: on_student_result dest: write_student_mode)
next
  case (Td_student_tracing sws p)
  assume "td_mode_inv d" "td_event K e d = Inr d'"
  with Td_student_tracing show ?thesis
    by (auto simp: td_mode_inv_def tdt_write_student_pic_tracing_def split: if_splits dest!: on_student_result
        dest: write_student_tracing_mode)
next
  case (Td_turn i key)
  assume d: "td_mode_inv d" "td_event K e d = Inr d'"
  with Td_turn obtain e where e: "(if key = -1 then Inr d else td_handle_key K i key d) = Inr e" "running_t d' = running_t e"
      "running_s d' = running_s e"
    by (auto elim: window_turn_result)
  have "td_mode_inv e" using e(1) d(1) by (auto split: if_splits intro: handle_key_mode)
  with e(2,3) show ?thesis by (simp add: td_mode_inv_def)
next
  case (Td_teacher_click up x y)
  assume "td_mode_inv d" "td_event K e d = Inr d'"
  with Td_teacher_click show ?thesis
    by (auto simp: td_mode_inv_def mouse_cb_teacher_detect_def split: option.splits
        intro: click_modes)
next
  case (Td_teacher_trace_click up x y)
  assume "td_mode_inv d" "td_event K e d = Inr d'"
  with Td_teacher_trace_click show ?thesis
    by (auto simp: td_mode_inv_def mouse_cb_teacher_trace_def split: option.splits
        intro: click_modes)
next
  case (Td_student_click up x y)
  assume "td_mode_inv d" "td_event K e d = Inr d'"
  with Td_student_click show ?thesis
    by (auto simp: td_mode_inv_def mouse_cb_student_detect_def split: option.splits
        intro: click_modes)
next
  case (Td_student_trace_click up x y)
  assume "td_mode_inv d" "td_event K e d = Inr d'"
  with Td_student_trace_click show ?thesis
    by (auto simp: td_mode_inv_def mouse_cb_student_trace_def split: option.splits
        intro: click_modes)
qed (auto simp: td_mode_inv_def tdt_enable_def)

lemma td_reachable_mode: "td_reachable K d \<Longrightarrow> td_mode_inv d"
proof (induction rule: td_reachable.induct)
  case (alloc cfgname d)
  then show ?case by (auto simp: tdt_alloc_def td_mode_inv_def Let_def split: if_splits)
next
  case (make_t d port now g d')
  then show ?case by (auto simp: tdt_make_t_def td_mode_inv_def intro: teacher_open_mode)
next
  case (make_s d port g d')
  then show ?case by (auto simp: tdt_make_s_def td_mode_inv_def intro: student_open_mode)
next
  case (event d e d')
  then show ?case by (blast intro: td_event_mode)
qed

text \<open>C11: in whatever order the steps of opening, the window thread's keys and clicks and both cameras' pictures
  come, and whatever the switch does, on neither side does a mode leave something behind: masking is
  off exactly while that side calibrates, and the teacher's automatic reset exactly while that side sets
  camera positions.\<close>

theorem tdt_modes_consistent:
  assumes "td_reachable K d" and "running_t d = Some t" and "running_s d = Some s"
  shows "(enabled_mask (run t) \<longleftrightarrow> \<not> calibrating (t_state t)) \<and>
    (tp_running_state (t_ptz t) \<noteq> 0 \<longleftrightarrow> setting_positions (t_state t)) \<and>
    s_state s \<in> {RUNNING, PTZINITING, CALIBRATING2} \<and> (enabled_mask (s_run s) \<longleftrightarrow> s_state s \<noteq> CALIBRATING2)"
  using td_reachable_mode[OF assms(1)] assms(2,3) by (simp add: td_mode_inv_def mode_inv_def s_mode_inv_def)

text \<open>the keys that start a mode differ between the sides (small letters for the teacher's, capitals for the
  student's): from two running sides one key puts at most one of them into a mode.\<close>

theorem keys_start_one_side:
  assumes "running_t d = Some t" and "t_state t = Teacher_Running.RUNNING"
    and "running_s d = Some s" and "s_state s = RUNNING" and "td_handle_key K i key d = Inr d'"
  shows "\<exists>t' s'. running_t d' = Some t' \<and> running_s d' = Some s' \<and>
    (t_state t' = Teacher_Running.RUNNING \<or> s_state s' = RUNNING)"
proof -
  obtain t' s' where r: "key_handle K i key t = Inr t'" "s_key_handle K i key s = Inr s'"
      "d' = d\<lparr>running_t := Some t', running_s := Some s'\<rparr>"
    using handle_key_result[OF assms(5)] assms(1,3) by (metis option.inject)
  have "t' = t \<or> s' = s"
    using r(1,2) assms(2,4)
    by (auto simp: key_handle_def s_key_handle_def key_running_handle_def key_handle_running_def Let_def split: if_splits)
  with r(3) assms(2,4) show ?thesis by auto
qed

text \<open>C30: ESC always leads home: in every reachable state with both sides in place the key is handled without a
  fault and leaves both running, with their masks enabled and the teacher's automatic reset on.\<close>

theorem escape_returns_home:
  assumes "td_reachable K d" and "running_t d = Some t" and "running_s d = Some s"
  shows "\<exists>d' t' s'. td_handle_key K i ESC d = Inr d' \<and> running_t d' = Some t' \<and> running_s d' = Some s' \<and>
    t_state t' = Teacher_Running.RUNNING \<and> s_state s' = RUNNING \<and> enabled_mask (run t') \<and> enabled_mask (s_run s') \<and>
    tp_running_state (t_ptz t') = 0"
proof -
  have inv: "mode_inv t" "s_mode_inv s" using td_reachable_mode[OF assms(1)] assms(2,3) by (auto simp: td_mode_inv_def)
  have "\<exists>t'. key_handle K i ESC t = Inr t' \<and> t_state t' = Teacher_Running.RUNNING"
    by (cases "t_state t")
      (simp_all add: key_handle_def key_running_handle_def key_calibrating_handle_def key_ptzinit_left_right_handle_def
        key_ptziniting_handle_def mode_simps Let_def)
  moreover have "\<exists>s'. s_key_handle K i ESC s = Inr s' \<and> s_state s' = RUNNING"
    using inv(2)
    by (cases "s_state s")
      (simp_all add: s_key_handle_def key_handle_running_def key_handle_calibrating_def key_handle_ptziniting_def
        s_mode_inv_def s_mask_on_def Let_def)
  ultimately obtain t' s' where r: "key_handle K i ESC t = Inr t'" "t_state t' = Teacher_Running.RUNNING"
      "s_key_handle K i ESC s = Inr s'" "s_state s' = RUNNING" by blast
  have "mode_inv t'" "s_mode_inv s'"
    using key_handle_mode[OF inv(1) r(1)] student_event_mode[OF inv(2), of K "Ev_s_key i ESC"] r(3) by auto
  with r show ?thesis
    by (simp add: td_handle_key_def assms(2,3) Let_def mode_inv_def s_mode_inv_def calibrating_def setting_positions_def)
qed

text \<open>the windows run before the sides exist: with \<open>debug\<close> set, a key pressed while \<open>tdt_open\<close> still makes
  them goes to a null pointer; the clicks are guarded.\<close>

theorem key_before_sides_crashes:
  assumes "tdt_alloc K cfgname = Inr d" and "key_thread d = Some w" and "key \<noteq> -1"
  shows "window_turn K i key d = Inl Null_Ptr \<and> mouse_cb_teacher_detect up x y d = d \<and>
    mouse_cb_teacher_trace K up x y d = Inr d \<and> mouse_cb_student_detect up x y d = d \<and>
    mouse_cb_student_trace K up x y d = Inr d"
proof -
  have "running_t d = None" "running_s d = None" using assms(1) by (auto simp: tdt_alloc_def Let_def split: if_splits)
  with assms(2,3) show ?thesis
    by (simp add: window_turn_def td_handle_key_def mouse_cb_teacher_detect_def mouse_cb_teacher_trace_def
        mouse_cb_student_detect_def mouse_cb_student_trace_def)
qed

section \<open>The teacher's side alone\<close>

text \<open>What concerns the teacher's side of an input, given the switch.\<close>

fun teacher_part :: "'c kvconfig \<Rightarrow> td_input \<Rightarrow> int \<Rightarrow> 'c TeacherRunning \<Rightarrow> 'c TeacherRunning result" where
  "teacher_part K (Td_teacher_pic sws p v) en t =
     (if en \<noteq> 0 then bind_r (write_teacher K sws p v t) (\<lambda>(t, img). Inr t) else Inr t)"
| "teacher_part K (Td_teacher_tracing sws p) en t =
     (if en \<noteq> 0 then bind_r (write_teacher_tracing sws p t) (\<lambda>(t, img). Inr t) else Inr t)"
| "teacher_part K (Td_turn i key) en t = (if key \<noteq> -1 then key_handle K i key t else Inr t)"
| "teacher_part K (Td_teacher_click up x y) en t = Inr (mouse_detected up x y t)"
| "teacher_part K (Td_teacher_trace_click up x y) en t = mouse_traced K up x y t"
| "teacher_part K _ en t = Inr t"

fun switched :: "td_input \<Rightarrow> int \<Rightarrow> int" where
  "switched (Td_enable en) _ = en"
| "switched _ en = en"

fun teacher_alone :: "'c kvconfig \<Rightarrow> td_input list \<Rightarrow> int \<Rightarrow> 'c TeacherRunning \<Rightarrow> 'c TeacherRunning result" where
  "teacher_alone K [] en t = Inr t"
| "teacher_alone K (e # es) en t = bind_r (teacher_part K e en t) (teacher_alone K es (switched e en))"

lemma teacher_part_step:
  assumes "td_event K e d = Inr d'" and "running_t d = Some t"
  shows "\<exists>t'. teacher_part K e (td_enabled d) t = Inr t' \<and> running_t d' = Some t' \<and> td_enabled d' = switched e (td_enabled d)"
proof (cases e)
  case (Td_teacher_pic sws p v)
  with assms show ?thesis by (auto simp: tdt_write_teacher_pic_def split: if_splits dest!: on_teacher_result)
next
  case (Td_teacher_tracing sws p)
  with assms show ?thesis by (auto simp: tdt_write_teacher_pic_tracing_def split: if_splits dest!: on_teacher_result)
next
  case (Td_student_pic sws p found)
  with assms show ?thesis by (auto simp: tdt_write_student_pic_def split: if_splits dest!: on_student_result)
next
  case (Td_student_tracing sws p)
  with assms show ?thesis by (auto simp: tdt_write_student_pic_tracing_def split: if_splits dest!: on_student_result)
next
  case (Td_turn i key)
  with assms show ?thesis
    by (auto elim!: window_turn_result handle_key_result split: if_splits)
qed (use assms in \<open>auto simp: tdt_enable_def mouse_cb_teacher_detect_def mouse_cb_teacher_trace_def
      mouse_cb_student_detect_def mouse_cb_student_trace_def split: option.splits\<close>)

text \<open>C25: the two sides do not disturb each other: after any inputs the teacher's side is what it would be on its
  own, fed only its pictures, its clicks and the keys; nothing the student's side gets or does changes it.\<close>

theorem teacher_side_alone:
  assumes "td_events K es d = Inr d'" and "running_t d = Some t"
  shows "\<exists>t'. teacher_alone K es (td_enabled d) t = Inr t' \<and> running_t d' = Some t'"
  using assms
proof (induction es arbitrary: d t)
  case (Cons e es)
  then obtain d1 where d1: "td_event K e d = Inr d1" "td_events K es d1 = Inr d'" by auto
  from teacher_part_step[OF d1(1) Cons.prems(2)] Cons.IH[OF d1(2)] show ?case by fastforce
qed simp

section \<open>Closing\<close>

text \<open>\<open>tdt_close\<close>, from one place where another thread matters to the next: tell the window thread to quit
  and join it, delete the teacher's side (whose destructor ends with that of \<open>Ptz\<close>), the student's
  side, save both configurations. The library's caller makes no other call any more, so besides it the
  window thread and the two camera threads move. The window thread is at its test of \<open>quit_\<close>, in
  \<open>cvWaitKey\<close>, where clicks are handled and a key may come back and be handled, or has ended.\<close>

datatype closing = Close_Key | Close_Join | Close_Teacher | Close_Student | Close_Save | Close_Done
datatype win_pc = Win_Test | Win_Wait | Win_Over

type_synonym 'c closing_state = "closing \<times> win_pc \<times> 'c tdt"

definition with_ptz :: "Ptz \<Rightarrow> 'c TeacherRunning \<Rightarrow> 'c TeacherRunning" where
  "with_ptz p t = t\<lparr>t_ptz := (t_ptz t)\<lparr>tp_base := p\<rparr>\<rparr>"

definition s_with_ptz :: "Ptz \<Rightarrow> 'c StudentRunning \<Rightarrow> 'c StudentRunning" where
  "s_with_ptz p s = s\<lparr>s_ptz := (s_ptz s)\<lparr>sp_base := p\<rparr>\<rparr>"

definition close_teacher :: "'c tdt \<Rightarrow> (closing \<times> 'c tdt) result" where
  "close_teacher d =
     (case running_t d of None \<Rightarrow> Inr (Close_Student, d)
      | Some t \<Rightarrow>
          if killer (tp_base (t_ptz t)) = K_Done
          then Inr (Close_Student, d\<lparr>running_t := None, td_cfg_t := cfg (run t)\<rparr>)
          else bind_r (Ptz_close (tp_base (t_ptz t))) (\<lambda>p. Inr (Close_Teacher, d\<lparr>running_t := Some (with_ptz p t)\<rparr>)))"

definition close_student :: "'c tdt \<Rightarrow> (closing \<times> 'c tdt) result" where
  "close_student d =
     (case running_s d of None \<Rightarrow> Inr (Close_Save, d)
      | Some s \<Rightarrow>
          if killer (sp_base (s_ptz s)) = K_Done
          then Inr (Close_Save, d\<lparr>running_s := None, td_cfg_s := cfg (s_run s)\<rparr>)
          else bind_r (Ptz_close (sp_base (s_ptz s))) (\<lambda>p. Inr (Close_Student, d\<lparr>running_s := Some (s_with_ptz p s)\<rparr>)))"

definition tdt_close :: "'c kvconfig \<Rightarrow> closing \<Rightarrow> win_pc \<Rightarrow> 'c tdt \<Rightarrow> (closing \<times> 'c tdt) result" where
  "tdt_close K at_pc w d =
     (case at_pc of
        Close_Key \<Rightarrow> Inr (if key_thread d = None then Close_Teacher else Close_Join, d)
      | Close_Join \<Rightarrow> if w = Win_Over then Inr (Close_Teacher, d\<lparr>key_thread := None\<rparr>) else Inl Would_Block
      | Close_Teacher \<Rightarrow> close_teacher d
      | Close_Student \<Rightarrow> close_student d
      | Close_Save \<Rightarrow> Inr (Close_Done, d\<lparr>td_cfg_t := kv_save K (td_cfg_t d), td_cfg_s := kv_save K (td_cfg_s d)\<rparr>)
      | Close_Done \<Rightarrow> Inl Stuck)"

text \<open>The steps of the window thread: its test of \<open>quit_\<close>, which the closing thread sets on its way to the
  join; a click; and the rest of a turn, from the return of \<open>cvWaitKey\<close> to the next test.\<close>

fun is_click :: "td_input \<Rightarrow> bool" where
  "is_click (Td_teacher_click up x y) = True"
| "is_click (Td_teacher_trace_click up x y) = True"
| "is_click (Td_student_click up x y) = True"
| "is_click (Td_student_trace_click up x y) = True"
| "is_click _ = False"

inductive td_close_step :: "'c kvconfig \<Rightarrow> 'c closing_state \<Rightarrow> 'c closing_state \<Rightarrow> bool" for K where
  closer: "tdt_close K at_pc w d = Inr (at_pc', d') \<Longrightarrow> td_close_step K (at_pc, w, d) (at_pc', w, d')"
| window_test: "key_thread d \<noteq> None \<Longrightarrow>
    td_close_step K (at_pc, Win_Test, d) (at_pc, if at_pc = Close_Key then Win_Wait else Win_Over, d)"
| window_click: "key_thread d \<noteq> None \<Longrightarrow> is_click e \<Longrightarrow> td_event K e d = Inr d' \<Longrightarrow>
    td_close_step K (at_pc, Win_Wait, d) (at_pc, Win_Wait, d')"
| window_key: "window_turn K i key d = Inr d' \<Longrightarrow> td_close_step K (at_pc, Win_Wait, d) (at_pc, Win_Test, d')"
| teacher_camera: "running_t d = Some t \<Longrightarrow> Ptz_run K (cfg (run t)) now (tp_base (t_ptz t)) = Inr p \<Longrightarrow>
    td_close_step K (at_pc, w, d) (at_pc, w, d\<lparr>running_t := Some (with_ptz p t)\<rparr>)"
| student_camera: "running_s d = Some s \<Longrightarrow> Ptz_run K (cfg (s_run s)) now (sp_base (s_ptz s)) = Inr p \<Longrightarrow>
    td_close_step K (at_pc, w, d) (at_pc, w, d\<lparr>running_s := Some (s_with_ptz p s)\<rparr>)"

inductive td_close_steps :: "'c kvconfig \<Rightarrow> 'c closing_state \<Rightarrow> 'c closing_state \<Rightarrow> bool" for K where
  stay: "td_close_steps K c c"
| go: "td_close_steps K c c1 \<Longrightarrow> td_close_step K c1 c2 \<Longrightarrow> td_close_steps K c c2"

text \<open>The window thread can do nothing more: there is none, or the join has been reached and it has ended.\<close>

definition window_over :: "'c closing_state \<Rightarrow> bool" where
  "window_over c \<longleftrightarrow>
     (case c of (at_pc, w, d) \<Rightarrow> at_pc = Close_Key \<and> key_thread d = None \<or> at_pc = Close_Join \<and> w = Win_Over)"

definition held_up :: "'c closing_state \<Rightarrow> bool" where
  "held_up c \<longleftrightarrow>
     (case c of (at_pc, w, d) \<Rightarrow> \<exists>t. running_t d = Some t \<and> asleep (tp_base (t_ptz t)) \<and>
        (window_over c \<and> killer (tp_base (t_ptz t)) = K_Idle \<or>
         at_pc = Close_Teacher \<and> killer (tp_base (t_ptz t)) \<noteq> K_Done \<and> (key_thread d = None \<or> w = Win_Over)))"

definition untouched :: "'c tdt \<Rightarrow> 'c tdt \<Rightarrow> bool" where
  "untouched d d' \<longleftrightarrow> td_cfg_t d' = td_cfg_t d \<and> td_cfg_s d' = td_cfg_s d \<and>
     map_option (\<lambda>s. killer (sp_base (s_ptz s))) (running_s d') = map_option (\<lambda>s. killer (sp_base (s_ptz s))) (running_s d)"

lemma asleep_stuck: "asleep p \<Longrightarrow> Ptz_run K c now p = Inl Would_Block"
  by (simp add: asleep_def Ptz_run_def)

lemma Ptz_run_killer: "Ptz_run K c now p = Inr q \<Longrightarrow> killer q = killer p"
  by (auto simp: Ptz_run_def Ptz_reset_ptz_def Ptz_add_def Ptz_push_def Ptz_post_def Ptz_next_task_def
      Ptz_exec_task_def split: ppc.splits if_splits list.splits option.splits)

lemma held_up_closer:
  "held_up (at_pc, w, d) \<Longrightarrow> tdt_close K at_pc w d = Inr (at_pc', d') \<Longrightarrow> held_up (at_pc', w, d') \<and> untouched d d'"
  by (auto simp: held_up_def window_over_def untouched_def tdt_close_def close_teacher_def Ptz_close_def with_ptz_def
      asleep_def split: closing.splits kpc.splits if_splits)

lemma held_up_step:
  assumes "td_close_step K (at_pc, w, d) (at_pc', w', d')" and "held_up (at_pc, w, d)"
  shows "held_up (at_pc', w', d') \<and> untouched d d'"
  using assms
proof cases
  case closer
  with assms(2) show ?thesis by (simp add: held_up_closer)
next
  case window_test
  with assms(2) show ?thesis by (auto simp: held_up_def window_over_def)
next
  case window_click
  with assms(2) show ?thesis by (auto simp: held_up_def window_over_def)
next
  case window_key
  then have "key_thread d \<noteq> None" by (auto simp: window_turn_def split: option.splits)
  with window_key assms(2) show ?thesis by (auto simp: held_up_def window_over_def)
next
  case (teacher_camera t now p)
  with assms(2) show ?thesis by (auto simp: held_up_def asleep_stuck)
next
  case (student_camera s now p)
  with assms(2) Ptz_run_killer[OF student_camera(5)] show ?thesis
    by (auto simp: held_up_def window_over_def untouched_def s_with_ptz_def)
qed

lemma held_up_steps: "td_close_steps K c c' \<Longrightarrow> held_up c \<Longrightarrow> held_up c' \<and> untouched (snd (snd c)) (snd (snd c'))"
proof (induction rule: td_close_steps.induct)
  case (go c c1 c2)
  obtain a1 w1 d1 where 1: "c1 = (a1, w1, d1)" by (cases c1)
  obtain a2 w2 d2 where 2: "c2 = (a2, w2, d2)" by (cases c2)
  from go 1 have "held_up (a1, w1, d1)" "untouched (snd (snd c)) d1" by simp_all
  moreover from this(1) have "held_up (a2, w2, d2) \<and> untouched d1 d2"
    by (rule held_up_step[rotated]) (use go.hyps(2) 1 2 in simp)
  ultimately show ?case by (simp add: 2 untouched_def)
qed (simp add: untouched_def)

text \<open>C37: taking the program down hangs: when \<open>tdt_close\<close> has reached the join of the window thread and that
  thread has ended (its last turn may still have handled clicks and a key), or there is no window
  thread, and the teacher's camera thread then sleeps, as it does whenever it has no task, \<open>tdt_close\<close>
  never gets past the teacher's side: whatever the two camera threads do from there, the student's
  camera is never told to stop and neither configuration is saved.\<close>

theorem tdt_close_hangs:
  assumes "window_over (at_pc, w, d)" and "running_t d = Some t"
    and "asleep (tp_base (t_ptz t))" and "killer (tp_base (t_ptz t)) = K_Idle"
    and "td_close_steps K (at_pc, w, d) (at_pc', w', d')"
  shows "at_pc' \<in> {Close_Key, Close_Join, Close_Teacher} \<and> td_cfg_t d' = td_cfg_t d \<and> td_cfg_s d' = td_cfg_s d \<and>
    map_option (\<lambda>s. killer (sp_base (s_ptz s))) (running_s d') = map_option (\<lambda>s. killer (sp_base (s_ptz s))) (running_s d)"
proof -
  have "held_up (at_pc, w, d)" using assms(1-4) by (auto simp: held_up_def)
  from held_up_steps[OF assms(5) this] show ?thesis
    by (auto simp: held_up_def untouched_def window_over_def)
qed

section \<open>Instances\<close>

lemma plain_student_open: "\<exists>s. StudentRunning_open assoc_config [] (\<lambda>_ _. True) 0 = Inr s \<and> s_state s = RUNNING"
proof -
  have v: "cfg_int assoc_config [] ''distortion_correction'' ''0'' = Inr 0" "cfg_int assoc_config [] ''video_width'' ''960'' = Inr 960"
    "cfg_int assoc_config [] ''video_height'' ''540'' = Inr 540"
    "cfg_int assoc_config [] ''debug'' ''0'' = Inr 0" "cfg_int assoc_config [] ''mask'' ''1'' = Inr 1"
    "cfg_int assoc_config [] ''hog_enabled'' ''0'' = Inr 0"
    by (simp_all add: cfg_int_def cfg_str_def assoc_config_def text_number)
  have p: "load_points assoc_config [] k = Inr []" for k by (simp add: load_points_def assoc_config_def)
  have "\<exists>r. Running_open assoc_config [] = Inr r"
    unfolding Running_open_def v by (simp add: Let_def build_mask_two[of _ _ _ "[]" _ "[]"] p)
  moreover have "\<exists>d t. load_camera_params assoc_config [] = Inr (d, t)"
    by (simp add: load_camera_params_def detecting_camera_def tracing_camera_def camera_lens_def camera_image_def
        cfg_real_def cfg_int_def cfg_str_def assoc_config_def text_number cong: bind_r_weak)
  moreover have "\<exists>p. StudentPtz_open assoc_config [] (\<lambda>_ _. True) 0 = Inr p"
    by (simp add: StudentPtz_open_def Ptz_open_def load_ptz_params_def cfg_real_def cfg_str_def assoc_config_def c_str_def)
  ultimately show ?thesis by (auto simp: StudentRunning_open_def)
qed

lemma sample_tdt:
  "\<exists>d t s. td_reachable assoc_config d \<and> running_t d = Some t \<and> running_s d = Some s \<and>
     t_state t = Teacher_Running.RUNNING \<and> s_state s = RUNNING"
proof -
  obtain d where d: "tdt_alloc assoc_config ''room.cfg'' = Inr d" "td_cfg_t d = sample_cfg" "td_cfg_s d = []"
      "running_t d = None" "running_s d = None"
    by (simp add: tdt_alloc_def cfg_int_def cfg_str_def assoc_config_def sample_cfg_def text_number Let_def)
  obtain r where r: "Running_open assoc_config sample_cfg = Inr r" using sample_running_open by blast
  obtain p where p: "TeacherPtz_open assoc_config sample_cfg (\<lambda>_ _. True) 0 0 = Inr p" using sample_open by blast
  obtain t where t: "TeacherRunning_open assoc_config sample_cfg (\<lambda>_ _. True) 0 0 = Inr t"
      "t_state t = Teacher_Running.RUNNING"
    by (simp add: TeacherRunning_open_def r p load_roi_def sample_points)
  obtain s where s: "StudentRunning_open assoc_config [] (\<lambda>_ _. True) 0 = Inr s" "s_state s = RUNNING"
    using plain_student_open by blast
  let ?d1 = "d\<lparr>running_t := Some t\<rparr>"
  have "td_reachable assoc_config ?d1"
    by (rule td_reachable.make_t[OF td_reachable.alloc[OF d(1)] d(4), of "\<lambda>_ _. True" 0 0]) (simp add: tdt_make_t_def d(2) t)
  then have "td_reachable assoc_config (?d1\<lparr>running_s := Some s\<rparr>)"
    by (rule td_reachable.make_s[where port = "\<lambda>_ _. True" and g = 0]) (simp_all add: tdt_make_s_def d(3,5) s)
  with t(2) s(2) show ?thesis by fastforce
qed

theorem tdt_modes_consistent_witness:
  "\<exists>d t s. td_reachable assoc_config d \<and> running_t d = Some t \<and> running_s d = Some s \<and> enabled_mask (run t) \<and>
     enabled_mask (s_run s)"
proof -
  obtain d t s where d: "td_reachable assoc_config d" "running_t d = Some t" "running_s d = Some s"
      "t_state t = Teacher_Running.RUNNING" "s_state s = RUNNING"
    using sample_tdt by blast
  from tdt_modes_consistent[OF d(1-3)] d show ?thesis by (auto simp: calibrating_def)
qed

theorem escape_returns_home_witness:
  "\<exists>d d'. td_reachable assoc_config d \<and> td_handle_key assoc_config sample_keys ESC d = Inr d'"
  using sample_tdt escape_returns_home by metis

definition sample_td :: "(string \<times> string) list tdt" where
  "sample_td =
     \<lparr>td_enabled = 1, td_cfg_t = [], td_cfg_s = [], running_t = Some sample_teacher, running_s = Some sample_student,
      key_thread = Some (WindowThread_open True True)\<rparr>"

theorem keys_start_one_side_witness:
  "\<exists>d' t'. td_handle_key assoc_config sample_keys 66 sample_td = Inr d' \<and> running_t d' = Some t' \<and>
     t_state t' = Teacher_Running.RUNNING"
proof -
  obtain d' t' s' where d': "td_handle_key assoc_config sample_keys 66 sample_td = Inr d'"
      "running_t d' = Some t'" "running_s d' = Some s'" "t_state t' = Teacher_Running.RUNNING" "s_state s' \<noteq> RUNNING"
    by (simp add: td_handle_key_def sample_td_def key_handle_def key_running_handle_def s_key_handle_def
        key_handle_running_def sample_teacher_def sample_student_def s_mask_on_def)
  have "\<exists>t' s'. running_t d' = Some t' \<and> running_s d' = Some s' \<and>
      (t_state t' = Teacher_Running.RUNNING \<or> s_state s' = RUNNING)"
    by (rule keys_start_one_side[OF _ _ _ _ d'(1), of sample_teacher sample_student])
      (simp_all add: sample_td_def sample_teacher_def sample_student_def)
  with d' show ?thesis by auto
qed

theorem key_before_sides_crashes_witness:
  "\<exists>d. tdt_alloc (assoc_config\<lparr>kv_open := (\<lambda>_. [(''debug'', ''1'')])\<rparr>) ''room.cfg'' = Inr d \<and>
     window_turn (assoc_config\<lparr>kv_open := (\<lambda>_. [(''debug'', ''1'')])\<rparr>) sample_keys 27 d = Inl Null_Ptr"
proof -
  let ?K = "assoc_config\<lparr>kv_open := (\<lambda>_. [(''debug'', ''1'')])\<rparr>"
  obtain d w where d: "tdt_alloc ?K ''room.cfg'' = Inr d" "key_thread d = Some w"
    by (simp add: tdt_alloc_def cfg_int_def cfg_str_def assoc_config_def text_number Let_def)
  from key_before_sides_crashes[OF d, of 27] d(1) show ?thesis by auto
qed

theorem teacher_side_alone_witness:
  "\<exists>t'. teacher_alone assoc_config [Td_turn sample_keys 98, Td_student_click True 1 2, Td_teacher_click True 3 4] 1
     sample_teacher = Inr t' \<and> calibrations t' = [(3, 4)]"
proof -
  let ?es = "[Td_turn sample_keys 98, Td_student_click True 1 2, Td_teacher_click True 3 4]"
  obtain d' where d': "td_events assoc_config ?es sample_td = Inr d'"
      "map_option calibrations (running_t d') = Some [(3, 4)]"
    by (simp add: window_turn_def td_handle_key_def sample_td_def key_handle_def key_running_handle_def s_key_handle_def
        key_handle_running_def sample_teacher_def sample_student_def mouse_cb_student_detect_def mouse_cb_teacher_detect_def
        mouse_detected_def s_mouse_detected_def calibrating_def mask_on_def)
  from teacher_side_alone[OF d'(1), of sample_teacher] d'(2) show ?thesis by (auto simp: sample_td_def)
qed

definition sleeping_td :: "(string \<times> string) list tdt" where
  "sleeping_td = sample_td\<lparr>running_t := Some (with_ptz ((ptz_start True)\<lparr>worker_pc := P_Wait\<rparr>) sample_teacher)\<rparr>"

text \<open>From the call on: the window thread finishes its turn and ends.\<close>

theorem tdt_close_hangs_witness:
  "\<exists>d'. td_close_steps assoc_config (Close_Key, Win_Wait, sleeping_td) (Close_Teacher, Win_Over, d') \<and> td_cfg_t d' = []"
proof -
  let ?k = "Some (show_turn (WindowThread_open True True))"
  let ?d1 = "sleeping_td\<lparr>key_thread := ?k\<rparr>"
  let ?d2 = "sleeping_td\<lparr>key_thread := None\<rparr>"
  have "td_close_step assoc_config (Close_Key, Win_Wait, sleeping_td) (Close_Join, Win_Wait, sleeping_td)"
    by (rule closer) (simp add: tdt_close_def sleeping_td_def sample_td_def)
  with td_close_steps.stay have "td_close_steps assoc_config (Close_Key, Win_Wait, sleeping_td) (Close_Join, Win_Wait, sleeping_td)"
    by (rule td_close_steps.go)
  moreover have "td_close_step assoc_config (Close_Join, Win_Wait, sleeping_td) (Close_Join, Win_Test, ?d1)"
    by (rule window_key[of _ _ "-1"]) (simp add: window_turn_def sleeping_td_def sample_td_def)
  ultimately have "td_close_steps assoc_config (Close_Key, Win_Wait, sleeping_td) (Close_Join, Win_Test, ?d1)"
    by (rule td_close_steps.go)
  moreover have "td_close_step assoc_config (Close_Join, Win_Test, ?d1) (Close_Join, Win_Over, ?d1)"
    using window_test[of ?d1 assoc_config Close_Join] by simp
  ultimately have over: "td_close_steps assoc_config (Close_Key, Win_Wait, sleeping_td) (Close_Join, Win_Over, ?d1)"
    by (rule td_close_steps.go)
  have last_step: "td_close_step assoc_config (Close_Join, Win_Over, ?d1) (Close_Teacher, Win_Over, ?d2)"
    by (rule closer) (simp add: tdt_close_def)
  with td_close_steps.stay have joined: "td_close_steps assoc_config (Close_Join, Win_Over, ?d1) (Close_Teacher, Win_Over, ?d2)"
    by (rule td_close_steps.go)
  have "td_cfg_t ?d2 = td_cfg_t ?d1"
    using tdt_close_hangs[OF _ _ _ _ joined, of "with_ptz ((ptz_start True)\<lparr>worker_pc := P_Wait\<rparr>) sample_teacher"]
    by (simp add: window_over_def sleeping_td_def with_ptz_def asleep_def ptz_start_def)
  moreover have "td_close_steps assoc_config (Close_Key, Win_Wait, sleeping_td) (Close_Teacher, Win_Over, ?d2)"
    using over last_step by (rule td_close_steps.go)
  ultimately show ?thesis by (intro exI[of _ ?d2]) (simp add: sleeping_td_def sample_td_def)
qed

end
