(* ===== verification/Http_Main.thy ===== *)
theory Http_Main
  imports Thread_Pool Http_Server
begin

text \<open>
  \<open>httpsrv/server.c\<close>: the main thread, which opens the listening socket, starts a pool of eight workers
  and hands every accepted connection to it. The main thread is the only one that adds tasks; the
  workers move between any two of its steps. What the system calls answer is an input of each step.
\<close>

section \<open>State\<close>

datatype main_pc = M_Socket | M_Bind | M_Listen | M_Create | M_Accept | M_Add | M_Adding | M_Exit int

text \<open>\<open>clients\<close> is the heap of \<open>build_client\<close>; the argument of a task is the number of its client, the
  handler is the same for all. \<open>closed\<close> are the sockets \<open>main\<close> closes.\<close>

record server =
  main_pc :: main_pc
  lsock :: int
  tp :: "pool option"
  clients :: "client list"
  closed :: "int list"

definition HANDLE :: nat where "HANDLE = 0"

definition server_start :: server where
  "server_start = \<lparr>main_pc = M_Socket, lsock = -1, tp = None, clients = [], closed = []\<rparr>"

section \<open>Steps\<close>

definition give_up :: "server \<Rightarrow> server" where
  "give_up s = s\<lparr>closed := closed s @ [lsock s], main_pc := M_Exit (-1)\<rparr>"

definition on_pool :: "(pool \<Rightarrow> pool result) \<Rightarrow> server \<Rightarrow> server result" where
  "on_pool f s = (case tp s of None \<Rightarrow> Inl Null_Ptr | Some p \<Rightarrow> bind_r (f p) (\<lambda>p. Inr (s\<lparr>tp := Some p\<rparr>)))"

definition server_main :: "int \<Rightarrow> server \<Rightarrow> server result" where
  "server_main ans s =
     (case main_pc s of
        M_Socket \<Rightarrow> Inr (if ans = -1 then s\<lparr>main_pc := M_Exit (-1)\<rparr> else s\<lparr>lsock := ans, main_pc := M_Bind\<rparr>)
      | M_Bind \<Rightarrow> Inr (if ans = -1 then give_up s else s\<lparr>main_pc := M_Listen\<rparr>)
      | M_Listen \<Rightarrow> Inr (if ans = -1 then give_up s else s\<lparr>main_pc := M_Create\<rparr>)
      | M_Create \<Rightarrow> Inr (s\<lparr>tp := Some (simple_thread_pool_create 8 1), main_pc := M_Accept\<rparr>)
      | M_Accept \<Rightarrow> Inr (if ans = -1 then give_up s else s\<lparr>clients := clients s @ [build_client ans], main_pc := M_Add\<rparr>)
      | M_Add \<Rightarrow>
          on_pool (\<lambda>p. Inr (set_adder 0 (A_Lock (simple_task_create HANDLE (length (clients s) - 1))) p))
            (s\<lparr>main_pc := M_Adding\<rparr>)
      | M_Adding \<Rightarrow>
          (case tp s of None \<Rightarrow> Inl Null_Ptr
           | Some p \<Rightarrow> if adders p ! 0 = A_Idle then Inr (s\<lparr>main_pc := M_Accept\<rparr>)
                       else on_pool (simple_thread_pool_add_task 0) s)
      | M_Exit rc \<Rightarrow> Inl Would_Block)"

text \<open>The process ends with \<open>main\<close>: the workers move only until then.\<close>

definition running :: "server \<Rightarrow> bool" where
  "running s \<longleftrightarrow> (\<forall>rc. main_pc s \<noteq> M_Exit rc)"

inductive server_step :: "server \<Rightarrow> server \<Rightarrow> bool" where
  main_thread: "server_main ans s = Inr s' \<Longrightarrow> server_step s s'"
| a_worker: "running s \<Longrightarrow> tp s = Some p \<Longrightarrow> i < length (workers p) \<Longrightarrow> on_pool (thread_proc i) s = Inr s' \<Longrightarrow> server_step s s'"

inductive server_reachable :: "server \<Rightarrow> bool" where
  start: "server_reachable server_start"
| step: "server_reachable s \<Longrightarrow> server_step s s' \<Longrightarrow> server_reachable s'"

section \<open>Every connection once, in order\<close>

text \<open>The task of the connection accepted last, until it is in the pool.\<close>

definition on_the_way :: "server \<Rightarrow> pool \<Rightarrow> task_t list" where
  "on_the_way s p =
     (case main_pc s of
        M_Add \<Rightarrow> [simple_task_create HANDLE (length (clients s) - 1)]
      | M_Adding \<Rightarrow> (case adders p ! 0 of A_Lock t \<Rightarrow> [t] | A_Append t \<Rightarrow> [t] | _ \<Rightarrow> [])
      | _ \<Rightarrow> [])"

definition all_tasks :: "nat \<Rightarrow> task_t list" where
  "all_tasks n = map (simple_task_create HANDLE) [0..<n]"

definition server_inv :: "server \<Rightarrow> bool" where
  "server_inv s \<longleftrightarrow>
     (case tp s of
        None \<Rightarrow> clients s = [] \<and> main_pc s \<noteq> M_Accept \<and> main_pc s \<noteq> M_Add \<and> main_pc s \<noteq> M_Adding
      | Some p \<Rightarrow> pool_reachable 8 1 p \<and> destroyer p = D_Idle \<and> length (adders p) = 1 \<and>
          main_pc s \<notin> {M_Socket, M_Bind, M_Listen, M_Create} \<and>
          (main_pc s \<noteq> M_Adding \<longrightarrow> adders p ! 0 = A_Idle) \<and> (main_pc s = M_Add \<longrightarrow> clients s \<noteq> []) \<and>
          added p @ on_the_way s p = all_tasks (length (clients s)))"

lemma all_tasks_Suc: "all_tasks (Suc n) = all_tasks n @ [simple_task_create HANDLE n]"
  by (simp add: all_tasks_def)

lemma thread_proc_keeps:
  "thread_proc i p = Inr p' \<Longrightarrow> added p' = added p \<and> adders p' = adders p \<and> destroyer p' = destroyer p"
  by (erule thread_procE) (auto split: option.split)

lemma server_worker_inv:
  assumes "server_inv s" and "tp s = Some p" and "i < length (workers p)" and "on_pool (thread_proc i) s = Inr s'"
  shows "server_inv s'"
proof -
  obtain p' where p': "thread_proc i p = Inr p'" "s' = s\<lparr>tp := Some p'\<rparr>" using assms(2,4) by (auto simp: on_pool_def)
  have "pool_step p p'" using assms(3) p'(1) by (rule pool_step.worker)
  then have "pool_reachable 8 1 p'" using assms(1,2) by (auto simp: server_inv_def intro: pool_reachable.step)
  with assms(1,2) p'(2) thread_proc_keeps[OF p'(1)] show ?thesis
    by (auto simp: server_inv_def on_the_way_def split: main_pc.splits)
qed

lemma server_adding_inv:
  assumes "server_inv s" and "main_pc s = M_Adding" and "server_main ans s = Inr s'"
  shows "server_inv s'"
proof -
  obtain p where p: "tp s = Some p" "pool_reachable 8 1 p" "destroyer p = D_Idle" "length (adders p) = 1"
      "added p @ on_the_way s p = all_tasks (length (clients s))"
    using assms(1,2) by (auto simp: server_inv_def split: option.splits)
  show ?thesis
  proof (cases "adders p ! 0 = A_Idle")
    case True
    with p assms(2,3) show ?thesis by (auto simp: server_main_def server_inv_def on_the_way_def)
  next
    case False
    then obtain p' where p': "simple_thread_pool_add_task 0 p = Inr p'" "s' = s\<lparr>tp := Some p'\<rparr>"
      using p(1) assms(2,3) by (auto simp: server_main_def on_pool_def)
    have "pool_step p p'" by (rule pool_step.add[of 0]) (simp_all add: p(4) p'(1))
    then have "pool_reachable 8 1 p'" by (rule pool_reachable.step[OF p(2)])
    moreover have "added p' @ on_the_way s' p' = all_tasks (length (clients s))" "destroyer p' = D_Idle" "length (adders p') = 1"
      using p'(1) p(3-5) assms(2) p'(2)
      by (auto simp: simple_thread_pool_add_task_def on_the_way_def Let_def split: apc.splits)
    ultimately show ?thesis using p'(2) assms(2) by (simp add: server_inv_def)
  qed
qed

lemma created:
  "pool_reachable 8 (Suc 0) (simple_thread_pool_create 8 (Suc 0))" "destroyer (simple_thread_pool_create 8 k) = D_Idle"
  "adders (simple_thread_pool_create 8 (Suc 0)) = [A_Idle]" "added (simple_thread_pool_create 8 k) = []"
  by (rule pool_reachable.start) (simp_all add: simple_thread_pool_create_def)

lemma server_main_inv:
  assumes "server_inv s" and "server_main ans s = Inr s'"
  shows "server_inv s'"
proof (cases "main_pc s")
  case M_Accept
  with assms obtain p where p: "tp s = Some p" "pool_reachable 8 1 p" "destroyer p = D_Idle" "length (adders p) = 1"
      "adders p ! 0 = A_Idle" "added p = all_tasks (length (clients s))"
    by (auto simp: server_inv_def on_the_way_def split: option.splits)
  with M_Accept assms(2) show ?thesis
    by (auto simp: server_main_def server_inv_def on_the_way_def give_up_def all_tasks_Suc)
next
  case M_Add
  with assms obtain p where p: "tp s = Some p" "pool_reachable 8 1 p" "destroyer p = D_Idle" "length (adders p) = 1"
      "adders p ! 0 = A_Idle" "clients s \<noteq> []" "added p @ on_the_way s p = all_tasks (length (clients s))"
    by (auto simp: server_inv_def split: option.splits)
  let ?t = "simple_task_create HANDLE (length (clients s) - 1)"
  have "pool_step p (set_adder 0 (A_Lock ?t) p)" by (rule pool_step.submit) (simp_all add: p(3-5))
  then have "pool_reachable 8 1 (set_adder 0 (A_Lock ?t) p)" by (rule pool_reachable.step[OF p(2)])
  with M_Add assms(2) p show ?thesis
    by (auto simp: server_main_def server_inv_def on_the_way_def on_pool_def)
next
  case M_Adding
  with assms show ?thesis by (blast intro: server_adding_inv)
next
  case M_Create
  with assms show ?thesis
    by (auto simp: server_main_def server_inv_def on_the_way_def all_tasks_def created split: option.splits)
qed (use assms in \<open>auto simp: server_main_def server_inv_def give_up_def split: option.splits if_splits\<close>)

lemma server_reachable_inv: "server_reachable s \<Longrightarrow> server_inv s"
proof (induction rule: server_reachable.induct)
  case start
  show ?case by (simp add: server_start_def server_inv_def)
next
  case (step s s')
  from step.hyps(2) show ?case
    by cases (use step.IH in \<open>blast intro: server_main_inv server_worker_inv\<close>)+
qed

lemma distinct_part:
  assumes "mset xs = mset ys + M" and "distinct xs"
  shows "distinct ys"
proof -
  obtain zs where "mset zs = M" using ex_mset by blast
  with assms(1) have "mset xs = mset (ys @ zs)" by simp
  with assms(2) have "distinct (ys @ zs)" using mset_eq_imp_distinct_iff by blast
  then show ?thesis by simp
qed

lemma distinct_all_tasks: "distinct (all_tasks n)"
  by (auto simp: all_tasks_def distinct_map inj_on_def simple_task_create_def)

text \<open>C10: in every reachable state of the server, whatever the system answers and the threads do, the connections
  accepted so far are, in the order of \<open>accept\<close>, those the workers took, those queued and the one still
  on its way into the pool; none is handed to its handler twice, none before it was accepted, and the
  pool is never destroyed under the workers.\<close>

theorem server_serves_each_once:
  assumes "server_reachable s" and "tp s = Some p"
  shows "popped p @ tasks p @ on_the_way s p = all_tasks (length (clients s)) \<and> distinct (ran p) \<and>
    set (ran p) \<subseteq> set (popped p) \<and> destroyer p = D_Idle"
proof -
  have inv: "pool_reachable 8 1 p" "destroyer p = D_Idle" "added p @ on_the_way s p = all_tasks (length (clients s))"
    using server_reachable_inv[OF assms(1)] assms(2) by (auto simp: server_inv_def)
  from reachable_inv[OF inv(1)] have pool: "added p = popped p @ tasks p" "mset (popped p) = mset (ran p) + held (workers p)"
    using inv(2) by (auto simp: pool_inv_def hist_inv_def run_inv_def)
  have "distinct (popped p)" using distinct_all_tasks[of "length (clients s)"] inv(3) pool(1) by (metis distinct_append)
  then have "distinct (ran p)"
    using distinct_part[OF pool(2)] by simp
  moreover have "set (ran p) \<subseteq> set (popped p)" using pool(2) by (metis mset_subset_eq_add_left set_mset_mono set_mset_mset)
  ultimately show ?thesis using inv(2,3) pool(1) by simp
qed

text \<open>any failure of \<open>accept\<close>, also a passing one, ends the program: nothing moves any more, so the
  connections still queued are never answered.\<close>

theorem accept_failure_drops_queue:
  assumes "main_pc s = M_Accept" and "tp s = Some p"
  shows "\<exists>s'. server_main (-1) s = Inr s' \<and> tp s' = Some p \<and> closed s' = closed s @ [lsock s] \<and> (\<forall>s2. \<not> server_step s' s2)"
proof -
  have "server_main (-1) s = Inr (give_up s)" using assms(1) by (simp add: server_main_def)
  moreover have "\<not> server_step (give_up s) s2" for s2
    by (auto simp: give_up_def server_main_def running_def elim!: server_step.cases)
  ultimately show ?thesis using assms(2) by (simp add: give_up_def)
qed

text \<open>A run: the sockets are opened, one connection is accepted and added, a worker takes it.\<close>

fun server_moves :: "int list \<Rightarrow> server \<Rightarrow> server result" where
  "server_moves [] s = Inr s"
| "server_moves (a # as) s = bind_r (server_main a s) (server_moves as)"

lemma server_moves_reachable: "server_reachable s \<Longrightarrow> server_moves as s = Inr s' \<Longrightarrow> server_reachable s'"
proof (induction as arbitrary: s)
  case (Cons a as)
  then obtain s1 where "server_main a s = Inr s1" "server_moves as s1 = Inr s'" by auto
  with Cons show ?case by (blast intro: server_reachable.step server_step.main_thread)
qed simp

lemma sample_server:
  "\<exists>s p. server_moves [3, 0, 0, 0, 5, 0, 0, 0, 0, 0, 0] server_start = Inr s \<and> tp s = Some p \<and> main_pc s = M_Accept \<and>
     tasks p = [simple_task_create HANDLE 0]"
  by (simp add: server_start_def server_main_def on_pool_def simple_thread_pool_create_def set_adder_def
      simple_thread_pool_add_task_def simple_mutex_create_def simple_mutex_lock_def simple_mutex_unlock_def
      simple_sem_post_def simple_sem_create_def pool_thread_cnt_def Let_def numeral_nat)

theorem server_serves_each_once_witness:
  "\<exists>s p. server_reachable s \<and> tp s = Some p \<and> tasks p = [simple_task_create HANDLE 0] \<and> distinct (ran p) \<and>
     destroyer p = D_Idle"
proof -
  obtain s p where s: "server_moves [3, 0, 0, 0, 5, 0, 0, 0, 0, 0, 0] server_start = Inr s" "tp s = Some p"
      "tasks p = [simple_task_create HANDLE 0]"
    using sample_server by blast
  have "server_reachable s" by (rule server_moves_reachable[OF server_reachable.start s(1)])
  with server_serves_each_once[OF this s(2)] s(2,3) show ?thesis by blast
qed

theorem accept_failure_drops_queue_witness:
  "\<exists>s s' p. server_main (-1) s = Inr s' \<and> tp s' = Some p \<and> tasks p = [simple_task_create HANDLE 0]"
  using sample_server accept_failure_drops_queue by metis

end
