(* ===== verification/Http_Memory.thy ===== *)
theory Http_Memory
  imports Http_Message Memory
begin

text \<open>
  Who owns which block of memory: the operations of \<open>src/src/httpc.c\<close>, those of
  \<open>src/src/httpparser.c\<close> that allocate, and \<open>httpc_Message_release\<close>, on a heap that knows which
  blocks are allocated. A message is its text (\<open>Http_Message\<close>) together with the blocks behind its
  pointers; the theory shows that every block is freed once and none is left behind.
\<close>

section \<open>Messages and their blocks\<close>

text \<open>\<open>nodes\<close> has the blocks of a header's node, key and value, in the order of the headers.\<close>

record owned =
  text_of :: HttpMessage
  self :: nat
  p1_b :: "nat option"
  p2_b :: "nat option"
  p3_b :: "nat option"
  nodes :: "(nat \<times> nat \<times> nat) list"
  body_b :: "nat option"
  pri_b :: "nat option"
  line_b :: "nat option"

definition own_create :: "memory \<Rightarrow> owned \<times> memory" where
  "own_create mem =
     (let (b, mem) = malloc mem
      in (\<lparr>text_of = httpc_Message_create, self = b, p1_b = None, p2_b = None, p3_b = None, nodes = [],
           body_b = None, pri_b = None, line_b = None\<rparr>, mem))"

definition own_startline :: "HttpMessage \<Rightarrow> owned \<Rightarrow> memory \<Rightarrow> (owned \<times> memory) result" where
  "own_startline m h mem =
     bind_r (new_block (p1_b h) mem) (\<lambda>(a, mem).
     bind_r (new_block (p2_b h) mem) (\<lambda>(b, mem).
     bind_r (new_block (p3_b h) mem) (\<lambda>(c, mem).
     Inr (h\<lparr>text_of := m, p1_b := Some a, p2_b := Some b, p3_b := Some c\<rparr>, mem))))"

definition own_setStartLine :: "string \<Rightarrow> string \<Rightarrow> string \<Rightarrow> owned \<Rightarrow> memory \<Rightarrow> (owned \<times> memory) result" where
  "own_setStartLine a b c h mem =
     own_startline (the (httpc_Message_setStartLine (Some (text_of h)) (Some a) (Some b) (Some c))) h mem"

definition own_setValue :: "string \<Rightarrow> string \<Rightarrow> owned \<Rightarrow> memory \<Rightarrow> owned \<times> memory" where
  "own_setValue k v h mem =
     (let (n, mem) = malloc mem; (a, mem) = malloc mem; (b, mem) = malloc mem
      in (h\<lparr>text_of := fst (httpc_Message_setValue (text_of h) k v), nodes := (n, a, b) # nodes h\<rparr>, mem))"

definition free_node :: "nat \<times> nat \<times> nat \<Rightarrow> memory \<Rightarrow> memory result" where
  "free_node x mem =
     (case x of (n, a, b) \<Rightarrow>
        bind_r (free_block a mem) (\<lambda>mem. bind_r (free_block b mem) (\<lambda>mem. free_block n mem)))"

text \<open>The nodes left, each with its header.\<close>

fun del_nodes ::
    "string \<Rightarrow> (http_header \<times> nat \<times> nat \<times> nat) list \<Rightarrow> memory \<Rightarrow> ((http_header \<times> nat \<times> nat \<times> nat) list \<times> memory) result" where
  "del_nodes key [] mem = Inr ([], mem)"
| "del_nodes key ((kv, x) # xs) mem =
     (if str_case_eq (fst kv) key
      then bind_r (free_node x mem) (del_nodes key xs)
      else bind_r (del_nodes key xs mem) (\<lambda>(ys, mem). Inr ((kv, x) # ys, mem)))"

definition own_delValue :: "string \<Rightarrow> owned \<Rightarrow> memory \<Rightarrow> (owned \<times> memory) result" where
  "own_delValue key h mem =
     bind_r (del_nodes key (zip (headers (text_of h)) (nodes h)) mem) (\<lambda>(ys, mem).
     Inr (h\<lparr>text_of := fst (httpc_Message_delValue (text_of h) key), nodes := map snd ys\<rparr>, mem))"

definition own_appendBody :: "string \<Rightarrow> int \<Rightarrow> owned \<Rightarrow> memory \<Rightarrow> (owned \<times> memory) result" where
  "own_appendBody d len h mem =
     (if len = 0 then Inr (h, mem)
      else
        bind_r (grow_body (text_of h) d len) (\<lambda>m.
        bind_r (new_block (body_b h) mem) (\<lambda>(b, mem).
        Inr (own_setValue ''Content-Length'' (dec_str (nat (bodylen m mod 2 ^ 32))) (h\<lparr>text_of := m, body_b := Some b\<rparr>) mem))))"

definition own_clearBody :: "owned \<Rightarrow> memory \<Rightarrow> (owned \<times> memory) result" where
  "own_clearBody h mem =
     bind_r (safefree (body_b h) mem) (\<lambda>mem.
     Inr (h\<lparr>text_of := the (httpc_Message_clearBody (Some (text_of h))), body_b := None\<rparr>, mem))"

section \<open>The parser's blocks\<close>

text \<open>A new message gets its \<open>ParserData\<close>; the line buffer grows by \<open>realloc\<close>; \<open>parseStartLine\<close> and
  \<open>parseHeaderLine\<close> work on temporary blocks; the part of the body a round of the loop copies (or, in
  \<open>appendByte\<close>, a single byte of it) reallocates the body.\<close>

definition own_parser :: "memory \<Rightarrow> owned \<times> memory" where
  "own_parser mem = (let (h, mem) = own_create mem; (b, mem) = malloc mem in (h\<lparr>pri_b := Some b\<rparr>, mem))"

definition own_line :: "owned \<Rightarrow> memory \<Rightarrow> (owned \<times> memory) result" where
  "own_line h mem =
     (if pri_b h = None then Inl Null_Ptr
      else bind_r (new_block (line_b h) mem) (\<lambda>(b, mem). Inr (h\<lparr>line_b := Some b\<rparr>, mem)))"

definition own_parseStartLine :: "string \<Rightarrow> string \<Rightarrow> string \<Rightarrow> owned \<Rightarrow> memory \<Rightarrow> (owned \<times> memory) result" where
  "own_parseStartLine a b c h mem =
     (let (tmp, mem) = malloc mem in
      bind_r (own_startline ((text_of h)\<lparr>p1 := Some a, p2 := Some b, p3 := Some c\<rparr>) h mem) (\<lambda>(h, mem).
      bind_r (free_block tmp mem) (\<lambda>mem. Inr (h, mem))))"

definition own_parseHeaderLine :: "string \<Rightarrow> string \<Rightarrow> owned \<Rightarrow> memory \<Rightarrow> (owned \<times> memory) result" where
  "own_parseHeaderLine k v h mem =
     (let (key, mem) = malloc mem; (val, mem) = malloc mem; (h, mem) = own_setValue k v h mem in
      bind_r (free_block key mem) (\<lambda>mem. bind_r (free_block val mem) (\<lambda>mem. Inr (h, mem))))"

definition own_body_part :: "string \<Rightarrow> int \<Rightarrow> owned \<Rightarrow> memory \<Rightarrow> (owned \<times> memory) result" where
  "own_body_part d len h mem =
     bind_r (grow_body (text_of h) d len) (\<lambda>m.
     bind_r (new_block (body_b h) mem) (\<lambda>(b, mem). Inr (h\<lparr>text_of := m, body_b := Some b\<rparr>, mem)))"

section \<open>Release\<close>

definition releaseParserData :: "owned \<Rightarrow> memory \<Rightarrow> memory result" where
  "releaseParserData h mem =
     (case pri_b h of None \<Rightarrow> Inr mem
      | Some b \<Rightarrow> bind_r (safefree (line_b h) mem) (free_block b))"

fun free_nodes :: "(nat \<times> nat \<times> nat) list \<Rightarrow> memory \<Rightarrow> memory result" where
  "free_nodes [] mem = Inr mem"
| "free_nodes (x # xs) mem = bind_r (free_node x mem) (free_nodes xs)"

definition httpc_Message_release :: "owned \<Rightarrow> memory \<Rightarrow> memory result" where
  "httpc_Message_release h mem =
     bind_r (safefree (p1_b h) mem) (\<lambda>mem.
     bind_r (safefree (p2_b h) mem) (\<lambda>mem.
     bind_r (safefree (p3_b h) mem) (\<lambda>mem.
     bind_r (free_nodes (nodes h) mem) (\<lambda>mem.
     bind_r (safefree (body_b h) mem) (\<lambda>mem.
     bind_r (releaseParserData h mem) (free_block (self h)))))))"

section \<open>Any use of a message\<close>

datatype own_op =
    Op_setStartLine string string string
  | Op_setValue string string
  | Op_delValue string
  | Op_appendBody string int
  | Op_clearBody
  | Op_line
  | Op_parseStartLine string string string
  | Op_parseHeaderLine string string
  | Op_body_part string int

fun own_step :: "own_op \<Rightarrow> owned \<times> memory \<Rightarrow> (owned \<times> memory) result" where
  "own_step (Op_setStartLine a b c) (h, mem) = own_setStartLine a b c h mem"
| "own_step (Op_setValue k v) (h, mem) = Inr (own_setValue k v h mem)"
| "own_step (Op_delValue k) (h, mem) = own_delValue k h mem"
| "own_step (Op_appendBody d len) (h, mem) = own_appendBody d len h mem"
| "own_step Op_clearBody (h, mem) = own_clearBody h mem"
| "own_step Op_line (h, mem) = own_line h mem"
| "own_step (Op_parseStartLine a b c) (h, mem) = own_parseStartLine a b c h mem"
| "own_step (Op_parseHeaderLine k v) (h, mem) = own_parseHeaderLine k v h mem"
| "own_step (Op_body_part d len) (h, mem) = own_body_part d len h mem"

fun own_run :: "own_op list \<Rightarrow> owned \<times> memory \<Rightarrow> (owned \<times> memory) result" where
  "own_run [] x = Inr x"
| "own_run (op # ops) x = bind_r (own_step op x) (own_run ops)"

section \<open>Ownership\<close>

definition node_ms :: "nat \<times> nat \<times> nat \<Rightarrow> nat multiset" where
  "node_ms x = (case x of (n, a, b) \<Rightarrow> {#n, a, b#})"

definition nodes_ms :: "(nat \<times> nat \<times> nat) list \<Rightarrow> nat multiset" where
  "nodes_ms xs = sum_list (map node_ms xs)"

lemma nodes_ms_simps [simp]: "nodes_ms [] = {#}" "nodes_ms (x # xs) = node_ms x + nodes_ms xs"
  by (simp_all add: nodes_ms_def)

definition pri_ms :: "owned \<Rightarrow> nat multiset" where
  "pri_ms h = opt_ms (pri_b h) + (if pri_b h = None then {#} else opt_ms (line_b h))"

definition own_blocks :: "owned \<Rightarrow> nat multiset" where
  "own_blocks h = {#self h#} + opt_ms (p1_b h) + opt_ms (p2_b h) + opt_ms (p3_b h) + nodes_ms (nodes h) +
     opt_ms (body_b h) + pri_ms h"

lemma pri_ms_upd [simp]:
  "pri_ms (h\<lparr>text_of := m\<rparr>) = pri_ms h" "pri_ms (h\<lparr>p1_b := x\<rparr>) = pri_ms h" "pri_ms (h\<lparr>p2_b := x\<rparr>) = pri_ms h"
  "pri_ms (h\<lparr>p3_b := x\<rparr>) = pri_ms h" "pri_ms (h\<lparr>nodes := ns\<rparr>) = pri_ms h" "pri_ms (h\<lparr>body_b := x\<rparr>) = pri_ms h"
  by (simp_all add: pri_ms_def)

lemma free_node_has:
  assumes "heap_has base (node_ms x + M) mem"
  shows "\<exists>mem'. free_node x mem = Inr mem' \<and> heap_has base M mem'"
proof -
  obtain n a b where x: "x = (n, a, b)" by (cases x)
  have "heap_has base (add_mset a (add_mset b (add_mset n M))) mem" using assms x by (simp add: node_ms_def add_mset_commute)
  then obtain m1 where m1: "free_block a mem = Inr m1" "heap_has base (add_mset b (add_mset n M)) m1" using free_block_has by blast
  then obtain m2 where m2: "free_block b m1 = Inr m2" "heap_has base (add_mset n M) m2" using free_block_has by blast
  then obtain m3 where "free_block n m2 = Inr m3" "heap_has base M m3" using free_block_has by blast
  with m1 m2 x show ?thesis by (simp add: free_node_def)
qed

lemma free_nodes_has:
  "heap_has base (nodes_ms xs + M) mem \<Longrightarrow> \<exists>mem'. free_nodes xs mem = Inr mem' \<and> heap_has base M mem'"
proof (induction xs arbitrary: mem)
  case (Cons x xs)
  then have "heap_has base (node_ms x + (nodes_ms xs + M)) mem" by (simp add: add.assoc)
  then obtain m1 where "free_node x mem = Inr m1" "heap_has base (nodes_ms xs + M) m1" using free_node_has by blast
  with Cons.IH show ?case by simp
qed simp

lemma del_nodes_has:
  "heap_has base (nodes_ms (map snd xs) + M) mem \<Longrightarrow>
   \<exists>mem'. del_nodes key xs mem = Inr (filter (\<lambda>x. \<not> str_case_eq (fst (fst x)) key) xs, mem') \<and>
     heap_has base (nodes_ms (map snd (filter (\<lambda>x. \<not> str_case_eq (fst (fst x)) key) xs)) + M) mem'"
proof (induction xs arbitrary: mem M)
  case (Cons z xs)
  obtain kv x where z: "z = (kv, x)" by (cases z)
  show ?case
  proof (cases "str_case_eq (fst kv) key")
    case True
    have "heap_has base (node_ms x + (nodes_ms (map snd xs) + M)) mem" using Cons.prems z by (simp add: add.assoc)
    then obtain m1 where "free_node x mem = Inr m1" "heap_has base (nodes_ms (map snd xs) + M) m1" using free_node_has by blast
    with True z Cons.IH show ?thesis by simp
  next
    case False
    have "heap_has base (nodes_ms (map snd xs) + (node_ms x + M)) mem" using Cons.prems z by (simp add: ac_simps)
    with Cons.IH[of "node_ms x + M" mem] False z show ?thesis by (auto simp: ac_simps)
  qed
qed simp

text \<open>The blocks of a message among those of others, \<open>R\<close>, in use for the moment.\<close>

definition owns :: "nat set \<Rightarrow> nat multiset \<Rightarrow> owned \<Rightarrow> memory \<Rightarrow> bool" where
  "owns base R h mem \<longleftrightarrow> heap_has base (own_blocks h + R) mem \<and> length (nodes h) = length (headers (text_of h))"

lemma ownsI:
  assumes "heap_has base M mem" and "M = own_blocks h + R" and "length (nodes h) = length (headers (text_of h))"
  shows "owns base R h mem"
  using assms by (simp add: owns_def)

lemma ownsD:
  assumes "owns base R h mem" and "own_blocks h + R = M"
  shows "heap_has base M mem"
  using assms by (simp add: owns_def)

lemma owns_length: "owns base R h mem \<Longrightarrow> length (nodes h) = length (headers (text_of h))"
  by (simp add: owns_def)

lemmas ms_eq = own_blocks_def multiset_eq_iff

lemma own_startline_owns:
  assumes "owns base R h mem" and "headers m = headers (text_of h)"
  shows "\<exists>h' mem'. own_startline m h mem = Inr (h', mem') \<and> owns base R h' mem'"
proof -
  let ?X = "{#self h#} + nodes_ms (nodes h) + opt_ms (body_b h) + pri_ms h + R"
  have "heap_has base (opt_ms (p1_b h) + (opt_ms (p2_b h) + (opt_ms (p3_b h) + ?X))) mem"
    by (rule ownsD[OF assms(1)]) (simp add: ms_eq)
  then obtain a m1 where 1: "new_block (p1_b h) mem = Inr (a, m1)"
      "heap_has base (add_mset a (opt_ms (p2_b h) + (opt_ms (p3_b h) + ?X))) m1" using new_block_has by blast
  then have "heap_has base (opt_ms (p2_b h) + (opt_ms (p3_b h) + add_mset a ?X)) m1" by simp
  then obtain b m2 where 2: "new_block (p2_b h) m1 = Inr (b, m2)"
      "heap_has base (add_mset b (opt_ms (p3_b h) + add_mset a ?X)) m2" using new_block_has by blast
  then have "heap_has base (opt_ms (p3_b h) + add_mset a (add_mset b ?X)) m2" by (simp add: add_mset_commute)
  then obtain c m3 where 3: "new_block (p3_b h) m2 = Inr (c, m3)" "heap_has base (add_mset c (add_mset a (add_mset b ?X))) m3"
    using new_block_has by blast
  let ?h = "h\<lparr>text_of := m, p1_b := Some a, p2_b := Some b, p3_b := Some c\<rparr>"
  have "owns base R ?h m3"
    by (rule ownsI[OF 3(2)]) (simp_all add: ms_eq assms(2) owns_length[OF assms(1)])
  with 1 2 3 show ?thesis by (simp add: own_startline_def)
qed

lemma own_setValue_owns:
  assumes "owns base R h mem" and "own_setValue k v h mem = (h', mem')"
  shows "owns base R h' mem'"
proof -
  obtain n m1 a m2 b m3 where m: "malloc mem = (n, m1)" "malloc m1 = (a, m2)" "malloc m2 = (b, m3)"
    by (cases "malloc mem"; cases "malloc (snd (malloc mem))"; cases "malloc (snd (malloc (snd (malloc mem))))") auto
  let ?M = "own_blocks h + R"
  have "heap_has base ?M mem" using assms(1) by (simp add: owns_def)
  from malloc_has[OF this] m(1) have "heap_has base (add_mset n ?M) m1" by simp
  from malloc_has[OF this] m(2) have "heap_has base (add_mset a (add_mset n ?M)) m2" by simp
  from malloc_has[OF this] m(3) have b: "heap_has base (add_mset b (add_mset a (add_mset n ?M))) m3" by simp
  have h': "h' = h\<lparr>text_of := fst (httpc_Message_setValue (text_of h) k v), nodes := (n, a, b) # nodes h\<rparr>" "mem' = m3"
    using assms(2) m by (simp_all add: own_setValue_def)
  show ?thesis
    unfolding h' by (rule ownsI[OF b]) (simp_all add: ms_eq node_ms_def httpc_Message_setValue_def owns_length[OF assms(1)])
qed

lemma own_delValue_owns:
  assumes "owns base R h mem"
  shows "\<exists>h' mem'. own_delValue k h mem = Inr (h', mem') \<and> owns base R h' mem'"
proof -
  let ?z = "zip (headers (text_of h)) (nodes h)" and ?P = "\<lambda>x :: http_header \<times> nat \<times> nat \<times> nat. \<not> str_case_eq (fst (fst x)) k"
  let ?X = "{#self h#} + opt_ms (p1_b h) + opt_ms (p2_b h) + opt_ms (p3_b h) + opt_ms (body_b h) + pri_ms h + R"
  have l: "length (nodes h) = length (headers (text_of h))" using assms by (simp add: owns_def)
  then have z: "map snd ?z = nodes h" "map fst ?z = headers (text_of h)" by simp_all
  have "heap_has base (nodes_ms (map snd ?z) + ?X) mem" by (rule ownsD[OF assms]) (simp add: ms_eq z(1))
  from del_nodes_has[OF this, of k] obtain mem' where m: "del_nodes k ?z mem = Inr (filter ?P ?z, mem')"
      "heap_has base (nodes_ms (map snd (filter ?P ?z)) + ?X) mem'" by blast
  have "length (filter ?P ?z) = length (filter (\<lambda>h. \<not> str_case_eq (fst h) k) (map fst ?z))"
    by (simp add: filter_map comp_def)
  then have "length (filter ?P ?z) = length (filter (\<lambda>h. \<not> str_case_eq (fst h) k) (headers (text_of h)))"
    unfolding z(2) .
  then have "owns base R (h\<lparr>text_of := fst (httpc_Message_delValue (text_of h) k), nodes := map snd (filter ?P ?z)\<rparr>) mem'"
    by (intro ownsI[OF m(2)]) (simp_all add: ms_eq httpc_Message_delValue_def)
  with m(1) show ?thesis by (simp add: own_delValue_def)
qed

lemma body_block_owns:
  assumes "owns base R h mem" and "headers m = headers (text_of h)"
  shows "\<exists>b mem'. new_block (body_b h) mem = Inr (b, mem') \<and> owns base R (h\<lparr>text_of := m, body_b := Some b\<rparr>) mem'"
proof -
  let ?X = "{#self h#} + opt_ms (p1_b h) + opt_ms (p2_b h) + opt_ms (p3_b h) + nodes_ms (nodes h) + pri_ms h + R"
  have "heap_has base (opt_ms (body_b h) + ?X) mem" by (rule ownsD[OF assms(1)]) (simp add: ms_eq)
  then obtain b mem' where b: "new_block (body_b h) mem = Inr (b, mem')" "heap_has base (add_mset b ?X) mem'"
    using new_block_has by blast
  have "owns base R (h\<lparr>text_of := m, body_b := Some b\<rparr>) mem'"
    by (rule ownsI[OF b(2)]) (simp_all add: ms_eq assms(2) owns_length[OF assms(1)])
  with b(1) show ?thesis by blast
qed

lemma own_clearBody_owns:
  assumes "owns base R h mem"
  shows "\<exists>h' mem'. own_clearBody h mem = Inr (h', mem') \<and> owns base R h' mem'"
proof -
  let ?X = "{#self h#} + opt_ms (p1_b h) + opt_ms (p2_b h) + opt_ms (p3_b h) + nodes_ms (nodes h) + pri_ms h + R"
  have "heap_has base (opt_ms (body_b h) + ?X) mem" by (rule ownsD[OF assms(1)]) (simp add: ms_eq)
  then obtain mem' where f: "safefree (body_b h) mem = Inr mem'" "heap_has base ?X mem'" using safefree_has by blast
  have "owns base R (h\<lparr>text_of := the (httpc_Message_clearBody (Some (text_of h))), body_b := None\<rparr>) mem'"
    by (rule ownsI[OF f(2)]) (simp_all add: ms_eq httpc_Message_clearBody_def owns_length[OF assms])
  with f(1) show ?thesis by (simp add: own_clearBody_def)
qed

lemma own_line_owns:
  assumes "owns base R h mem" and "pri_b h \<noteq> None"
  shows "\<exists>h' mem'. own_line h mem = Inr (h', mem') \<and> owns base R h' mem'"
proof -
  let ?X = "{#self h#} + opt_ms (p1_b h) + opt_ms (p2_b h) + opt_ms (p3_b h) + nodes_ms (nodes h) + opt_ms (body_b h) +
    opt_ms (pri_b h) + R"
  obtain q where q: "pri_b h = Some q" using assms(2) by auto
  have "heap_has base (opt_ms (line_b h) + ?X) mem"
    by (rule ownsD[OF assms(1)]) (simp add: ms_eq q pri_ms_def)
  then obtain b mem' where b: "new_block (line_b h) mem = Inr (b, mem')" "heap_has base (add_mset b ?X) mem'"
    using new_block_has by blast
  have "owns base R (h\<lparr>line_b := Some b\<rparr>) mem'"
    by (rule ownsI[OF b(2)]) (simp_all add: ms_eq q pri_ms_def owns_length[OF assms(1)])
  with b(1) q show ?thesis by (simp add: own_line_def)
qed

text \<open>A temporary block.\<close>

lemma temporary_block:
  assumes "owns base R h mem" and "malloc mem = (b, mem')"
  shows "owns base (add_mset b R) h mem'"
  using malloc_has[of base "own_blocks h + R" mem] assms by (simp add: owns_def)

lemma temporary_freed:
  assumes "owns base (add_mset b R) h mem"
  shows "\<exists>mem'. free_block b mem = Inr mem' \<and> owns base R h mem'"
  using free_block_has[of base b "own_blocks h + R" mem] assms by (simp add: owns_def)

lemma own_parseStartLine_owns:
  assumes "owns base R h mem"
  shows "\<exists>h' mem'. own_parseStartLine a b c h mem = Inr (h', mem') \<and> owns base R h' mem'"
proof -
  obtain tmp m1 where m1: "malloc mem = (tmp, m1)" by (cases "malloc mem")
  let ?m = "(text_of h)\<lparr>p1 := Some a, p2 := Some b, p3 := Some c\<rparr>"
  have "headers ?m = headers (text_of h)" by simp
  from own_startline_owns[OF temporary_block[OF assms m1] this] obtain h' m2 where m2: "own_startline ((text_of h)\<lparr>p1 := Some a, p2 := Some b, p3 := Some c\<rparr>) h m1 = Inr (h', m2)"
      "owns base (add_mset tmp R) h' m2" by blast
  from temporary_freed[OF m2(2)] m1 m2(1) show ?thesis by (auto simp: own_parseStartLine_def)
qed

lemma own_parseHeaderLine_owns:
  assumes "owns base R h mem"
  shows "\<exists>h' mem'. own_parseHeaderLine k v h mem = Inr (h', mem') \<and> owns base R h' mem'"
proof -
  obtain key m1 where m1: "malloc mem = (key, m1)" by (cases "malloc mem")
  obtain val m2 where m2: "malloc m1 = (val, m2)" by (cases "malloc m1")
  obtain h' m3 where m3: "own_setValue k v h m2 = (h', m3)" by (cases "own_setValue k v h m2")
  have "owns base (add_mset val (add_mset key R)) h m2" using temporary_block[OF temporary_block[OF assms m1] m2] .
  from own_setValue_owns[OF this m3] have "owns base (add_mset key (add_mset val R)) h' m3" by (simp add: add_mset_commute)
  then obtain m4 where m4: "free_block key m3 = Inr m4" "owns base (add_mset val R) h' m4" using temporary_freed by blast
  from temporary_freed[OF m4(2)] m1 m2 m3 m4(1) show ?thesis by (auto simp: own_parseHeaderLine_def)
qed

text \<open>Growing the body may fail, but not by freeing.\<close>

lemma grow_body_fault: "grow_body m d len = Inl e \<Longrightarrow> e \<noteq> Bad_Free"
  by (auto simp: grow_body_def c_int_def mem_read_def check_r_def bind_r_def Let_def split: if_splits sum.splits)

lemma grow_body_headers: "grow_body m d len = Inr m' \<Longrightarrow> headers m' = headers m"
  by (auto simp: grow_body_def Let_def)

definition step_fine :: "nat set \<Rightarrow> nat multiset \<Rightarrow> (owned \<times> memory) result \<Rightarrow> bool" where
  "step_fine base R r \<longleftrightarrow> (case r of Inl e \<Rightarrow> e \<noteq> Bad_Free | Inr (h, mem) \<Rightarrow> owns base R h mem)"

lemma step_fineI: "\<exists>h mem. r = Inr (h, mem) \<and> owns base R h mem \<Longrightarrow> step_fine base R r"
  by (auto simp: step_fine_def)

lemma own_appendBody_fine: "owns base R h mem \<Longrightarrow> step_fine base R (own_appendBody d len h mem)"
proof (cases "len = 0 \<or> (\<exists>e. grow_body (text_of h) d len = Inl e)")
  case True
  assume "owns base R h mem"
  with True show ?thesis by (auto simp: own_appendBody_def step_fine_def dest: grow_body_fault)
next
  case False
  assume o: "owns base R h mem"
  from False obtain m where m: "len \<noteq> 0" "grow_body (text_of h) d len = Inr m" by (metis sum.exhaust)
  from body_block_owns[OF o grow_body_headers[OF m(2)]] obtain b mem' where
    b: "new_block (body_b h) mem = Inr (b, mem')" "owns base R (h\<lparr>text_of := m, body_b := Some b\<rparr>) mem'" by blast
  obtain h' mem2 where s: "own_setValue ''Content-Length'' (dec_str (nat (bodylen m mod 2 ^ 32)))
      (h\<lparr>text_of := m, body_b := Some b\<rparr>) mem' = (h', mem2)" by fastforce
  from own_setValue_owns[OF b(2) s] m b(1) s show ?thesis by (simp add: own_appendBody_def step_fine_def)
qed

lemma own_body_part_fine: "owns base R h mem \<Longrightarrow> step_fine base R (own_body_part d len h mem)"
proof (cases "grow_body (text_of h) d len")
  case (Inl e)
  then show ?thesis by (simp add: own_body_part_def step_fine_def grow_body_fault)
next
  case (Inr m)
  assume "owns base R h mem"
  from body_block_owns[OF this grow_body_headers[OF Inr]] Inr show ?thesis by (auto simp: own_body_part_def step_fine_def)
qed

lemma own_step_fine:
  assumes "owns base R h mem"
  shows "step_fine base R (own_step op (h, mem))"
proof (cases op)
  case (Op_setStartLine a b c)
  have "headers (the (httpc_Message_setStartLine (Some (text_of h)) (Some a) (Some b) (Some c))) = headers (text_of h)"
    by (simp add: httpc_Message_setStartLine_def)
  from own_startline_owns[OF assms this] Op_setStartLine show ?thesis by (auto simp: own_setStartLine_def intro: step_fineI)
next
  case (Op_setValue k v)
  obtain h' mem' where "own_setValue k v h mem = (h', mem')" by fastforce
  with own_setValue_owns[OF assms this] Op_setValue show ?thesis by (simp add: step_fine_def)
next
  case Op_line
  then show ?thesis
    using own_line_owns[OF assms] by (cases "pri_b h") (auto simp: own_line_def step_fine_def)
qed (use assms in \<open>auto intro: own_appendBody_fine own_body_part_fine own_delValue_owns[THEN step_fineI]
    own_clearBody_owns[THEN step_fineI] own_parseStartLine_owns[THEN step_fineI] own_parseHeaderLine_owns[THEN step_fineI]\<close>)

lemma own_run_fine: "owns base R h mem \<Longrightarrow> step_fine base R (own_run ops (h, mem))"
proof (induction ops arbitrary: h mem)
  case (Cons op ops)
  from own_step_fine[OF Cons.prems, of op] show ?case
    by (cases "own_step op (h, mem)") (auto simp: step_fine_def dest: Cons.IH)
qed (simp add: step_fine_def)

lemma own_create_owns:
  assumes "heap_has base R mem" and "own_create mem = (h, mem')"
  shows "owns base R h mem'"
  using malloc_has[OF assms(1)] assms(2)
  by (auto simp: own_create_def owns_def own_blocks_def pri_ms_def httpc_Message_create_def Let_def split: prod.splits)

lemma own_parser_owns:
  assumes "heap_has base R mem" and "own_parser mem = (h, mem')"
  shows "owns base R h mem'"
proof -
  obtain h1 m1 where c: "own_create mem = (h1, m1)" by fastforce
  have h1: "owns base R h1 m1" "pri_b h1 = None" "line_b h1 = None"
    using own_create_owns[OF assms(1) c] c by (auto simp: own_create_def split: prod.splits)
  obtain b m2 where m: "malloc m1 = (b, m2)" by fastforce
  have b: "heap_has base (add_mset b (own_blocks h1 + R)) m2" using temporary_block[OF h1(1) m] by (simp add: owns_def)
  have "owns base R (h1\<lparr>pri_b := Some b\<rparr>) m2"
    by (rule ownsI[OF b]) (simp_all add: ms_eq pri_ms_def h1(2,3) owns_length[OF h1(1)])
  with c m assms(2) show ?thesis by (simp add: own_parser_def)
qed

lemma release_frees:
  assumes "owns base R h mem"
  shows "\<exists>mem'. httpc_Message_release h mem = Inr mem' \<and> heap_has base R mem'"
proof -
  let ?P = "pri_ms h" and ?B = "opt_ms (body_b h)"
  have "heap_has base (opt_ms (p1_b h) + (opt_ms (p2_b h) + (opt_ms (p3_b h) + (nodes_ms (nodes h) + (?B + (?P + add_mset (self h) R)))))) mem"
    by (rule ownsD[OF assms]) (simp add: ms_eq)
  then obtain m1 where 1: "safefree (p1_b h) mem = Inr m1"
      "heap_has base (opt_ms (p2_b h) + (opt_ms (p3_b h) + (nodes_ms (nodes h) + (?B + (?P + add_mset (self h) R))))) m1"
    using safefree_has by blast
  then obtain m2 where 2: "safefree (p2_b h) m1 = Inr m2"
      "heap_has base (opt_ms (p3_b h) + (nodes_ms (nodes h) + (?B + (?P + add_mset (self h) R)))) m2" using safefree_has by blast
  then obtain m3 where 3: "safefree (p3_b h) m2 = Inr m3" "heap_has base (nodes_ms (nodes h) + (?B + (?P + add_mset (self h) R))) m3"
    using safefree_has by blast
  then obtain m4 where 4: "free_nodes (nodes h) m3 = Inr m4" "heap_has base (?B + (?P + add_mset (self h) R)) m4"
    using free_nodes_has by blast
  then obtain m5 where 5: "safefree (body_b h) m4 = Inr m5" "heap_has base (?P + add_mset (self h) R) m5"
    using safefree_has by blast
  have "\<exists>m6. releaseParserData h m5 = Inr m6 \<and> heap_has base (add_mset (self h) R) m6"
  proof (cases "pri_b h")
    case (Some b)
    have "?P + add_mset (self h) R = opt_ms (line_b h) + add_mset b (add_mset (self h) R)" by (simp add: ms_eq pri_ms_def Some)
    then have "heap_has base (opt_ms (line_b h) + add_mset b (add_mset (self h) R)) m5" using 5(2) by metis
    then obtain m where m: "safefree (line_b h) m5 = Inr m" "heap_has base (add_mset b (add_mset (self h) R)) m"
      using safefree_has by blast
    with free_block_has[OF m(2)] Some show ?thesis by (simp add: releaseParserData_def)
  qed (use 5 in \<open>simp add: releaseParserData_def pri_ms_def\<close>)
  then obtain m6 where 6: "releaseParserData h m5 = Inr m6" "heap_has base (add_mset (self h) R) m6" by blast
  from free_block_has[OF 6(2)] 1(1) 2(1) 3(1) 4(1) 5(1) 6(1) show ?thesis by (simp add: httpc_Message_release_def)
qed

section \<open>No block twice, none left\<close>

definition mem_ok :: "memory \<Rightarrow> bool" where
  "mem_ok mem \<longleftrightarrow> (\<forall>b\<in>blocks mem. b < fresh mem)"

lemma mem_ok_holds: "mem_ok mem \<longleftrightarrow> heap_has (blocks mem) {#} mem"
  by (simp add: mem_ok_def heap_has_def)

text \<open>C19: a message owns its memory: whatever is done with it, made by \<open>httpc_Message_create\<close> or by the parser,
  no block is ever freed twice, and \<open>httpc_Message_release\<close> then gives back exactly what was allocated
  since; nothing is left and nothing of others is touched.\<close>

theorem message_owns_memory:
  assumes "mem_ok mem" and "(h, mem1) = own_create mem \<or> (h, mem1) = own_parser mem"
  shows "case own_run ops (h, mem1) of Inl e \<Rightarrow> e \<noteq> Bad_Free
    | Inr (h2, mem2) \<Rightarrow> \<exists>mem3. httpc_Message_release h2 mem2 = Inr mem3 \<and> blocks mem3 = blocks mem"
proof -
  have "owns (blocks mem) {#} h mem1"
    using assms by (auto simp: mem_ok_holds dest!: sym[of "(h, mem1)"] intro: own_create_owns own_parser_owns)
  from own_run_fine[OF this, of ops] show ?thesis
  proof (cases "own_run ops (h, mem1)")
    case (Inr x)
    obtain h2 mem2 where x: "x = (h2, mem2)" by (cases x)
    with Inr own_run_fine[OF \<open>owns (blocks mem) {#} h mem1\<close>, of ops] have "owns (blocks mem) {#} h2 mem2"
      by (simp add: step_fine_def)
    from release_frees[OF this] Inr x show ?thesis by (auto simp: heap_has_def)
  qed (simp add: step_fine_def)
qed

section \<open>Instances\<close>

definition sample_memory :: memory where
  "sample_memory = \<lparr>blocks = {0}, fresh = 1\<rparr>"

definition sample_ops :: "own_op list" where
  "sample_ops = [Op_line, Op_parseStartLine ''GET'' ''/'' ''HTTP/1.0'', Op_parseHeaderLine ''Host'' ''x'', Op_delValue ''host'']"

lemma sample_memory_ok: "mem_ok sample_memory"
  by (simp add: mem_ok_def sample_memory_def)

theorem message_owns_memory_witness:
  "\<exists>h mem1 h2 mem2 mem3. own_parser sample_memory = (h, mem1) \<and> own_run sample_ops (h, mem1) = Inr (h2, mem2) \<and>
     httpc_Message_release h2 mem2 = Inr mem3 \<and> blocks mem3 = {0}"
proof -
  obtain h mem1 where p: "own_parser sample_memory = (h, mem1)" by fastforce
  have "\<exists>x. own_run sample_ops (h, mem1) = Inr x"
    using p by (auto simp: sample_ops_def own_parser_def own_create_def malloc_def sample_memory_def own_line_def
        new_block_def safefree_def own_parseStartLine_def own_startline_def own_parseHeaderLine_def own_setValue_def
        free_block_def own_delValue_def httpc_Message_create_def httpc_Message_setValue_def make_kvpair_def free_node_def Let_def)
  then obtain h2 mem2 where r: "own_run sample_ops (h, mem1) = Inr (h2, mem2)" by auto
  from message_owns_memory[OF sample_memory_ok, of h mem1 sample_ops] p r show ?thesis by (auto simp: sample_memory_def)
qed

end
