(* ===== verification/Connection_Memory.thy ===== *)
theory Connection_Memory
  imports Http_Server Http_Memory
begin

text \<open>
  The memory of the server's connections: \<open>handle\<close> of \<open>src/httpsrv/client.c\<close> with everything it
  allocates, on the heap of \<open>Memory\<close>: the blocks of the URL (\<open>src/src/urlparser.c\<close>), of the request
  and the response, the \<open>FILE\<close> of a file that is sent (\<open>src/httpsrv/httprequest.c\<close>), the buffer of
  \<open>send_res\<close>, and what \<open>main\<close> and the pool allocate around it. Every function here has the text of its
  counterpart in \<open>Http_Server\<close> and \<open>Url_Parser\<close> with the heap carried through, and is proved to do
  what that does, fault and answer alike. While the request is received, the operations on its blocks
  are any sequence of those of \<open>Http_Memory\<close>.
\<close>

section \<open>Results that may not come\<close>

definition bind_l :: "'a result option \<Rightarrow> ('a \<Rightarrow> 'b result option) \<Rightarrow> 'b result option" where
  "bind_l m f = (case m of None \<Rightarrow> None | Some (Inl e) \<Rightarrow> Some (Inl e) | Some (Inr x) \<Rightarrow> f x)"

lemma bind_l_simps [simp]:
  "bind_l None f = None" "bind_l (Some (Inl e)) f = Some (Inl e)" "bind_l (Some (Inr x)) f = f x"
  by (simp_all add: bind_l_def)

text \<open>Both do not return, both have the same fault, or both return and the values are related.\<close>

definition agrees :: "('a \<Rightarrow> 'b \<Rightarrow> bool) \<Rightarrow> 'a result option \<Rightarrow> 'b result option \<Rightarrow> bool" where
  "agrees P r s \<longleftrightarrow>
     (case r of None \<Rightarrow> s = None | Some (Inl e) \<Rightarrow> s = Some (Inl e) | Some (Inr x) \<Rightarrow> \<exists>y. s = Some (Inr y) \<and> P x y)"

lemma agrees_Inr [simp]: "agrees P (Some (Inr x)) (Some (Inr y)) = P x y"
  and agrees_Inl [simp]: "agrees P (Some (Inl e)) (Some (Inl e))"
  and agrees_None [simp]: "agrees P None None"
  by (simp_all add: agrees_def)

lemma agrees_bind:
  assumes "agrees P r s" and "\<And>x y. P x y \<Longrightarrow> agrees Q (f x) (g y)"
  shows "agrees Q (bind_l r f) (bind_l s g)"
  using assms by (auto simp: agrees_def[of P] split: option.splits sum.splits)

text \<open>The same computation on both sides.\<close>

lemma agrees_bind_same:
  assumes "\<And>x. r = Some (Inr x) \<Longrightarrow> agrees Q (f x) (g x)"
  shows "agrees Q (bind_l r f) (bind_l r g)"
  using assms by (cases r rule: option.exhaust; cases "the r") (auto simp: agrees_def)

lemma agrees_mono: "agrees P r s \<Longrightarrow> (\<And>x y. P x y \<Longrightarrow> Q x y) \<Longrightarrow> agrees Q r s"
  by (auto simp: agrees_def split: option.splits sum.splits)

section \<open>The URL\<close>

text \<open>The blocks behind a \<open>url_t\<close>; \<open>pairs_b\<close> has those of a pair's node, key and value, first node first.\<close>

record owned_url =
  url_text :: url_t
  url_b :: nat
  schema_b :: nat
  path_b :: nat
  query_b :: nat
  fragment_b :: nat
  username_b :: nat
  passwd_b :: nat
  host_b :: nat
  port_b :: nat
  pairs_b :: "(nat \<times> nat \<times> nat) list"

text \<open>\<open>n\<close> pairs, each put in front; \<open>str\<close> is the copy \<open>strtok\<close> works on.\<close>

fun own_pairs :: "nat \<Rightarrow> (nat \<times> nat \<times> nat) list \<Rightarrow> memory \<Rightarrow> (nat \<times> nat \<times> nat) list \<times> memory" where
  "own_pairs 0 xs mem = (xs, mem)"
| "own_pairs (Suc n) xs mem =
     (let (kv, mem) = malloc mem; (k, mem) = malloc mem; (v, mem) = malloc mem in own_pairs n ((kv, k, v) # xs) mem)"

definition own_parse_query :: "nat \<Rightarrow> memory \<Rightarrow> ((nat \<times> nat \<times> nat) list \<times> memory) result" where
  "own_parse_query n mem =
     (let (str, mem) = malloc mem; (xs, mem) = own_pairs n [] mem in
      bind_r (free_block str mem) (\<lambda>mem. Inr (xs, mem)))"

definition own_url_parse :: "matcher \<Rightarrow> matcher \<Rightarrow> string \<Rightarrow> memory \<Rightarrow> (owned_url option \<times> memory) result" where
  "own_url_parse reg_url reg_auth str mem =
     bind_r (simple_url_parse reg_url reg_auth str) (\<lambda>u.
     case u of None \<Rightarrow> Inr (None, mem)
     | Some u \<Rightarrow>
         let (url, mem) = malloc mem; (authority, mem) = malloc mem;
             (sc, mem) = malloc mem; (pa, mem) = malloc mem; (qu, mem) = malloc mem; (fr, mem) = malloc mem in
         bind_r (own_parse_query (length (query_pairs u)) mem) (\<lambda>(xs, mem).
         let (us, mem) = malloc mem; (pw, mem) = malloc mem; (ho, mem) = malloc mem; (po, mem) = malloc mem in
         bind_r (free_block authority mem) (\<lambda>mem.
         Inr (Some \<lparr>url_text = u, url_b = url, schema_b = sc, path_b = pa, query_b = qu, fragment_b = fr,
                    username_b = us, passwd_b = pw, host_b = ho, port_b = po, pairs_b = xs\<rparr>, mem))))"

definition own_url_release :: "owned_url \<Rightarrow> memory \<Rightarrow> memory result" where
  "own_url_release u mem =
     bind_r (free_nodes (pairs_b u) mem)
       (release_all free_block [username_b u, passwd_b u, host_b u, port_b u, fragment_b u, path_b u, query_b u,
          schema_b u, url_b u])"

section \<open>Answering\<close>

text \<open>The stream of \<open>fopen\<close> is a block that \<open>fclose\<close> frees. The header is built on the stack.\<close>

definition own_send_local_file ::
    "file_system \<Rightarrow> client \<Rightarrow> owned \<Rightarrow> string \<Rightarrow> world \<Rightarrow> memory \<Rightarrow> (owned \<times> int \<times> world \<times> memory) result option" where
  "own_send_local_file fs c res filename w mem =
     (let size = (case stat_ans fs filename of None \<Rightarrow> 0 | Some (_, n) \<Rightarrow> n);
          vbuf = dec_str (nat (size mod 2 ^ 32)) in
      bind_l (Some (get_context_type_from_ext (strrchr_dot filename))) (\<lambda>ct.
      let (res, mem) = own_setValue ''Content-Type'' ct res mem;
          (res, mem) = own_setValue ''Content-Length'' vbuf res mem in
      bind_l (Some (httpc_Message_get_encode_length (Some (text_of res)) False)) (\<lambda>alen.
      bind_l (Some (c_int (alen + 1))) (\<lambda>room.
      bind_l (Some (httpc_Message_encode (text_of res) (replicate (nat room) NUL) False)) (\<lambda>abuf.
      case send_data (c_sock c) (take (nat alen) abuf) w of
        (rc, w) \<Rightarrow>
          if rc < 0 then Some (Inr (res, -1, w, mem))
          else (case os_fopen fs filename w of
                  (fp, w) \<Rightarrow>
                    if fp = 0 then Some (Inr (res, -1, w, mem))
                    else
                      let (stream, mem) = malloc mem in
                      bind_l (map_option Inr (send_file_loop (c_sock c) fp 1 w)) (\<lambda>(err, w).
                      bind_l (Some (free_block stream mem)) (\<lambda>mem.
                      Some (Inr (res, err, os_fclose fp w, mem))))))))))"

definition own_ret_404 :: "owned \<Rightarrow> string \<Rightarrow> memory \<Rightarrow> (owned \<times> int \<times> memory) result" where
  "own_ret_404 res name mem =
     (let body = take 1023 (''NOT found '' @ name) in
      bind_r (own_setStartLine ''HTTP/1.0'' ''404'' ''File Not Found'' res mem) (\<lambda>(res, mem).
      let (res, mem) = own_setValue ''Content-Type'' ''text/plain'' res mem in
      bind_r (own_appendBody (body @ [NUL]) (int (length body) + 1) res mem) (\<lambda>(res, mem). Inr (res, 0, mem))))"

definition own_http_request ::
    "file_system \<Rightarrow> client \<Rightarrow> url_t \<Rightarrow> owned \<Rightarrow> world \<Rightarrow> memory \<Rightarrow> (owned \<times> int \<times> world \<times> memory) result option" where
  "own_http_request fs c url res w mem =
     bind_l (Some (build_filename 1024 (cwd fs) (path url))) (\<lambda>filename.
     if is_local_file fs filename then own_send_local_file fs c res filename w mem
     else bind_l (Some (own_ret_404 res filename mem)) (\<lambda>(res, rc, mem). Some (Inr (res, rc, w, mem))))"

definition own_handle_http ::
    "file_system \<Rightarrow> matcher \<Rightarrow> matcher \<Rightarrow> client \<Rightarrow> HttpMessage \<Rightarrow> owned \<Rightarrow> world \<Rightarrow> memory \<Rightarrow>
     (owned \<times> int \<times> world \<times> memory) result option" where
  "own_handle_http fs rx_url rx_auth c req res w mem =
     (case p2 req of
        None \<Rightarrow> Some (Inl Null_Ptr)
      | Some p \<Rightarrow>
          bind_l (Some (own_url_parse rx_url rx_auth p mem)) (\<lambda>(u, mem).
          case u of
            None \<Rightarrow> Some (Inr (res, -1, w, mem))
          | Some u \<Rightarrow>
              bind_l (own_http_request fs c (url_text u) res w mem) (\<lambda>(res, rc, w, mem).
              bind_l (Some (own_url_release u mem)) (\<lambda>mem.
              Some (Inr (res, rc, w, mem))))))"

text \<open>The buffer is freed on both ways out of the loop.\<close>

definition own_send_res :: "client \<Rightarrow> owned \<Rightarrow> world \<Rightarrow> memory \<Rightarrow> (int \<times> world \<times> memory) result" where
  "own_send_res c res w mem =
     bind_r (httpc_Message_get_encode_length (Some (text_of res)) True) (\<lambda>len.
     bind_r (c_int (len + 1)) (\<lambda>room.
     let (b, mem) = malloc mem in
     bind_r (httpc_Message_encode (text_of res) (replicate (nat room) NUL) True) (\<lambda>buf.
     case send_data (c_sock c) (take (nat len) buf) w of
       (rc, w) \<Rightarrow> bind_r (free_block b mem) (\<lambda>mem. Inr (rc, w, mem)))))"

section \<open>The request and the response\<close>

text \<open>The first \<open>recv\<close> brings a byte, so a message is made; \<open>ops\<close> is what the parser does with its blocks
  until \<open>make_request\<close> returns it, or releases it.\<close>

definition some_byte :: "client \<Rightarrow> world \<Rightarrow> bool" where
  "some_byte c w = (case os_recv (c_sock c) 1 w of ((Some (ch # _), _), _) \<Rightarrow> True | _ \<Rightarrow> False)"

definition own_make_request ::
    "client \<Rightarrow> own_op list \<Rightarrow> world \<Rightarrow> memory \<Rightarrow> ((HttpMessage \<times> owned) option \<times> world \<times> memory) result option" where
  "own_make_request c ops w mem =
     bind_l (make_request c w) (\<lambda>(req, w').
     if \<not> some_byte c w then Some (Inr (None, w', mem))
     else
       bind_l (Some (own_run ops (own_parser mem))) (\<lambda>(h, mem).
       case req of
         Some m \<Rightarrow> Some (Inr (Some (m, h), w', mem))
       | None \<Rightarrow> bind_l (Some (httpc_Message_release h mem)) (\<lambda>mem. Some (Inr (None, w', mem)))))"

definition own_default_response :: "memory \<Rightarrow> (owned \<times> memory) result" where
  "own_default_response mem =
     (let (res, mem) = own_create mem in
      bind_r (own_setStartLine ''HTTP/1.0'' ''200'' ''OK'' res mem) (\<lambda>(res, mem).
      let (res, mem) = own_setValue ''Server'' ''test_http_srv 1.0'' res mem in
      Inr (own_setValue ''Connection'' ''Close'' res mem)))"

section \<open>One connection\<close>

text \<open>\<open>t\<close> is the block of the task. The client, which \<open>opaque\<close> points to, is never freed.\<close>

definition own_finish :: "client \<Rightarrow> nat \<Rightarrow> world \<Rightarrow> memory \<Rightarrow> (world \<times> memory) result option" where
  "own_finish c t w mem = bind_l (Some (free_block t mem)) (\<lambda>mem. Some (Inr (os_close (c_sock c) w, mem)))"

definition own_release_both :: "owned \<Rightarrow> owned \<Rightarrow> memory \<Rightarrow> memory result" where
  "own_release_both req res mem = bind_r (httpc_Message_release req mem) (httpc_Message_release res)"

definition own_handle ::
    "file_system \<Rightarrow> matcher \<Rightarrow> matcher \<Rightarrow> client \<Rightarrow> nat \<Rightarrow> own_op list \<Rightarrow> world \<Rightarrow> memory \<Rightarrow> (world \<times> memory) result option" where
  "own_handle fs rx_url rx_auth c t ops w mem =
     bind_l (own_make_request c ops w mem) (\<lambda>(req, w, mem).
     case req of
       None \<Rightarrow> own_finish c t w mem
     | Some (m, h) \<Rightarrow>
         bind_l (Some (own_default_response mem)) (\<lambda>(res, mem).
         bind_l (own_handle_http fs rx_url rx_auth c m res w mem) (\<lambda>(res, rc, w, mem).
         if rc < 0 then
           bind_l (Some (own_release_both h res mem)) (\<lambda>mem. own_finish c t w mem)
         else if rc > 0 then
           bind_l (Some (own_release_both h res mem)) (\<lambda>mem. own_finish c t w mem)
         else
           bind_l (Some (own_send_res c res w mem)) (\<lambda>(rc, w, mem).
           bind_l (Some (own_release_both h res mem)) (\<lambda>mem. own_finish c t w mem)))))"

text \<open>What surrounds it: \<open>main\<close> makes the client and the task, \<open>add_task\<close> the node of the pool's list, which
  the worker frees before it calls \<open>handle\<close>.\<close>

definition serve_connection ::
    "file_system \<Rightarrow> matcher \<Rightarrow> matcher \<Rightarrow> int \<Rightarrow> own_op list \<Rightarrow> world \<Rightarrow> memory \<Rightarrow> (world \<times> memory) result option" where
  "serve_connection fs rx_url rx_auth s ops w mem =
     (let (c, mem) = malloc mem; (t, mem) = malloc mem; (n, mem) = malloc mem in
      bind_l (Some (free_block n mem)) (\<lambda>mem. own_handle fs rx_url rx_auth (build_client s) t ops w mem))"

fun serve_connections ::
    "file_system \<Rightarrow> matcher \<Rightarrow> matcher \<Rightarrow> (int \<times> own_op list) list \<Rightarrow> world \<Rightarrow> memory \<Rightarrow> (world \<times> memory) result option" where
  "serve_connections fs rx_url rx_auth [] w mem = Some (Inr (w, mem))"
| "serve_connections fs rx_url rx_auth (x # xs) w mem =
     bind_l (serve_connection fs rx_url rx_auth (fst x) (snd x) w mem) (\<lambda>(w, mem).
     serve_connections fs rx_url rx_auth xs w mem)"

text \<open>The same connections without the heap.\<close>

fun answer_connections ::
    "file_system \<Rightarrow> matcher \<Rightarrow> matcher \<Rightarrow> int list \<Rightarrow> world \<Rightarrow> world result option" where
  "answer_connections fs rx_url rx_auth [] w = Some (Inr w)"
| "answer_connections fs rx_url rx_auth (s # ss) w =
     bind_l (handle fs rx_url rx_auth (build_client s) w) (answer_connections fs rx_url rx_auth ss)"

section \<open>The URL's blocks\<close>

definition url_ms :: "owned_url \<Rightarrow> nat multiset" where
  "url_ms u = nodes_ms (pairs_b u) + mset [username_b u, passwd_b u, host_b u, port_b u, fragment_b u, path_b u, query_b u,
     schema_b u, url_b u]"

lemma mallocE:
  assumes "heap_has base M mem"
  obtains b mem' where "malloc mem = (b, mem')" and "heap_has base (add_mset b M) mem'"
  using blk.alloc_hasE[OF assms] .

lemma own_pairs_has:
  "heap_has base (nodes_ms xs + M) mem \<Longrightarrow>
   \<exists>ys mem'. own_pairs n xs mem = (ys, mem') \<and> heap_has base (nodes_ms ys + M) mem'"
proof (induction n arbitrary: xs mem)
  case (Suc n)
  obtain a m1 where 1: "malloc mem = (a, m1)" "heap_has base (add_mset a (nodes_ms xs + M)) m1" using mallocE[OF Suc.prems] .
  obtain b m2 where 2: "malloc m1 = (b, m2)" "heap_has base (add_mset b (add_mset a (nodes_ms xs + M))) m2" using mallocE[OF 1(2)] .
  obtain c m3 where 3: "malloc m2 = (c, m3)" "heap_has base (add_mset c (add_mset b (add_mset a (nodes_ms xs + M)))) m3"
    using mallocE[OF 2(2)] .
  have "add_mset c (add_mset b (add_mset a (nodes_ms xs + M))) = nodes_ms ((a, b, c) # xs) + M"
    by (simp add: node_ms_def multiset_eq_iff)
  with Suc.IH[of "(a, b, c) # xs" m3] 1(1) 2(1) 3 show ?case by simp
qed simp

lemma own_parse_query_has:
  assumes "heap_has base M mem"
  shows "\<exists>xs mem'. own_parse_query n mem = Inr (xs, mem') \<and> heap_has base (nodes_ms xs + M) mem'"
proof -
  obtain s m1 where 1: "malloc mem = (s, m1)" "heap_has base (add_mset s M) m1" using mallocE[OF assms] .
  then obtain xs m2 where 2: "own_pairs n [] m1 = (xs, m2)" "heap_has base (nodes_ms xs + add_mset s M) m2"
    using own_pairs_has[of base "[]" "add_mset s M" m1 n] by auto
  then have "heap_has base (add_mset s (nodes_ms xs + M)) m2" by simp
  from free_block_has[OF this] 1(1) 2(1) show ?thesis by (auto simp: own_parse_query_def)
qed

lemma own_url_parse_has:
  assumes "heap_has base M mem"
  shows "agrees (\<lambda>u (v, mem'). map_option url_text v = u \<and>
      heap_has base ((case v of None \<Rightarrow> {#} | Some v \<Rightarrow> url_ms v) + M) mem')
    (Some (simple_url_parse rx_url rx_auth p)) (Some (own_url_parse rx_url rx_auth p mem))"
proof (cases "simple_url_parse rx_url rx_auth p")
  case (Inl e)
  then show ?thesis by (simp add: own_url_parse_def)
next
  case (Inr v)
  show ?thesis
  proof (cases v)
    case None
    with Inr assms show ?thesis by (simp add: own_url_parse_def)
  next
    case (Some u)
    obtain a m1 where 1: "malloc mem = (a, m1)" "heap_has base (add_mset a M) m1" using mallocE[OF assms] .
    obtain b m2 where 2: "malloc m1 = (b, m2)" "heap_has base (add_mset b (add_mset a M)) m2" using mallocE[OF 1(2)] .
    obtain c m3 where 3: "malloc m2 = (c, m3)" "heap_has base (add_mset c (add_mset b (add_mset a M))) m3" using mallocE[OF 2(2)] .
    obtain d m4 where 4: "malloc m3 = (d, m4)" "heap_has base (mset [d, c, b, a] + M) m4"
      using mallocE[OF 3(2)] by auto
    obtain e m5 where 5: "malloc m4 = (e, m5)" "heap_has base (mset [e, d, c, b, a] + M) m5" using mallocE[OF 4(2)] by auto
    obtain f m6 where 6: "malloc m5 = (f, m6)" "heap_has base (mset [f, e, d, c, b, a] + M) m6" using mallocE[OF 5(2)] by auto
    obtain xs m7 where 7: "own_parse_query (length (query_pairs u)) m6 = Inr (xs, m7)"
        "heap_has base (nodes_ms xs + (mset [f, e, d, c, b, a] + M)) m7"
      using own_parse_query_has[OF 6(2)] by blast
    let ?N = "nodes_ms xs + (mset [f, e, d, c, b, a] + M)"
    obtain g m8 where 8: "malloc m7 = (g, m8)" "heap_has base (add_mset g ?N) m8" using mallocE[OF 7(2)] .
    obtain h m9 where 9: "malloc m8 = (h, m9)" "heap_has base (add_mset h (add_mset g ?N)) m9" using mallocE[OF 8(2)] .
    obtain i m10 where 10: "malloc m9 = (i, m10)" "heap_has base (add_mset i (add_mset h (add_mset g ?N))) m10"
      using mallocE[OF 9(2)] .
    obtain j m11 where 11: "malloc m10 = (j, m11)" "heap_has base (add_mset j (add_mset i (add_mset h (add_mset g ?N)))) m11"
      using mallocE[OF 10(2)] .
    have eq: "add_mset j (add_mset i (add_mset h (add_mset g ?N))) =
        add_mset b (nodes_ms xs + mset [g, h, i, j, f, d, e, c, a] + M)"
      by (simp add: multiset_eq_iff)
    have "heap_has base (add_mset b (nodes_ms xs + mset [g, h, i, j, f, d, e, c, a] + M)) m11"
      unfolding eq[symmetric] by (rule 11(2))
    then obtain m12 where 12: "free_block b m11 = Inr m12" "heap_has base (nodes_ms xs + mset [g, h, i, j, f, d, e, c, a] + M) m12"
      using free_block_has by blast
    show ?thesis
      using Inr Some 1(1) 2(1) 3(1) 4(1) 5(1) 6(1) 7(1) 8(1) 9(1) 10(1) 11(1) 12
      by (simp add: own_url_parse_def url_ms_def)
  qed
qed

lemma own_url_release_has:
  assumes "heap_has base (url_ms u + M) mem"
  shows "\<exists>mem'. own_url_release u mem = Inr mem' \<and> heap_has base M mem'"
proof -
  let ?bs = "[username_b u, passwd_b u, host_b u, port_b u, fragment_b u, path_b u, query_b u, schema_b u, url_b u]"
  have "heap_has base (nodes_ms (pairs_b u) + (mset ?bs + M)) mem" using assms by (simp add: url_ms_def add.assoc)
  then obtain m1 where 1: "free_nodes (pairs_b u) mem = Inr m1" "heap_has base (mset ?bs + M) m1" using free_nodes_has by blast
  from blk.release_all_has[OF 1(2)] 1(1) show ?thesis by (simp add: own_url_release_def)
qed

section \<open>The code without the heap, in the same form\<close>

lemma send_local_file_eq:
  "send_local_file fs c res filename w =
     bind_l (Some (get_context_type_from_ext (strrchr_dot filename))) (\<lambda>ct.
     let res = fst (httpc_Message_setValue res ''Content-Type'' ct);
         res = fst (httpc_Message_setValue res ''Content-Length''
           (dec_str (nat ((case stat_ans fs filename of None \<Rightarrow> 0 | Some (_, n) \<Rightarrow> n) mod 2 ^ 32)))) in
     bind_l (Some (httpc_Message_get_encode_length (Some res) False)) (\<lambda>alen.
     bind_l (Some (c_int (alen + 1))) (\<lambda>room.
     bind_l (Some (httpc_Message_encode res (replicate (nat room) NUL) False)) (\<lambda>abuf.
     case send_data (c_sock c) (take (nat alen) abuf) w of
       (rc, w) \<Rightarrow>
         if rc < 0 then Some (Inr (-1, w))
         else (case os_fopen fs filename w of
                 (fp, w) \<Rightarrow>
                   if fp = 0 then Some (Inr (-1, w))
                   else bind_l (map_option Inr (send_file_loop (c_sock c) fp 1 w)) (\<lambda>(err, w).
                     Some (Inr (err, os_fclose fp w))))))))"
  by (auto simp: send_local_file_def Let_def bind_l_def bind_r_def map_option_case split: sum.splits prod.splits option.splits)

lemma http_request_eq:
  "http_request fs c url res w =
     bind_l (Some (build_filename 1024 (cwd fs) (path url))) (\<lambda>filename.
     if is_local_file fs filename then bind_l (send_local_file fs c res filename w) (\<lambda>(rc, w). Some (Inr (res, rc, w)))
     else bind_l (Some (ret_404 res filename)) (\<lambda>(res, rc). Some (Inr (res, rc, w))))"
  by (auto simp: http_request_def bind_l_def split: sum.splits prod.splits option.splits)

lemma handle_http_eq:
  "handle_http fs rx_url rx_auth c req res w =
     (case p2 req of None \<Rightarrow> Some (Inl Null_Ptr)
      | Some p \<Rightarrow>
          bind_l (Some (simple_url_parse rx_url rx_auth p)) (\<lambda>u.
          case u of None \<Rightarrow> Some (Inr (res, -1, w)) | Some u \<Rightarrow> http_request fs c u res w))"
  by (auto simp: handle_http_def bind_l_def split: sum.splits option.splits)

lemma handle_eq:
  "handle fs rx_url rx_auth c w =
     bind_l (make_request c w) (\<lambda>(req, w).
     case req of
       None \<Rightarrow> Some (Inr (os_close (c_sock c) w))
     | Some req \<Rightarrow>
         bind_l (handle_http fs rx_url rx_auth c req make_default_response w) (\<lambda>(res, rc, w).
         if rc \<noteq> 0 then Some (Inr (os_close (c_sock c) w))
         else bind_l (Some (send_res c res w)) (\<lambda>(rc, w). Some (Inr (os_close (c_sock c) w)))))"
  by (auto simp: handle_def bind_l_def split: sum.splits prod.splits option.splits)

section \<open>Each part does the same\<close>

lemma own_send_res_agrees:
  assumes "heap_has base M mem"
  shows "agrees (\<lambda>(rc, w) (rc', w', mem'). w' = w \<and> rc' = rc \<and> heap_has base M mem')
    (Some (send_res c (text_of h) w)) (Some (own_send_res c h w mem))"
proof -
  obtain b m1 where 1: "malloc mem = (b, m1)" "heap_has base (add_mset b M) m1" using mallocE[OF assms] .
  from free_block_has[OF 1(2)] obtain m2 where 2: "free_block b m1 = Inr m2" "heap_has base M m2" by blast
  then show ?thesis
    by (auto simp: agrees_def send_res_def own_send_res_def 1(1) bind_r_def split: sum.splits prod.splits)
qed

lemma own_send_local_file_agrees:
  assumes "owns base R h mem"
  shows "agrees (\<lambda>(rc, w) (h', rc', w', mem'). w' = w \<and> rc' = rc \<and> owns base R h' mem')
    (send_local_file fs c (text_of h) filename w) (own_send_local_file fs c h filename w mem)"
  unfolding send_local_file_eq own_send_local_file_def Let_def
proof (rule agrees_bind_same, goal_cases)
  case (1 ct)
  obtain h1 m1 where h1: "own_setValue ''Content-Type'' ct h mem = (h1, m1)" by fastforce
  let ?v = "dec_str (nat ((case stat_ans fs filename of None \<Rightarrow> 0 | Some (_, n) \<Rightarrow> n) mod 2 ^ 32))"
  obtain h2 m2 where h2: "own_setValue ''Content-Length'' ?v h1 m1 = (h2, m2)" by fastforce
  have o: "owns base R h2 m2" using own_setValue_owns[OF own_setValue_owns[OF assms h1] h2] .
  have t: "text_of h2 = fst (httpc_Message_setValue (fst (httpc_Message_setValue (text_of h) ''Content-Type'' ct)) ''Content-Length'' ?v)"
    using h1 h2 by (auto simp: own_setValue_def Let_def split: prod.splits)
  show ?case
    unfolding h1 prod.case h2 t[symmetric]
  proof (intro agrees_bind_same, goal_cases)
    case (1 alen room abuf)
    obtain rc w1 where s: "send_data (c_sock c) (take (nat alen) abuf) w = (rc, w1)" by fastforce
    obtain fp w2 where f: "os_fopen fs filename w1 = (fp, w2)" by fastforce
    obtain b m3 where b: "malloc m2 = (b, m3)" by fastforce
    from temporary_freed[OF temporary_block[OF o b]] obtain m4 where m4: "free_block b m3 = Inr m4" "owns base R h2 m4" by blast
    have "agrees (\<lambda>(rc, w) (h', rc', w', mem'). w' = w \<and> rc' = rc \<and> owns base R h' mem')
        (bind_l (map_option Inr (send_file_loop (c_sock c) fp 1 w2)) (\<lambda>(err, w). Some (Inr (err, os_fclose fp w))))
        (bind_l (map_option Inr (send_file_loop (c_sock c) fp 1 w2)) (\<lambda>(err, w).
           bind_l (Some (free_block b m3)) (\<lambda>mem. Some (Inr (h2, err, os_fclose fp w, mem)))))"
      by (rule agrees_bind_same) (auto simp: m4)
    then show ?case using o by (simp add: s f b)
  qed
qed

lemma own_appendBody_text:
  assumes "owns base R h mem"
  shows "agrees (\<lambda>(m, n) (h', mem'). m = Some (text_of h') \<and> owns base R h' mem')
    (Some (httpc_Message_appendBody (Some (text_of h)) d len)) (Some (own_appendBody d len h mem))"
proof (cases "len = 0")
  case True
  with assms show ?thesis by (simp add: httpc_Message_appendBody_def own_appendBody_def)
next
  case False
  show ?thesis
  proof (cases "grow_body (text_of h) d len")
    case (Inl e)
    with False show ?thesis by (simp add: httpc_Message_appendBody_def own_appendBody_def)
  next
    case (Inr m)
    from body_block_owns[OF assms grow_body_headers[OF Inr]] obtain b mem' where
      b: "new_block (body_b h) mem = Inr (b, mem')" "owns base R (h\<lparr>text_of := m, body_b := Some b\<rparr>) mem'" by blast
    obtain h' mem2 where s: "own_setValue ''Content-Length'' (dec_str (nat (bodylen m mod 2 ^ 32)))
        (h\<lparr>text_of := m, body_b := Some b\<rparr>) mem' = (h', mem2)" by fastforce
    have "text_of h' = fst (httpc_Message_setValue m ''Content-Length'' (dec_str (nat (bodylen m mod 2 ^ 32))))"
      using s by (auto simp: own_setValue_def Let_def split: prod.splits)
    with False Inr b s own_setValue_owns[OF b(2) s] show ?thesis
      by (simp add: httpc_Message_appendBody_def own_appendBody_def Let_def split: prod.splits)
  qed
qed

lemma own_setStartLine_owns:
  assumes "owns base R h mem"
  shows "\<exists>h' mem'. own_setStartLine a b c h mem = Inr (h', mem') \<and> owns base R h' mem' \<and>
    text_of h' = the (httpc_Message_setStartLine (Some (text_of h)) (Some a) (Some b) (Some c))"
proof -
  let ?m = "the (httpc_Message_setStartLine (Some (text_of h)) (Some a) (Some b) (Some c))"
  have "headers ?m = headers (text_of h)" by (simp add: httpc_Message_setStartLine_def)
  from own_startline_owns[OF assms this] obtain h' mem' where o: "own_startline ?m h mem = Inr (h', mem')" "owns base R h' mem'"
    by blast
  from o(1) have "text_of h' = ?m" by (auto simp: own_startline_def)
  with o show ?thesis by (auto simp: own_setStartLine_def)
qed

lemma own_setValue_text: "own_setValue k v h mem = (h', mem') \<Longrightarrow> text_of h' = fst (httpc_Message_setValue (text_of h) k v)"
  by (auto simp: own_setValue_def Let_def split: prod.splits)

lemma own_ret_404_agrees:
  assumes "owns base R h mem"
  shows "agrees (\<lambda>(m, rc) (h', rc', mem'). rc' = rc \<and> text_of h' = m \<and> owns base R h' mem')
    (Some (ret_404 (text_of h) name)) (Some (own_ret_404 h name mem))"
proof -
  obtain h1 m1 where 1: "own_setStartLine ''HTTP/1.0'' ''404'' ''File Not Found'' h mem = Inr (h1, m1)" "owns base R h1 m1"
      "text_of h1 = the (httpc_Message_setStartLine (Some (text_of h)) (Some ''HTTP/1.0'') (Some ''404'') (Some ''File Not Found''))"
    using own_setStartLine_owns[OF assms] by blast
  obtain h2 m2 where 2: "own_setValue ''Content-Type'' ''text/plain'' h1 m1 = (h2, m2)" by fastforce
  note o = own_setValue_owns[OF 1(2) 2] and t = own_setValue_text[OF 2]
  let ?body = "take 1023 (''NOT found '' @ name)"
  have r: "Some (ret_404 (text_of h) name) =
      bind_l (Some (httpc_Message_appendBody (Some (text_of h2)) (?body @ [NUL]) (int (length ?body) + 1))) (\<lambda>(m, n).
        Some (case m of None \<Rightarrow> Inl Null_Ptr | Some m \<Rightarrow> Inr (m, 0)))"
    by (auto simp: ret_404_def Let_def t 1(3) bind_l_def bind_r_def split: sum.splits prod.splits)
  have s: "Some (own_ret_404 h name mem) =
      bind_l (Some (own_appendBody (?body @ [NUL]) (int (length ?body) + 1) h2 m2)) (\<lambda>(res, mem). Some (Inr (res, 0, mem)))"
    by (auto simp: own_ret_404_def Let_def 1(1) 2 bind_l_def bind_r_def split: sum.splits prod.splits)
  show ?thesis
    unfolding r s by (rule agrees_bind[OF own_appendBody_text[OF o]]) auto
qed

text \<open>The file's way never ends with 0.\<close>

lemma send_file_loop_result: "send_file_loop s fp err w = Some y \<Longrightarrow> fst y = err \<or> fst y = -1"
proof (rule send_file_loop.raw_induct[of "\<lambda>s fp err w y. fst y = err \<or> fst y = -1"])
  fix loop s fp err w y
  assume IH: "\<And>s fp err w y. loop s fp err w = Some y \<Longrightarrow> fst y = err \<or> fst y = -1"
    and eq: "(if os_feof fp w then Some (err, w)
      else (case os_fread fp 4096 w of
            (d, w) \<Rightarrow>
              if d \<noteq> [] then (case send_data s d w of
                               (rc, w) \<Rightarrow> if rc < 0 then Some (-1, w) else loop s fp err w)
              else loop s fp err w)) = Some y"
  show "fst y = err \<or> fst y = -1" using eq IH by (auto split: if_splits prod.splits)
qed

lemma send_local_file_result:
  assumes "send_local_file fs c res filename w = Some (Inr (rc, w'))"
  shows "rc \<noteq> 0"
proof
  assume "rc = 0"
  with assms obtain fp w1 where "send_file_loop (c_sock c) fp 1 w1 = Some (0, w')
      \<or> (\<exists>w2. send_file_loop (c_sock c) fp 1 w1 = Some (0, w2))"
    by (auto simp: send_local_file_def Let_def split: sum.splits prod.splits if_splits)
  then show False using send_file_loop_result[of "c_sock c" fp 1 w1] by fastforce
qed

lemma own_http_request_agrees:
  assumes "owns base R h mem"
  shows "agrees (\<lambda>(m, rc, w) (h', rc', w', mem'). w' = w \<and> rc' = rc \<and> (rc = 0 \<longrightarrow> text_of h' = m) \<and> owns base R h' mem')
    (http_request fs c url (text_of h) w) (own_http_request fs c url h w mem)"
  unfolding http_request_eq own_http_request_def
proof (rule agrees_bind_same, goal_cases)
  case (1 filename)
  show ?case
  proof (cases "is_local_file fs filename")
    case True
    let ?P = "\<lambda>(rc, w) (h', rc', w', mem'). w' = w \<and> rc' = rc \<and> owns base R h' mem'"
    have a: "agrees ?P (send_local_file fs c (text_of h) filename w) (own_send_local_file fs c h filename w mem)"
      by (rule own_send_local_file_agrees[OF assms])
    have "rc \<noteq> 0" if "send_local_file fs c (text_of h) filename w = Some (Inr (rc, w'))" for rc w'
      by (rule send_local_file_result[OF that])
    with a True show ?thesis
      by (auto simp: agrees_def bind_l_def split: option.splits sum.splits prod.splits)
  next
    case False
    have "agrees (\<lambda>(m, rc, w) (h', rc', w', mem'). w' = w \<and> rc' = rc \<and> (rc = 0 \<longrightarrow> text_of h' = m) \<and> owns base R h' mem')
        (bind_l (Some (ret_404 (text_of h) filename)) (\<lambda>(res, rc). Some (Inr (res, rc, w))))
        (bind_l (Some (own_ret_404 h filename mem)) (\<lambda>(res, rc, mem). Some (Inr (res, rc, w, mem))))"
      by (rule agrees_bind[OF own_ret_404_agrees[OF assms]]) auto
    with False show ?thesis by simp
  qed
qed

lemma own_handle_http_agrees:
  assumes "owns base R h mem"
  shows "agrees (\<lambda>(m, rc, w) (h', rc', w', mem'). w' = w \<and> rc' = rc \<and> (rc = 0 \<longrightarrow> text_of h' = m) \<and> owns base R h' mem')
    (handle_http fs rx_url rx_auth c req (text_of h) w) (own_handle_http fs rx_url rx_auth c req h w mem)"
proof (cases "p2 req")
  case None
  then show ?thesis by (simp add: handle_http_eq own_handle_http_def)
next
  case (Some p)
  let ?Q = "\<lambda>(m, rc, w) (h', rc', w', mem'). w' = w \<and> rc' = rc \<and> (rc = 0 \<longrightarrow> text_of h' = m) \<and> owns base R h' mem'"
  have o: "heap_has base (own_blocks h + R) mem" using assms by (simp add: owns_def)
  have "agrees ?Q
      (case u of None \<Rightarrow> Some (Inr (text_of h, -1, w)) | Some u \<Rightarrow> http_request fs c u (text_of h) w)
      (case v of
         (None, mem) \<Rightarrow> Some (Inr (h, -1, w, mem))
       | (Some u, mem) \<Rightarrow> bind_l (own_http_request fs c (url_text u) h w mem) (\<lambda>(res, rc, w, mem).
           bind_l (Some (own_url_release u mem)) (\<lambda>mem. Some (Inr (res, rc, w, mem)))))"
    if v: "(\<lambda>u (v, mem'). map_option url_text v = u \<and>
      heap_has base ((case v of None \<Rightarrow> {#} | Some v \<Rightarrow> url_ms v) + (own_blocks h + R)) mem') u v" for u v
  proof -
    obtain x m1 where vx: "v = (x, m1)" by (cases v)
    show ?thesis
    proof (cases x)
      case None
      with v vx have "owns base R h m1" using owns_length[OF assms] by (simp add: owns_def)
      with v vx None show ?thesis by simp
    next
      case (Some y)
      with v vx have "owns base (url_ms y + R) h m1" using owns_length[OF assms] by (simp add: owns_def ac_simps)
      from own_http_request_agrees[OF this]
      have "agrees (\<lambda>(m, rc, w) (h', rc', w', mem'). w' = w \<and> rc' = rc \<and> (rc = 0 \<longrightarrow> text_of h' = m) \<and> owns base (url_ms y + R) h' mem')
          (http_request fs c (url_text y) (text_of h) w) (own_http_request fs c (url_text y) h w m1)" .
      moreover have "\<exists>mem''. own_url_release y mem' = Inr mem'' \<and> owns base R h' mem''" if o: "owns base (url_ms y + R) h' mem'" for h' mem'
      proof -
        from o have "heap_has base (url_ms y + (own_blocks h' + R)) mem'" by (simp add: owns_def ac_simps)
        from own_url_release_has[OF this] owns_length[OF o] show ?thesis by (auto simp: owns_def)
      qed
      ultimately show ?thesis
        using v vx Some
        by (fastforce simp: agrees_def bind_l_def split: option.splits sum.splits prod.splits)
    qed
  qed
  from agrees_bind[OF own_url_parse_has[OF o, of rx_url rx_auth p], of ?Q, OF this] Some show ?thesis
    by (simp add: handle_http_eq own_handle_http_def split_def)
qed

section \<open>A whole connection\<close>

lemma release_has:
  assumes "heap_has base (own_blocks h + R) mem"
  shows "\<exists>mem'. httpc_Message_release h mem = Inr mem' \<and> heap_has base R mem'"
proof -
  let ?h = "h\<lparr>text_of := (text_of h)\<lparr>headers := replicate (length (nodes h)) ([], [])\<rparr>\<rparr>"
  have "own_blocks ?h = own_blocks h" by (simp add: own_blocks_def pri_ms_def)
  then have "owns base R ?h mem" using assms by (simp add: owns_def)
  moreover have "releaseParserData ?h m = releaseParserData h m" for m
    by (cases "pri_b h") (simp_all add: releaseParserData_def)
  then have "httpc_Message_release ?h mem = httpc_Message_release h mem"
    by (simp add: httpc_Message_release_def)
  ultimately show ?thesis using release_frees by metis
qed

text \<open>No operation of the parser on its blocks faults.\<close>

definition parser_runs :: "own_op list \<Rightarrow> bool" where
  "parser_runs ops \<longleftrightarrow> (\<forall>mem. mem_ok mem \<longrightarrow> (\<exists>x. own_run ops (own_parser mem) = Inr x))"

lemma heap_has_mem_ok: "heap_has base M mem \<Longrightarrow> mem_ok mem"
  by (simp add: heap_has_def mem_ok_def)

lemma request_needs_byte: "make_request c w = Some (Inr (Some m, w')) \<Longrightarrow> some_byte c w"
  unfolding make_request_def make_request_loop.simps[of _ None]
  by (auto simp: some_byte_def finish_request_def split: prod.splits option.splits list.splits)

lemma own_make_request_agrees:
  assumes "heap_has base R mem" and "parser_runs ops"
  shows "agrees (\<lambda>(req, w) (x, w', mem'). w' = w \<and> map_option fst x = req \<and>
      heap_has base ((case x of None \<Rightarrow> {#} | Some (m, h) \<Rightarrow> own_blocks h) + R) mem')
    (make_request c w) (own_make_request c ops w mem)"
proof -
  obtain h0 m0 where p: "own_parser mem = (h0, m0)" by fastforce
  obtain h m1 where r: "own_run ops (h0, m0) = Inr (h, m1)"
    using assms(2) heap_has_mem_ok[OF assms(1)] p unfolding parser_runs_def by fastforce
  have h: "heap_has base (own_blocks h + R) m1"
    using own_run_fine[OF own_parser_owns[OF assms(1) p], of ops] r by (simp add: step_fine_def owns_def)
  then obtain m2 where m2: "httpc_Message_release h m1 = Inr m2" "heap_has base R m2" using release_has by blast
  show ?thesis
    using request_needs_byte[of c w] assms(1) h m2 p r
    by (fastforce simp: agrees_def own_make_request_def bind_l_def split: option.splits sum.splits prod.splits)
qed

lemma own_default_response_has:
  assumes "heap_has base M mem"
  shows "\<exists>h mem'. own_default_response mem = Inr (h, mem') \<and> owns base M h mem' \<and> text_of h = make_default_response"
proof -
  obtain h0 m0 where 0: "own_create mem = (h0, m0)" by fastforce
  have t0: "text_of h0 = httpc_Message_create" using 0 by (auto simp: own_create_def split: prod.splits)
  obtain h1 m1 where 1: "own_setStartLine ''HTTP/1.0'' ''200'' ''OK'' h0 m0 = Inr (h1, m1)" "owns base M h1 m1"
      "text_of h1 = the (httpc_Message_setStartLine (Some (text_of h0)) (Some ''HTTP/1.0'') (Some ''200'') (Some ''OK''))"
    using own_setStartLine_owns[OF own_create_owns[OF assms 0]] by blast
  obtain h2 m2 where 2: "own_setValue ''Server'' ''test_http_srv 1.0'' h1 m1 = (h2, m2)" by fastforce
  obtain h3 m3 where 3: "own_setValue ''Connection'' ''Close'' h2 m2 = (h3, m3)" by fastforce
  have "own_default_response mem = Inr (h3, m3)" by (simp add: own_default_response_def 0 1(1) 2 3)
  moreover have "owns base M h3 m3" using own_setValue_owns[OF own_setValue_owns[OF 1(2) 2] 3] .
  moreover have "text_of h3 = make_default_response"
    using own_setValue_text[OF 2] own_setValue_text[OF 3] 1(3) t0 by (simp add: make_default_response_def)
  ultimately show ?thesis by blast
qed

lemma own_finish_has:
  assumes "heap_has base (add_mset t R) mem"
  shows "\<exists>mem'. own_finish c t w mem = Some (Inr (os_close (c_sock c) w, mem')) \<and> heap_has base R mem'"
  using free_block_has[OF assms] by (auto simp: own_finish_def)

lemma release_and_finish:
  assumes "heap_has base (own_blocks h + (own_blocks r + add_mset t R)) mem"
  shows "\<exists>mem'. bind_l (Some (own_release_both h r mem)) (\<lambda>mem. own_finish c t w mem) = Some (Inr (os_close (c_sock c) w, mem')) \<and>
    heap_has base R mem'"
proof -
  obtain m1 where 1: "httpc_Message_release h mem = Inr m1" "heap_has base (own_blocks r + add_mset t R) m1"
    using release_has[OF assms] by blast
  obtain m2 where 2: "httpc_Message_release r m1 = Inr m2" "heap_has base (add_mset t R) m2" using release_has[OF 1(2)] by blast
  from own_finish_has[OF 2(2)] 1(1) 2(1) show ?thesis by (simp add: own_release_both_def)
qed

lemma own_handle_agrees:
  assumes t: "heap_has base (add_mset t R) mem" and ops: "parser_runs ops"
  shows "agrees (\<lambda>w (w', mem'). w' = w \<and> heap_has base R mem')
    (handle fs rx_url rx_auth c w) (own_handle fs rx_url rx_auth c t ops w mem)"
  unfolding handle_eq own_handle_def
proof (rule agrees_bind[OF own_make_request_agrees[OF t ops]], goal_cases)
  case (1 q x)
  obtain req w1 where q: "q = (req, w1)" by (cases q)
  obtain y m1 where x: "x = (y, w1, m1)" "map_option fst y = req"
      "heap_has base ((case y of None \<Rightarrow> {#} | Some (m, h) \<Rightarrow> own_blocks h) + add_mset t R) m1"
    using 1 q by (cases x) auto
  show ?case
  proof (cases y)
    case None
    with x own_finish_has[of base t R m1 c w1] show ?thesis by (auto simp: q)
  next
    case (Some mh)
    obtain m h where mh: "mh = (m, h)" by (cases mh)
    have r: "req = Some m" using x(2) Some mh by simp
    obtain res m2 where d: "own_default_response m1 = Inr (res, m2)" "owns base (own_blocks h + add_mset t R) res m2"
        "text_of res = make_default_response"
      using own_default_response_has[of base "own_blocks h + add_mset t R" m1] x(3) Some mh by auto
    have end': "\<exists>mem'. bind_l (Some (own_release_both h res' m3)) (\<lambda>mem. own_finish c t w2 mem) = Some (Inr (os_close (c_sock c) w2, mem')) \<and>
        heap_has base R mem'" if "owns base (own_blocks h + add_mset t R) res' m3" for res' m3 w2
    proof -
      have "heap_has base (own_blocks h + (own_blocks res' + add_mset t R)) m3"
        using that by (simp add: owns_def ac_simps)
      from release_and_finish[OF this] show ?thesis .
    qed
    have "agrees (\<lambda>w (w', mem'). w' = w \<and> heap_has base R mem')
        (bind_l (handle_http fs rx_url rx_auth c m make_default_response w1) (\<lambda>(res, rc, w).
           if rc \<noteq> 0 then Some (Inr (os_close (c_sock c) w))
           else bind_l (Some (send_res c res w)) (\<lambda>(rc, w). Some (Inr (os_close (c_sock c) w)))))
        (bind_l (own_handle_http fs rx_url rx_auth c m res w1 m2) (\<lambda>(res, rc, w, mem).
           if rc < 0 then
             bind_l (Some (own_release_both h res mem)) (\<lambda>mem. own_finish c t w mem)
           else if rc > 0 then
             bind_l (Some (own_release_both h res mem)) (\<lambda>mem. own_finish c t w mem)
           else
             bind_l (Some (own_send_res c res w mem)) (\<lambda>(rc, w, mem).
             bind_l (Some (own_release_both h res mem)) (\<lambda>mem. own_finish c t w mem))))"
    proof (rule agrees_bind[OF own_handle_http_agrees[OF d(2), of fs rx_url rx_auth c m w1, unfolded d(3)]], goal_cases)
      case (1 u v)
      obtain um rc w2 where u: "u = (um, rc, w2)" by (cases u)
      obtain res2 m3 where v: "v = (res2, rc, w2, m3)" "rc = 0 \<longrightarrow> text_of res2 = um"
          "owns base (own_blocks h + add_mset t R) res2 m3"
        using 1 u by (cases v) auto
      show ?case
      proof (cases "rc = 0")
        case False
        then show ?thesis using end'[OF v(3), of w2] by (auto simp: u v(1))
      next
        case True
        have "heap_has base (own_blocks res2 + (own_blocks h + add_mset t R)) m3" using v(3) by (simp add: owns_def)
        note s = own_send_res_agrees[OF this, of c res2 w2]
        have "agrees (\<lambda>w (w', mem'). w' = w \<and> heap_has base R mem')
            (bind_l (Some (send_res c um w2)) (\<lambda>(rc, w). Some (Inr (os_close (c_sock c) w))))
            (bind_l (Some (own_send_res c res2 w2 m3)) (\<lambda>(rc, w, mem).
               bind_l (Some (own_release_both h res2 mem)) (\<lambda>mem. own_finish c t w mem)))"
        proof (rule agrees_bind, use s v(2) True in simp, goal_cases)
          case (1 a b)
          then obtain rc' w3 m4 where ab: "a = (rc', w3)" "b = (rc', w3, m4)"
              "heap_has base (own_blocks res2 + (own_blocks h + add_mset t R)) m4" by (cases a; cases b) auto
          then have "owns base (own_blocks h + add_mset t R) res2 m4" using owns_length[OF v(3)] by (simp add: owns_def)
          from end'[OF this, of w3] show ?case by (auto simp: ab(1,2))
        qed
        then show ?thesis using True by (simp add: u v(1))
      qed
    qed
    then show ?thesis by (simp add: q x(1) Some mh r d(1))
  qed
qed

lemma serve_connection_agrees:
  assumes "mem_ok mem" and "parser_runs ops"
  shows "agrees (\<lambda>w (w', mem'). w' = w \<and> (\<exists>c. c \<notin> blocks mem \<and> heap_has (blocks mem) {#c#} mem'))
    (handle fs rx_url rx_auth (build_client s) w) (serve_connection fs rx_url rx_auth s ops w mem)"
proof -
  have "heap_has (blocks mem) {#} mem" using assms(1) by (simp add: mem_ok_holds)
  then obtain c m1 where 1: "malloc mem = (c, m1)" "heap_has (blocks mem) {#c#} m1" by (rule mallocE)
  then have c: "c \<notin> blocks mem" by (auto simp: heap_has_def)
  obtain t m2 where 2: "malloc m1 = (t, m2)" "heap_has (blocks mem) {#t, c#} m2" using mallocE[OF 1(2)] .
  obtain n m3 where 3: "malloc m2 = (n, m3)" "heap_has (blocks mem) {#n, t, c#} m3" using mallocE[OF 2(2)] .
  obtain m4 where 4: "free_block n m3 = Inr m4" "heap_has (blocks mem) {#t, c#} m4" using free_block_has[OF 3(2)] by blast
  have "agrees (\<lambda>w (w', mem'). w' = w \<and> (\<exists>c. c \<notin> blocks mem \<and> heap_has (blocks mem) {#c#} mem'))
      (handle fs rx_url rx_auth (build_client s) w) (own_handle fs rx_url rx_auth (build_client s) t ops w m4)"
    by (rule agrees_mono[OF own_handle_agrees[OF 4(2) assms(2)]]) (use c in auto)
  then show ?thesis by (simp add: serve_connection_def 1(1) 2(1) 3(1) 4(1))
qed

definition leaked_since :: "memory \<Rightarrow> nat \<Rightarrow> memory \<Rightarrow> bool" where
  "leaked_since mem n mem' \<longleftrightarrow>
     blocks mem \<subseteq> blocks mem' \<and> finite (blocks mem' - blocks mem) \<and> card (blocks mem' - blocks mem) = n"

lemma leaked_one_more:
  assumes "c \<notin> blocks mem" and "blocks m1 = insert c (blocks mem)" and "leaked_since m1 n mem'"
  shows "leaked_since mem (Suc n) mem'"
proof -
  have "blocks mem' - blocks mem = insert c (blocks mem' - insert c (blocks mem))"
    using assms by (auto simp: leaked_since_def)
  then have "card (blocks mem' - blocks mem) = Suc (card (blocks mem' - insert c (blocks mem)))"
      "finite (blocks mem' - blocks mem)"
    using assms(2,3) by (simp_all only: leaked_since_def card_insert_disjoint finite_insert Diff_iff insertI1 not_True_eq_False simp_thms)
  with assms(2,3) show ?thesis by (simp add: leaked_since_def)
qed

text \<open>C36: the server forgets one block per connection, the client structure that \<open>main\<close> makes: with everything a
  connection allocates on the heap (client, task, list node, request, response, URL, file stream,
  send buffer), a run of \<open>n\<close> connections goes exactly as it does without the heap, on every way through
  \<open>handle\<close> (no request, no URL, file, 404, failed sends), so no block is ever freed twice or used for
  \<open>free\<close> without being allocated, and at its end exactly \<open>n\<close> blocks more are allocated and none of the old
  ones has been freed. What the parser does with its blocks while a request comes in is any sequence
  of its operations that does not itself fault.\<close>

theorem connections_leak_clients:
  assumes "mem_ok mem" and "\<forall>x\<in>set xs. parser_runs (snd x)"
  shows "case answer_connections fs rx_url rx_auth (map fst xs) w of
      None \<Rightarrow> serve_connections fs rx_url rx_auth xs w mem = None
    | Some (Inl e) \<Rightarrow> serve_connections fs rx_url rx_auth xs w mem = Some (Inl e)
    | Some (Inr w') \<Rightarrow> \<exists>mem'. serve_connections fs rx_url rx_auth xs w mem = Some (Inr (w', mem')) \<and>
        blocks mem \<subseteq> blocks mem' \<and> finite (blocks mem' - blocks mem) \<and> card (blocks mem' - blocks mem) = length xs"
proof -
  have "agrees (\<lambda>w (w', mem'). w' = w \<and> leaked_since mem (length xs) mem')
      (answer_connections fs rx_url rx_auth (map fst xs) w) (serve_connections fs rx_url rx_auth xs w mem)"
    using assms
  proof (induction xs arbitrary: w mem)
    case Nil
    then show ?case by (simp add: leaked_since_def)
  next
    case (Cons x xs)
    have x: "parser_runs (snd x)" and xs: "\<forall>x\<in>set xs. parser_runs (snd x)" using Cons.prems(2) by simp_all
    show ?case
      unfolding list.map answer_connections.simps serve_connections.simps
    proof (rule agrees_bind[OF serve_connection_agrees[OF Cons.prems(1) x]], goal_cases)
      case (1 w1 y)
      then obtain m1 c where y: "y = (w1, m1)" and c: "c \<notin> blocks mem" "heap_has (blocks mem) {#c#} m1" by (cases y) auto
      have b: "blocks m1 = insert c (blocks mem)" "mem_ok m1" using c(2) by (auto simp: heap_has_def mem_ok_def)
      have "agrees (\<lambda>w (w', mem'). w' = w \<and> leaked_since mem (length (x # xs)) mem')
          (answer_connections fs rx_url rx_auth (map fst xs) w1) (serve_connections fs rx_url rx_auth xs w1 m1)"
        by (rule agrees_mono[OF Cons.IH[OF b(2) xs]]) (auto intro: leaked_one_more[OF c(1) b(1)])
      then show ?case by (simp add: y)
    qed
  qed
  then show ?thesis by (auto simp: agrees_def leaked_since_def split: option.splits sum.splits)
qed

text \<open>A request without a body only grows the line buffer and reads lines.\<close>

lemma lines_run:
  "owns base {#} h mem \<Longrightarrow> pri_b h \<noteq> None \<Longrightarrow>
   \<exists>x. own_run [Op_line, Op_parseStartLine a b c, Op_parseHeaderLine k v] (h, mem) = Inr x"
proof -
  assume o: "owns base {#} h mem" "pri_b h \<noteq> None"
  obtain h1 m1 where 1: "own_line h mem = Inr (h1, m1)" "owns base {#} h1 m1" using own_line_owns[OF o] by blast
  obtain h2 m2 where 2: "own_parseStartLine a b c h1 m1 = Inr (h2, m2)" "owns base {#} h2 m2"
    using own_parseStartLine_owns[OF 1(2)] by blast
  obtain h3 m3 where "own_parseHeaderLine k v h2 m2 = Inr (h3, m3)" using own_parseHeaderLine_owns[OF 2(2)] by blast
  with 1(1) 2(1) show ?thesis by simp
qed

lemma sample_parser_runs: "parser_runs [Op_line, Op_parseStartLine ''GET'' ''/k'' ''HTTP/1.0'', Op_parseHeaderLine ''Host'' ''a'']"
  unfolding parser_runs_def
proof (intro allI impI)
  fix mem
  assume "mem_ok mem"
  then have h: "heap_has (blocks mem) {#} mem" by (simp add: mem_ok_holds)
  obtain p m where p: "own_parser mem = (p, m)" by fastforce
  have "pri_b p \<noteq> None" using p by (auto simp: own_parser_def split: prod.splits)
  from lines_run[OF own_parser_owns[OF h p] this] p
  show "\<exists>x. own_run [Op_line, Op_parseStartLine ''GET'' ''/k'' ''HTTP/1.0'', Op_parseHeaderLine ''Host'' ''a''] (own_parser mem) = Inr x"
    by simp
qed

theorem connections_leak_clients_witness:
  "\<exists>w' mem'. serve_connections empty_fs rx_path rx_path
       [(5, [Op_line, Op_parseStartLine ''GET'' ''/k'' ''HTTP/1.0'', Op_parseHeaderLine ''Host'' ''a''])]
       (world_receiving (encoding sample_request True)) sample_memory = Some (Inr (w', mem')) \<and>
     card (blocks mem' - {0}) = 1"
proof -
  let ?ops = "[Op_line, Op_parseStartLine ''GET'' ''/k'' ''HTTP/1.0'', Op_parseHeaderLine ''Host'' ''a'']"
  let ?w = "world_receiving (encoding sample_request True)"
  obtain w' where "handle empty_fs rx_path rx_path (build_client 5) ?w = Some (Inr w')" using sample_answered by blast
  then have a: "answer_connections empty_fs rx_path rx_path (map fst [(5, ?ops)]) ?w = Some (Inr w')" by simp
  have "\<forall>x\<in>set [(5 :: int, ?ops)]. parser_runs (snd x)" using sample_parser_runs by simp
  from connections_leak_clients[OF sample_memory_ok this, of empty_fs rx_path rx_path ?w] show ?thesis
    unfolding a by (auto simp: sample_memory_def)
qed

end
