(* ===== verification/Http_Files.thy ===== *)
theory Http_Files
  imports Http_Server
begin

text \<open>
  The main path of the HTTP server (\<open>send_local_file\<close> of \<open>src/httpsrv/httprequest.c\<close> within
  \<open>handle\<close>): a request for a file that is there is answered with its header and its bytes.
\<close>

section \<open>Sending a file\<close>

lemma send_data_keeps:
  "send_data s d w = (rc, w') \<Longrightarrow> same_system w w' \<and> files w' = files w \<and> open_fds w' = open_fds w"
proof (induction s d w rule: send_data.induct)
  case (1 s d w)
  show ?case
  proof (cases "d = []")
    case False
    obtain r e w1 where o: "os_send s d w = ((r, e), w1)" by (metis surj_pair)
    note f = os_send_facts[OF o]
    show ?thesis
    proof (cases "r > 0")
      case True
      then have "send_data s (drop (nat r) d) w1 = (rc, w')" using 1(2) False o by (simp add: send_data.simps[of s d])
      from 1(1)[OF False o[symmetric] refl True this] f(1-3) show ?thesis by (auto intro: same_system_trans)
    next
      case r: False
      then show ?thesis using 1(2) False o f(1-3) by (auto simp: send_data.simps[of s d])
    qed
  qed (use 1(2) in \<open>simp add: send_data.simps\<close>)
qed

lemma send_some_same: "same_system w w' \<Longrightarrow> send_some w \<Longrightarrow> send_some w'"
  using same_system_ok(1)[of w w'] by (simp add: send_some_def same_system_def)

text \<open>A block goes out whole.\<close>

lemma send_block:
  assumes "send_some w" and "s \<in> set (open_fds w)"
  obtains w' where "send_data s d w = (0, w')" and "wire w' s = wire w s @ d" and "same_system w w'"
    and "files w' = files w" and "open_fds w' = open_fds w"
proof -
  obtain rc w' where s: "send_data s d w = (rc, w')" by fastforce
  have "rc = 0" using send_data_all[OF assms, of d] s by simp
  moreover have "wire w' s = wire w s @ d"
    using send_data_facts[OF _ s] assms(1) \<open>rc = 0\<close> by (auto simp: send_some_def delivers_def)
  ultimately show thesis using that s send_data_keeps[OF s] by blast
qed

definition reads_well :: "world \<Rightarrow> bool" where
  "reads_well w \<longleftrightarrow> (\<forall>t. \<not> io_err w t)"

lemma send_file_loop_sends:
  assumes "files w fp = Some f" and "\<not> eof_flag f" and "fpos f \<le> length (fdata f)" and "reads_well w" and "send_some w"
    and "s \<in> set (open_fds w)"
  shows "\<exists>w'. send_file_loop s fp err w = Some (err, w') \<and> wire w' s = wire w s @ drop (fpos f) (fdata f) \<and>
    same_system w w' \<and> open_fds w' = open_fds w"
  using assms
proof (induction "length (fdata f) - fpos f" arbitrary: f w rule: less_induct)
  case less
  let ?d = "take 4096 (drop (fpos f) (fdata f))"
  let ?f = "f\<lparr>fpos := fpos f + length ?d, eof_flag := length ?d < 4096\<rparr>"
  let ?w = "(pass w)\<lparr>files := (files w)(fp \<mapsto> ?f)\<rparr>"
  have feof: "\<not> os_feof fp w" using less.prems(1,2) by (simp add: os_feof_def)
  have read: "os_fread fp 4096 w = (?d, ?w)" using less.prems(1,4) by (simp add: os_fread_def reads_well_def Let_def)
  have sys: "same_system w ?w" by (simp add: same_system_def)
  obtain w1 where w1: "(if ?d \<noteq> [] then send_data s ?d ?w else (0, ?w)) = (0, w1)" "wire w1 s = wire w s @ ?d"
      "same_system ?w w1" "files w1 = files ?w" "open_fds w1 = open_fds w"
  proof (cases "?d = []")
    case False
    have "send_some ?w" "s \<in> set (open_fds ?w)" using send_some_same[OF sys less.prems(5)] less.prems(6) by simp_all
    from send_block[OF this, of ?d] that False show thesis by auto
  next
    case True
    then show thesis using that[of ?w] by simp
  qed
  have step: "send_file_loop s fp err w = send_file_loop s fp err w1"
    using feof read w1(1) by (subst send_file_loop.simps) (auto split: if_splits)
  have sys1: "same_system w w1" using same_system_trans[OF sys w1(3)] .
  show ?case
  proof (cases "length ?d < 4096")
    case True
    have "os_feof fp w1" using w1(4) True by (simp add: os_feof_def)
    then have "send_file_loop s fp err w1 = Some (err, w1)" by (subst send_file_loop.simps) simp
    moreover have "?d = drop (fpos f) (fdata f)" using True by simp
    ultimately show ?thesis using step w1(2,5) sys1 by auto
  next
    case False
    then have l: "length ?d = 4096" "fpos f + 4096 \<le> length (fdata f)" by auto
    have "\<exists>w'. send_file_loop s fp err w1 = Some (err, w') \<and> wire w' s = wire w1 s @ drop (fpos ?f) (fdata ?f) \<and>
        same_system w1 w' \<and> open_fds w' = open_fds w1"
    proof (rule less.hyps)
      show "length (fdata ?f) - fpos ?f < length (fdata f) - fpos f" using l by simp
      show "files w1 fp = Some ?f" using w1(4) by simp
      show "\<not> eof_flag ?f" using False by simp
      show "fpos ?f \<le> length (fdata ?f)" using l by simp
      show "reads_well w1" using less.prems(4) sys1 by (simp add: reads_well_def same_system_def)
      show "send_some w1" using send_some_same[OF sys1 less.prems(5)] .
      show "s \<in> set (open_fds w1)" using less.prems(6) w1(5) by simp
    qed
    then obtain w' where w': "send_file_loop s fp err w1 = Some (err, w')"
        "wire w' s = wire w1 s @ drop (fpos ?f) (fdata ?f)" "same_system w1 w'" "open_fds w' = open_fds w1" by blast
    have "drop (fpos f) (fdata f) = ?d @ drop (fpos f + 4096) (fdata f)"
      by (metis append_take_drop_id drop_drop add.commute)
    then show ?thesis using step w' w1(2,5) same_system_trans[OF sys1 w'(3)] l(1) by auto
  qed
qed

section \<open>The answer\<close>

definition response_file :: "string \<Rightarrow> string \<Rightarrow> HttpMessage" where
  "response_file ext d =
     httpc_Message_create\<lparr>p1 := Some ''HTTP/1.0'', p2 := Some ''200'', p3 := Some ''OK'',
       headers := [(''Content-Length'', dec_str (length d)), (''Content-Type'', content_type_loop content_types ext),
                   (''Connection'', ''Close''), (''Server'', ''test_http_srv 1.0'')],
       header_cnt := 4, body := Some d, bodylen := int (length d)\<rparr>"

lemma content_types_ok:
  "header_ok (''Content-Type'', content_type_loop content_types ext)"
proof -
  have all: "list_all (\<lambda>t. header_ok (''Content-Type'', t)) (''application/octet-stream'' # map snd content_types)" by code_simp
  have "content_type_loop ts ext \<in> set (''application/octet-stream'' # map snd ts)" for ts
    by (induction ts) (auto simp del: set_map)
  from this[of content_types] all show ?thesis unfolding list_all_iff by blast
qed

lemma response_file_wire_ok:
  assumes "length d < 2147483648"
  shows "wire_ok (response_file ext d)"
proof -
  have "start_ok ''HTTP/1.0'' ''200'' ''OK''" by code_simp
  moreover have "header_ok (''Connection'', ''Close'')" "header_ok (''Server'', ''test_http_srv 1.0'')" by code_simp+
  moreover have "\<not> str_case_eq ''Server'' ''Content-Length''" "\<not> str_case_eq ''Connection'' ''Content-Length''"
      "\<not> str_case_eq ''Content-Type'' ''Content-Length''" by code_simp+
  ultimately show ?thesis
    using content_length_ok[of "length d"] atoi_dec_str[OF assms] content_types_ok[of ext] assms
    by (simp add: wire_ok_def response_file_def body_ok_def body_bytes_def int_ok_def getmsglen_def
        httpc_Message_getValue_def)
qed

text \<open>The header is the encoding without the body.\<close>

definition response_head :: "string \<Rightarrow> string \<Rightarrow> HttpMessage" where
  "response_head ext d =
     httpc_Message_create\<lparr>p1 := Some ''HTTP/1.0'', p2 := Some ''200'', p3 := Some ''OK'',
       headers := [(''Content-Length'', dec_str (length d)), (''Content-Type'', content_type_loop content_types ext),
                   (''Connection'', ''Close''), (''Server'', ''test_http_srv 1.0'')],
       header_cnt := 4\<rparr>"

lemma head_and_body: "encoding (response_head ext d) False @ d = encoding (response_file ext d) True"
  by (simp add: encoding_def response_head_def response_file_def head_text_def body_bytes_def)

lemma content_types_short: "length (content_type_loop content_types ext) < 40"
proof -
  have all: "list_all (\<lambda>t. length t < 40) (''application/octet-stream'' # map snd content_types)" by code_simp
  have "content_type_loop ts ext \<in> set (''application/octet-stream'' # map snd ts)" for ts
    by (induction ts) (auto simp del: set_map)
  from this[of content_types] all show ?thesis unfolding list_all_iff by blast
qed

lemma response_head_short:
  assumes "length d < 2147483648"
  shows "length (encoding (response_head ext d) False) < 2147483647"
  using dec_str_length[of "length d" 9] content_types_short[of ext] assms
  by (simp add: encoding_def response_head_def head_text_def header_text_def)

text \<open>Up to the loop: the header goes out and the file is opened.\<close>

lemma send_local_file_head:
  assumes "stat_ans fs name = Some (mode, int (length d))" and "content_ans fs name = Some d"
    and "strrchr_dot name = Some ext" and "length d < 2147483648"
    and "send_some w" and "c_sock c \<in> set (open_fds w)"
  obtains fp w2 where
    "send_local_file fs c make_default_response name w =
       map_option (\<lambda>(err, w). Inr (err, os_fclose fp w)) (send_file_loop (c_sock c) fp 1 w2)"
    "files w2 fp = Some \<lparr>fdata = d, fpos = 0, eof_flag = False\<rparr>" "same_system w w2" "open_fds w2 = open_fds w"
    "wire w2 (c_sock c) = wire w (c_sock c) @ encoding (response_head ext d) False"
proof -
  let ?h = "response_head ext d"
  let ?e = "encoding ?h False"
  have "nul_free (content_type_loop content_types ext)" using content_types_ok[of ext] by (simp add: header_ok_def)
  moreover have "nul_free (dec_str (length d))" using content_length_ok[of "length d"] by (simp add: header_ok_def)
  ultimately have res: "fst (httpc_Message_setValue (fst (httpc_Message_setValue make_default_response ''Content-Type''
        (content_type_loop content_types ext))) ''Content-Length'' (dec_str (length d))) = ?h"
    by (simp add: default_response_eq httpc_Message_setValue_def make_kvpair_def response_head_def)
  have st: "has_start_line ?h" "body_ok ?h"
    by (simp_all add: has_start_line_def response_head_def body_ok_def body_bytes_def httpc_Message_create_def int_ok_def)
  obtain buf where buf: "httpc_Message_get_encode_length (Some ?h) False = Inr (int (length ?e))"
      "c_int (int (length ?e) + 1) = Inr (int (length ?e) + 1)"
      "httpc_Message_encode ?h (replicate (nat (int (length ?e) + 1)) NUL) False = Inr buf" "take (length ?e) buf = ?e"
    by (rule encode_for_sending[OF st response_head_short[OF assms(4)]])
  obtain w1 where w1: "send_data (c_sock c) ?e w = (0, w1)" "wire w1 (c_sock c) = wire w (c_sock c) @ ?e" "same_system w w1"
      "files w1 = files w" "open_fds w1 = open_fds w"
    by (rule send_block[OF assms(5,6)])
  let ?f = "\<lparr>fdata = d, fpos = 0, eof_flag = False\<rparr>" and ?fp = "int (tick w1) + 1"
  let ?w2 = "(pass w1)\<lparr>files := (files w1)(?fp \<mapsto> ?f)\<rparr>"
  have open_file: "os_fopen fs name w1 = (?fp, ?w2)" "?fp \<noteq> 0" using assms(2) by (simp_all add: os_fopen_def Let_def)
  have size: "int (length d) mod 4294967296 = int (length d)" using assms(4) by simp
  have "send_local_file fs c make_default_response name w =
      map_option (\<lambda>(err, w). Inr (err, os_fclose ?fp w)) (send_file_loop (c_sock c) ?fp 1 ?w2)"
    using buf w1(1) open_file res
    by (simp add: send_local_file_def get_context_type_from_ext_def assms(1,3) size Let_def)
  moreover have "same_system w ?w2" using w1(3) by (simp add: same_system_def)
  ultimately show thesis using w1(2,5) by (intro that[of ?fp ?w2]) simp_all
qed

lemma send_local_file_sends:
  assumes "stat_ans fs name = Some (mode, int (length d))" and "content_ans fs name = Some d"
    and "strrchr_dot name = Some ext" and "length d < 2147483648"
    and "send_some w" and "reads_well w" and "c_sock c \<in> set (open_fds w)"
  shows "\<exists>w'. send_local_file fs c make_default_response name w = Some (Inr (1, w')) \<and>
    wire w' (c_sock c) = wire w (c_sock c) @ encoding (response_file ext d) True \<and> open_fds w' = open_fds w"
proof -
  obtain fp w2 where w2: "send_local_file fs c make_default_response name w =
       map_option (\<lambda>(err, w). Inr (err, os_fclose fp w)) (send_file_loop (c_sock c) fp 1 w2)"
    "files w2 fp = Some \<lparr>fdata = d, fpos = 0, eof_flag = False\<rparr>" "same_system w w2" "open_fds w2 = open_fds w"
    "wire w2 (c_sock c) = wire w (c_sock c) @ encoding (response_head ext d) False"
    by (rule send_local_file_head[OF assms(1-5,7)])
  have "reads_well w2" using assms(6) w2(3) by (simp add: reads_well_def same_system_def)
  from send_file_loop_sends[OF w2(2) _ _ this send_some_same[OF w2(3) assms(5)], of "c_sock c" 1] assms(7) w2(4)
  obtain w3 where w3: "send_file_loop (c_sock c) fp 1 w2 = Some (1, w3)" "wire w3 (c_sock c) = wire w2 (c_sock c) @ d"
      "open_fds w3 = open_fds w" by auto
  then have "send_local_file fs c make_default_response name w = Some (Inr (1, os_fclose fp w3))"
    using w2(1) by simp
  moreover have "wire (os_fclose fp w3) (c_sock c) = wire w (c_sock c) @ encoding (response_file ext d) True"
    using w3(2) w2(5) head_and_body[of ext d] by (simp add: os_fclose_def)
  moreover have "open_fds (os_fclose fp w3) = open_fds w" using w3(3) by (simp add: os_fclose_def)
  ultimately show ?thesis by blast
qed

text \<open>C13: the server's main path on one connection: when the bytes of a request without a body arrive one by one,
  the peer keeps taking bytes and reading works, and the working directory followed by the path of the
  URL names a file with a dot in its name, exactly one message goes out, the response with the type of
  its extension, the file's length and all its bytes, and the connection is closed; the message is well
  formed, so the library's own parser reads it back. Nothing confines the name to the directory: a
  path that climbs out of it is served as well.\<close>

theorem handle_serves_file:
  assumes req: "wire_ok req" "bodylen req = 0" "p2 req = Some p"
    and net: "c_sock c \<in> set (open_fds w)" "arrives (encoding req True) w" "send_some w" "reads_well w"
    and url: "matcher_ok rx_url" "matcher_ok rx_auth" "rx_url p = Some subs" "nul_free p" "nul_free (cwd fs)"
    and name: "name = cwd fs @ group p subs 5" "length name < 1024" "is_local_file fs name" "strrchr_dot name = Some ext"
    and disk: "stat_ans fs name = Some (mode, int (length d))" "content_ans fs name = Some d" "length d < 2147483648"
  shows "\<exists>w'. handle fs rx_url rx_auth c w = Some (Inr w') \<and> c_sock c \<notin> set (open_fds w') \<and>
    wire w' (c_sock c) = wire w (c_sock c) @ encoding (response_file ext d) True \<and> wire_ok (response_file ext d)"
proof -
  obtain m' w1 where w1: "make_request c w = Some (Inr (Some m', w1))" "p2 m' = p2 req" "same_system w w1"
      "open_fds w1 = open_fds w" "wire w1 = wire w"
    by (rule request_received[OF req(1,2) net(1,2)])
  have "reads_well w1" "c_sock c \<in> set (open_fds w1)" using net(1,4) w1(3,4) by (simp_all add: reads_well_def same_system_def)
  from send_local_file_sends[OF disk(1,2) name(4) disk(3) send_some_same[OF w1(3) net(3)] this]
  obtain w2 where w2: "send_local_file fs c make_default_response name w1 = Some (Inr (1, w2))"
      "wire w2 (c_sock c) = wire w1 (c_sock c) @ encoding (response_file ext d) True" by blast
  have "handle_http fs rx_url rx_auth c m' make_default_response w1 = Some (Inr (make_default_response, 1, w2))"
    using request_names_file[OF url(1-5) name(1,2), of m'] w1(2) req(3) name(3) w2(1) by simp
  then show ?thesis
    using w1 w2(2) response_file_wire_ok[OF disk(3)] by (simp add: handle_def os_close_def)
qed

text \<open>A path that leaves the served directory.\<close>

definition climbing_request :: HttpMessage where
  "climbing_request = httpc_Message_create\<lparr>p1 := Some ''GET'', p2 := Some ''/../k.txt'', p3 := Some ''HTTP/1.0''\<rparr>"

definition one_file_fs :: file_system where
  "one_file_fs = \<lparr>cwd = ''/srv'', stat_ans = (\<lambda>n. if n = ''/srv/../k.txt'' then Some (0x8000, 3) else None),
     content_ans = (\<lambda>n. if n = ''/srv/../k.txt'' then Some ''abc'' else None)\<rparr>"

theorem handle_serves_file_witness:
  "\<exists>w'. handle one_file_fs rx_path rx_path (build_client 5) (world_receiving (encoding climbing_request True)) = Some (Inr w') \<and>
     wire w' 5 = encoding (response_file ''.txt'' ''abc'') True"
proof -
  let ?w = "world_receiving (encoding climbing_request True)"
  have r: "wire_ok climbing_request" by code_simp
  have q: "bodylen climbing_request = 0" "p2 climbing_request = Some ''/../k.txt''"
    by (simp_all add: climbing_request_def httpc_Message_create_def)
  have rx: "rx_path ''/../k.txt'' = Some ((0, 9) # replicate 4 (-1, -1) @ (0, 9) # replicate 4 (-1, -1))"
    by (simp add: rx_path_def)
  have n: "''/srv/../k.txt'' = cwd one_file_fs @ group ''/../k.txt'' ((0, 9) # replicate 4 (-1, -1) @ (0, 9) # replicate 4 (-1, -1)) 5"
    by (simp add: one_file_fs_def group_def eval_nat_numeral)
  have f: "is_local_file one_file_fs ''/srv/../k.txt''" "nul_free (cwd one_file_fs)"
      "stat_ans one_file_fs ''/srv/../k.txt'' = Some (0x8000, int (length ''abc''))"
      "content_ans one_file_fs ''/srv/../k.txt'' = Some ''abc''"
    by (simp_all add: is_local_file_def one_file_fs_def S_IFDIR_def S_IFMT_def)
  have d: "strrchr_dot ''/srv/../k.txt'' = Some ''.txt''" by code_simp
  have c: "c_sock (build_client 5) \<in> set (open_fds ?w)" "reads_well ?w"
    by (simp_all add: build_client_def world_receiving_simps reads_well_def world_receiving_def quiet_world_def)
  have "nul_free ''/../k.txt''" "length ''/srv/../k.txt'' < 1024" "length ''abc'' < 2147483648" by simp_all
  with handle_serves_file[OF r q c(1) world_receiving_simps(1,2) c(2) rx_path_ok rx_path_ok rx _ f(2) n _ f(1) d f(3,4)]
  show ?thesis by (auto simp: build_client_def world_receiving_simps)
qed

section \<open>A file that cannot be read\<close>

text \<open>C39: the request of C13 for a file that can be opened but not read: the loop of \<open>send_local_file\<close> tests for
  the end of the file only, so when every \<open>fread\<close> from now on fails, none of them setting the end-of-file
  flag, then \<open>handle\<close> never returns, although the header with the file's length has been sent. The
  worker of the pool that calls \<open>handle\<close> for the connection is therefore never free again.\<close>

theorem read_error_never_returns:
  assumes req: "wire_ok req" "bodylen req = 0" "p2 req = Some p"
    and net: "c_sock c \<in> set (open_fds w)" "arrives (encoding req True) w" "send_some w"
    and url: "matcher_ok rx_url" "matcher_ok rx_auth" "rx_url p = Some subs" "nul_free p" "nul_free (cwd fs)"
    and name: "name = cwd fs @ group p subs 5" "length name < 1024" "is_local_file fs name" "strrchr_dot name = Some ext"
    and disk: "stat_ans fs name = Some (mode, int (length d))" "content_ans fs name = Some d" "length d < 2147483648"
    and broken: "\<forall>t. tick w \<le> t \<longrightarrow> io_err w t"
  shows "handle fs rx_url rx_auth c w = None"
proof -
  obtain m' w1 where w1: "make_request c w = Some (Inr (Some m', w1))" "p2 m' = p2 req" "same_system w w1"
      "open_fds w1 = open_fds w" "wire w1 = wire w"
    by (rule request_received[OF req(1,2) net(1,2)])
  have "c_sock c \<in> set (open_fds w1)" using net(1) w1(4) by simp
  from send_local_file_head[OF disk(1,2) name(4) disk(3) send_some_same[OF w1(3) net(3)] this]
  obtain fp w2 where w2: "send_local_file fs c make_default_response name w1 =
       map_option (\<lambda>(err, w). Inr (err, os_fclose fp w)) (send_file_loop (c_sock c) fp 1 w2)"
    "files w2 fp = Some \<lparr>fdata = d, fpos = 0, eof_flag = False\<rparr>" "same_system w1 w2" by metis
  have "\<forall>t. tick w2 \<le> t \<longrightarrow> io_err w2 t" using broken w1(3) w2(3) by (simp add: same_system_def)
  then have "send_file_loop (c_sock c) fp 1 w2 = None"
    by (intro send_file_loop_stuck[OF w2(2)]) simp_all
  then have "handle_http fs rx_url rx_auth c m' make_default_response w1 = None"
    using request_names_file[OF url(1-5) name(1,2), of m'] w1(2) req(3) name(3) w2(1) by simp
  then show ?thesis using w1 by (simp add: handle_def)
qed

theorem read_error_never_returns_witness:
  "handle one_file_fs rx_path rx_path (build_client 5)
     ((world_receiving (encoding climbing_request True))\<lparr>io_err := \<lambda>_. True\<rparr>) = None"
proof -
  let ?w = "(world_receiving (encoding climbing_request True))\<lparr>io_err := \<lambda>_. True\<rparr>"
  have r: "wire_ok climbing_request" by code_simp
  have q: "bodylen climbing_request = 0" "p2 climbing_request = Some ''/../k.txt''"
    by (simp_all add: climbing_request_def httpc_Message_create_def)
  have n: "''/srv/../k.txt'' = cwd one_file_fs @ group ''/../k.txt'' ((0, 9) # replicate 4 (-1, -1) @ (0, 9) # replicate 4 (-1, -1)) 5"
    by (simp add: one_file_fs_def group_def eval_nat_numeral)
  have f: "is_local_file one_file_fs ''/srv/../k.txt''" "nul_free (cwd one_file_fs)"
      "stat_ans one_file_fs ''/srv/../k.txt'' = Some (0x8000, int (length ''abc''))"
      "content_ans one_file_fs ''/srv/../k.txt'' = Some ''abc''"
    by (simp_all add: is_local_file_def one_file_fs_def S_IFDIR_def S_IFMT_def)
  have d: "strrchr_dot ''/srv/../k.txt'' = Some ''.txt''" by code_simp
  have c: "c_sock (build_client 5) \<in> set (open_fds ?w)" "\<forall>t. tick ?w \<le> t \<longrightarrow> io_err ?w t"
    by (simp_all add: build_client_def world_receiving_simps)
  have a: "arrives (encoding climbing_request True) ?w" "send_some ?w"
    using world_receiving_simps(1,2)[of "encoding climbing_request True"] by (simp_all add: arrives_def send_some_def send_ok_def)
  have "nul_free ''/../k.txt''" "length ''/srv/../k.txt'' < 1024" "length ''abc'' < 2147483648" by simp_all
  then show ?thesis
    by (intro read_error_never_returns[OF r q c(1) a rx_path_ok rx_path_ok _ _ f(2) n _ f(1) d f(3,4) _ c(2)])
      (simp_all add: rx_path_def)
qed

end
