(* ===== verification/Http_Stages.thy ===== *)
theory Http_Stages
  imports Http_Parser_Inv
begin

text \<open>
  What the HTTP parser of \<open>httpparser.c\<close> can no longer change once it has begun a header line, the body,
  or completed the message. \<open>HttpParserState\<close> is ordered as the numbers of its enumeration. The field
  \<open>state\<close> itself goes back and forth within a line (from behind a CR to the line's own state), and up to the
  first byte of a header line it may even come back to \<open>HTTP_STARTLINE\<close>: \<open>second_start_line\<close>.
\<close>

section \<open>The enumeration\<close>

primrec state_number :: "HttpParserState \<Rightarrow> nat" where
  "state_number HTTP_UNKNOWN = 0"
| "state_number HTTP_STARTLINE = 1"
| "state_number HTTP_HEADERS = 2"
| "state_number HTTP_BODY = 3"
| "state_number HTTP_COMPLETE = 4"
| "state_number HTTP_CR = 5"
| "state_number HTTP_CRLF = 6"
| "state_number HTTP_LSW = 7"

lemma state_number_inj: "state_number s = state_number t \<Longrightarrow> s = t"
  by (cases s; cases t) simp_all

instantiation HttpParserState :: linorder
begin

definition less_eq_HttpParserState :: "HttpParserState \<Rightarrow> HttpParserState \<Rightarrow> bool" where
  "less_eq_HttpParserState s t \<longleftrightarrow> state_number s \<le> state_number t"

definition less_HttpParserState :: "HttpParserState \<Rightarrow> HttpParserState \<Rightarrow> bool" where
  "less_HttpParserState s t \<longleftrightarrow> state_number s < state_number t"

instance
  by standard (auto simp: less_eq_HttpParserState_def less_HttpParserState_def intro: state_number_inj)

end

section \<open>Stages\<close>

text \<open>Which kind of line the bytes read so far leave the parser at: in the states behind a CR, behind a line
  end and at the blanks of a folded line, where the next byte decides, it is that of \<open>last_state\<close>, the
  state these go back to. So a message is past its start line from the first byte of a header line on,
  not yet behind the start line's end, where \<open>last_state\<close> is still \<open>HTTP_STARTLINE\<close>.\<close>

definition parser_stage :: "ParserData \<Rightarrow> HttpParserState" where
  "parser_stage pd =
     (if HTTP_COMPLETE < state pd then (case last_state pd of None \<Rightarrow> HTTP_UNKNOWN | Some st \<Rightarrow> st) else state pd)"

definition msg_stage :: "HttpMessage \<Rightarrow> HttpParserState" where
  "msg_stage m = (case pri_data m of None \<Rightarrow> HTTP_UNKNOWN | Some pd \<Rightarrow> parser_stage pd)"

lemmas stage_defs = msg_stage_def parser_stage_def less_HttpParserState_def less_eq_HttpParserState_def

text \<open>From \<open>m\<close> on to \<open>m'\<close>: the stage does not go back, the start line is written in its stage only, the
  headers not behind theirs and not before, and the body grows from its own stage on.\<close>

definition advances :: "HttpMessage \<Rightarrow> HttpMessage \<Rightarrow> bool" where
  "advances m m' \<longleftrightarrow> msg_stage m \<le> msg_stage m' \<and>
     (HTTP_HEADERS \<le> msg_stage m \<longrightarrow> p1 m' = p1 m \<and> p2 m' = p2 m \<and> p3 m' = p3 m) \<and>
     (HTTP_BODY \<le> msg_stage m \<or> msg_stage m' \<le> HTTP_STARTLINE \<longrightarrow> headers m' = headers m) \<and>
     (msg_stage m' < HTTP_BODY \<longrightarrow> body m' = body m \<and> bodylen m' = bodylen m) \<and>
     (\<exists>bytes. body_bytes m' = body_bytes m @ bytes)"

lemma advances_refl [simp]: "advances m m"
  by (simp add: advances_def)

lemma advances_body:
  assumes "msg_stage m \<le> msg_stage m'" and "body m' = body m" and "bodylen m' = bodylen m"
    and "HTTP_HEADERS \<le> msg_stage m \<Longrightarrow> p1 m' = p1 m \<and> p2 m' = p2 m \<and> p3 m' = p3 m"
    and "HTTP_BODY \<le> msg_stage m \<or> msg_stage m' \<le> HTTP_STARTLINE \<Longrightarrow> headers m' = headers m"
  shows "advances m m'"
  using assms by (simp add: advances_def body_bytes_def)

lemma advances_trans:
  assumes a: "advances m m1" and b: "advances m1 m2"
  shows "advances m m2"
proof -
  have le: "msg_stage m \<le> msg_stage m1" "msg_stage m1 \<le> msg_stage m2" using a b by (simp_all add: advances_def)
  have up: "s \<le> msg_stage m \<Longrightarrow> s \<le> msg_stage m1" for s using le(1) by (rule order.trans[rotated])
  have down: "msg_stage m2 \<le> s \<Longrightarrow> msg_stage m1 \<le> s" "msg_stage m2 < s \<Longrightarrow> msg_stage m1 < s" for s
    by (rule order.trans[OF le(2)], assumption) (rule order.strict_trans1[OF le(2)], assumption)
  have "msg_stage m \<le> msg_stage m2" using le by (rule order.trans)
  moreover have "\<exists>bytes. body_bytes m2 = body_bytes m @ bytes" using a b by (auto simp: advances_def)
  ultimately show ?thesis using a b up[of HTTP_HEADERS] up[of HTTP_BODY] down(1)[of HTTP_STARTLINE] down(2)[of HTTP_BODY]
    by (auto simp: advances_def)
qed

lemma advances_set_pd:
  assumes "msg_stage m \<le> parser_stage pd"
  shows "advances m (set_pd m pd)"
  using assms by (intro advances_body) (simp_all add: msg_stage_def set_pd_def)

lemma set_pd_grow:
  assumes "grow_body m d len = Inr m1" and "body_ok m" and "msg_stage m = HTTP_BODY"
  shows "advances m m1 \<and> msg_stage m1 = msg_stage m"
proof -
  have "bodylen m = int (length (body_bytes m))" using assms(2) by (simp add: body_ok_def)
  then have m1: "m1 = m\<lparr>body := Some (body_bytes m @ take (nat len) d), bodylen := bodylen m + len\<rparr>"
    using grow_body_facts(6)[OF assms(1)] by simp
  then have "msg_stage m1 = msg_stage m" by (simp add: msg_stage_def)
  moreover have "\<not> HTTP_BODY < HTTP_BODY" "\<not> HTTP_BODY \<le> HTTP_STARTLINE" by (simp_all add: stage_defs)
  ultimately show ?thesis using assms(3) by (simp add: m1 advances_def body_bytes_def)
qed

lemma finish_body_advances:
  assumes "finish_body m = Inr m'" and "msg_stage m = HTTP_BODY"
  shows "advances m m'"
proof -
  obtain pd where pd: "pri_data m = Some pd" using assms(2) by (auto simp: msg_stage_def split: option.splits)
  with assms(1) have "m' = m \<or> m' = set_pd m (pd\<lparr>state := HTTP_COMPLETE\<rparr>)"
    by (auto simp: finish_body_def set_state_def with_pd_def split: if_splits)
  with assms(2) show ?thesis by (auto simp: stage_defs intro!: advances_set_pd)
qed

lemma parseHeaderLine_start:
  "parseHeaderLine m = Inr m' \<Longrightarrow> p1 m' = p1 m \<and> p2 m' = p2 m \<and> p3 m' = p3 m \<and> body m' = body m \<and> bodylen m' = bodylen m"
  by (auto simp: parseHeaderLine_def with_pd_Inr Let_def httpc_Message_setValue_def split: option.splits)

lemma parseStartLine_rest:
  "parseStartLine m = Inr m' \<Longrightarrow> headers m' = headers m \<and> body m' = body m \<and> bodylen m' = bodylen m"
  by (auto simp: parseStartLine_def with_pd_Inr Let_def split: option.splits)

text \<open>The end of a line: the line is read into the message, and the next one is a header.\<close>

lemma crlf_line_advances:
  assumes i: "pd_inv m pd" and pd: "pri_data m = Some pd" and st: "state pd = HTTP_CRLF" and b: "\<not> isblank c"
    and step: "byte_crlf c m = Inr m'"
  shows "advances m m'"
proof -
  obtain ls where ls: "last_state pd = Some ls" "ls = HTTP_STARTLINE \<or> ls = HTTP_HEADERS" using i st by (auto simp: pd_inv_def)
  obtain m1 where m1: "(if ls = HTTP_STARTLINE then parseStartLine m else parseHeaderLine m) = Inr m1"
      "m' = set_pd m1 ((pd_line c (pd\<lparr>linedata := []\<rparr>))\<lparr>state := (if c = CR then HTTP_CR else HTTP_HEADERS)\<rparr>)"
    using step byte_crlf_line_eq[OF pd b ls(1)] by (auto split: if_splits)
  have h: "p1 m' = p1 m \<and> p2 m' = p2 m \<and> p3 m' = p3 m" if "ls = HTTP_HEADERS"
    using m1 that parseHeaderLine_start[of m m1] by (simp add: set_pd_def)
  have s: "headers m' = headers m" if "ls = HTTP_STARTLINE"
    using m1 that parseStartLine_rest[of m m1] by (simp add: set_pd_def)
  have "body m' = body m" "bodylen m' = bodylen m"
    using m1 parseHeaderLine_start[of m m1] parseStartLine_rest[of m m1] by (simp_all add: set_pd_def split: if_splits)
  moreover have "last_state (pd_line c (pd\<lparr>linedata := []\<rparr>)) = last_state pd" by (simp add: pd_line_def)
  ultimately show ?thesis
    by (intro advances_body) (use m1(2) st pd ls h s in \<open>auto simp: stage_defs split: if_splits\<close>)
qed

lemma appendByte_advances:
  assumes inv: "parser_inv m" and pd: "pri_data m = Some pd" and st: "state pd \<noteq> HTTP_BODY" and step: "appendByte c m = Inr m'"
  shows "advances m m'"
proof -
  have i: "pd_inv m pd" using inv pd by (auto simp: parser_inv_def)
  have len: "length (linedata pd) \<le> line_bufsize pd" using i by (simp add: pd_inv_def)
  have stage: "msg_stage m = parser_stage pd" using pd by (simp add: msg_stage_def)
  show ?thesis
  proof (cases "state pd")
    case HTTP_CR
    then obtain ls where ls: "last_state pd = Some ls" "ls = HTTP_STARTLINE \<or> ls = HTTP_HEADERS" using i by (auto simp: pd_inv_def)
    have "byte_cr c m = Inr m'" using step pd HTTP_CR by (simp add: appendByte_def with_pd_def)
    then obtain s where "m' = set_pd m ((pd_line c pd)\<lparr>state := s\<rparr>)" "s \<in> {ls, HTTP_CRLF, HTTP_BODY, HTTP_COMPLETE}"
      using byte_cr_eq[OF pd len ls(1), of c] by (auto split: if_splits)
    with stage HTTP_CR ls show ?thesis by (auto simp: stage_defs intro!: advances_set_pd)
  next
    case HTTP_CRLF
    then have eq: "byte_crlf c m = Inr m'" using step pd by (simp add: appendByte_def with_pd_def)
    show ?thesis
    proof (cases "isblank c")
      case True
      then show ?thesis
        using eq byte_crlf_blank_eq[OF pd True] stage HTTP_CRLF
        by (auto simp: stage_defs intro!: advances_set_pd split: option.splits)
    qed (rule crlf_line_advances[OF i pd HTTP_CRLF _ eq])
  next
    case HTTP_LSW
    then obtain ls where ls: "last_state pd = Some ls" "ls = HTTP_STARTLINE \<or> ls = HTTP_HEADERS" using i by (auto simp: pd_inv_def)
    then show ?thesis
      using step pd HTTP_LSW byte_lsw_eq[OF pd len ls(1), of c] stage
      by (auto simp: appendByte_def with_pd_def stage_defs intro!: advances_set_pd split: if_splits)
  qed (use step pd st stage byte_line_eq[OF pd len, of _ c] in
      \<open>auto simp: appendByte_def with_pd_def stage_defs intro!: advances_set_pd split: if_splits\<close>)
qed

lemma parse_step_advances:
  assumes inv: "parser_inv m" and step: "parse_step m d = Inr (m', k)"
  shows "advances m m'"
proof -
  obtain pd where pd: "pri_data m = Some pd" using inv by (auto simp: parser_inv_def)
  show ?thesis
  proof (cases "state pd = HTTP_BODY")
    case True
    then have b: "msg_stage m = HTTP_BODY" using pd by (simp add: stage_defs)
    obtain m1 where m1: "grow_body m d k = Inr m1" "finish_body m1 = Inr m'"
      using step pd True
      by (fastforce simp: parse_step_def with_pd_def appendBody_def Let_def split: option.splits if_splits)
    have "body_ok m" using inv by (simp add: parser_inv_def)
    from set_pd_grow[OF m1(1) this b] b finish_body_advances[OF m1(2)] show ?thesis by (auto intro: advances_trans)
  next
    case False
    then have "appendByte (hd d) m = Inr m'" using step pd by (auto simp: parse_step_def with_pd_def)
    then show ?thesis by (rule appendByte_advances[OF inv pd False])
  qed
qed

lemma parse_loop_advances:
  "parser_inv m \<Longrightarrow> parse_loop m d u = Inr (m', u') \<Longrightarrow> advances m m'"
proof (induction m d u rule: parse_loop.induct)
  case (1 m d u)
  show ?case
  proof (cases "parse_done m \<or> d = []")
    case True
    with 1 show ?thesis by (auto simp: parse_loop.simps[of m])
  next
    case False
    with 1(3) obtain m1 k where s: "parse_step m d = Inr (m1, k)"
        "parse_loop m1 (drop (nat k) d) (u + k) = Inr (m', u')"
      by (auto simp: parse_loop.simps[of m d u] split: sum.splits)
    have "parser_inv m1" using parse_step_inv[OF 1(2) s(1)] False by blast
    from 1(1)[OF False s(1) refl this s(2)] parse_step_advances[OF 1(2) s(1)] show ?thesis
      by (blast intro: advances_trans)
  qed
qed

section \<open>Properties\<close>

lemma parser_inv_state:
  assumes "parser_inv m"
  obtains pd where "pri_data m = Some pd"
    "httpc_Message_state (Some m) = state pd"
    "HTTP_COMPLETE < state pd \<longrightarrow> msg_stage m = HTTP_STARTLINE \<or> msg_stage m = HTTP_HEADERS"
    "\<not> HTTP_COMPLETE < state pd \<longrightarrow> msg_stage m = state pd"
proof -
  obtain pd where pd: "pri_data m = Some pd" "pd_inv m pd" using assms by (auto simp: parser_inv_def)
  have stage: "msg_stage m = parser_stage pd" using pd(1) by (simp add: msg_stage_def)
  show thesis
  proof (rule that[OF pd(1)])
    show "httpc_Message_state (Some m) = state pd" using pd(1) by (simp add: httpc_Message_state_def)
    show "HTTP_COMPLETE < state pd \<longrightarrow> msg_stage m = HTTP_STARTLINE \<or> msg_stage m = HTTP_HEADERS"
    proof
      assume c: "HTTP_COMPLETE < state pd"
      then have "state pd = HTTP_CR \<or> state pd = HTTP_CRLF \<or> state pd = HTTP_LSW"
        by (cases "state pd") (simp_all add: less_HttpParserState_def)
      then have "last_state pd = Some HTTP_STARTLINE \<or> last_state pd = Some HTTP_HEADERS" using pd(2) by (auto simp: pd_inv_def)
      with c stage show "msg_stage m = HTTP_STARTLINE \<or> msg_stage m = HTTP_HEADERS" by (auto simp: parser_stage_def)
    qed
    show "\<not> HTTP_COMPLETE < state pd \<longrightarrow> msg_stage m = state pd" using stage by (simp add: parser_stage_def)
  qed
qed

text \<open>C18: three points from which there is no way back, however the input is cut. From the first byte of a
  header line on the parser never returns to \<open>HTTP_STARTLINE\<close> and the start line does not change; until
  then no header is added. From the end of the headers on it stays in \<open>HTTP_BODY\<close> or \<open>HTTP_COMPLETE\<close> and
  the headers do not change; until then the body does not, and from then on it only grows at its end.
  A complete message takes no byte and does not change. Before the first byte of a header line there is no such promise: a
  bare CR behind the start line takes the parser back to \<open>HTTP_STARTLINE\<close>, and what follows is parsed
  as a second start line (\<open>second_start_line\<close>).\<close>

theorem parser_stages_advance:
  assumes "parser_inv m" and "httpc_parser_parse (Some m) d = Inr (m', used)"
  shows "msg_stage m \<le> msg_stage m' \<and>
    (HTTP_HEADERS \<le> msg_stage m \<longrightarrow>
       p1 m' = p1 m \<and> p2 m' = p2 m \<and> p3 m' = p3 m \<and> httpc_Message_state (Some m') \<noteq> HTTP_STARTLINE) \<and>
    (msg_stage m' \<le> HTTP_STARTLINE \<longrightarrow> headers m' = headers m) \<and>
    (HTTP_BODY \<le> msg_stage m \<longrightarrow>
       headers m' = headers m \<and> httpc_Message_state (Some m') \<in> {HTTP_BODY, HTTP_COMPLETE}) \<and>
    (msg_stage m' < HTTP_BODY \<longrightarrow> body m' = body m \<and> bodylen m' = bodylen m) \<and>
    (\<exists>bytes. body_bytes m' = body_bytes m @ bytes) \<and>
    (httpc_Message_state (Some m) = HTTP_COMPLETE \<longrightarrow> m' = m \<and> used = 0)"
proof -
  have l: "parse_loop m d 0 = Inr (m', used)" using assms(2) by (auto simp: httpc_parser_parse_def Let_def)
  note a = parse_loop_advances[OF assms(1) l]
  then have le: "msg_stage m \<le> msg_stage m'" by (simp add: advances_def)
  have "parser_inv m'" using parse_loop_inv[OF assms(1) l] by blast
  then obtain pd' where pd': "pri_data m' = Some pd'" "httpc_Message_state (Some m') = state pd'"
    "HTTP_COMPLETE < state pd' \<longrightarrow> msg_stage m' = HTTP_STARTLINE \<or> msg_stage m' = HTTP_HEADERS"
    "\<not> HTTP_COMPLETE < state pd' \<longrightarrow> msg_stage m' = state pd'"
    by (rule parser_inv_state)
  have s1: "state pd' \<noteq> HTTP_STARTLINE" if "HTTP_HEADERS \<le> msg_stage m'"
    using that pd'(4) by (auto simp: less_eq_HttpParserState_def less_HttpParserState_def)
  have s2: "state pd' \<in> {HTTP_BODY, HTTP_COMPLETE}" if "HTTP_BODY \<le> msg_stage m'"
  proof (cases "HTTP_COMPLETE < state pd'")
    case True
    with pd'(3) that show ?thesis by (auto simp: less_eq_HttpParserState_def)
  next
    case False
    with pd'(4) that show ?thesis by (cases "state pd'") (simp_all add: less_eq_HttpParserState_def less_HttpParserState_def)
  qed
  have d: "m' = m \<and> used = 0" if "httpc_Message_state (Some m) = HTTP_COMPLETE"
    using that l assms(1)
    by (auto simp: parse_loop.simps[of m] parse_done_def httpc_Message_state_def parser_inv_def split: option.splits)
  have up: "s \<le> msg_stage m \<Longrightarrow> s \<le> msg_stage m'" for s using le by (rule order.trans[rotated])
  show ?thesis using a d s1[OF up] s2[OF up] pd'(2) by (simp add: advances_def)
qed

definition first_piece :: string where
  "first_piece = ''GET / HTTP/1.0'' @ crlf @ ''Host: a'' @ crlf @ ''Age''"

definition second_piece :: string where
  "second_piece = '': y'' @ crlf @ crlf"

definition stage_of :: "(HttpMessage \<times> int) result \<Rightarrow> (HttpParserState \<times> string option \<times> string list) option" where
  "stage_of r = (case r of Inl e \<Rightarrow> None | Inr (m, u) \<Rightarrow> Some (msg_stage m, p1 m, map fst (headers m)))"

lemma sample_pieces:
  "stage_of (httpc_parser_parse None first_piece) = Some (HTTP_HEADERS, Some ''GET'', [''Host''])"
  "stage_of (bind_r (httpc_parser_parse None first_piece) (\<lambda>(m, u). httpc_parser_parse (Some m) second_piece)) =
     Some (HTTP_COMPLETE, Some ''GET'', [''Age'', ''Host''])"
  by code_simp+

text \<open>The first piece ends inside the headers; the rest of the message leaves the start line as it is.\<close>

theorem parser_stages_advance_witness:
  "\<exists>m u m' u'. httpc_parser_parse None first_piece = Inr (m, u) \<and> httpc_parser_parse (Some m) second_piece = Inr (m', u') \<and>
     msg_stage m = HTTP_HEADERS \<and> HTTP_HEADERS \<le> msg_stage m' \<and> p1 m' = Some ''GET'' \<and>
     httpc_Message_state (Some m') \<noteq> HTTP_STARTLINE"
proof -
  obtain m u where m: "httpc_parser_parse None first_piece = Inr (m, u)" "msg_stage m = HTTP_HEADERS" "p1 m = Some ''GET''"
    using sample_pieces(1) by (auto simp: stage_of_def split: sum.splits)
  then obtain m' u' where m': "httpc_parser_parse (Some m) second_piece = Inr (m', u')"
    using sample_pieces(2) by (cases "httpc_parser_parse (Some m) second_piece") (auto simp: stage_of_def)
  have "parse_loop fresh_message first_piece 0 = Inr (m, u)"
    using m(1) by (auto simp: httpc_parser_parse_def Let_def)
  then have "parser_inv m" using parse_loop_inv[OF parser_inv_fresh] by blast
  from parser_stages_advance[OF this m'] m m' show ?thesis by auto
qed

text \<open>A line that begins with a CR not followed by LF is read as a second start line when it comes first
  behind the start line: the parser still has \<open>last_state\<close> from there.\<close>

theorem second_start_line:
  "stage_of (httpc_parser_parse None (''GET / HTTP/1.0'' @ crlf @ [CR] @ ''DELETE /x HTTP/1.0'' @ crlf @ crlf)) =
     Some (HTTP_COMPLETE, Some '''', [])"
  by code_simp

end
