(* ===== verification/Teacher_Tracing.thy ===== *)
theory Teacher_Tracing
  imports Teacher_Ptz
begin

text \<open>
  The second way \<open>TeacherPtz.cpp\<close> has of following the target: \<open>set_detected_data2\<close> and
  \<open>handle_valid_data\<close>. The source reads a variable \<open>fva\<close> there that it declares nowhere, so its value is
  a parameter of the model; in \<open>smooth_tracing\<close> the variable of that name is the half view angle. The clock,
  the camera's position \<open>h\<close> and the scale of its zoom are arguments.
\<close>

section \<open>Operations\<close>

text \<open>The target is in view. The code hands the camera to the library without a test for null.\<close>

definition target_in_view ::
    "'c kvconfig \<Rightarrow> real \<Rightarrow> real \<Rightarrow> real \<Rightarrow> real \<Rightarrow> 'c TeacherPtz \<Rightarrow> 'c TeacherPtz result" where
  "target_in_view K fva now td cd t =
     (let t = t\<lparr>tp_valid_duration := StateDuration_set_state 0 now (tp_valid_duration t)\<rparr> in
      bind_r (time_to_closeview K (tp_policy t)) (\<lambda>ttc.
      let t = (if StateDuration_duration now (tp_valid_duration t) > ttc then t\<lparr>stable := True\<rparr> else t) in
      if \<not> has_ptz (tp_base t) then Inl Null_Ptr
      else if cd - fva / 5 > td then Inr (send_cmd (Cmd_left 1) t)
      else if cd + fva / 5 < td then Inr (send_cmd (Cmd_right 1) t)
      else Inr (send_cmd Cmd_stop t)))"

definition target_out_of_view :: "real \<Rightarrow> DetectedData \<Rightarrow> 'c TeacherPtz \<Rightarrow> 'c TeacherPtz result" where
  "target_out_of_view now d t =
     (let t = t\<lparr>tp_valid_duration := StateDuration_set_state 1 now (tp_valid_duration t), stable := False\<rparr> in
      if has_ptz (tp_base t) then
        let t = send_cmd Cmd_stop t in
        bind_r (get_target_deflection d t) (\<lambda>dh.
        bind_r (c_trunc (dh * 180 / pi / min_angle_hori t)) (\<lambda>dh.
        bind_r (c_int (ptz_left t + dh)) (\<lambda>hv.
        Inr (tp_add (task_ptz_set_position (has_ptz (tp_base t)) hv (ptz_v t) (ptz_z t)) t))))
      else Inr t)"

definition handle_valid_data ::
    "'c kvconfig \<Rightarrow> real \<Rightarrow> real \<Rightarrow> int \<Rightarrow> real \<Rightarrow> DetectedData \<Rightarrow> 'c TeacherPtz \<Rightarrow> 'c TeacherPtz result" where
  "handle_valid_data K fva now h scale d t =
     (let t = t\<lparr>reseted := False\<rparr> in
      bind_r (get_target_deflection d t) (\<lambda>td.
      bind_r (get_current_deflection h t) (\<lambda>cd.
      let hv = get_current_half_view_angle scale t in
      if cd - hv < td \<and> cd + hv > td then target_in_view K fva now td cd t
      else target_out_of_view now d t)))"

definition set_detected_data2 ::
    "'c kvconfig \<Rightarrow> 'c \<Rightarrow> real \<Rightarrow> real \<Rightarrow> int \<Rightarrow> real \<Rightarrow> DetectedData \<Rightarrow> 'c TeacherPtz \<Rightarrow> 'c TeacherPtz result" where
  "set_detected_data2 K c fva now h scale d t =
     (let (cv, valid) = ChkValidData_update (dd_valid d) now (chk_valid_data t);
          t = t\<lparr>chk_valid_data := cv\<rparr>
      in if \<not> valid then handle_invalid_data K c now t
         else if \<not> dd_valid d then Inr t
         else handle_valid_data K fva now h scale d t)"

section \<open>Properties\<close>

lemma target_deflection_ca: "ca u = ca t \<Longrightarrow> get_target_deflection d u = get_target_deflection d t"
  by (cases "poss d") (auto simp: get_target_deflection_def)

lemma angles_reseted [simp]:
  "get_target_deflection d (t\<lparr>reseted := b\<rparr>) = get_target_deflection d t"
  "get_current_deflection h (t\<lparr>reseted := b\<rparr>) = get_current_deflection h t"
  "get_current_half_view_angle z (t\<lparr>reseted := b\<rparr>) = get_current_half_view_angle z t"
  by (rule target_deflection_ca) (simp_all add: get_current_deflection_def get_current_half_view_angle_def)

text \<open>In view, and with \<open>fva\<close> the half view angle, the camera is sent the command of smooth tracing.\<close>

lemma in_view_like_smooth:
  assumes "has_ptz (tp_base t)" and "dd_valid d" and "get_target_deflection d t = Inr td" and "get_current_deflection h t = Inr cd"
    and "\<bar>cd - td\<bar> < get_current_half_view_angle z t"
    and "handle_valid_data K (get_current_half_view_angle z t) now h z d t = Inr t'"
  shows "\<exists>u. smooth_tracing h z d t = Inr u \<and> direct t' = direct u"
proof -
  have "cd - get_current_half_view_angle z t < td" "cd + get_current_half_view_angle z t > td" using assms(5) by linarith+
  then show ?thesis
    using assms(1-4,6)
    by (auto simp: handle_valid_data_def smooth_tracing_def target_in_view_def send_cmd_def Let_def split: if_splits)
qed

text \<open>Truncation towards zero stays within one step below a positive number.\<close>

lemma trunc_step:
  assumes "c_trunc (x / m) = Inr i" and "0 \<le> x" and "0 < m"
  shows "0 \<le> i" and "i * m \<le> x" and "x - i * m < m" and "c_int i = Inr i"
proof -
  have "0 \<le> x / m" using assms(2,3) by simp
  then have c: "c_int \<lfloor>x / m\<rfloor> = Inr i" using assms(1) by (simp add: c_trunc_def)
  from c_int_value[OF c] c have i: "i = \<lfloor>x / m\<rfloor>" "c_int i = Inr i" by simp_all
  then show "0 \<le> i" "c_int i = Inr i" using \<open>0 \<le> x / m\<close> by simp_all
  have "i \<le> x / m" "x / m < i + 1" using i(1) by linarith+
  then show "i * m \<le> x" "x - i * m < m" using assms(3) by (simp_all add: field_simps)
qed

text \<open>C29: a target that left the view is turned to at once: when it does not lie left of the calibrated strip
  (its angle is at least 0; for a smaller one the conversion to int would round past it), the angle of
  one motor step is positive, there is a camera, and the handler comes to its end without a fault, then the camera
  has been stopped and one task sent that puts it to a position whose angle is the target's to within
  one step of its motor, never beyond it.\<close>

theorem turn_reaches_target:
  assumes "has_ptz (tp_base t)" and "0 < min_angle_hori t"
    and "get_target_deflection d t = Inr td" and "0 \<le> td" and "get_current_deflection h t = Inr cd"
    and "\<not> \<bar>cd - td\<bar> < get_current_half_view_angle z t" and "handle_valid_data K fva now h z d t = Inr t'"
  shows "\<exists>hv x cd'. task_ptz_set_position True hv (ptz_v t) (ptz_z t) = Some x \<and>
    all_added (tp_base t') = all_added (tp_base t) @ [x] \<and> direct t' = direct t @ [Cmd_stop] \<and> \<not> stable t' \<and>
    get_current_deflection hv t' = Inr cd' \<and> cd' \<le> td \<and> td - cd' < min_angle_hori t * pi / 180"
proof -
  let ?m = "min_angle_hori t * pi / 180"
  have m: "0 < ?m" using assms(2) by simp
  define u where "u = send_cmd Cmd_stop (t\<lparr>reseted := False,
    tp_valid_duration := StateDuration_set_state 1 now (tp_valid_duration t), stable := False\<rparr>)"
  have td: "get_target_deflection d u = Inr td"
    using target_deflection_ca[of u t d] assms(3) by (simp add: u_def send_cmd_def)
  have u: "min_angle_hori u = min_angle_hori t" "ptz_left u = ptz_left t"
    "tp_base u = tp_base t" "ptz_v u = ptz_v t" "ptz_z u = ptz_z t" "direct u = direct t @ [Cmd_stop]" "\<not> stable u"
    using assms(1) by (simp_all add: u_def send_cmd_def)
  have "\<not> (cd - get_current_half_view_angle z t < td \<and> cd + get_current_half_view_angle z t > td)" using assms(6) by linarith
  then have "target_out_of_view now d (t\<lparr>reseted := False\<rparr>) = Inr t'"
    using assms(3,5,7) by (auto simp: handle_valid_data_def Let_def)
  then obtain dh hv where dh: "c_trunc (td * 180 / pi / min_angle_hori t) = Inr dh" "c_int (ptz_left t + dh) = Inr hv"
      "t' = tp_add (task_ptz_set_position True hv (ptz_v t) (ptz_z t)) u"
    using assms(1) u td by (auto simp: target_out_of_view_def Let_def simp flip: u_def)
  have "td * 180 / pi / min_angle_hori t = td / ?m" by (simp add: field_simps)
  note s = trunc_step[OF dh(1)[unfolded this] assms(4) m]
  have hv: "hv = ptz_left t + dh" using c_int_value[OF dh(2)] .
  obtain x where x: "task_ptz_set_position True hv (ptz_v t) (ptz_z t) = Some x"
    by (simp add: task_ptz_set_position_def task_ptz_reset_def)
  have "get_current_deflection hv t' = Inr (dh * min_angle_hori t * pi / 180)"
    using s(1,4) u assms(1) hv dh(3)
    by (simp add: get_current_deflection_def tp_add_def Ptz_add_def Ptz_push_def Ptz_post_def)
  moreover have "all_added (tp_base t') = all_added (tp_base t) @ [x]" "direct t' = direct t @ [Cmd_stop]" "\<not> stable t'"
    using dh(3) x u by (simp_all add: tp_add_def Ptz_add_def Ptz_push_def Ptz_post_def opt_list_def)
  ultimately show ?thesis using x s(2,3) by (intro exI[of _ hv] exI[of _ x] exI[of _ "dh * min_angle_hori t * pi / 180"]) (simp add: mult.assoc)
qed

definition seen_480 :: DetectedData where
  "seen_480 = \<lparr>dd_valid = True, dd_stamp = 1, poss = [(380, 580)]\<rparr>"

lemma sample_turn:
  "get_target_deflection seen_480 sample_strip = Inr (pi / 6)" "get_current_deflection (-400) sample_strip = Inr 0"
  "get_current_half_view_angle 2 sample_strip = 145 / 1440 * pi" "has_ptz (tp_base sample_strip)"
  using sample_arc_mid
  by (simp_all add: get_target_deflection_def get_current_deflection_def get_current_half_view_angle_def seen_480_def
      sample_strip_def ptz_start_def)

lemma sample_turn_runs: "\<exists>t'. handle_valid_data assoc_config 0 1 (-400) 2 seen_480 sample_strip = Inr t'"
proof -
  have "\<not> (0 - get_current_half_view_angle 2 sample_strip < pi / 6 \<and> 0 + get_current_half_view_angle 2 sample_strip > pi / 6)"
    using pi_gt_zero by (simp add: sample_turn(3))
  then have "handle_valid_data assoc_config 0 1 (-400) 2 seen_480 sample_strip = target_out_of_view 1 seen_480 (sample_strip\<lparr>reseted := False\<rparr>)"
    using sample_turn(1,2) by (auto simp: handle_valid_data_def Let_def)
  moreover have "ca u = ca sample_strip \<Longrightarrow> get_target_deflection seen_480 u = Inr (pi / 6)" for u :: "(string \<times> string) list TeacherPtz"
    using target_deflection_ca[of u sample_strip seen_480] sample_turn(1) by simp
  moreover have "pi / 6 * 180 / pi / min_angle_hori sample_strip = 400" by (simp add: sample_strip_def)
  moreover have "c_trunc 400 = Inr 400" "ptz_left sample_strip = -400" by (simp_all add: c_trunc_def sample_strip_def)
  ultimately show ?thesis
    using sample_turn(4) by (simp add: target_out_of_view_def send_cmd_def Let_def del: divide_divide_eq_left)
qed

theorem turn_reaches_target_witness:
  "\<exists>t' hv x. handle_valid_data assoc_config 0 1 (-400) 2 seen_480 sample_strip = Inr t' \<and>
     task_ptz_set_position True hv 0 5000 = Some x \<and> all_added (tp_base t') = [x]"
proof -
  obtain t' where t': "handle_valid_data assoc_config 0 1 (-400) 2 seen_480 sample_strip = Inr t'"
    using sample_turn_runs by blast
  have "\<not> \<bar>0 - pi / 6\<bar> < get_current_half_view_angle 2 sample_strip" "0 \<le> pi / 6" "0 < min_angle_hori sample_strip"
    using pi_gt_zero by (simp_all add: sample_turn(3)) (simp_all add: sample_strip_def)
  from turn_reaches_target[OF sample_turn(4) this(3) sample_turn(1) this(2) sample_turn(2) this(1) t'] t'
  show ?thesis by (fastforce simp: sample_strip_def ptz_start_def)
qed

end
