(* ===== verification/Teacher_Testing.thy ===== *)
theory Teacher_Testing
  imports Teacher_Impl
begin

text \<open>
  The fourth state of the working thread, \<open>state_testing\<close> (\<open>TeacherRunningImpl.cpp\<close>), which exists when the
  program is compiled with \<open>TEST\<close>, as the line commented out in \<open>TeacherRunningImpl.h\<close> offers. The thread
  then starts in this state and never leaves it (\<open>next_state\<close> is always \<open>TESTING\<close>), so its state is
  \<open>Testing.current_dir\<close> and the commands sent to the camera. A target in the middle of the picture is
  followed by turning the camera; for any other the camera is set to the target's position.
\<close>

section \<open>Model\<close>

text \<open>The \<open>switch\<close> over the direction the camera turns in: the commands and the new direction.\<close>

definition testing_switch :: "Dir \<Rightarrow> point \<Rightarrow> ptz_cmd list \<times> Dir" where
  "testing_switch d p =
     (case d of
        LEFT \<Rightarrow> if fst p > 20 then ([Cmd_stop], MIDDLE) else ([], d)
      | RIGHT \<Rightarrow> if fst p < -20 then ([Cmd_stop], MIDDLE) else ([], d)
      | UP \<Rightarrow> if snd p > 10 then ([Cmd_stop], MIDDLE) else ([], d)
      | DOWN \<Rightarrow> if fst p < -10 then ([Cmd_stop], MIDDLE) else ([], d)
      | MIDDLE \<Rightarrow>
          if fst p < -80 then ([Cmd_stop, Cmd_left 6], LEFT)
          else if fst p > 80 then ([Cmd_stop, Cmd_right 6], RIGHT)
          else if snd p < -60 then ([Cmd_stop, Cmd_up 5], UP)
          else if snd p > 60 then ([Cmd_stop, Cmd_down 5], DOWN)
          else ([], d)
      | _ \<Rightarrow> ([], d))"

text \<open>\<open>abs\<close> of the smallest \<open>int\<close> overflows.\<close>

definition near_centre :: "int \<Rightarrow> int \<Rightarrow> point \<Rightarrow> bool result" where
  "near_centre vw vh p =
     bind_r (c_int \<bar>fst p\<bar>) (\<lambda>x.
     bind_r (c_div vw 2) (\<lambda>hw.
     if x < hw then bind_r (c_int \<bar>snd p\<bar>) (\<lambda>y. bind_r (c_div vh 2) (\<lambda>hh. Inr (y < hh))) else Inr False))"

text \<open>A target outside is pointed at directly.\<close>

definition testing_set_position :: "'c kvconfig \<Rightarrow> 'c \<Rightarrow> TeacherTracingInfo \<Rightarrow> ptz_cmd list result" where
  "testing_set_position K c info =
     (let hh = fst (ti_ang_trace_to_last info) * 180 / pi; vv = snd (ti_ang_trace_to_last info) * 180 / pi in
      bind_r (cfg_real K c ''cam_trace_min_hangle'' ''0.075'') (\<lambda>ax.
      bind_r (cfg_real K c ''cam_trace_min_vangle'' ''0.075'') (\<lambda>ay.
      bind_r (check_r (ax \<noteq> 0 \<and> ay \<noteq> 0) Div_Zero) (\<lambda>_.
      bind_r (trunc_point (hh / ax, vv / ay)) (\<lambda>p.
      Inr [Cmd_set_absolute_position (fst p) (snd p) 30])))))"

text \<open>The value returned, the commands and the new direction.\<close>

definition state_testing :: "'c kvconfig \<Rightarrow> 'c \<Rightarrow> TeacherTracingInfo \<Rightarrow> Dir \<Rightarrow> (int \<times> ptz_cmd list \<times> Dir) result" where
  "state_testing K c info d =
     (if \<not> ti_ptz info then Inr (-1, [], d)
      else
        bind_r (cfg_int K c ''video_width'' ''960'') (\<lambda>vw.
        bind_r (cfg_int K c ''video_height'' ''540'') (\<lambda>vh.
        bind_r (near_centre vw vh (ti_pt_trace_last info)) (\<lambda>near.
        if near then let (cmds, d) = testing_switch d (ti_pt_trace_last info) in Inr (0, cmds, d)
        else bind_r (testing_set_position K c info) (\<lambda>cmds. Inr (0, cmds, MIDDLE))))))"

text \<open>Turn after turn; \<open>sent\<close> is all that was sent to the camera.\<close>

fun testing_turns :: "'c kvconfig \<Rightarrow> 'c \<Rightarrow> TeacherTracingInfo list \<Rightarrow> ptz_cmd list \<times> Dir \<Rightarrow> (ptz_cmd list \<times> Dir) result" where
  "testing_turns K c [] s = Inr s"
| "testing_turns K c (i # is) (sent, d) =
     bind_r (state_testing K c i d) (\<lambda>(rc, cmds, d). testing_turns K c is (sent @ cmds, d))"

section \<open>The direction is what the camera does\<close>

text \<open>What the camera does after a command. A position is reached and kept.\<close>

definition motion_after :: "ptz_cmd \<Rightarrow> Dir \<Rightarrow> Dir" where
  "motion_after x d =
     (case x of
        Cmd_left _ \<Rightarrow> LEFT | Cmd_right _ \<Rightarrow> RIGHT | Cmd_up _ \<Rightarrow> UP | Cmd_down _ \<Rightarrow> DOWN
      | Cmd_stop \<Rightarrow> MIDDLE | Cmd_set_absolute_position _ _ _ \<Rightarrow> MIDDLE | _ \<Rightarrow> d)"

abbreviation camera_motion :: "ptz_cmd list \<Rightarrow> Dir" where
  "camera_motion sent \<equiv> fold motion_after sent MIDDLE"

text \<open>Every command to turn stands directly behind a command to stop.\<close>

fun stop_before_turn :: "bool \<Rightarrow> ptz_cmd list \<Rightarrow> bool" where
  "stop_before_turn b [] \<longleftrightarrow> True"
| "stop_before_turn b (x # xs) \<longleftrightarrow>
     (case x of
        Cmd_left _ \<Rightarrow> b | Cmd_right _ \<Rightarrow> b | Cmd_up _ \<Rightarrow> b | Cmd_down _ \<Rightarrow> b | _ \<Rightarrow> True) \<and>
     stop_before_turn (x = Cmd_stop) xs"

lemma stop_before_turn_append:
  "stop_before_turn b xs \<Longrightarrow> stop_before_turn False ys \<Longrightarrow> stop_before_turn b (xs @ ys)"
proof (induction xs arbitrary: b)
  case Nil
  then show ?case by (cases ys) (auto split: ptz_cmd.splits)
qed auto

lemma state_testing_moves:
  assumes "state_testing K c i d = Inr (rc, cmds, d')" and "d \<in> {LEFT, RIGHT, UP, DOWN, MIDDLE}"
  shows "fold motion_after cmds d = d'" and "stop_before_turn False cmds" and "d' \<in> {LEFT, RIGHT, UP, DOWN, MIDDLE}"
  using assms
  by (auto simp: state_testing_def testing_set_position_def testing_switch_def motion_after_def Let_def split: if_splits)

lemma testing_turns_motion:
  "testing_turns K c is (sent, d) = Inr (sent', d') \<Longrightarrow> camera_motion sent = d \<Longrightarrow> stop_before_turn False sent \<Longrightarrow>
    d \<in> {LEFT, RIGHT, UP, DOWN, MIDDLE} \<Longrightarrow>
    camera_motion sent' = d' \<and> stop_before_turn False sent' \<and> d' \<in> {LEFT, RIGHT, UP, DOWN, MIDDLE}"
proof (induction "is" arbitrary: sent d)
  case (Cons i "is")
  from Cons.prems(1) obtain rc cmds e where s: "state_testing K c i d = Inr (rc, cmds, e)"
      "testing_turns K c is (sent @ cmds, e) = Inr (sent', d')"
    by auto
  note m = state_testing_moves[OF s(1) Cons.prems(4)]
  show ?case
    by (rule Cons.IH[OF s(2)]) (use m Cons.prems(2,3) in \<open>simp_all add: stop_before_turn_append\<close>)
qed auto

text \<open>in the testing state \<open>current_dir\<close> is always the direction in which the camera turns because of the commands sent
  so far, and the camera is never told to turn without being stopped by the command before.\<close>

theorem testing_dir_is_motion:
  assumes "testing_turns K c is ([], MIDDLE) = Inr (sent, d)"
  shows "camera_motion sent = d \<and> stop_before_turn False sent"
  using testing_turns_motion[OF assms] by simp

abbreviation target_at :: "point \<Rightarrow> TeacherTracingInfo" where
  "target_at p \<equiv> sample_info\<lparr>ti_pt_trace_last := p, ti_ang_trace_to_last := (0, 0)\<rparr>"

lemma near_centre_value:
  assumes "\<bar>fst p\<bar> < 480" and "\<bar>snd p\<bar> < 270"
  shows "near_centre 960 540 p = Inr True"
proof -
  have "c_div 960 2 = Inr 480" "c_div 540 2 = Inr 270" by (simp_all add: c_div_pos int_ok_def)
  moreover have "int_ok \<bar>fst p\<bar>" "int_ok \<bar>snd p\<bar>" using assms by (auto simp: int_ok_def intro: order_trans[OF _ abs_ge_zero])
  ultimately show ?thesis using assms by (simp add: near_centre_def c_int_def)
qed

theorem testing_dir_is_motion_witness:
  "\<exists>sent. testing_turns assoc_config [] (map target_at [(-100, 0), (-30, 0), (25, 0), (10, 70)]) ([], MIDDLE) = Inr (sent, DOWN) \<and>
     camera_motion sent = DOWN \<and> stop_before_turn False sent"
proof -
  have "testing_turns assoc_config [] (map target_at [(-100, 0), (-30, 0), (25, 0), (10, 70)]) ([], MIDDLE) =
      Inr ([Cmd_stop, Cmd_left 6, Cmd_stop, Cmd_stop, Cmd_down 5], DOWN)"
    by (simp add: state_testing_def default_ints near_centre_value testing_switch_def sample_info_def)
  from testing_dir_is_motion[OF this] this show ?thesis by blast
qed

section \<open>Where the turning stops\<close>

lemma turning_stops:
  assumes "state_testing K c i d = Inr (0, cmds, d')" and "near_centre vw vh (ti_pt_trace_last i) = Inr True"
    and "cfg_int K c ''video_width'' ''960'' = Inr vw" and "cfg_int K c ''video_height'' ''540'' = Inr vh" and "ti_ptz i"
  shows "d = LEFT \<Longrightarrow> d' = (if fst (ti_pt_trace_last i) > 20 then MIDDLE else LEFT)"
    and "d = RIGHT \<Longrightarrow> d' = (if fst (ti_pt_trace_last i) < -20 then MIDDLE else RIGHT)"
    and "d = UP \<Longrightarrow> d' = (if snd (ti_pt_trace_last i) > 10 then MIDDLE else UP)"
  using assms by (auto simp: state_testing_def testing_switch_def split: if_splits)

text \<open>The camera turned down is compared with the wrong coordinate: while the target is in the picture and
  not to the left of the middle it goes on turning, however far above the middle the target already is.\<close>

theorem turned_down_never_stops:
  assumes "cfg_int K c ''video_width'' ''960'' = Inr vw" and "cfg_int K c ''video_height'' ''540'' = Inr vh"
    and "\<forall>i\<in>set is. ti_ptz i \<and> near_centre vw vh (ti_pt_trace_last i) = Inr True \<and> -10 \<le> fst (ti_pt_trace_last i)"
  shows "testing_turns K c is (sent, DOWN) = Inr (sent, DOWN)"
  using assms(3)
  by (induction "is" arbitrary: sent) (simp_all add: state_testing_def assms(1,2) testing_switch_def)

theorem turned_down_never_stops_witness:
  "testing_turns assoc_config [] (replicate 1000 (target_at (0, -260))) ([Cmd_stop, Cmd_down 5], DOWN) =
     Inr ([Cmd_stop, Cmd_down 5], DOWN)"
  by (rule turned_down_never_stops[OF default_ints(7,8)])
    (auto simp: near_centre_value sample_info_def)

end
