(* ===== verification/Spec2Isabelle.thy ===== *)
theory Spec2Isabelle
  imports Circ_Threads Intrusive_List Http_Server Fd Tcp_Client Thread_Rpc Pool_Memory Teacher_Running Teacher_Impl Student_Running Student_Detecting Student_Impl Tdt Http_Main Http_Memory Connection_Memory Http_Files Http_Stages Teacher_Tracing Teacher_Testing
begin

text \<open>
  A verification of libsimple, a C library of threads, buffers, sockets and HTTP messages
  (\<open>src/src\<close>, \<open>src/include/simple\<close>), of the small web server built on it (\<open>src/httpsrv\<close>), and of
  the C++ program under \<open>src/tmp\<close> that tracks a teacher and the students of a classroom with two
  cameras.

  \<^bold>\<open>How the code is modelled.\<close> A C function is a function from its arguments and the state it touches
  to a \<open>result\<close>: \<open>Inr\<close> the value and the new state, or \<open>Inl\<close> a fault (a read or write out of bounds,
  a null pointer, a division by zero, signed overflow, uninitialised memory, a failed assertion, an
  operation that would block or never go on). A fault stands for undefined behaviour or for a step
  that is not possible now; no definition assumes that none occurs.
  Fields, constructors and branches have the names and the order of the source. An \<open>int\<close> is an
  integer with its bounds checked where it is computed, a byte is a \<open>char\<close>, memory is a list with
  bounds. A \<open>double\<close> is a real number, so rounding is not modelled. A loop that may never end is a
  \<open>partial_function\<close> whose value is then \<open>None\<close>; no operation uses fuel. Threads are
  step relations in which one step is one access to the shared state or one critical section, with
  every interleaving reachable; a thread that would block has no step.

  \<^bold>\<open>The library.\<close>
  \<^item> \<open>Simple_Prelude\<close>: faults, results, memory access, C arithmetic; \<open>C_String\<close>: \<open>strcpy\<close>, \<open>strtok\<close>,
    \<open>atoi\<close> and the like; \<open>Os_World\<close>: the operating system as a world that answers each call, any way
    it likes within its documentation; \<open>Memory\<close>: blocks of the heap, with freeing one twice and using a
    freed one as faults. The locale \<open>allocator\<close> is the accounting the proofs about memory rest on.
  \<^item> \<open>Sync\<close>: \<open>mutex.c\<close> and \<open>semaphore.c\<close>, which every threaded component uses, and what
    destroying them in use does.
  \<^item> \<open>Fifo\<close> and \<open>Circ_Buf\<close>: the contract of a bounded byte queue (locale \<open>bounded_fifo\<close>), and
    \<open>circ_buf.c\<close>, interpreted as one: what is read is what was written, in order, nothing lost. \<open>Circ_Threads\<close>
    runs any number of readers and writers at once, step by step, and shows that they do what whole
    calls do one after the other.
  \<^item> \<open>Intrusive_List\<close>: \<open>list.h\<close> on a store of pointers; the locale \<open>node_list\<close> is what its users rely on.
  \<^item> \<open>Http_Message\<close>, \<open>Http_Encode\<close>: \<open>httpc.c\<close>, with the header table as a contract (\<open>header_table\<close>)
    and the ring of nodes as its refinement; what encoding writes and the room it needs.
  \<^item> \<open>Http_Parser\<close>, \<open>Http_Parser_Inv\<close>, \<open>Http_Parser_Props\<close>, \<open>Http_Roundtrip\<close>: the byte-driven parser of
    \<open>httpparser.c\<close>, the invariant each byte keeps, its independence of how the input is cut into
    pieces, its termination, and that it reads back what the encoder writes. \<open>Http_Stages\<close>
    orders the states (\<open>HttpParserState\<close> as a \<open>linorder\<close>) and states what the parser can no longer change
    once it has begun a header line, the body, or completed the message.
  \<^item> \<open>Http_Memory\<close>: which blocks of memory the operations on messages allocate and free; a message gives
    back all of them.
  \<^item> \<open>Url_Parser\<close>: \<open>urlparser.c\<close>, with \<open>regexec\<close> on the two compiled expressions as a parameter.
  \<^item> \<open>Fd\<close>, \<open>Tcp_Client\<close>: \<open>fd.c\<close> and \<open>tcpclient.c\<close>; the locale \<open>partial_sender\<close> states what a call that
    may send less than asked delivers, for the system's \<open>send\<close> and for the client's retry loop.
  \<^item> \<open>Thread_Pool\<close>, \<open>Thread_Rpc\<close>: \<open>threadpool.c\<close> and \<open>thread.c\<close> as systems of threads: order and
    exactly-once execution of tasks, mutual exclusion, no lost wake-up, termination of the
    destroying call as long as the handlers return (a call of a handler is one step); each caller gets the answer to its own request, a thread is joined behind its end.
    \<open>Pool_Memory\<close> runs the steps of the pool together with the blocks they allocate, use and free.

  \<^bold>\<open>The web server.\<close> \<open>Http_Server\<close> is one connection of \<open>client.c\<close> and \<open>httprequest.c\<close>, from the first byte
  to the close: it composes the parser, the URL parser, the encoder and the sending loop.
  \<open>Http_Files\<close> is its main path, a request for a file that is there, and what becomes of it when the file cannot
  be read. \<open>Connection_Memory\<close> is the same connection with every block it allocates (request, response, URL,
  stream, buffer, task, list node, client), proved to do what \<open>Http_Server\<close> does and to give back all but
  the client.
  \<open>Http_Main\<close> is \<open>server.c\<close>: the accepting thread on top of the thread pool.

  \<^bold>\<open>The tracking program.\<close> Its parts, from the inside out:
  \<^item> \<open>Trace_Config\<close>: what is read from and written to the configuration, \<open>TracePolicy\<close>, polygons as text;
    \<open>Camera_Params\<close>: the parameters of the cameras.
  \<^item> \<open>Ptz_Worker\<close>: \<open>ptz_oper\<close> and \<open>Ptz\<close>, the thread that works off a camera's tasks in order;
    \<open>Student_Impl\<close>: its twin of \<open>StudentRunningImpl\<close>.
  \<^item> \<open>Teacher_Debounce\<close>, \<open>Teacher_Ptz\<close>: the filters of \<open>TeacherPtz.h\<close>, compared with the state machines
    they are meant to be, and \<open>TeacherPtz\<close>, which divides the room into areas and turns the camera;
    \<open>Teacher_Tracing\<close>: its second way of tracing, \<open>set_detected_data2\<close>, which nothing calls.
  \<^item> \<open>Teacher_Analyze\<close>, \<open>Teacher_Impl\<close>: the window of recent positions and the thread that switches
    between the full and the close view; \<open>Teacher_Testing\<close>: the state it has instead under \<open>TEST\<close>.
  \<^item> \<open>Running_Base\<close>: the base class \<open>Running\<close> with its masks, its pictures and the windows; the locale
    \<open>tracking_side\<close> is the contract between it and a derived class: the constructor makes a consistent
    object, every event keeps it so.
  \<^item> \<open>Teacher_Running\<close>, \<open>Student_Running\<close>: the two sides, with their modes, keys, clicks and pictures, both
    interpretations of the contract; \<open>Student_Detecting\<close>: the detector of students standing up.
  \<^item> \<open>Tdt\<close>: \<open>tdt.cpp\<close>, which owns both sides and the window thread, and closes them: the window
    thread still finishes its turn before it is joined.

  \<^bold>\<open>What the theorems show.\<close> The numbered texts (C1, C2, ...) stand before the theorems that state the
  main properties. They fall into groups: what the concurrent components guarantee in every
  interleaving (the pool and its memory, the ring buffer, the request channel, the camera thread, the
  accepting thread, closing);
  that data survives its way (queue, encoder and parser, query strings, polygons in the
  configuration, partial sends); that optimised or copied code is its simple description
  (incremental parsing, debouncing, net movement, the student's copy of the teacher's editor, the
  teacher's side within the whole object); the modes of the tracking program; bounds; and the
  behaviour on errors, including the places where the code does not do what it is meant to do:
  those theorems say precisely when it goes wrong. A theorem with hypotheses is followed by a
  \<open>_witness\<close>, the theorem applied to a concrete state.

  \<^bold>\<open>Bounds.\<close> The numbers of the code are kept: 1023 bytes of a 404 text, 1024 of a file name, 4096 of a
  polygon's text, \<open>FD_SETSIZE\<close>, the largest semaphore value, the range of \<open>int\<close>. Lists stand for
  memory of any size, so running out of memory is not modelled.

  \<^bold>\<open>Not modelled.\<close>
  \<^item> \<open>src/src/regex.c\<close> and \<open>regex.h\<close>: the GNU regular expression library, a copy of a third party's
    code; \<open>regexec\<close> is a parameter with its documented behaviour as a hypothesis.
  \<^item> What is not under \<open>src/\<close>: \<open>KVConfig\<close> (the parameter \<open>kvconfig\<close> with its laws, among them that a saved
    configuration is what opening its file again gives), the camera library
    (a log of commands and inputs for its answers), \<open>Coordinate_Conversion\<close> and \<open>ZoomValueConvert\<close> (the
    parameter \<open>geometry\<close>), OpenCV and libswscale (pictures are terms of what was done to them;
    contours and movement fields are inputs; in the student's detector its refusal of pictures of two
    sizes or of a region outside a picture is a fault, elsewhere its calls are taken to succeed).
  \<^item> The functions that only print, sleep or ask for the number of a thread, the \<open>WIN32\<close> branches, the
    headers \<open>log.h\<close>, \<open>version.h\<close>, \<open>define.h\<close> and \<open>async_io.h\<close>, which hold no logic, and the test drivers.
  \<^item> \<open>TeacherPtz::handle_valid_data\<close> uses a variable \<open>fva\<close> that is declared nowhere: a parameter.
\<close>

end
